(* ===== verification/Prelude.thy ===== *)
theory Prelude
  imports Main "HOL-Library.Monad_Syntax" "HOL-Library.AList" "HOL-Library.Sublist"
    "HOL-Library.Multiset"
begin

text \<open>
  What every component of the model shares: how a Go call that does not return is written,
  slices and indexing with Go's bounds, and Go maps.

  \<^item> A Go function that can panic (an index or slice out of range, a failed type assertion)
    or loop forever returns \<open>'a option\<close>, and \<open>None\<close> says that the call does not return
    normally. Definitions are written in the option monad.
  \<^item> A Go function that returns \<open>(value, error)\<close> returns \<open>error + value\<close>.
  \<^item> A Go \<open>int\<close> is an \<open>int\<close>; a slice is a list.
  \<^item> A Go map is an association list with distinct keys, in the order in which one \<open>range\<close>
    over it visits the entries. Go leaves that order open, so a property of a loop over a map
    is stated for every order.
\<close>

named_theorems go_defs "definitions of the model of Go's slices, maps and strings"
named_theorems go_intros "how a call of the model returns normally"

section \<open>Slices and indexing\<close>

definition slice :: "'a list \<Rightarrow> int \<Rightarrow> int \<Rightarrow> 'a list option" where
  "slice xs a b =
     (if 0 \<le> a \<and> a \<le> b \<and> b \<le> int (length xs)
      then Some (take (nat (b - a)) (drop (nat a) xs)) else None)"

definition slice_from :: "'a list \<Rightarrow> int \<Rightarrow> 'a list option" where
  "slice_from xs a = slice xs a (int (length xs))"

definition at :: "'a list \<Rightarrow> int \<Rightarrow> 'a option" where
  "at xs i = (if 0 \<le> i \<and> i < int (length xs) then Some (xs ! nat i) else None)"

lemma slice_Some_iff:
  "slice xs a b = Some ys \<longleftrightarrow>
     0 \<le> a \<and> a \<le> b \<and> b \<le> int (length xs) \<and> ys = take (nat (b - a)) (drop (nat a) xs)"
  by (auto simp: slice_def)

lemma slice_None_iff: "slice xs a b = None \<longleftrightarrow> a < 0 \<or> b < a \<or> int (length xs) < b"
  by (auto simp: slice_def)

lemma slice_length: "slice xs a b = Some ys \<Longrightarrow> int (length ys) = b - a"
  by (auto simp: slice_Some_iff)

lemma slice_from_Some_iff:
  "slice_from xs a = Some ys \<longleftrightarrow> 0 \<le> a \<and> a \<le> int (length xs) \<and> ys = drop (nat a) xs"
  by (auto simp: slice_from_def slice_Some_iff)

lemma slice_from_length: "slice_from xs a = Some ys \<Longrightarrow> int (length ys) = int (length xs) - a"
  by (auto simp: slice_from_Some_iff)

lemma slice_sublist: "slice xs a b = Some ys \<Longrightarrow> sublist ys xs"
  by (auto simp: slice_Some_iff intro: sublist_order.dual_order.trans [OF sublist_drop sublist_take])

lemma slice_all [simp]: "slice xs 0 (int (length xs)) = Some xs"
  by (simp add: slice_def)

lemma at_Some_iff: "at xs i = Some x \<longleftrightarrow> 0 \<le> i \<and> i < int (length xs) \<and> x = xs ! nat i"
  by (auto simp: at_def)

lemma at_None_iff: "at xs i = None \<longleftrightarrow> i < 0 \<or> int (length xs) \<le> i"
  by (auto simp: at_def)

lemma at_set: "at xs i = Some x \<Longrightarrow> x \<in> set xs"
  by (auto simp: at_Some_iff)

lemma at_nat [simp]: "n < length xs \<Longrightarrow> at xs (int n) = Some (xs ! n)"
  by (simp add: at_def)

lemmas slice_iffs = slice_Some_iff slice_None_iff slice_from_Some_iff at_Some_iff at_None_iff

section \<open>Integer division\<close>

text \<open>Go's \<open>/\<close> rounds towards zero.\<close>

definition go_div :: "int \<Rightarrow> int \<Rightarrow> int" where
  "go_div a b = sgn a * sgn b * (\<bar>a\<bar> div \<bar>b\<bar>)"

lemma go_div_nonneg: "0 \<le> a \<Longrightarrow> 0 < b \<Longrightarrow> go_div a b = a div b"
  by (cases "a = 0") (simp_all add: go_div_def)

section \<open>Folds\<close>

lemma foldl_invariant:
  assumes "P a" and "\<And>a x. P a \<Longrightarrow> x \<in> set xs \<Longrightarrow> P (f a x)"
  shows "P (foldl f a xs)"
  using assms by (induction xs arbitrary: a) auto

section \<open>Go maps\<close>

type_synonym ('k, 'v) gomap = "('k \<times> 'v) list"

abbreviation gomap_ok :: "('k, 'v) gomap \<Rightarrow> bool" where
  "gomap_ok m \<equiv> distinct (map fst m)"

abbreviation gomap_put :: "'k \<Rightarrow> 'v \<Rightarrow> ('k, 'v) gomap \<Rightarrow> ('k, 'v) gomap" where
  "gomap_put \<equiv> AList.update"

lemma gomap_put_get [simp]: "map_of (gomap_put k v m) = (map_of m)(k \<mapsto> v)"
  by (simp add: update_conv')

lemma gomap_put_ok [intro]: "gomap_ok m \<Longrightarrow> gomap_ok (gomap_put k v m)"
  by (rule distinct_update)

lemma gomap_mem_iff: "gomap_ok m \<Longrightarrow> (k, v) \<in> set m \<longleftrightarrow> map_of m k = Some v"
  by (simp add: eq_commute [of _ "Some v"])

lemma gomap_put_keys: "fst ` set (gomap_put k v m) = insert k (fst ` set m)"
  by (simp flip: dom_map_of_conv_image_fst)

lemma gomap_put_mem: "gomap_ok m \<Longrightarrow> set (gomap_put k v m) \<subseteq> insert (k, v) (set m)"
  by (induction m) auto

lemma gomap_put_length:
  "length (gomap_put k v m) = (if k \<in> fst ` set m then length m else Suc (length m))"
  by (induction m) auto

text \<open>Two iteration orders of one map have the same entries, so the same lookups.\<close>

lemma gomap_order_get:
  assumes "gomap_ok m" and "set m = set m'" and "gomap_ok m'"
  shows "map_of m = map_of m'"
proof
  fix k
  show "map_of m k = map_of m' k"
    by (metis assms gomap_mem_iff not_None_eq)
qed

text \<open>
  \<open>range\<close> over a map: a definition that depends on the order takes it as an argument \<open>r\<close>, and
  the one thing Go promises of it is \<open>range_order r\<close>.
\<close>

definition range_order :: "(('k, 'v) gomap \<Rightarrow> ('k, 'v) gomap) \<Rightarrow> bool" where
  "range_order r \<longleftrightarrow> (\<forall>m. mset (r m) = mset m)"

lemma range_order_set: "range_order r \<Longrightarrow> set (r m) = set m"
  by (metis range_order_def set_mset_mset)

lemma range_order_length: "range_order r \<Longrightarrow> length (r m) = length m"
  by (metis range_order_def size_mset)

lemma range_order_ok: "range_order r \<Longrightarrow> gomap_ok (r m) \<longleftrightarrow> gomap_ok m"
  by (metis range_order_def mset_eq_imp_distinct_iff mset_map)

lemma range_order_get: "range_order r \<Longrightarrow> gomap_ok m \<Longrightarrow> map_of (r m) = map_of m"
  by (meson gomap_order_get range_order_ok range_order_set)

lemma range_order_id [intro]: "range_order (\<lambda>m. m)" "range_order id" "range_order rev"
  by (simp_all add: range_order_def)

text \<open>A loop that stores each element under its key: the last element with a key stays.\<close>

lemma gomap_puts_get:
  "map_of (foldl (\<lambda>d x. gomap_put (key x) x d) m xs) =
     map_of m ++ map_of (rev (map (\<lambda>x. (key x, x)) xs))"
proof (induction xs arbitrary: m)
  case (Cons x xs)
  have "map_of (foldl (\<lambda>d x. gomap_put (key x) x d) m (x # xs)) =
      (map_of m)(key x \<mapsto> x) ++ map_of (rev (map (\<lambda>x. (key x, x)) xs))"
    by (simp only: foldl.simps Cons.IH gomap_put_get)
  also have "\<dots> = map_of m ++ ([key x \<mapsto> x] ++ map_of (rev (map (\<lambda>x. (key x, x)) xs)))"
    by (simp only: map_add_assoc map_add_upd map_add_empty)
  also have "[key x \<mapsto> x] ++ map_of (rev (map (\<lambda>x. (key x, x)) xs)) =
      map_of (rev (map (\<lambda>x. (key x, x)) (x # xs)))"
    by (simp add: map_of_append)
  finally show ?case .
qed simp

lemma gomap_puts_ok: "gomap_ok m \<Longrightarrow> gomap_ok (foldl (\<lambda>d x. gomap_put (key x) x d) m xs)"
  by (rule foldl_invariant) (auto intro: gomap_put_ok)

lemma last_with_key:
  "map_of (rev (map (\<lambda>x. (key x, x)) xs)) k = Some y \<longleftrightarrow>
     (\<exists>pre post. xs = pre @ y # post \<and> key y = k \<and> k \<notin> key ` set post)"
proof (induction xs rule: rev_induct)
  case (snoc x xs)
  show ?case
  proof (cases "key x = k")
    case True
    then show ?thesis
      by (auto simp: snoc_eq_iff_butlast append_eq_Cons_conv)
  next
    case False
    then have "map_of (rev (map (\<lambda>x. (key x, x)) (xs @ [x]))) k =
        map_of (rev (map (\<lambda>x. (key x, x)) xs)) k" by simp
    also have "(\<dots> = Some y) \<longleftrightarrow> (\<exists>pre post. xs = pre @ y # post \<and> key y = k \<and> k \<notin> key ` set post)"
      by (rule snoc.IH)
    also have "\<dots> \<longleftrightarrow> (\<exists>pre post. xs @ [x] = pre @ y # post \<and> key y = k \<and> k \<notin> key ` set post)"
    proof
      assume "\<exists>pre post. xs = pre @ y # post \<and> key y = k \<and> k \<notin> key ` set post"
      then obtain pre post where "xs @ [x] = pre @ y # (post @ [x])" "key y = k" "k \<notin> key ` set (post @ [x])"
        using False by auto
      then show "\<exists>pre post. xs @ [x] = pre @ y # post \<and> key y = k \<and> k \<notin> key ` set post" by blast
    next
      assume "\<exists>pre post. xs @ [x] = pre @ y # post \<and> key y = k \<and> k \<notin> key ` set post"
      then obtain pre post where *: "xs @ [x] = pre @ y # post" "key y = k" "k \<notin> key ` set post" by blast
      then have "post \<noteq> []" using False by auto
      then have "xs = pre @ y # butlast post" using *(1) by (metis butlast.simps(2) butlast_append butlast_snoc list.discI)
      moreover have "k \<notin> key ` set (butlast post)" using *(3) by (meson image_mono in_mono in_set_butlastD subsetI)
      ultimately show "\<exists>pre post. xs = pre @ y # post \<and> key y = k \<and> k \<notin> key ` set post" using *(2) by blast
    qed
    finally show ?thesis .
  qed
qed simp

section \<open>Sorting\<close>

text \<open>What \<open>sort.Slice\<close> promises: equal elements may come in any order\<close>

definition sorts_by :: "('a \<Rightarrow> 'a \<Rightarrow> bool) \<Rightarrow> ('a list \<Rightarrow> 'a list) \<Rightarrow> bool" where
  "sorts_by before srt \<longleftrightarrow> (\<forall>xs. mset (srt xs) = mset xs \<and> sorted_wrt (\<lambda>x y. \<not> before y x) (srt xs))"

section \<open>Results with an error\<close>

definition bind_err :: "'e + 'a \<Rightarrow> ('a \<Rightarrow> 'e + 'b) \<Rightarrow> 'e + 'b" where
  "bind_err r f = (case r of Inl e \<Rightarrow> Inl e | Inr x \<Rightarrow> f x)"

lemma bind_err_simps [simp]: "bind_err (Inl e) f = Inl e" "bind_err (Inr x) f = f x"
  by (simp_all add: bind_err_def)

lemma bind_err_Inr_iff: "bind_err r f = Inr y \<longleftrightarrow> (\<exists>x. r = Inr x \<and> f x = Inr y)"
  by (cases r) auto

section \<open>Lists of results\<close>

lemma those_map_mem:
  "those (map f xs) = Some ys \<Longrightarrow> y \<in> set ys \<Longrightarrow> \<exists>x \<in> set xs. f x = Some y"
  by (induction xs arbitrary: ys) (auto split: option.splits)

lemma those_map_concat:
  "those (map f xs) = Some ws \<Longrightarrow> y \<in> set (concat ws) \<Longrightarrow> \<exists>x \<in> set xs. \<exists>w. f x = Some w \<and> y \<in> set w"
  using those_map_mem by fastforce

end
