(* ===== verification/GoStrings.thy ===== *)
theory GoStrings
  imports Prelude
begin

text \<open>
  The functions of Go's packages \<open>strings\<close> and \<open>strconv\<close> that the modelled code calls. A Go
  string is a sequence of bytes, as a \<open>string\<close> of HOL is. \<open>TrimSpace\<close> knows every Unicode
  space, by its UTF-8 bytes; case conversion and case folding are written out for ASCII, and
  leave other bytes as they are.
\<close>

section \<open>Searching\<close>

fun index_nat :: "'a list \<Rightarrow> 'a list \<Rightarrow> nat option" where
  "index_nat [] sub = (if sub = [] then Some 0 else None)"
| "index_nat (c # s) sub =
     (if prefix sub (c # s) then Some 0 else map_option Suc (index_nat s sub))"

text \<open>\<open>strings.Index\<close>, \<open>strings.Contains\<close>, \<open>strings.LastIndex\<close>\<close>

definition index_of :: "'a list \<Rightarrow> 'a list \<Rightarrow> int" where
  "index_of s sub = (case index_nat s sub of None \<Rightarrow> -1 | Some n \<Rightarrow> int n)"

definition contains :: "'a list \<Rightarrow> 'a list \<Rightarrow> bool" where
  "contains s sub \<longleftrightarrow> index_nat s sub \<noteq> None"

definition last_index_of :: "'a list \<Rightarrow> 'a list \<Rightarrow> int" where
  "last_index_of s sub =
     (case index_nat (rev s) (rev sub) of None \<Rightarrow> -1
      | Some n \<Rightarrow> int (length s) - int (length sub) - int n)"

definition has_prefix :: "'a list \<Rightarrow> 'a list \<Rightarrow> bool" where
  "has_prefix s p = prefix p s"

definition has_suffix :: "'a list \<Rightarrow> 'a list \<Rightarrow> bool" where
  "has_suffix s p = prefix (rev p) (rev s)"

lemma index_nat_Some:
  "index_nat s sub = Some n \<Longrightarrow> n + length sub \<le> length s \<and> take (length sub) (drop n s) = sub"
proof (induction s arbitrary: n)
  case (Cons c s)
  show ?case
  proof (cases "prefix sub (c # s)")
    case True
    then have "length sub \<le> length (c # s)" and "n = 0" and "take (length sub) (c # s) = sub"
      using Cons.prems by (auto simp: prefix_length_le take_is_prefix dest: prefix_length_le)
        (metis append_eq_conv_conj prefix_def)
    then show ?thesis by simp
  next
    case False
    then show ?thesis using Cons by (auto)
  qed
qed (auto split: if_splits)

lemma index_nat_least:
  "index_nat s sub = Some n \<Longrightarrow> m < n \<Longrightarrow> take (length sub) (drop m s) \<noteq> sub"
proof (induction s arbitrary: n m)
  case (Cons c s)
  show ?case
  proof (cases "prefix sub (c # s)")
    case True
    then show ?thesis using Cons.prems by auto
  next
    case False
    then obtain k where k: "index_nat s sub = Some k" "n = Suc k" using Cons.prems by auto
    show ?thesis
    proof (cases m)
      case 0
      then show ?thesis using False by (metis drop0 take_is_prefix)
    next
      case (Suc j)
      then show ?thesis using Cons.IH [OF k(1)] Cons.prems(2) k(2) by simp
    qed
  qed
qed (auto split: if_splits)

lemma index_nat_first: "c \<notin> set a \<Longrightarrow> index_nat (a @ c # sub @ x) (c # sub) = Some (length a)"
  by (induction a) auto

lemma index_nat_absent: "c \<notin> set s \<Longrightarrow> index_nat s (c # sub) = None"
  by (induction s) auto

lemma index_nat_exists: "index_nat s sub \<noteq> None \<longleftrightarrow> sublist sub s"
proof (induction s)
  case Nil
  show ?case by auto
next
  case (Cons c s)
  then have "index_nat (c # s) sub \<noteq> None \<longleftrightarrow> prefix sub (c # s) \<or> sublist sub s"
    by (cases "index_nat s sub") auto
  then show ?case by (simp only: sublist_Cons_right)
qed

lemma contains_iff: "contains s sub \<longleftrightarrow> sublist sub s"
  by (simp only: contains_def index_nat_exists)

lemma index_of_neg: "index_of s sub < 0 \<longleftrightarrow> \<not> contains s sub"
  by (auto simp: index_of_def contains_def split: option.splits)

lemma index_of_minus_one: "index_of s sub = - 1 \<longleftrightarrow> \<not> contains s sub"
  by (auto simp: index_of_def contains_def split: option.splits)

lemma index_of_ge: "- 1 \<le> index_of s sub"
  by (auto simp: index_of_def split: option.splits)

lemma index_of_bound: "contains s sub \<Longrightarrow> 0 \<le> index_of s sub \<and> index_of s sub + int (length sub) \<le> int (length s)"
  using index_nat_Some [of s sub] by (auto simp: index_of_def contains_def)

lemma index_of_le: "index_of s sub + int (length sub) \<le> int (length s) \<or> index_of s sub = - 1"
  using index_of_bound index_of_minus_one by blast

lemma contains_append_mid [simp]: "contains (a @ sub @ b) sub"
  by (auto simp: contains_iff)

lemma contains_Nil [simp]: "contains s []"
  by (simp add: contains_iff)

lemma contains_self [simp]: "contains s s"
  by (simp add: contains_iff)

lemma has_suffix_iff: "has_suffix s p \<longleftrightarrow> suffix p s"
  by (simp add: has_suffix_def suffix_to_prefix)

lemma has_prefix_append [simp]: "has_prefix (p @ s) p"
  by (simp add: has_prefix_def)

lemma has_prefix_contains: "has_prefix s p \<Longrightarrow> contains s p"
  by (simp add: has_prefix_def contains_iff prefix_imp_sublist)

lemma has_prefix_code [simp]:
  "has_prefix s []"
  "has_prefix [] (c # p) \<longleftrightarrow> False"
  "has_prefix (d # s) (c # p) \<longleftrightarrow> d = c \<and> has_prefix s p"
  by (auto simp: has_prefix_def)

section \<open>Trimming\<close>

text \<open>\<open>strings.TrimPrefix\<close>, \<open>strings.TrimSuffix\<close>, and \<open>strings.Trim\<close> with an ASCII cutset\<close>

definition trim_prefix :: "'a list \<Rightarrow> 'a list \<Rightarrow> 'a list" where
  "trim_prefix s p = (if has_prefix s p then drop (length p) s else s)"

definition trim_suffix :: "'a list \<Rightarrow> 'a list \<Rightarrow> 'a list" where
  "trim_suffix s p = (if has_suffix s p then take (length s - length p) s else s)"

definition trim_left_set :: "'a list \<Rightarrow> 'a list \<Rightarrow> 'a list" where
  "trim_left_set s cutset = dropWhile (\<lambda>c. c \<in> set cutset) s"

definition trim_right_set :: "'a list \<Rightarrow> 'a list \<Rightarrow> 'a list" where
  "trim_right_set s cutset = rev (dropWhile (\<lambda>c. c \<in> set cutset) (rev s))"

definition trim_set :: "'a list \<Rightarrow> 'a list \<Rightarrow> 'a list" where
  "trim_set s cutset = trim_right_set (trim_left_set s cutset) cutset"

text \<open>
  \<open>strings.TrimSpace\<close>: \<open>space_bytes\<close> holds the UTF-8 encodings of the code points that
  \<open>unicode.IsSpace\<close> accepts.
\<close>

definition space_bytes :: "string list" where
  "space_bytes =
     [[CHR 0x09], [CHR 0x0A], [CHR 0x0B], [CHR 0x0C], [CHR 0x0D], [CHR 0x20],
      [CHR 0xC2, CHR 0x85], [CHR 0xC2, CHR 0xA0], [CHR 0xE1, CHR 0x9A, CHR 0x80],
      [CHR 0xE2, CHR 0x80, CHR 0x80], [CHR 0xE2, CHR 0x80, CHR 0x81],
      [CHR 0xE2, CHR 0x80, CHR 0x82], [CHR 0xE2, CHR 0x80, CHR 0x83],
      [CHR 0xE2, CHR 0x80, CHR 0x84], [CHR 0xE2, CHR 0x80, CHR 0x85],
      [CHR 0xE2, CHR 0x80, CHR 0x86], [CHR 0xE2, CHR 0x80, CHR 0x87],
      [CHR 0xE2, CHR 0x80, CHR 0x88], [CHR 0xE2, CHR 0x80, CHR 0x89],
      [CHR 0xE2, CHR 0x80, CHR 0x8A], [CHR 0xE2, CHR 0x80, CHR 0xA8],
      [CHR 0xE2, CHR 0x80, CHR 0xA9], [CHR 0xE2, CHR 0x80, CHR 0xAF],
      [CHR 0xE2, CHR 0x81, CHR 0x9F], [CHR 0xE3, CHR 0x80, CHR 0x80]]"

function strip_words :: "'a list list \<Rightarrow> 'a list \<Rightarrow> 'a list" where
  "strip_words ws s =
     (case find (\<lambda>w. w \<noteq> [] \<and> prefix w s) ws of
        None \<Rightarrow> s
      | Some w \<Rightarrow> strip_words ws (drop (length w) s))"
  by pat_completeness auto
termination
proof (relation "measure (\<lambda>(ws, s). length s)")
  fix ws s and w :: "'a list"
  assume "find (\<lambda>w. w \<noteq> [] \<and> prefix w s) ws = Some w"
  then have "w \<noteq> []" and "prefix w s" by (auto simp: find_Some_iff)
  then show "((ws, drop (length w) s), (ws, s)) \<in> measure (\<lambda>(ws, s). length s)"
    by (cases s) auto
qed auto

declare strip_words.simps [simp del]

definition trim_space :: "string \<Rightarrow> string" where
  "trim_space s =
     rev (strip_words (map rev space_bytes) (rev (strip_words space_bytes s)))"

lemma strip_words_suffix: "suffix (strip_words ws s) s"
proof (induction ws s rule: strip_words.induct)
  case (1 ws s)
  show ?case
  proof (cases "find (\<lambda>w. w \<noteq> [] \<and> prefix w s) ws")
    case None
    then show ?thesis by (subst strip_words.simps) simp
  next
    case (Some w)
    with "1.IH" have "suffix (strip_words ws (drop (length w) s)) (drop (length w) s)" by blast
    then have "suffix (strip_words ws (drop (length w) s)) s"
      using suffix_drop suffix_order.trans by blast
    with Some show ?thesis by (subst strip_words.simps) simp
  qed
qed

lemma strip_words_done: "w \<in> set ws \<Longrightarrow> w \<noteq> [] \<Longrightarrow> \<not> prefix w (strip_words ws s)"
proof (induction ws s rule: strip_words.induct)
  case (1 ws s)
  show ?case
  proof (cases "find (\<lambda>w. w \<noteq> [] \<and> prefix w s) ws")
    case None
    then have "strip_words ws s = s" by (subst strip_words.simps) simp
    with None show ?thesis using "1.prems" by (auto simp: find_None_iff)
  next
    case (Some v)
    then show ?thesis using "1.IH" "1.prems" by (subst strip_words.simps) simp
  qed
qed

lemma trim_space_sublist: "sublist (trim_space s) s"
proof -
  let ?u = "strip_words space_bytes s"
  have "suffix (strip_words (map rev space_bytes) (rev ?u)) (rev ?u)" by (rule strip_words_suffix)
  then have "prefix (trim_space s) ?u"
    by (simp add: trim_space_def suffix_to_prefix)
  moreover have "suffix ?u s" by (rule strip_words_suffix)
  ultimately show ?thesis
    using prefix_imp_sublist suffix_imp_sublist sublist_order.dual_order.trans by blast
qed

lemma trim_space_length: "length (trim_space s) \<le> length s"
  using trim_space_sublist sublist_length_le by blast

section \<open>Replacing, splitting and joining\<close>

text \<open>
  \<open>strings.Replace s old new n\<close>; a negative \<open>n\<close> replaces every occurrence
  (\<open>strings.ReplaceAll\<close>). Go inserts \<open>new\<close> between the characters when \<open>old\<close> is empty and
  different from \<open>new\<close>; no modelled call does that.
\<close>

function go_replace :: "'a list \<Rightarrow> 'a list \<Rightarrow> 'a list \<Rightarrow> int \<Rightarrow> 'a list" where
  "go_replace s old new n =
     (if n = 0 \<or> old = [] then s
      else case s of
        [] \<Rightarrow> []
      | c # cs \<Rightarrow>
          (if prefix old s then new @ go_replace (drop (length old) s) old new (n - 1)
           else c # go_replace cs old new n))"
  by pat_completeness auto
termination
  by (relation "measure (\<lambda>(s, old, new, n). length s)") auto

declare go_replace.simps [simp del]

abbreviation replace_all :: "'a list \<Rightarrow> 'a list \<Rightarrow> 'a list \<Rightarrow> 'a list" where
  "replace_all s old new \<equiv> go_replace s old new (- 1)"

lemma go_replace_absent: "\<not> contains s old \<Longrightarrow> go_replace s old new n = s"
proof (induction s old new n rule: go_replace.induct)
  case (1 s old new n)
  show ?case
  proof (cases s)
    case Nil
    then show ?thesis by (subst go_replace.simps) simp
  next
    case (Cons c cs)
    have a: "\<not> prefix old s" using "1.prems" by (auto simp: contains_iff prefix_imp_sublist)
    have "\<not> contains cs old" using "1.prems" Cons by (auto simp: contains_iff sublist_Cons_right)
    then show ?thesis using "1.IH"(2) Cons a by (subst go_replace.simps) auto
  qed
qed

lemma go_replace_empty_old [simp]: "go_replace s [] new n = s"
  by (subst go_replace.simps) simp

lemma go_replace_zero [simp]: "go_replace s old new 0 = s"
  by (subst go_replace.simps) simp

text \<open>\<open>strings.Split\<close> and \<open>strings.SplitN\<close>, for a separator that is not empty\<close>

function split_on :: "'a list \<Rightarrow> 'a list \<Rightarrow> 'a list list" where
  "split_on s sep =
     (if sep = [] then [s]
      else case index_nat s sep of
        None \<Rightarrow> [s]
      | Some i \<Rightarrow> take i s # split_on (drop (i + length sep) s) sep)"
  by pat_completeness auto
termination
proof (relation "measure (\<lambda>(s, sep). length s)")
  fix s sep :: "'a list" and i
  assume "sep \<noteq> []" and "index_nat s sep = Some i"
  then show "((drop (i + length sep) s, sep), (s, sep)) \<in> measure (\<lambda>(s, sep). length s)"
    using index_nat_Some [of s sep i] by (cases s; cases sep) auto
qed auto

declare split_on.simps [simp del]

definition split_two :: "'a list \<Rightarrow> 'a list \<Rightarrow> 'a list list" where
  "split_two s sep =
     (case index_nat s sep of None \<Rightarrow> [s]
      | Some i \<Rightarrow> [take i s, drop (i + length sep) s])"

fun join :: "'a list list \<Rightarrow> 'a list \<Rightarrow> 'a list" where
  "join [] sep = []"
| "join [x] sep = x"
| "join (x # y # xs) sep = x @ sep @ join (y # xs) sep"

lemma join_Cons: "xs \<noteq> [] \<Longrightarrow> join (x # xs) sep = x @ sep @ join xs sep"
  by (cases xs) auto

lemma split_on_nonempty [simp]: "split_on s sep \<noteq> []"
  by (subst split_on.simps) (simp split: option.split)

lemma index_nat_decomp:
  "index_nat s sep = Some i \<Longrightarrow> take i s @ sep @ drop (i + length sep) s = s"
  using index_nat_Some [of s sep i] by (metis append_take_drop_id drop_drop add.commute)

lemma join_split_on: "join (split_on s sep) sep = s"
proof (induction s sep rule: split_on.induct)
  case (1 s sep)
  show ?case
  proof (cases "sep = [] \<or> index_nat s sep = None")
    case True
    then show ?thesis by (subst split_on.simps) auto
  next
    case False
    then obtain i where i: "index_nat s sep = Some i" and ne: "sep \<noteq> []" by auto
    from i ne have "split_on s sep = take i s # split_on (drop (i + length sep) s) sep"
      by (subst split_on.simps) simp
    then show ?thesis using "1.IH" [OF ne i] index_nat_decomp [OF i] by (simp add: join_Cons)
  qed
qed

lemma split_on_single_Cons:
  "split_on (c # cs) [d] =
     (if c = d then [] # split_on cs [d]
      else (c # hd (split_on cs [d])) # tl (split_on cs [d]))"
proof (cases "index_nat cs [d]")
  case None
  then show ?thesis
    by (subst split_on.simps, subst (2 3) split_on.simps) simp
next
  case (Some i)
  then show ?thesis
    by (subst split_on.simps, subst (2 3) split_on.simps) simp
qed

lemma split_on_absent: "\<not> contains s sep \<Longrightarrow> split_on s sep = [s]"
  by (subst split_on.simps) (auto simp: contains_def)

text \<open>For a separator of one byte a split is the inverse of a join of pieces without it.\<close>

lemma index_nat_single: "c \<notin> set a \<Longrightarrow> index_nat (a @ c # b) [c] = Some (length a)"
  by (induction a) auto

lemma index_nat_single_None: "index_nat a [c] = None \<longleftrightarrow> c \<notin> set a"
  by (induction a) auto

lemma split_on_join:
  "xs \<noteq> [] \<Longrightarrow> \<forall>x \<in> set xs. c \<notin> set x \<Longrightarrow> split_on (join xs [c]) [c] = xs"
proof (induction xs rule: induct_list012)
  case (2 x)
  then show ?case by (subst split_on.simps) (simp add: index_nat_single_None [symmetric])
next
  case (3 x y zs)
  have "index_nat (x @ c # join (y # zs) [c]) [c] = Some (length x)"
    using 3 by (intro index_nat_single) simp
  then have "split_on (join (x # y # zs) [c]) [c] = x # split_on (join (y # zs) [c]) [c]"
    by (subst split_on.simps) simp
  then show ?case using 3 by simp
qed simp

lemma split_on_pieces: "x \<in> set (split_on s [c]) \<Longrightarrow> c \<notin> set x"
proof (induction s "[c]" rule: split_on.induct)
  case (1 s)
  show ?case
  proof (cases "index_nat s [c]")
    case None
    then have "split_on s [c] = [s]" by (subst split_on.simps) simp
    then show ?thesis using "1.prems" None by (simp add: index_nat_single_None)
  next
    case (Some i)
    have "c \<notin> set (take i s)"
    proof
      assume "c \<in> set (take i s)"
      then obtain m where m: "m < i" "m < length s" "s ! m = c" by (auto simp: in_set_conv_nth)
      then have "take 1 (drop m s) = [c]" by (simp add: take_Suc hd_drop_conv_nth)
      then show False using index_nat_least [OF Some m(1)] by simp
    qed
    moreover have "split_on s [c] = take i s # split_on (drop (i + length [c]) s) [c]"
      using Some by (subst split_on.simps) simp
    ultimately show ?thesis using "1.hyps" [OF _ Some] "1.prems" by auto
  qed
qed

text \<open>\<open>strings.FieldsFunc\<close> and \<open>strings.Count\<close> of one byte\<close>

fun fields_func :: "('a \<Rightarrow> bool) \<Rightarrow> 'a list \<Rightarrow> 'a list \<Rightarrow> 'a list list" where
  "fields_func p [] cur = (if cur = [] then [] else [rev cur])"
| "fields_func p (c # s) cur =
     (if p c then (if cur = [] then fields_func p s [] else rev cur # fields_func p s [])
      else fields_func p s (c # cur))"

abbreviation fields :: "('a \<Rightarrow> bool) \<Rightarrow> 'a list \<Rightarrow> 'a list list" where
  "fields p s \<equiv> fields_func p s []"

lemma fields_func_pieces:
  "list_all (\<lambda>c. \<not> p c) cur \<Longrightarrow>
     list_all (\<lambda>x. x \<noteq> [] \<and> list_all (\<lambda>c. \<not> p c) x) (fields_func p s cur)"
  by (induction p s cur rule: fields_func.induct) simp_all

lemma fields_func_concat:
  "concat (fields_func p s cur) = rev cur @ filter (\<lambda>c. \<not> p c) s"
  by (induction p s cur rule: fields_func.induct) auto

section \<open>Case\<close>

definition upper_char :: "char \<Rightarrow> char" where
  "upper_char c = (let n = of_char c :: nat in if 97 \<le> n \<and> n \<le> 122 then char_of (n - 32) else c)"

definition lower_char :: "char \<Rightarrow> char" where
  "lower_char c = (let n = of_char c :: nat in if 65 \<le> n \<and> n \<le> 90 then char_of (n + 32) else c)"

definition to_upper :: "string \<Rightarrow> string" where
  "to_upper s = map upper_char s"

definition to_lower :: "string \<Rightarrow> string" where
  "to_lower s = map lower_char s"

text \<open>\<open>strings.EqualFold\<close>\<close>

definition equal_fold :: "string \<Rightarrow> string \<Rightarrow> bool" where
  "equal_fold s t \<longleftrightarrow> to_lower s = to_lower t"

lemma equal_fold_refl [simp]: "equal_fold s s"
  by (simp add: equal_fold_def)

lemma equal_fold_sym: "equal_fold s t \<longleftrightarrow> equal_fold t s"
  by (auto simp: equal_fold_def)

lemma equal_fold_trans: "equal_fold s t \<Longrightarrow> equal_fold t u \<Longrightarrow> equal_fold s u"
  by (simp add: equal_fold_def)

section \<open>Numbers\<close>

definition digit_char :: "nat \<Rightarrow> char" where
  "digit_char d = char_of (48 + d)"

fun show_nat :: "nat \<Rightarrow> string" where
  "show_nat n = (if n < 10 then [digit_char n] else show_nat (n div 10) @ [digit_char (n mod 10)])"

declare show_nat.simps [simp del]

text \<open>\<open>strconv.Itoa\<close>\<close>

definition itoa :: "int \<Rightarrow> string" where
  "itoa i = (if i < 0 then CHR ''-'' # show_nat (nat (- i)) else show_nat (nat i))"

definition digit_val :: "char \<Rightarrow> nat option" where
  "digit_val c = (let n = of_char c :: nat in if 48 \<le> n \<and> n \<le> 57 then Some (n - 48) else None)"

fun read_digits :: "nat \<Rightarrow> string \<Rightarrow> nat option" where
  "read_digits acc [] = Some acc"
| "read_digits acc (c # s) =
     (case digit_val c of None \<Rightarrow> None | Some d \<Rightarrow> read_digits (10 * acc + d) s)"

text \<open>\<open>strconv.Atoi\<close>: \<open>None\<close> is its error (no digits, another byte, or out of 64 bits).\<close>

definition int64_ok :: "int \<Rightarrow> bool" where
  "int64_ok i \<longleftrightarrow> - (2 ^ 63) \<le> i \<and> i < 2 ^ 63"

definition atoi_unsigned :: "bool \<Rightarrow> string \<Rightarrow> int option" where
  "atoi_unsigned neg s =
     (if s = [] then None
      else case read_digits 0 s of
        None \<Rightarrow> None
      | Some n \<Rightarrow> (let i = (if neg then - int n else int n) in if int64_ok i then Some i else None))"

definition atoi :: "string \<Rightarrow> int option" where
  "atoi s =
     (case s of
        [] \<Rightarrow> None
      | c # r \<Rightarrow>
          (if c = CHR ''-'' then atoi_unsigned True r
           else if c = CHR ''+'' then atoi_unsigned False r
           else atoi_unsigned False s))"

lemma digit_val_char [simp]: "d < 10 \<Longrightarrow> digit_val (digit_char d) = Some d"
  by (simp add: digit_val_def digit_char_def)

lemma digit_char_plain: "d < 10 \<Longrightarrow> digit_char d \<noteq> CHR ''-'' \<and> digit_char d \<noteq> CHR ''+''"
proof -
  assume "d < 10"
  then have "of_char (digit_char d) = (48 + d :: nat)"
    by (simp add: digit_char_def)
  then show ?thesis by auto
qed

lemma read_digits_append:
  "read_digits acc (s @ t) = (case read_digits acc s of None \<Rightarrow> None | Some n \<Rightarrow> read_digits n t)"
  by (induction acc s rule: read_digits.induct) (auto split: option.split)

lemma show_nat_nonempty [simp]: "show_nat n \<noteq> []"
  by (subst show_nat.simps) simp

lemma read_show_nat [simp]: "read_digits 0 (show_nat n) = Some n"
proof (induction n rule: show_nat.induct)
  case (1 n)
  show ?case
  proof (cases "n < 10")
    case True
    then show ?thesis by (subst show_nat.simps) simp
  next
    case False
    with 1 have "read_digits 0 (show_nat (n div 10)) = Some (n div 10)" by simp
    with False show ?thesis by (subst show_nat.simps) (simp add: read_digits_append)
  qed
qed

lemma show_nat_hd: "\<exists>d r. d < 10 \<and> show_nat n = digit_char d # r"
proof (induction n rule: show_nat.induct)
  case (1 n)
  show ?case
  proof (cases "n < 10")
    case True
    then show ?thesis by (subst show_nat.simps) auto
  next
    case False
    with 1 obtain d r where "d < 10" "show_nat (n div 10) = digit_char d # r" by auto
    with False show ?thesis by (subst show_nat.simps) auto
  qed
qed

lemma atoi_itoa: "int64_ok i \<Longrightarrow> atoi (itoa i) = Some i"
proof (cases "i < 0")
  case True
  assume "int64_ok i"
  with True show ?thesis by (simp add: itoa_def atoi_def atoi_unsigned_def)
next
  case False
  assume ok: "int64_ok i"
  obtain d r where d: "d < 10" "show_nat (nat i) = digit_char d # r" using show_nat_hd by blast
  then have "atoi (itoa i) = atoi_unsigned False (show_nat (nat i))"
    using False digit_char_plain [OF d(1)] by (simp add: itoa_def atoi_def)
  then show ?thesis using False ok by (simp add: atoi_unsigned_def)
qed

lemma show_nat_inj: "show_nat m = show_nat n \<Longrightarrow> m = n"
  by (metis option.inject read_show_nat)

lemma show_nat_digits: "c \<in> set (show_nat n) \<Longrightarrow> \<exists>d < 10. c = digit_char d"
proof (induction n rule: show_nat.induct)
  case (1 n)
  show ?case
  proof (cases "n < 10")
    case True
    with 1 show ?thesis by (subst (asm) show_nat.simps) auto
  next
    case False
    with "1.prems" have "c \<in> set (show_nat (n div 10)) \<or> c = digit_char (n mod 10)"
      by (subst (asm) show_nat.simps) auto
    moreover have "n mod 10 < 10" by simp
    ultimately show ?thesis using "1.IH" [OF False] by blast
  qed
qed

lemma digit_char_code: "d < 10 \<Longrightarrow> of_char (digit_char d) = (48 + d :: nat)"
  by (simp add: digit_char_def)

lemma itoa_bytes: "c \<in> set (itoa i) \<Longrightarrow> c = CHR ''-'' \<or> (\<exists>d < 10. c = digit_char d)"
  by (auto simp: itoa_def dest: show_nat_digits split: if_splits)

lemma itoa_no_colon: "CHR '':'' \<notin> set (itoa i)"
proof
  assume "CHR '':'' \<in> set (itoa i)"
  from itoa_bytes [OF this] obtain d where "d < 10" "CHR '':'' = digit_char d" by auto
  then have "of_char (CHR '':'') = (48 + d :: nat)" by (simp only: digit_char_code)
  with \<open>d < 10\<close> show False by simp
qed

lemma itoa_inj: "itoa i = itoa j \<Longrightarrow> i = j"
proof -
  assume eq: "itoa i = itoa j"
  have m: "show_nat n \<noteq> CHR ''-'' # r" for n r
    using show_nat_hd [of n] digit_char_plain by (metis list.inject)
  show "i = j"
  proof (cases "i < 0"; cases "j < 0")
    assume "i < 0" "j < 0"
    with eq have "show_nat (nat (- i)) = show_nat (nat (- j))" by (simp add: itoa_def)
    with \<open>i < 0\<close> \<open>j < 0\<close> show ?thesis using show_nat_inj by fastforce
  next
    assume "\<not> i < 0" "\<not> j < 0"
    with eq have "show_nat (nat i) = show_nat (nat j)" by (simp add: itoa_def)
    with \<open>\<not> i < 0\<close> \<open>\<not> j < 0\<close> show ?thesis using show_nat_inj by fastforce
  qed (use eq m [symmetric] m in \<open>auto simp: itoa_def\<close>)
qed

text \<open>A separator that a first piece does not contain fixes where the piece ends.\<close>

lemma separator_cancel:
  "c \<notin> set a \<Longrightarrow> c \<notin> set a' \<Longrightarrow> a @ c # x = a' @ c # x' \<longleftrightarrow> a = a' \<and> x = x'"
proof (induction a arbitrary: a')
  case Nil
  then show ?case by (cases a') auto
next
  case (Cons b a)
  then show ?case by (cases a') auto
qed

lemma atoi_bounds: "atoi s = Some i \<Longrightarrow> int64_ok i"
  by (auto simp: atoi_def atoi_unsigned_def Let_def split: list.splits if_splits option.splits)

end
