(* ===== verification/Similarity.thy ===== *)
theory Similarity
  imports GoStrings
begin

text \<open>
  Similarity ids (\<open>pkg/engine/similarity/similarity_id.go\<close>) and what they use of Go's
  \<open>path/filepath\<close> on a system whose separator is \<open>/\<close>. \<open>sha\<close> is the hexadecimal SHA-256 of a
  string.
\<close>

section \<open>filepath\<close>

text \<open>
  The words of a path between separators; a rooted path starts with an empty word. The last
  empty word is dropped, so \<open>''/''\<close> has one empty word and the empty path none.
\<close>

definition slash :: string where "slash = ''/''"

definition drop_last_empty :: "string list \<Rightarrow> string list" where
  "drop_last_empty ws = (if ws \<noteq> [] \<and> last ws = [] then butlast ws else ws)"

definition path_words :: "string \<Rightarrow> string list" where
  "path_words p = drop_last_empty (split_on p slash)"

text \<open>One step of \<open>filepath.Clean\<close> on the words kept so far, last first\<close>

definition clean_step :: "bool \<Rightarrow> string list \<Rightarrow> string \<Rightarrow> string list" where
  "clean_step rooted kept w =
     (if w = [] \<or> w = ''.'' then kept
      else if w = ''..'' then
        (if kept \<noteq> [] \<and> hd kept \<noteq> ''..'' then tl kept
         else if rooted then kept else w # kept)
      else w # kept)"

definition Clean :: "string \<Rightarrow> string" where
  "Clean p =
     (let rooted = has_prefix p slash;
          ws = rev (foldl (clean_step rooted) [] (split_on p slash))
      in if rooted then slash @ join ws slash
         else if ws = [] then ''.'' else join ws slash)"

fun rel_words :: "string list \<Rightarrow> string list \<Rightarrow> string list option" where
  "rel_words [] ts = Some ts"
| "rel_words (b # bs) [] = Some (replicate (length (b # bs)) ''..'')"
| "rel_words (b # bs) (t # ts) =
     (if b = t then rel_words bs ts
      else if b = ''..'' then None
      else Some (replicate (length (b # bs)) ''..'' @ t # ts))"

text \<open>\<open>filepath.Rel\<close>: \<open>None\<close> is its error.\<close>

definition Rel :: "string \<Rightarrow> string \<Rightarrow> string option" where
  "Rel basepath targpath =
     (let base = Clean basepath; targ = Clean targpath in
      if targ = base then Some ''.''
      else
        let base' = (if base = ''.'' then [] else base) in
        if has_prefix base' slash \<noteq> has_prefix targ slash then None
        else map_option (\<lambda>ws. join ws slash) (rel_words (path_words base') (path_words targ)))"

section \<open>ComputeSimilarityID\<close>

definition standardizeToRelativePath :: "string \<Rightarrow> string \<Rightarrow> string + string" where
  "standardizeToRelativePath basePath path =
     (case Rel basePath (Clean path) of
        Some rel \<Rightarrow> Inr rel
      | None \<Rightarrow> Inl (''Rel: can't make '' @ Clean path @ '' relative to '' @ basePath))"

text \<open>The error of \<open>standardizeToRelativePath\<close> is logged and its empty path used.\<close>

definition ComputeSimilarityID ::
  "(string \<Rightarrow> string) \<Rightarrow> string list \<Rightarrow> string \<Rightarrow> string \<Rightarrow> string \<Rightarrow> string \<Rightarrow> string + string" where
  "ComputeSimilarityID sha basePaths filePath queryID searchKey searchValue =
     (let basePath = (case find (\<lambda>path. contains filePath path) basePaths of Some p \<Rightarrow> p | None \<Rightarrow> []);
          standardizedPath = (case standardizeToRelativePath basePath filePath of
            Inr p \<Rightarrow> p | Inl err \<Rightarrow> [])
      in Inr (sha (standardizedPath @ queryID @ searchKey @ searchValue)))"

section \<open>Lemmas\<close>

text \<open>A word of a clean path\<close>

definition proper :: "string \<Rightarrow> bool" where
  "proper w \<longleftrightarrow> w \<noteq> [] \<and> w \<noteq> ''.'' \<and> w \<noteq> ''..'' \<and> CHR ''/'' \<notin> set w"

definition abs_path :: "string list \<Rightarrow> string" where
  "abs_path ws = slash @ join ws slash"

lemma clean_fold_proper:
  "\<forall>w \<in> set ws. proper w \<Longrightarrow> foldl (clean_step rooted) kept ws = rev ws @ kept"
  by (induction ws arbitrary: kept) (auto simp: clean_step_def proper_def)

lemma split_abs_path:
  assumes "\<forall>w \<in> set ws. proper w" and "ws \<noteq> []"
  shows "split_on (abs_path ws) slash = [] # ws"
proof -
  have "abs_path ws = join ([] # ws) slash" using assms(2) by (simp add: abs_path_def join_Cons)
  moreover have "split_on (join ([] # ws) [CHR ''/'']) [CHR ''/''] = [] # ws"
    using assms by (intro split_on_join) (auto simp: proper_def)
  ultimately show ?thesis by (simp add: slash_def)
qed

lemma Clean_abs_path:
  assumes "\<forall>w \<in> set ws. proper w" and "ws \<noteq> []"
  shows "Clean (abs_path ws) = abs_path ws"
proof -
  have "has_prefix (abs_path ws) slash" by (simp add: abs_path_def)
  then show ?thesis
    using clean_fold_proper [OF assms(1)] split_abs_path [OF assms]
    by (simp add: Clean_def clean_step_def abs_path_def)
qed

lemma path_words_abs:
  assumes "\<forall>w \<in> set ws. proper w" and "ws \<noteq> []"
  shows "path_words (abs_path ws) = [] # ws"
  using split_abs_path [OF assms] assms by (auto simp: path_words_def drop_last_empty_def proper_def)

lemma rel_words_append: "rel_words bs (bs @ ts) = Some ts"
  by (induction bs) auto

lemma Rel_inside:
  assumes "\<forall>w \<in> set (bs @ ts). proper w" and "bs \<noteq> []" and "ts \<noteq> []"
  shows "Rel (abs_path bs) (abs_path (bs @ ts)) = Some (join ts slash)"
proof -
  have p: "\<forall>w \<in> set bs. proper w" using assms(1) by auto
  have clean: "Clean (abs_path bs) = abs_path bs" "Clean (abs_path (bs @ ts)) = abs_path (bs @ ts)"
    using Clean_abs_path assms by auto
  have words: "path_words (abs_path bs) = [] # bs" "path_words (abs_path (bs @ ts)) = [] # bs @ ts"
    using path_words_abs [OF p assms(2)] path_words_abs [OF assms(1)] assms(2) by auto
  have "abs_path (bs @ ts) \<noteq> abs_path bs"
    using words assms(3) by (metis append_self_conv list.inject)
  moreover have "abs_path bs \<noteq> ''.''" by (simp add: abs_path_def slash_def)
  moreover have "has_prefix (abs_path ws) slash" for ws by (simp add: abs_path_def)
  ultimately show ?thesis
    using words rel_words_append [of bs ts] by (simp add: Rel_def clean Let_def)
qed

section \<open>Properties\<close>

text \<open>C39. The similarity id of a file inside a scanned directory does not depend on where that
  directory is: it is a hash of the file's path inside it, the query and the search key and
  value. Every such hash exists.\<close>

theorem similarity_id_relocatable:
  assumes "\<forall>w \<in> set (bs @ ts). proper w" and "bs \<noteq> []" and "ts \<noteq> []"
  shows "ComputeSimilarityID sha [abs_path bs] (abs_path (bs @ ts)) q k v =
    Inr (sha (join ts slash @ q @ k @ v))"
proof -
  have "Clean (abs_path (bs @ ts)) = abs_path (bs @ ts)" using Clean_abs_path assms by auto
  moreover have "abs_path (bs @ ts) = abs_path bs @ slash @ join ts slash"
  proof -
    have "join (bs @ ts) slash = join bs slash @ slash @ join ts slash"
      using assms(2,3)
    proof (induction bs)
      case (Cons b bs)
      then show ?case by (cases "bs = []") (simp_all add: join_Cons)
    qed simp
    then show ?thesis by (simp add: abs_path_def)
  qed
  then have "contains (abs_path (bs @ ts)) (abs_path bs)"
    using has_prefix_contains has_prefix_append by metis
  ultimately show ?thesis using Rel_inside [OF assms]
    by (simp add: ComputeSimilarityID_def standardizeToRelativePath_def)
qed

theorem similarity_id_relocatable_witness:
  "ComputeSimilarityID id [''/ci/repo''] ''/ci/repo/a/main.tf'' ''q'' ''k'' [] =
   ComputeSimilarityID id [''/home/me''] ''/home/me/a/main.tf'' ''q'' ''k'' []"
  using similarity_id_relocatable [of "[''ci'', ''repo'']" "[''a'', ''main.tf'']" id "''q''" "''k''" "[]"]
    similarity_id_relocatable [of "[''home'', ''me'']" "[''a'', ''main.tf'']" id "''q''" "''k''" "[]"]
  by (simp add: proper_def abs_path_def slash_def)

text \<open>For an absolute path outside every base path there is no relative path, the error is
  only logged, and the path is left out of the hash: two different files get one similarity
  id.\<close>

lemma similarity_id_ignores_outside_path:
  assumes "\<forall>w \<in> set ts. proper w" and "ts \<noteq> []" and "\<forall>b \<in> set bases. \<not> contains (abs_path ts) b"
  shows "ComputeSimilarityID sha bases (abs_path ts) q k v = Inr (sha (q @ k @ v))"
proof -
  have "find (\<lambda>path. contains (abs_path ts) path) bases = None"
    using assms(3) by (simp add: find_None_iff)
  moreover have "Rel [] (abs_path ts) = None"
  proof -
    have "Clean [] = ''.''"
      by (simp add: Clean_def slash_def split_on_absent contains_def clean_step_def)
    moreover have "abs_path ts \<noteq> ''.''" by (simp add: abs_path_def slash_def)
    moreover have "has_prefix (abs_path ts) slash" "\<not> has_prefix [] slash"
      by (simp_all add: abs_path_def slash_def)
    ultimately show ?thesis using Clean_abs_path [OF assms(1,2)]
      by (simp add: Rel_def)
  qed
  ultimately show ?thesis using Clean_abs_path [OF assms(1,2)]
    by (simp add: ComputeSimilarityID_def standardizeToRelativePath_def)
qed

end
