(* ===== verification/ModelTypes.thy ===== *)
theory ModelTypes
  imports GoStrings "HOL-Library.Char_ord" "HOL-Library.List_Lexorder"
begin

text \<open>
  Package \<open>pkg/model\<close>: the records the components exchange, and the operations of
  \<open>model.go\<close> on them. A value of Go's \<open>interface{}\<close> read from JSON, YAML or Rego is a
  \<open>jval\<close>; a JSON number is kept as its text, a \<open>float64\<close> as its shortest decimal text.
\<close>

datatype jval =
    JNull
  | JBool bool
  | JNum string
  | JInt int
  | JFloat string
  | JStr string
  | JList "jval list"
  | JObj "(string \<times> jval) list"

type_synonym doc = "(string, jval) gomap"

section \<open>Constants\<close>

type_synonym FileKind = string
type_synonym Severity = string
type_synonym CommentCommand = string
type_synonym IssueType = string

definition KindTerraform :: FileKind where "KindTerraform = ''TF''"
definition KindHELM :: FileKind where "KindHELM = ''HELM''"
definition KindINI :: FileKind where "KindINI = ''INI''"
definition KindBICEP :: FileKind where "KindBICEP = ''BICEP''"

definition IgnoreLine :: CommentCommand where "IgnoreLine = ''ignore-line''"
definition IgnoreBlock :: CommentCommand where "IgnoreBlock = ''ignore-block''"
definition IgnoreComment :: CommentCommand where "IgnoreComment = ''ignore-comment''"

definition SeverityCritical :: Severity where "SeverityCritical = ''CRITICAL''"
definition SeverityHigh :: Severity where "SeverityHigh = ''HIGH''"
definition SeverityMedium :: Severity where "SeverityMedium = ''MEDIUM''"
definition SeverityLow :: Severity where "SeverityLow = ''LOW''"
definition SeverityInfo :: Severity where "SeverityInfo = ''INFO''"
definition SeverityTrace :: Severity where "SeverityTrace = ''TRACE''"

lemmas severity_defs = SeverityCritical_def SeverityHigh_def SeverityMedium_def SeverityLow_def
  SeverityInfo_def SeverityTrace_def

definition AllSeverities :: "Severity list" where
  "AllSeverities =
     [SeverityCritical, SeverityHigh, SeverityMedium, SeverityLow, SeverityInfo, SeverityTrace]"

definition IssueTypeIncorrectValue :: IssueType where
  "IssueTypeIncorrectValue = ''IncorrectValue''"

section \<open>Lines and locations\<close>

record CodeLine =
  Position :: int
  CodeText :: string

record ResourceLine =
  Col :: int
  LineNo :: int

record ResourceLocation =
  LocStart :: ResourceLine
  LocEnd :: ResourceLine

definition zero_line :: ResourceLine where
  "zero_line = \<lparr>Col = 0, LineNo = 0\<rparr>"

definition zero_location :: ResourceLocation where
  "zero_location = \<lparr>LocStart = zero_line, LocEnd = zero_line\<rparr>"

record VulnerabilityLines =
  vl_Line :: int
  vl_VulnLines :: "CodeLine list"
  vl_LineWithVulnerability :: string
  vl_ResolvedFile :: string
  vl_VulnerablilityLocation :: ResourceLocation
  vl_RemediationLocation :: ResourceLocation
  vl_ResourceSource :: string
  vl_FileSource :: "string list"
  vl_BlockLocation :: ResourceLocation

text \<open>A composite literal that names some fields leaves the others zero.\<close>

definition zero_vuln_lines :: VulnerabilityLines where
  "zero_vuln_lines =
     \<lparr>vl_Line = 0, vl_VulnLines = [], vl_LineWithVulnerability = [], vl_ResolvedFile = [],
      vl_VulnerablilityLocation = zero_location, vl_RemediationLocation = zero_location,
      vl_ResourceSource = [], vl_FileSource = [], vl_BlockLocation = zero_location\<rparr>"

section \<open>Files\<close>

record ResolvedFile =
  rf_Path :: string
  rf_Content :: string
  rf_LinesContent :: "string list"

record ResolvedFileSplit =
  rs_Path :: string
  rs_Lines :: "string list"

text \<open>
  \<open>IDInfo\<close> and \<open>LineInfoDocument\<close> are Go maps that can be nil, which is \<open>None\<close>.
\<close>

record FileMetadata =
  f_ID :: string
  f_ScanID :: string
  f_Document :: doc
  f_LineInfoDocument :: "doc option"
  f_OriginalData :: string
  f_Kind :: FileKind
  f_FilePath :: string
  f_Content :: string
  f_HelmID :: string
  f_IDInfo :: "(int, (int, int) gomap) gomap option"
  f_Commands :: "(string, string) gomap"
  f_LinesIgnore :: "int list"
  f_ResolvedFiles :: "(string, ResolvedFile) gomap"
  f_LinesOriginalData :: "string list"
  f_IsMinified :: bool

section \<open>Queries and vulnerabilities\<close>

record QueryMetadata =
  qm_InputData :: string
  qm_Query :: string
  qm_Content :: string
  qm_Metadata :: doc
  qm_Platform :: string
  qm_CWE :: string
  qm_Aggregation :: int
  qm_Experimental :: bool

record Vulnerability =
  v_ID :: int
  v_ScanID :: string
  v_SimilarityID :: string
  v_OldSimilarityID :: string
  v_FileID :: string
  v_FileName :: string
  v_QueryID :: string
  v_QueryName :: string
  v_QueryURI :: string
  v_Category :: string
  v_Experimental :: bool
  v_Description :: string
  v_DescriptionID :: string
  v_Platform :: string
  v_CWE :: string
  v_Severity :: Severity
  v_Line :: int
  v_VulnerabilityLocation :: ResourceLocation
  v_VulnLines :: "CodeLine list"
  v_ResourceType :: string
  v_ResourceName :: string
  v_IssueType :: IssueType
  v_SearchKey :: string
  v_SearchLine :: int
  v_SearchValue :: string
  v_KeyExpectedValue :: string
  v_KeyActualValue :: string
  v_Value :: "string option"
  v_Output :: string
  v_CloudProvider :: string
  v_Remediation :: string
  v_RemediationType :: string
  v_RemediationLocation :: ResourceLocation
  v_QueryDuration :: int
  v_LineWithVulnerability :: string
  v_ResourceSource :: string
  v_FileSource :: "string list"
  v_BlockLocation :: ResourceLocation

definition zero_vulnerability :: Vulnerability where
  "zero_vulnerability =
     \<lparr>v_ID = 0, v_ScanID = [], v_SimilarityID = [], v_OldSimilarityID = [], v_FileID = [],
      v_FileName = [], v_QueryID = [], v_QueryName = [], v_QueryURI = [], v_Category = [],
      v_Experimental = False, v_Description = [], v_DescriptionID = [], v_Platform = [],
      v_CWE = [], v_Severity = [], v_Line = 0, v_VulnerabilityLocation = zero_location,
      v_VulnLines = [], v_ResourceType = [], v_ResourceName = [], v_IssueType = [],
      v_SearchKey = [], v_SearchLine = 0, v_SearchValue = [], v_KeyExpectedValue = [],
      v_KeyActualValue = [], v_Value = None, v_Output = [], v_CloudProvider = [],
      v_Remediation = [], v_RemediationType = [], v_RemediationLocation = zero_location,
      v_QueryDuration = 0, v_LineWithVulnerability = [], v_ResourceSource = [],
      v_FileSource = [], v_BlockLocation = zero_location\<rparr>"

definition zero_file :: FileMetadata where
  "zero_file =
     \<lparr>f_ID = [], f_ScanID = [], f_Document = [], f_LineInfoDocument = None, f_OriginalData = [],
      f_Kind = [], f_FilePath = [], f_Content = [], f_HelmID = [], f_IDInfo = None,
      f_Commands = [], f_LinesIgnore = [], f_ResolvedFiles = [], f_LinesOriginalData = [],
      f_IsMinified = False\<rparr>"

section \<open>Extensions\<close>

type_synonym Extensions = "(string, unit) gomap"

definition Include :: "Extensions \<Rightarrow> string \<Rightarrow> bool" where
  "Include e ext \<longleftrightarrow> map_of e ext \<noteq> None"

definition MatchedFilesRegex ::
  "(Extensions \<Rightarrow> Extensions) \<Rightarrow> Extensions \<Rightarrow> string" where
  "MatchedFilesRegex r e =
     (if length e = 0 then ''NO_MATCHED_FILES''
      else let parts = sort (map (\<lambda>(ext, _). CHR 0x5C # ext) (r e))
           in ''(.*)('' @ join parts ''|'' @ '')$'')"

section \<open>Collections of files\<close>

definition ToMap :: "FileMetadata list \<Rightarrow> (string, FileMetadata) gomap" where
  "ToMap m = foldl (\<lambda>c f. gomap_put (f_ID f) f c) [] m"

text \<open>
  \<open>Combine\<close> writes the file's id and path into the document it appends. The document is a Go
  map, so the file keeps the change: the model returns the documents and the files. Writing
  into a nil \<open>LineInfoDocument\<close> panics.
\<close>

definition tag_doc :: "FileMetadata \<Rightarrow> doc \<Rightarrow> doc" where
  "tag_doc f d = gomap_put ''file'' (JStr (f_FilePath f)) (gomap_put ''id'' (JStr (f_ID f)) d)"

definition combine_skips :: "FileMetadata \<Rightarrow> bool" where
  "combine_skips f \<longleftrightarrow> length (f_Document f) = 0 \<or> map_of (f_Commands f) ''ignore'' \<noteq> None"

fun Combine :: "bool \<Rightarrow> FileMetadata list \<Rightarrow> (doc list \<times> FileMetadata list) option" where
  "Combine lineInfo [] = Some ([], [])"
| "Combine lineInfo (f # fs) =
     (if combine_skips f then do { (ds, gs) \<leftarrow> Combine lineInfo fs; Some (ds, f # gs) }
      else if lineInfo then do {
        li \<leftarrow> f_LineInfoDocument f;
        (ds, gs) \<leftarrow> Combine lineInfo fs;
        Some (tag_doc f li # ds, f\<lparr>f_LineInfoDocument := Some (tag_doc f li)\<rparr> # gs)
      }
      else do {
        (ds, gs) \<leftarrow> Combine lineInfo fs;
        Some (tag_doc f (f_Document f) # ds, f\<lparr>f_Document := tag_doc f (f_Document f)\<rparr> # gs)
      })"

section \<open>Lemmas\<close>

lemma AllSeverities_distinct: "distinct AllSeverities"
  by (simp add: AllSeverities_def severity_defs)

lemma tag_doc_id: "map_of (tag_doc f d) ''id'' = Some (JStr (f_ID f))"
  by (simp add: tag_doc_def)

lemma tag_doc_file: "map_of (tag_doc f d) ''file'' = Some (JStr (f_FilePath f))"
  by (simp add: tag_doc_def)

lemma tag_doc_other: "k \<noteq> ''id'' \<Longrightarrow> k \<noteq> ''file'' \<Longrightarrow> map_of (tag_doc f d) k = map_of d k"
  by (simp add: tag_doc_def)

lemma ToMap_ok: "gomap_ok (ToMap m)"
  unfolding ToMap_def by (rule foldl_invariant) (auto intro: gomap_put_ok)

lemma ToMap_snoc: "ToMap (m @ [f]) = gomap_put (f_ID f) f (ToMap m)"
  by (simp add: ToMap_def)

lemma Combine_documents:
  "Combine False fs =
     Some (map (\<lambda>f. tag_doc f (f_Document f)) (filter (\<lambda>f. \<not> combine_skips f) fs),
           map (\<lambda>f. if combine_skips f then f else f\<lparr>f_Document := tag_doc f (f_Document f)\<rparr>) fs)"
  by (induction fs) auto

lemma Combine_line_info:
  "Combine True fs =
     (if \<forall>f \<in> set fs. combine_skips f \<or> f_LineInfoDocument f \<noteq> None
      then Some
        (map (\<lambda>f. tag_doc f (the (f_LineInfoDocument f))) (filter (\<lambda>f. \<not> combine_skips f) fs),
         map (\<lambda>f. if combine_skips f then f
                  else f\<lparr>f_LineInfoDocument := Some (tag_doc f (the (f_LineInfoDocument f)))\<rparr>) fs)
      else None)"
  by (induction fs) auto

end
