(* ===== verification/QuerySource.thy ===== *)
theory QuerySource
  imports Similarity ModelTypes
begin

text \<open>
  Where queries come from: \<open>pkg/engine/source\<close>. The embedded file system of \<open>assets\<close> is a record
  of what its functions return, \<open>filepath.Walk\<close> of a library directory the list of paths it
  visits with the error it ends with, and \<open>unmarshal\<close>, \<open>marshal_doc\<close> are \<open>encoding/json\<close>.
  The interface \<open>QueriesSource\<close> is the locale \<open>queries_source\<close>.
\<close>

section \<open>Parameters of a selection\<close>

record ExcludeQueries =
  ex_ByIDs :: "string list"
  ex_ByCategories :: "string list"
  ex_BySeverities :: "string list"

record IncludeQueries =
  in_ByIDs :: "string list"

record QueryInspectorParameters =
  qp_IncludeQueries :: IncludeQueries
  qp_ExcludeQueries :: ExcludeQueries
  qp_ExperimentalQueries :: bool
  qp_InputDataPath :: string
  qp_BomQueries :: bool

record RegoLibraries =
  LibraryCode :: string
  LibraryInputData :: string

record FilesystemSource =
  Source :: "string list"
  Types :: "string list"
  CloudProviders :: "string list"
  Library :: string
  fs_ExperimentalQueries :: bool

definition QueryFileName :: string where "QueryFileName = ''query.rego''"
definition MetadataFileName :: string where "MetadataFileName = ''metadata.json''"
definition LibrariesDefaultBasePath :: string where "LibrariesDefaultBasePath = ''./assets/libraries''"
definition emptyInputData :: string where "emptyInputData = ''{}''"
definition common :: string where "common = ''Common''"
definition kicsDefault :: string where "kicsDefault = ''default''"

definition NewFilesystemSource ::
  "string list \<Rightarrow> string list \<Rightarrow> string list \<Rightarrow> string \<Rightarrow> bool \<Rightarrow> FilesystemSource" where
  "NewFilesystemSource source types cloudProviders libraryPath experimentalQueries =
     \<lparr>Source = source, Types = (if length types = 0 then [[]] else types),
      CloudProviders = (if length cloudProviders = 0 then [[]] else cloudProviders),
      Library = libraryPath, fs_ExperimentalQueries = experimentalQueries\<rparr>"

section \<open>Paths\<close>

text \<open>\<open>path.Base\<close> and \<open>path.Join\<close> of two elements\<close>

definition Base :: "string \<Rightarrow> string" where
  "Base p =
     (if p = [] then ''.''
      else let ws = filter (\<lambda>w. w \<noteq> []) (split_on p slash) in if ws = [] then slash else last ws)"

definition path_join :: "string \<Rightarrow> string \<Rightarrow> string" where
  "path_join dir file =
     (let es = filter (\<lambda>e. e \<noteq> []) [dir, file] in if es = [] then [] else Clean (join es slash))"

section \<open>Libraries\<close>

record assets_fs =
  as_dirs :: "string + string list"
  as_query_file :: "string \<Rightarrow> string + string"
  as_library :: "string \<Rightarrow> string + string"
  as_library_data :: "string \<Rightarrow> string + string"
  as_walk :: "string \<Rightarrow> string list \<times> string option"
  as_unmarshal :: "string \<Rightarrow> string + doc"

definition getLibraryInDir :: "assets_fs \<Rightarrow> string \<Rightarrow> string \<Rightarrow> string" where
  "getLibraryInDir as platform libraryDirPath =
     foldl (\<lambda>found p. if equal_fold (Base p) (platform @ ''.rego'') then p else found) []
       (fst (as_walk as libraryDirPath))"

definition isDefaultLibrary :: "string \<Rightarrow> bool" where
  "isDefaultLibrary libraryPath \<longleftrightarrow> libraryPath = LibrariesDefaultBasePath"

definition GetPathToCustomLibrary :: "assets_fs \<Rightarrow> string \<Rightarrow> string \<Rightarrow> string" where
  "GetPathToCustomLibrary as platform libraryPathFlag =
     (if \<not> isDefaultLibrary libraryPathFlag then
        (let library = getLibraryInDir as platform libraryPathFlag in
         if library \<noteq> [] then library else kicsDefault)
      else kicsDefault)"

definition GetQueryLibrary ::
  "assets_fs \<Rightarrow> FilesystemSource \<Rightarrow> string \<Rightarrow> string + RegoLibraries" where
  "GetQueryLibrary as s platform =
     (let library = GetPathToCustomLibrary as platform (Library s) in
      if library = [] then Inl ''unable to get libraries path''
      else bind_err (as_library as (to_lower platform)) (\<lambda>embeddedLibraryCode.
        let embeddedLibraryData =
          (case as_library_data as (to_lower platform) of Inr d \<Rightarrow> d | Inl _ \<Rightarrow> emptyInputData)
        in Inr \<lparr>LibraryCode = embeddedLibraryCode, LibraryInputData = embeddedLibraryData\<rparr>))"

section \<open>Selection\<close>

text \<open>A type assertion to \<open>string\<close> of a value that may be nil (\<open>None\<close>)\<close>

definition as_string :: "jval option \<Rightarrow> string option" where
  "as_string v = (case v of Some (JStr s) \<Rightarrow> Some s | _ \<Rightarrow> None)"

definition CheckType :: "FilesystemSource \<Rightarrow> jval option \<Rightarrow> bool option" where
  "CheckType s queryPlatform = do {
     p \<leftarrow> as_string queryPlatform;
     if p = common then Some True
     else do {
       t0 \<leftarrow> at (Types s) 0;
       if t0 \<noteq> [] then Some (list_ex (\<lambda>t. equal_fold t p) (Types s)) else Some True
     }
   }"

definition is_nil :: "jval option \<Rightarrow> bool" where
  "is_nil v \<longleftrightarrow> v = None \<or> v = Some JNull"

definition CheckCloudProvider :: "FilesystemSource \<Rightarrow> jval option \<Rightarrow> bool option" where
  "CheckCloudProvider s cloudProvider =
     (if \<not> is_nil cloudProvider then do {
        p \<leftarrow> as_string cloudProvider;
        if equal_fold p common then Some True
        else do {
          c0 \<leftarrow> at (CloudProviders s) 0;
          if c0 \<noteq> [] then Some (contains (to_upper (join (CloudProviders s) '','')) (to_upper p))
          else Some True
        }
      }
      else do {
        c0 \<leftarrow> at (CloudProviders s) 0;
        Some (c0 = [])
      })"

definition checkQueryInclude :: "jval option \<Rightarrow> string list \<Rightarrow> bool" where
  "checkQueryInclude id' includedQueries =
     (case as_string id' of None \<Rightarrow> False | Some key \<Rightarrow> list_ex (\<lambda>q. key = q) includedQueries)"

definition checkQueryExcludeField :: "jval option \<Rightarrow> string list \<Rightarrow> bool" where
  "checkQueryExcludeField id' excludeQueries =
     (case as_string id' of None \<Rightarrow> False | Some key \<Rightarrow> list_ex (\<lambda>q. equal_fold key q) excludeQueries)"

definition checkQueryExclude :: "doc \<Rightarrow> QueryInspectorParameters \<Rightarrow> bool" where
  "checkQueryExclude metadata p \<longleftrightarrow>
     checkQueryExcludeField (map_of metadata ''id'') (ex_ByIDs (qp_ExcludeQueries p)) \<or>
     checkQueryExcludeField (map_of metadata ''category'') (ex_ByCategories (qp_ExcludeQueries p)) \<or>
     checkQueryExcludeField (map_of metadata ''severity'') (ex_BySeverities (qp_ExcludeQueries p)) \<or>
     (\<not> qp_BomQueries p \<and> map_of metadata ''severity'' = Some (JStr SeverityTrace))"

section \<open>Reading a query\<close>

definition supPlatforms :: "(string, string) gomap" where
  "supPlatforms =
     [(''Ansible'', ''ansible''), (''CloudFormation'', ''cloudFormation''), (''Common'', ''common''),
      (''Crossplane'', ''crossplane''), (''Knative'', ''knative''), (''Kubernetes'', ''k8s''),
      (''OpenAPI'', ''openAPI''), (''Terraform'', ''terraform''),
      (''AzureResourceManager'', ''azureResourceManager''), (''GRPC'', ''grpc''),
      (''GoogleDeploymentManager'', ''googleDeploymentManager''), (''Buildah'', ''buildah''),
      (''Pulumi'', ''pulumi''), (''ServerlessFW'', ''serverlessFW''), (''CICD'', ''cicd'')]"

definition getPlatform :: "string \<Rightarrow> string" where
  "getPlatform metadataPlatform =
     (case map_of supPlatforms metadataPlatform of Some p \<Rightarrow> p | None \<Rightarrow> ''unknown'')"

definition getExperimental :: "jval option \<Rightarrow> bool" where
  "getExperimental experimental \<longleftrightarrow> as_string experimental = Some ''true''"

text \<open>The result is whether all fields exist, and the last field looked at.\<close>

fun validate_fields :: "doc \<Rightarrow> string list \<Rightarrow> bool \<times> string \<Rightarrow> bool \<times> string" where
  "validate_fields metadata [] last' = last'"
| "validate_fields metadata (field # fs) last' =
     (if map_of metadata field = None then (False, field) else validate_fields metadata fs (True, field))"

definition validateMetadata :: "doc \<Rightarrow> bool \<times> string" where
  "validateMetadata metadata = validate_fields metadata [''id'', ''platform''] (False, [])"

definition ReadMetadata :: "assets_fs \<Rightarrow> string \<Rightarrow> string + doc" where
  "ReadMetadata as queryDir =
     bind_err (as_query_file as (Clean (path_join queryDir MetadataFileName))) (as_unmarshal as)"

text \<open>\<open>int(f)\<close> of a \<open>float64\<close> kept as its decimal text, for numbers that fit an integer\<close>

definition float_to_int :: "string \<Rightarrow> int" where
  "float_to_int t = (case atoi (hd (split_on t ''.'')) of Some i \<Rightarrow> i | None \<Rightarrow> 0)"

definition wrap_read :: "string \<Rightarrow> string + 'a \<Rightarrow> string + 'a" where
  "wrap_read queryDir res =
     (case res of Inl e \<Rightarrow> Inl (''failed to read query '' @ Base queryDir @ '': '' @ e) | Inr x \<Rightarrow> Inr x)"

definition metadata_aggregation :: "doc \<Rightarrow> int option" where
  "metadata_aggregation metadata =
     (case map_of metadata ''aggregation'' of
        None \<Rightarrow> Some 1
      | Some (JFloat f) \<Rightarrow> Some (float_to_int f)
      | Some _ \<Rightarrow> None)"

definition ReadQuery :: "assets_fs \<Rightarrow> string \<Rightarrow> (string + QueryMetadata) option" where
  "ReadQuery as queryDir =
     (case wrap_read queryDir (as_query_file as (path_join queryDir QueryFileName)) of
        Inl e \<Rightarrow> Some (Inl e)
      | Inr queryContent \<Rightarrow>
          (case wrap_read queryDir (ReadMetadata as queryDir) of
             Inl e \<Rightarrow> Some (Inl e)
           | Inr metadata \<Rightarrow>
               (let (valid, missingField) = validateMetadata metadata in
                if \<not> valid then Some (Inl (''failed to read metadata field: '' @ missingField))
                else do {
                  p \<leftarrow> as_string (map_of metadata ''platform'');
                  aggregation \<leftarrow> metadata_aggregation metadata;
                  Some (Inr \<lparr>qm_InputData = ''{}'', qm_Query = Base queryDir, qm_Content = queryContent,
                    qm_Metadata = metadata, qm_Platform = getPlatform p, qm_CWE = [],
                    qm_Aggregation = aggregation,
                    qm_Experimental = getExperimental (map_of metadata ''experimental'')\<rparr>)
                })))"

definition select_query ::
  "FilesystemSource \<Rightarrow> QueryInspectorParameters \<Rightarrow> QueryMetadata \<Rightarrow> bool option" where
  "select_query s p query =
     (if qm_Experimental query \<and> \<not> qp_ExperimentalQueries p then Some False
      else do {
        okType \<leftarrow> CheckType s (map_of (qm_Metadata query) ''platform'');
        if \<not> okType then Some False
        else do {
          okProvider \<leftarrow> CheckCloudProvider s (map_of (qm_Metadata query) ''cloudProvider'');
          if \<not> okProvider then Some False
          else if length (in_ByIDs (qp_IncludeQueries p)) > 0
          then Some (checkQueryInclude (map_of (qm_Metadata query) ''id'') (in_ByIDs (qp_IncludeQueries p)))
          else Some (\<not> checkQueryExclude (qm_Metadata query) p)
        }
      })"

fun iterateQueryDirs ::
  "assets_fs \<Rightarrow> FilesystemSource \<Rightarrow> string list \<Rightarrow> QueryInspectorParameters \<Rightarrow> QueryMetadata list option" where
  "iterateQueryDirs as s [] p = Some []"
| "iterateQueryDirs as s (queryDir # dirs) p = do {
     res \<leftarrow> ReadQuery as queryDir;
     case res of
       Inl errRQ \<Rightarrow> iterateQueryDirs as s dirs p
     | Inr query \<Rightarrow> do {
         keep \<leftarrow> select_query s p query;
         queries \<leftarrow> iterateQueryDirs as s dirs p;
         Some (if keep then query # queries else queries)
       }
   }"

definition iterateEmbeddedQuerySources :: "assets_fs \<Rightarrow> string + string list" where
  "iterateEmbeddedQuerySources as =
     (case as_dirs as of Inl e \<Rightarrow> Inl (''failed to get query sources: '' @ e) | Inr dirs \<Rightarrow> Inr dirs)"

definition GetQueries ::
  "assets_fs \<Rightarrow> FilesystemSource \<Rightarrow> QueryInspectorParameters \<Rightarrow> (string + QueryMetadata list) option" where
  "GetQueries as s p =
     (case iterateEmbeddedQuerySources as of
        Inl e \<Rightarrow> Some (Inl e)
      | Inr dirs \<Rightarrow> map_option Inr (iterateQueryDirs as s dirs p))"

section \<open>Input data\<close>

definition checkEmptyInputdata :: "string \<Rightarrow> bool" where
  "checkEmptyInputdata inputData \<longleftrightarrow> inputData = emptyInputData \<or> inputData = []"

definition merge_error :: "string \<Rightarrow> string" where
  "merge_error e = ''failed to merge query input data: '' @ e"

text \<open>
  \<open>unmarshal\<close> reads into a map, which JSON's \<open>null\<close> leaves nil (\<open>None\<close>); storing into it panics.
\<close>

definition MergeInputData ::
  "(string \<Rightarrow> string + doc option) \<Rightarrow> (doc \<Rightarrow> string + string) \<Rightarrow> (doc \<Rightarrow> doc) \<Rightarrow> string \<Rightarrow> string \<Rightarrow>
     (string + string) option" where
  "MergeInputData unmarshal marshal_doc r defaultInputData customInputData =
     (if checkEmptyInputdata customInputData \<and> checkEmptyInputdata defaultInputData
      then Some (Inr emptyInputData)
      else if checkEmptyInputdata defaultInputData then Some (Inr customInputData)
      else if checkEmptyInputdata customInputData then Some (Inr defaultInputData)
      else case unmarshal defaultInputData of
        Inl e \<Rightarrow> Some (Inl (merge_error e))
      | Inr dataJSON \<Rightarrow>
          (case unmarshal customInputData of
             Inl e \<Rightarrow> Some (Inl (merge_error e))
           | Inr customDataJSON \<Rightarrow>
               (let custom = (case customDataJSON of Some c \<Rightarrow> r c | None \<Rightarrow> []) in
                if dataJSON = None \<and> custom \<noteq> [] then None
                else case marshal_doc
                  (foldl (\<lambda>d (key, v). gomap_put key v d) (case dataJSON of Some d \<Rightarrow> d | None \<Rightarrow> []) custom) of
                    Inl e \<Rightarrow> Some (Inl (merge_error e))
                  | Inr merged \<Rightarrow> Some (Inr merged))))"

section \<open>The interface\<close>

text \<open>
  What the inspector relies on: the queries it is given are those asked for. A list of ids to
  include wins over every exclusion.
\<close>

definition query_wanted :: "QueryInspectorParameters \<Rightarrow> QueryMetadata \<Rightarrow> bool" where
  "query_wanted p q \<longleftrightarrow>
     (if in_ByIDs (qp_IncludeQueries p) \<noteq> []
      then \<exists>i. map_of (qm_Metadata q) ''id'' = Some (JStr i) \<and> i \<in> set (in_ByIDs (qp_IncludeQueries p))
      else \<not> checkQueryExclude (qm_Metadata q) p)"

locale queries_source =
  fixes get_queries :: "QueryInspectorParameters \<Rightarrow> (string + QueryMetadata list) option"
    and get_library :: "string \<Rightarrow> string + RegoLibraries"
  assumes queries_wanted: "get_queries p = Some (Inr qs) \<Longrightarrow> q \<in> set qs \<Longrightarrow> query_wanted p q"
    and queries_experimental:
      "get_queries p = Some (Inr qs) \<Longrightarrow> q \<in> set qs \<Longrightarrow> qm_Experimental q \<Longrightarrow> qp_ExperimentalQueries p"
begin

lemma excluded_id_absent:
  assumes "get_queries p = Some (Inr qs)" and "q \<in> set qs" and "in_ByIDs (qp_IncludeQueries p) = []"
    and "map_of (qm_Metadata q) ''id'' = Some (JStr i)" and "e \<in> set (ex_ByIDs (qp_ExcludeQueries p))"
  shows "\<not> equal_fold i e"
  using queries_wanted [OF assms(1,2)] assms(3-5)
  by (auto simp: query_wanted_def checkQueryExclude_def checkQueryExcludeField_def as_string_def list_ex_iff)

lemma bom_absent:
  assumes "get_queries p = Some (Inr qs)" and "q \<in> set qs" and "in_ByIDs (qp_IncludeQueries p) = []"
    and "\<not> qp_BomQueries p"
  shows "map_of (qm_Metadata q) ''severity'' \<noteq> Some (JStr SeverityTrace)"
  using queries_wanted [OF assms(1,2)] assms(3,4)
  by (auto simp: query_wanted_def checkQueryExclude_def)

end

section \<open>Lemmas\<close>

lemma select_query_wanted: "select_query s p q = Some True \<Longrightarrow> query_wanted p q"
  by (auto simp: select_query_def query_wanted_def checkQueryInclude_def as_string_def list_ex_iff
      split: if_splits Option.bind_splits option.splits jval.splits)

lemma select_query_experimental:
  "select_query s p q = Some True \<Longrightarrow> qm_Experimental q \<Longrightarrow> qp_ExperimentalQueries p"
  by (auto simp: select_query_def split: if_splits)

lemma iterateQueryDirs_mem:
  "iterateQueryDirs as s dirs p = Some qs \<Longrightarrow>
     q \<in> set qs \<longleftrightarrow> (\<exists>d \<in> set dirs. ReadQuery as d = Some (Inr q) \<and> select_query s p q = Some True)"
proof (induction as s dirs p arbitrary: qs rule: iterateQueryDirs.induct)
  case (2 as s d dirs p)
  from "2.prems" obtain res where res: "ReadQuery as d = Some res" by (auto split: Option.bind_splits)
  show ?case
  proof (cases res)
    case (Inl e)
    then show ?thesis using "2.prems" "2.IH"(1) [OF res Inl] res by simp
  next
    case (Inr query)
    with "2.prems" res obtain keep rest where *: "select_query s p query = Some keep"
        "iterateQueryDirs as s dirs p = Some rest" "qs = (if keep then query # rest else rest)"
      by (auto split: Option.bind_splits)
    show ?thesis using "2.IH"(2) [OF res Inr *(1,2)] *(1,3) res Inr by (cases keep) auto
  qed
qed auto

lemma GetQueries_mem:
  assumes "GetQueries as s p = Some (Inr qs)"
  shows "\<exists>dirs. as_dirs as = Inr dirs \<and> (\<forall>q. q \<in> set qs \<longleftrightarrow>
    (\<exists>d \<in> set dirs. ReadQuery as d = Some (Inr q) \<and> select_query s p q = Some True))"
  using assms iterateQueryDirs_mem
  by (fastforce simp: GetQueries_def iterateEmbeddedQuerySources_def split: sum.splits)

interpretation filesystem: queries_source "GetQueries as s" "GetQueryLibrary as s" for as s
  by unfold_locales
    (use GetQueries_mem select_query_wanted select_query_experimental in blast)+

lemma put_all_get:
  "gomap_ok c \<Longrightarrow> map_of (foldl (\<lambda>d (key, v). gomap_put key v d) d c) = map_of d ++ map_of c"
proof (induction c arbitrary: d)
  case (Cons kv c)
  obtain k v where kv: "kv = (k, v)" by force
  then have "k \<notin> dom (map_of c)" using Cons.prems by (simp add: dom_map_of_conv_image_fst)
  then have "(map_of d)(k \<mapsto> v) ++ map_of c = map_of d ++ (map_of c)(k \<mapsto> v)"
    by (auto simp: fun_eq_iff map_add_def split: option.splits)
  moreover have "map_of (foldl (\<lambda>d (key, v). gomap_put key v d) d (kv # c)) = (map_of d)(k \<mapsto> v) ++ map_of c"
    using Cons kv by (simp del: map_add_upd)
  moreover have "(map_of c)(k \<mapsto> v) = map_of (kv # c)" using kv by (simp add: fun_eq_iff)
  ultimately show ?case by (simp only:)
qed simp

section \<open>Properties\<close>


definition example_assets :: assets_fs where
  "example_assets =
     \<lparr>as_dirs = Inr [''q''], as_query_file = (\<lambda>p. Inr ''{}''), as_library = (\<lambda>p. Inl ''none''),
      as_library_data = (\<lambda>p. Inl ''none''), as_walk = (\<lambda>p. ([], None)),
      as_unmarshal = (\<lambda>t. Inr [(''id'', JStr ''1''), (''platform'', JStr ''Terraform'')])\<rparr>"

definition example_params :: QueryInspectorParameters where
  "example_params =
     \<lparr>qp_IncludeQueries = \<lparr>in_ByIDs = []\<rparr>,
      qp_ExcludeQueries = \<lparr>ex_ByIDs = [''2''], ex_ByCategories = [], ex_BySeverities = []\<rparr>,
      qp_ExperimentalQueries = False, qp_InputDataPath = [], qp_BomQueries = False\<rparr>"


text \<open>The custom libraries path has no effect on the library a platform gets: what is found
  under it is only looked for, and the embedded library is returned.\<close>

lemma custom_library_ignored:
  "GetQueryLibrary as (s\<lparr>Library := path\<rparr>) platform = GetQueryLibrary as s platform \<and>
   GetPathToCustomLibrary as platform path \<noteq> []"
  by (simp add: GetQueryLibrary_def GetPathToCustomLibrary_def kicsDefault_def Let_def)

text \<open>When both input data are JSON objects, the merged object has every key of both, and the
  custom data's value where both have it, whatever the order of the map.\<close>

lemma merge_input_data_custom_wins:
  assumes "\<not> checkEmptyInputdata d" and "\<not> checkEmptyInputdata c"
    and "unmarshal d = Inr (Some m)" and "unmarshal c = Inr (Some n)" and "gomap_ok n" and "range_order r"
  shows "\<exists>merged. map_of merged = map_of m ++ map_of n \<and>
    MergeInputData unmarshal marshal_doc r d c =
      Some (case marshal_doc merged of Inl e \<Rightarrow> Inl (merge_error e) | Inr t \<Rightarrow> Inr t)"
proof -
  let ?merged = "foldl (\<lambda>d (key, v). gomap_put key v d) m (r n)"
  have "map_of ?merged = map_of m ++ map_of n"
    using put_all_get [of "r n" m] assms(5,6) range_order_ok range_order_get by metis
  moreover have "MergeInputData unmarshal marshal_doc r d c =
      Some (case marshal_doc ?merged of Inl e \<Rightarrow> Inl (merge_error e) | Inr t \<Rightarrow> Inr t)"
    using assms(1-4) by (simp add: MergeInputData_def split: sum.splits)
  ultimately show ?thesis by blast
qed

end
