(* ===== verification/FileParser.thy ===== *)
theory FileParser
  imports QuerySource
begin

text \<open>
  \<open>pkg/parser/parser.go\<close>: the parser that belongs to a file, the parsed document, and the
  commands in the comments that open a file; with \<open>pkg/minified/minified.go\<close>,
  \<open>pkg/resolver/resolver.go\<close> and the file helpers of \<open>pkg/utils\<close> that they call. The parsers of
  the languages are behind the interface \<open>kindParser\<close>, a record of operations with a state \<open>'p\<close>
  (what \<open>GetResolvedFiles\<close> returns is left there by \<open>Resolve\<close>).
\<close>

section \<open>Helpers of \<open>pkg/utils\<close>\<close>

text \<open>
  The file system: \<open>fs_stat\<close> says whether a path is a directory, or that there is none;
  \<open>fs_is_text\<close> is \<open>util.IsText\<close> of \<open>golang.org/x/tools\<close>.
\<close>

record filesys =
  fs_stat :: "string \<Rightarrow> string + bool"
  fs_read :: "string \<Rightarrow> string + string"
  fs_is_text :: "string \<Rightarrow> bool"

text \<open>\<open>filepath.Ext\<close>: from the last dot of the last element of the path\<close>

definition path_ext :: "string \<Rightarrow> string" where
  "path_ext path =
     (let base = rev (takeWhile (\<lambda>c. c \<noteq> CHR ''/'') (rev path))
      in if CHR ''.'' \<in> set base
         then CHR ''.'' # rev (takeWhile (\<lambda>c. c \<noteq> CHR ''.'') (rev base)) else [])"

definition isTextFile :: "filesys \<Rightarrow> string \<Rightarrow> string + bool" where
  "isTextFile fs path =
     (case fs_stat fs path of
        Inl err \<Rightarrow> Inl err
      | Inr True \<Rightarrow> Inr False
      | Inr False \<Rightarrow>
          (case fs_read fs (Clean path) of
             Inl err \<Rightarrow> Inl err
           | Inr content \<Rightarrow> Inr (fs_is_text fs (replace_all content [CHR 0x0D] []))))"

definition GetExtension :: "filesys \<Rightarrow> string \<Rightarrow> string \<times> string option" where
  "GetExtension fs path =
     (case fs_stat fs path of
        Inl err \<Rightarrow> ([], Some (''file '' @ path @ '' not found''))
      | Inr True \<Rightarrow> ([], Some (''the path '' @ path @ '' is a directory''))
      | Inr False \<Rightarrow>
          (let ext = path_ext path in
           if ext = [] then
             (let base = Base path in
              if base \<in> set [''tfvars''] then (base, None)
              else (case isTextFile fs path of
                      Inl err \<Rightarrow> ([], Some err)
                    | Inr True \<Rightarrow> ([], Some (''file '' @ path @ '' does not have a supported extension''))
                    | Inr False \<Rightarrow> (ext, None)))
           else (ext, None)))"

definition SplitLines :: "string \<Rightarrow> string list" where
  "SplitLines content = split_on (replace_all content [CHR 0x0D] []) [CHR 0x0A]"

text \<open>The body of \<open>DecryptAnsibleVault\<close> is a comment: it returns what it is given.\<close>

definition DecryptAnsibleVault :: "string \<Rightarrow> string \<Rightarrow> string" where
  "DecryptAnsibleVault fileContent secret = fileContent"

text \<open>
  The space class of Go's regular expressions is ASCII. \<open>isMinifiedJSON\<close> divides in \<open>float64\<close>; for contents below
  \<open>2 ^ 50\<close> bytes the comparison with \<open>0.8\<close> is the one written here, and the quotient of an empty
  content is not a number, so that it is not minified.
\<close>

definition re_space :: "char \<Rightarrow> bool" where
  "re_space c \<longleftrightarrow> c \<in> {CHR 0x09, CHR 0x0A, CHR 0x0C, CHR 0x0D, CHR 0x20}"

definition isMinifiedJSON :: "string \<Rightarrow> bool" where
  "isMinifiedJSON content =
     (let nonWhitespaceCount = length (filter (\<lambda>c. \<not> re_space c) content)
      in content \<noteq> [] \<and> 4 * length content < 5 * nonWhitespaceCount)"

definition IsMinified :: "string \<Rightarrow> string \<Rightarrow> bool" where
  "IsMinified filename content = (has_suffix filename ''.json'' \<and> isMinifiedJSON content)"

definition count_newlines :: "string \<Rightarrow> int" where
  "count_newlines s = int (count_list s (CHR 0x0A))"

section \<open>Parsers\<close>

record 'p kindParser =
  kp_GetKind :: FileKind
  kp_GetCommentToken :: string
  kp_SupportedExtensions :: "string list"
  kp_SupportedTypes :: "(string, bool) gomap"
  kp_Parse :: "string \<Rightarrow> string \<Rightarrow> 'p \<Rightarrow> (string + doc list \<times> int list) \<times> 'p"
  kp_Resolve :: "string \<Rightarrow> string \<Rightarrow> bool \<Rightarrow> int \<Rightarrow> 'p \<Rightarrow> (string + string) \<times> 'p"
  kp_StringifyContent :: "string \<Rightarrow> string + string"
  kp_GetResolvedFiles :: "'p \<Rightarrow> (string, ResolvedFile) gomap"

record 'p Parser =
  p_parsers :: "'p kindParser"
  p_extensions :: Extensions
  p_Platform :: "string list"

record ParsedDocument =
  pd_Docs :: "doc list"
  pd_Kind :: FileKind
  pd_Content :: string
  pd_IgnoreLines :: "int list"
  pd_CountLines :: int
  pd_ResolvedFiles :: "(string, ResolvedFile) gomap"
  pd_IsMinified :: bool

definition zero_parsed :: ParsedDocument where
  "zero_parsed =
     \<lparr>pd_Docs = [], pd_Kind = [], pd_Content = [], pd_IgnoreLines = [], pd_CountLines = 0,
      pd_ResolvedFiles = [], pd_IsMinified = False\<rparr>"

text \<open>\<open>contains\<close> reads \<open>types[0]\<close>: without a type it panics.\<close>

definition contains_type :: "string list \<Rightarrow> (string, bool) gomap \<Rightarrow> bool option" where
  "contains_type types supportedTypes = do {
     t0 \<leftarrow> at types 0;
     if t0 = [] then Some True
     else Some (list_ex (\<lambda>t. map_of supportedTypes (to_lower t) \<noteq> None) types)
   }"

definition new_parser ::
  "((string, bool) gomap \<Rightarrow> (string, bool) gomap) \<Rightarrow> 'p kindParser \<Rightarrow> 'p Parser" where
  "new_parser r p =
     \<lparr>p_parsers = p,
      p_extensions = foldl (\<lambda>m ext. gomap_put ext () m) [] (kp_SupportedExtensions p),
      p_Platform = map fst (r (kp_SupportedTypes p))\<rparr>"

text \<open>\<open>Builder.Build\<close>; a \<open>Builder\<close> is the list its \<open>Add\<close> appends to.\<close>

definition Builder_Add :: "'p kindParser list \<Rightarrow> 'p kindParser \<Rightarrow> 'p kindParser list" where
  "Builder_Add b p = b @ [p]"

fun Build ::
  "((string, bool) gomap \<Rightarrow> (string, bool) gomap) \<Rightarrow> 'p kindParser list \<Rightarrow> string list \<Rightarrow>
     'p Parser list option" where
  "Build r [] types = Some []"
| "Build r (p # ps) types = do {
     fits \<leftarrow> contains_type types (kp_SupportedTypes p);
     rest \<leftarrow> Build r ps types;
     Some (if fits then new_parser r p # rest else rest)
   }"

definition isValidExtension :: "filesys \<Rightarrow> 'p Parser \<Rightarrow> string \<Rightarrow> bool" where
  "isValidExtension fs c filePath = (map_of (p_extensions c) (fst (GetExtension fs filePath)) \<noteq> None)"

definition SupportedExtensions :: "'p Parser \<Rightarrow> Extensions" where
  "SupportedExtensions c = p_extensions c"

definition ErrNotSupportedFile :: string where
  "ErrNotSupportedFile = ''unsupported file to parse''"

text \<open>
  The result of \<open>Parse\<close> is the document and the error, which a caller may look at both.
\<close>

definition Parse ::
  "filesys \<Rightarrow> 'p Parser \<Rightarrow> string \<Rightarrow> string \<Rightarrow> string \<Rightarrow> bool \<Rightarrow> bool \<Rightarrow> int \<Rightarrow> 'p \<Rightarrow>
     (ParsedDocument \<times> string option) \<times> 'p" where
  "Parse fs c vault_secret filePath original openAPIResolveReferences minified maxResolverDepth s =
     (let fileContent = DecryptAnsibleVault original vault_secret; kp = p_parsers c in
      if isValidExtension fs c filePath then
        (case kp_Resolve kp fileContent filePath openAPIResolveReferences maxResolverDepth s of
           (Inl err, s1) \<Rightarrow> ((zero_parsed, Some err), s1)
         | (Inr resolved, s1) \<Rightarrow>
             (case kp_Parse kp filePath resolved s1 of
                (Inl err, s2) \<Rightarrow> ((zero_parsed, Some err), s2)
              | (Inr (obj, igLines), s2) \<Rightarrow>
                  ((\<lparr>pd_Docs = obj, pd_Kind = kp_GetKind kp,
                     pd_Content = (case kp_StringifyContent kp fileContent of
                                     Inl err \<Rightarrow> fileContent | Inr cont \<Rightarrow> cont),
                     pd_IgnoreLines = igLines, pd_CountLines = count_newlines resolved + 1,
                     pd_ResolvedFiles = kp_GetResolvedFiles kp s2, pd_IsMinified = minified\<rparr>,
                    None), s2)))
      else ((zero_parsed\<lparr>pd_Kind := ''break''\<rparr>, Some ErrNotSupportedFile), s))"

section \<open>Commands in comments\<close>

text \<open>
  \<open>strings.Fields\<close>: the pieces between runs of Unicode spaces.
\<close>

function space_fields :: "string \<Rightarrow> string \<Rightarrow> string list" where
  "space_fields s cur =
     (case find (\<lambda>w. w \<noteq> [] \<and> prefix w s) space_bytes of
        Some w \<Rightarrow>
          (if cur = [] then space_fields (drop (length w) s) []
           else rev cur # space_fields (drop (length w) s) [])
      | None \<Rightarrow>
          (case s of [] \<Rightarrow> (if cur = [] then [] else [rev cur])
           | c # s' \<Rightarrow> space_fields s' (c # cur)))"
  by pat_completeness auto
termination
proof (relation "measure (\<lambda>(s, cur). length s)")
  fix s cur w :: string
  assume "find (\<lambda>w. w \<noteq> [] \<and> prefix w s) space_bytes = Some w"
  then have "w \<noteq> []" and "prefix w s" by (auto simp: find_Some_iff)
  then have "length (drop (length w) s) < length s" by (cases s) auto
  then show "((drop (length w) s, []), (s, cur)) \<in> measure (\<lambda>(s, cur). length s)"
    and "((drop (length w) s, []), (s, cur)) \<in> measure (\<lambda>(s, cur). length s)" by auto
qed auto

declare space_fields.simps [simp del]

text \<open>What one comment line says: a key and a value, when it is a command.\<close>

definition comment_command :: "string \<Rightarrow> string \<Rightarrow> (string \<times> string) option" where
  "comment_command commentToken line =
     (case space_fields (trim_space (trim_prefix line commentToken)) [] of
        f0 # f1 # _ \<Rightarrow>
          (if f0 = ''dd-iac-scan'' \<and> f1 \<noteq> [] then
             (case split_two f1 ''='' of
                k # v # _ \<Rightarrow> Some (k, v)
              | [k] \<Rightarrow> Some (k, [])
              | [] \<Rightarrow> None)
           else None)
      | _ \<Rightarrow> None)"

definition skipped_line :: "string \<Rightarrow> string \<Rightarrow> bool" where
  "skipped_line filePath line \<longleftrightarrow>
     line = [] \<or> has_suffix filePath ''.yaml'' \<and> has_prefix line ''---''"

fun commands_of :: "string \<Rightarrow> string \<Rightarrow> string list \<Rightarrow> (string, string) gomap \<Rightarrow> (string, string) gomap" where
  "commands_of filePath commentToken [] m = m"
| "commands_of filePath commentToken (l # ls) m =
     (let line = trim_space l in
      if skipped_line filePath line then commands_of filePath commentToken ls m
      else if \<not> has_prefix line commentToken then m
      else commands_of filePath commentToken ls
        (case comment_command commentToken line of
           None \<Rightarrow> m | Some (k, v) \<Rightarrow> gomap_put k v m))"

text \<open>For a file that is not the parser's the commands are a nil map, which reads as empty.\<close>

definition CommentsCommands :: "filesys \<Rightarrow> 'p Parser \<Rightarrow> string \<Rightarrow> string \<Rightarrow> (string, string) gomap" where
  "CommentsCommands fs c filePath fileContent =
     (if isValidExtension fs c filePath \<and> kp_GetCommentToken (p_parsers c) \<noteq> []
      then commands_of filePath (kp_GetCommentToken (p_parsers c)) (split_on fileContent [CHR 0x0A]) []
      else [])"

text \<open>
  The comment block that opens a file is its lines before the first one with code, and the
  commands are those of this block.
\<close>

definition code_line :: "string \<Rightarrow> string \<Rightarrow> string \<Rightarrow> bool" where
  "code_line filePath commentToken l \<longleftrightarrow>
     \<not> skipped_line filePath (trim_space l) \<and> \<not> has_prefix (trim_space l) commentToken"

definition line_command :: "string \<Rightarrow> string \<Rightarrow> string \<Rightarrow> (string \<times> string) option" where
  "line_command filePath commentToken l =
     (if skipped_line filePath (trim_space l) then None
      else comment_command commentToken (trim_space l))"

definition opening_comments :: "string \<Rightarrow> string \<Rightarrow> string list \<Rightarrow> string list" where
  "opening_comments filePath commentToken = takeWhile (\<lambda>l. \<not> code_line filePath commentToken l)"

lemma commands_of_opening:
  "map_of (commands_of fp tok ls m) =
     map_of m ++ map_of (rev (List.map_filter (line_command fp tok) (opening_comments fp tok ls)))"
proof (induction ls arbitrary: m)
  case (Cons l ls)
  show ?case
  proof (cases "code_line fp tok l")
    case True
    then show ?thesis by (simp add: opening_comments_def code_line_def map_filter_simps)
  next
    case False
    then have o: "opening_comments fp tok (l # ls) = l # opening_comments fp tok ls"
      by (simp add: opening_comments_def)
    show ?thesis
    proof (cases "line_command fp tok l")
      case None
      then have "commands_of fp tok (l # ls) m = commands_of fp tok ls m"
        using False by (auto simp: line_command_def code_line_def split: if_splits)
      then show ?thesis using Cons.IH None by (simp add: o map_filter_simps)
    next
      case (Some kv)
      obtain k v where kv: "kv = (k, v)" by (cases kv)
      have "commands_of fp tok (l # ls) m = commands_of fp tok ls (gomap_put k v m)"
        using False Some kv by (auto simp: line_command_def code_line_def split: if_splits)
      then show ?thesis
        using Cons.IH [of "gomap_put k v m"] Some kv
        by (simp add: o map_filter_simps map_add_assoc fun_upd_def [of "map_of m"])
    qed
  qed
qed (simp add: opening_comments_def map_filter_simps)

lemma opening_comments_append:
  "code_line fp tok l \<Longrightarrow>
     opening_comments fp tok (ls @ l # ls') = opening_comments fp tok (ls @ l # ls'')"
  by (induction ls) (simp_all add: opening_comments_def)

section \<open>The resolver\<close>

record ResolvedHelm =
  rh_FileName :: string
  rh_Content :: string
  rh_OriginalData :: string
  rh_SplitID :: string
  rh_IDInfo :: "(int, (int, int) gomap) gomap option"

record HelmFiles =
  hf_File :: "ResolvedHelm list"
  hf_Excluded :: "string list"

definition KindCOMMON :: FileKind where "KindCOMMON = ''*''"

record kindResolver =
  kr_Resolve :: "string \<Rightarrow> string + HelmFiles"
  kr_SupportedTypes :: "FileKind list"

type_synonym Resolver = "(FileKind, kindResolver) gomap"

definition Resolver_Build :: "kindResolver list \<Rightarrow> Resolver" where
  "Resolver_Build b =
     foldl (\<lambda>m resolver. foldl (\<lambda>m typeRes. gomap_put typeRes resolver m) m (kr_SupportedTypes resolver)) [] b"

definition Resolve :: "Resolver \<Rightarrow> string \<Rightarrow> FileKind \<Rightarrow> string + HelmFiles" where
  "Resolve r filePath kind =
     (case map_of r kind of
        Some kr \<Rightarrow> kr_Resolve kr filePath
      | None \<Rightarrow> Inr \<lparr>hf_File = [], hf_Excluded = []\<rparr>)"

definition GetType :: "filesys \<Rightarrow> string \<Rightarrow> FileKind" where
  "GetType fs filePath =
     (case fs_stat fs (path_join filePath ''Chart.yaml'') of Inr _ \<Rightarrow> KindHELM | Inl _ \<Rightarrow> KindCOMMON)"

section \<open>Properties\<close>

definition example_fs :: filesys where
  "example_fs =
     \<lparr>fs_stat = (\<lambda>p. Inr False), fs_read = (\<lambda>p. Inr []), fs_is_text = (\<lambda>c. True)\<rparr>"

definition example_parser :: "unit Parser" where
  "example_parser =
     \<lparr>p_parsers =
        \<lparr>kp_GetKind = KindTerraform, kp_GetCommentToken = ''#'', kp_SupportedExtensions = [''.tf''],
         kp_SupportedTypes = [(''terraform'', True)],
         kp_Parse = (\<lambda>p c s. (Inr ([[(''resource'', JStr c), (''_kics_lines'', JNull)]], [3, 1]), s)),
         kp_Resolve = (\<lambda>c f b n s. (Inr c, s)), kp_StringifyContent = Inr,
         kp_GetResolvedFiles = (\<lambda>s. [])\<rparr>,
      p_extensions = [(''.tf'', ())], p_Platform = [''terraform'']\<rparr>"

lemma example_valid: "isValidExtension example_fs example_parser ''a.tf''"
  by (simp add: isValidExtension_def GetExtension_def example_fs_def example_parser_def path_ext_def)

text \<open>The commands of a file are those of the comments before its first line of code, the
  last one for each key; lines after the first line of code have no effect on them.\<close>

lemma comments_commands_opening:
  assumes "isValidExtension fs c filePath"
    and "tok = kp_GetCommentToken (p_parsers c)" and "tok \<noteq> []"
  shows "map_of (CommentsCommands fs c filePath content0) =
       map_of (rev (List.map_filter (line_command filePath tok)
         (opening_comments filePath tok (split_on content0 [CHR 0x0A])))) \<and>
     (\<forall>ls l ls' ls''. code_line filePath tok l \<longrightarrow>
        split_on content0 [CHR 0x0A] = ls @ l # ls' \<longrightarrow>
        split_on content1 [CHR 0x0A] = ls @ l # ls'' \<longrightarrow>
        map_of (CommentsCommands fs c filePath content1) =
          map_of (CommentsCommands fs c filePath content0))"
proof -
  have c: "map_of (CommentsCommands fs c filePath x) =
       map_of (rev (List.map_filter (line_command filePath tok)
         (opening_comments filePath tok (split_on x [CHR 0x0A]))))" for x
    using assms by (simp add: CommentsCommands_def commands_of_opening)
  show ?thesis
    unfolding c using opening_comments_append by (metis (no_types))
qed

end
