(* ===== verification/DetectHelper.thy ===== *)
theory DetectHelper
  imports ModelTypes
begin

text \<open>
  \<open>pkg/detector/helper.go\<close>: how the line of a result is searched for. \<open>GetBracketValues\<close> takes
  the bracketed parts out of a search key, \<open>GenerateSubstrings\<close> turns one part of the key into
  what to look for in a line, \<open>DetectCurrentLine\<close> picks the nearest line by edit distance, and
  \<open>GetAdjacentVulnLines\<close> cuts the lines to show. \<open>lev\<close> stands for
  \<open>levenshtein.ComputeDistance\<close> of the package \<open>github.com/agnivade/levenshtein\<close>, and \<open>r\<close>
  for the order in which Go ranges over the map of distances.
\<close>

definition MaxInteger :: int where "MaxInteger = 2 ^ 63 - 1"

section \<open>GetBracketValues\<close>

text \<open>
  The loop that moves \<open>firstClose\<close> behind \<open>firstOpen\<close>. It may not end, so it is a partial
  function: \<open>None\<close> when the loop runs forever.
\<close>

partial_function (option) adjust_close :: "string \<Rightarrow> int \<Rightarrow> int \<Rightarrow> int option" where
  "adjust_close expr firstOpen firstClose =
     (if firstOpen > firstClose \<and> firstClose \<noteq> - 1
      then do {
        rest \<leftarrow> slice_from expr firstOpen;
        adjust_close expr firstOpen (index_of rest ''}}'' + firstOpen)
      }
      else Some firstClose)"

declare adjust_close.simps [code]

text \<open>The loop that advances over the braces of \<open>}}}\<close>\<close>

function skip_braces :: "string \<Rightarrow> int \<Rightarrow> int" where
  "skip_braces expr firstClose =
     (if firstClose + 2 < int (length expr) \<and> at expr (firstClose + 2) = Some (CHR ''}'') \<and>
         firstClose \<noteq> - 1
      then skip_braces expr (firstClose + 1) else firstClose)"
  by pat_completeness auto
termination
  by (relation "measure (\<lambda>(expr, c). nat (int (length expr) - c))") auto

declare skip_braces.simps [simp del]

lemma skip_braces_ge: "c \<le> skip_braces expr c"
proof (induction expr c rule: skip_braces.induct)
  case (1 expr c)
  then show ?case by (subst skip_braces.simps) (auto split: if_splits)
qed

lemma skip_braces_le: "c + 2 \<le> int (length expr) \<Longrightarrow> skip_braces expr c + 2 \<le> int (length expr)"
proof (induction expr c rule: skip_braces.induct)
  case (1 expr c)
  then show ?case by (subst skip_braces.simps) (auto split: if_splits)
qed

lemma skip_braces_none [simp]: "skip_braces expr (- 1) = - 1"
  by (subst skip_braces.simps) simp

lemma adjust_close_keep: "\<not> (fo > fc \<and> fc \<noteq> - 1) \<Longrightarrow> adjust_close expr fo fc = Some fc"
  by (subst adjust_close.simps) auto

lemma bracket_empty: "index_of [] (c # sub) = - 1"
  by (simp add: index_of_def)

text \<open>
  \<open>tempList\<close> always has two entries: the list holds pairs. The recursion ends: the text still to
  be read shrinks, or, when only \<open>restOfString\<close> is left, it becomes the expression.
\<close>

function GetBracketValues ::
  "string \<Rightarrow> (string \<times> string) list \<Rightarrow> string \<Rightarrow> (string \<times> string) list option" where
  "GetBracketValues expr lst restOfString = do {
     let firstOpen = index_of expr ''{{'';
     firstClose0 \<leftarrow> adjust_close expr firstOpen (index_of expr ''}}'');
     let firstClose = skip_braces expr firstClose0;
     let t = firstClose - firstOpen;
     if t \<ge> 0 then do {
       let lst' = (if t = 0 \<and> expr \<noteq> [] then lst @ [(''{{'' @ expr @ ''}}'', expr)] else lst);
       if t = 0 \<and> restOfString = [] then Some lst'
       else if t > 0 \<and> firstOpen + 2 \<le> firstClose then do {
         inner \<leftarrow> slice expr (firstOpen + 2) firstClose;
         after \<leftarrow> slice_from expr (firstClose + 2);
         GetBracketValues inner lst' after
       }
       else GetBracketValues restOfString lst' []
     }
     else do {
       let nextClose = index_of restOfString ''}}'';
       let tempNextClose =
         (if nextClose + 2 = int (length restOfString) then nextClose else nextClose + 2);
       upTo \<leftarrow> slice restOfString 0 tempNextClose;
       after \<leftarrow> slice_from restOfString (nextClose + 2);
       GetBracketValues after
         (lst @ [(''{{'' @ expr @ ''}}'' @ upTo @ ''}}'', expr @ ''}}'' @ upTo)]) []
     }
   }"
  by pat_completeness auto

termination
proof (relation "measures [\<lambda>(expr, lst, rest). length expr + length rest, \<lambda>(expr, lst, rest). length rest]",
    goal_cases)
  case 1
  show ?case by simp
next
  case (2 expr lst rest fo c0 fc t lst' inner after)
  have "int (length inner) = fc - (fo + 2)" and "int (length after) = int (length expr) - (fc + 2)"
    using 2 slice_length slice_from_length by blast+
  moreover have "- 1 \<le> fo" using 2 index_of_ge by simp
  ultimately have "length inner + length after < length expr" by linarith
  then show ?case by simp
next
  case (3 expr lst rest fo c0 fc t lst')
  show ?case
  proof (cases "expr = []")
    case True
    then have "fo = - 1" using 3 by (simp add: bracket_empty)
    moreover have "c0 = - 1" using 3 True \<open>fo = - 1\<close> by (simp add: bracket_empty adjust_close_keep)
    ultimately have "t = 0" using 3 by simp
    then show ?thesis using 3 True by simp
  qed simp
next
  case (4 expr lst rest fo c0 fc t nextClose tempNextClose upTo after)
  have "int (length after) = int (length rest) - (nextClose + 2)"
    using 4 slice_from_length by blast
  moreover have "- 1 \<le> nextClose" using 4 index_of_ge by simp
  ultimately have "length after < length rest" by linarith
  then show ?case by simp
qed

declare GetBracketValues.simps [simp del]

text \<open>
  A call on an expression with an opening bracket, closed after \<open>b\<close>, and with no brace in \<open>a\<close>
  and \<open>b\<close>; and a call on an expression with no brace at all.
\<close>

definition plain :: "string \<Rightarrow> bool" where
  "plain s \<longleftrightarrow> CHR ''{'' \<notin> set s \<and> CHR ''}'' \<notin> set s"

definition bracketed :: "string \<Rightarrow> string \<times> string" where
  "bracketed s = (''{{'' @ s @ ''}}'', s)"

lemma plain_simps [simp]: "plain []" "plain (c # s) \<longleftrightarrow> c \<noteq> CHR ''{'' \<and> c \<noteq> CHR ''}'' \<and> plain s"
  by (auto simp: plain_def)

lemma plain_index: "plain s \<Longrightarrow> index_of s ''{{'' = - 1" "plain s \<Longrightarrow> index_of s ''}}'' = - 1"
  by (simp_all add: plain_def index_of_def index_nat_absent)

lemma bracket_values_plain:
  assumes "plain expr"
  shows "GetBracketValues expr lst rest =
    (if rest = [] then Some (if expr = [] then lst else lst @ [bracketed expr])
     else GetBracketValues rest (if expr = [] then lst else lst @ [bracketed expr]) [])"
  using plain_index [OF assms]
  by (subst GetBracketValues.simps) (simp add: adjust_close_keep bracketed_def)

lemma bracket_open_close:
  assumes "plain a" and "plain b"
  shows "index_of (a @ ''{{'' @ b @ ''}}'' @ x) ''{{'' = int (length a)"
    and "index_of (a @ ''{{'' @ b @ ''}}'' @ x) ''}}'' = int (length a + 2 + length b)"
proof -
  have "index_nat (a @ CHR ''{'' # ''{'' @ (b @ ''}}'' @ x)) (CHR ''{'' # ''{'') = Some (length a)"
    using assms by (intro index_nat_first) (simp add: plain_def)
  then show "index_of (a @ ''{{'' @ b @ ''}}'' @ x) ''{{'' = int (length a)"
    by (simp add: index_of_def)
  have "index_nat ((a @ ''{{'' @ b) @ CHR ''}'' # ''}'' @ x) (CHR ''}'' # ''}'') =
      Some (length (a @ ''{{'' @ b))"
    using assms by (intro index_nat_first) (simp add: plain_def)
  then show "index_of (a @ ''{{'' @ b @ ''}}'' @ x) ''}}'' = int (length a + 2 + length b)"
    by (simp add: index_of_def)
qed

lemma skip_braces_stop:
  "at expr (c + 2) \<noteq> Some (CHR ''}'') \<Longrightarrow> skip_braces expr c = c"
  by (subst skip_braces.simps) simp

lemma bracket_values_step:
  assumes "index_of e ''{{'' = fo" and "index_of e ''}}'' = fc" and "0 \<le> fo" and "fo + 2 \<le> fc"
    and "skip_braces e fc = fc" and "slice e (fo + 2) fc = Some b" and "slice_from e (fc + 2) = Some x"
  shows "GetBracketValues e lst rest = GetBracketValues b lst x"
  using assms by (subst GetBracketValues.simps) (simp add: adjust_close_keep)

lemma bracket_values_open:
  assumes ab: "plain a" "plain b" and x: "\<not> has_prefix x ''}''"
  shows "GetBracketValues (a @ ''{{'' @ b @ ''}}'' @ x) lst rest = GetBracketValues b lst x"
proof -
  let ?e = "a @ ''{{'' @ b @ ''}}'' @ x"
  let ?fc = "int (length a + 2 + length b)"
  note oc = bracket_open_close [OF ab, of x]
  have "at ?e (?fc + 2) \<noteq> Some (CHR ''}'')"
    using x by (cases x) (auto simp: at_def nth_append nat_add_distrib)
  then have skip: "skip_braces ?e ?fc = ?fc" by (rule skip_braces_stop)
  have inner: "slice ?e (int (length a) + 2) ?fc = Some b"
    by (simp add: slice_def nat_add_distrib)
  have after: "slice_from ?e (?fc + 2) = Some x"
    by (simp add: slice_from_def slice_def nat_add_distrib eval_nat_numeral)
  show ?thesis
    by (rule bracket_values_step [OF oc _ _ skip inner after]) simp_all
qed

text \<open>A key written as pieces of plain text, each followed by a bracketed value\<close>

fun render :: "(string \<times> string) list \<Rightarrow> string \<Rightarrow> string" where
  "render [] rest = rest"
| "render ((a, b) # segs) rest = a @ ''{{'' @ b @ ''}}'' @ render segs rest"

lemma render_no_close:
  "\<forall>(a, b) \<in> set segs. plain a \<Longrightarrow> plain rest \<Longrightarrow> \<not> has_prefix (render segs rest) ''}''"
proof (cases segs)
  case Nil
  assume "plain rest"
  with Nil show ?thesis by (cases rest) auto
next
  case (Cons s ss)
  assume "\<forall>(a, b) \<in> set segs. plain a"
  with Cons show ?thesis by (cases s; cases "fst s") auto
qed

text \<open>The loop of \<open>GetBracketValues\<close> on unbalanced brackets\<close>

lemma adjust_close_stuck:
  assumes "\<not> contains (drop (nat fo) expr) ''}}''" and "0 < fo"
  shows "adjust_close expr fo (fo - 1) = None"
proof (rule ccontr)
  assume "adjust_close expr fo (fo - 1) \<noteq> None"
  then obtain c where c: "adjust_close expr fo (fo - 1) = Some c" by blast
  have "expr = expr \<and> fo = fo \<longrightarrow> fo - 1 \<noteq> fo - 1"
  proof (rule adjust_close.raw_induct [where P = "\<lambda>e o' fc c. e = expr \<and> o' = fo \<longrightarrow> fc \<noteq> fo - 1",
        OF _ c])
    fix f e o' fc c
    assume IH: "\<And>e o' fc c. f e o' fc = Some c \<Longrightarrow> e = expr \<and> o' = fo \<longrightarrow> fc \<noteq> fo - 1"
      and eq: "(if o' > fc \<and> fc \<noteq> - 1
        then do { rest \<leftarrow> slice_from e o'; f e o' (index_of rest ''}}'' + o') } else Some fc) = Some c"
    show "e = expr \<and> o' = fo \<longrightarrow> fc \<noteq> fo - 1"
    proof (intro impI notI)
      assume eo: "e = expr \<and> o' = fo" and fc: "fc = fo - 1"
      then have "f expr fo (index_of (drop (nat fo) expr) ''}}'' + fo) = Some c"
        using eq assms(2)
        by (auto simp: slice_from_def slice_def split: if_splits Option.bind_splits)
      moreover have "index_of (drop (nat fo) expr) ''}}'' = - 1"
        using assms(1) by (simp add: index_of_minus_one)
      ultimately have "f expr fo (fo - 1) = Some c" by simp
      then show False using IH by blast
    qed
  qed
  then show False by simp
qed

lemma adjust_close_loops:
  assumes "0 \<le> fc" and "fc < fo" and "fo \<le> int (length expr)"
    and "\<not> contains (drop (nat fo) expr) ''}}''"
  shows "adjust_close expr fo fc = None"
proof -
  have "slice_from expr fo = Some (drop (nat fo) expr)"
    using assms by (simp add: slice_from_Some_iff)
  moreover have "index_of (drop (nat fo) expr) ''}}'' = - 1"
    using assms(4) by (simp add: index_of_minus_one)
  ultimately show ?thesis
    using assms adjust_close_stuck [OF assms(4)]
    by (subst adjust_close.simps) simp
qed

lemma bracket_values_render:
  assumes "\<forall>(a, b) \<in> set segs. plain a \<and> plain b" and "plain rest"
  shows "GetBracketValues (render segs rest) lst [] =
    Some (lst @ map bracketed (filter (\<lambda>s. s \<noteq> []) (map snd segs @ [rest])))"
  using assms(1)
proof (induction segs arbitrary: lst)
  case Nil
  then show ?case using assms(2) by (simp add: bracket_values_plain)
next
  case (Cons s segs)
  obtain a b where s: "s = (a, b)" by force
  with Cons.prems have "plain a" "plain b" by auto
  moreover have "\<not> has_prefix (render segs rest) ''}''"
    using Cons.prems assms(2) by (intro render_no_close) auto
  ultimately have "GetBracketValues (render (s # segs) rest) lst [] =
      GetBracketValues b lst (render segs rest)"
    using bracket_values_open s by simp
  moreover have "render segs rest = [] \<Longrightarrow> segs = [] \<and> rest = []"
    by (cases segs) auto
  ultimately show ?case
    using Cons \<open>plain b\<close> s by (auto simp: bracket_values_plain)
qed

text \<open>What holds of every bracketed pair holds of all that \<open>GetBracketValues\<close> returns.\<close>

lemma bracket_values_all:
  assumes "GetBracketValues e l rest = Some out" and "\<forall>x \<in> set l. P x"
    and "\<And>inner str. P (''{{'' @ inner @ ''}}'', str)"
  shows "\<forall>x \<in> set out. P x"
  using assms(1,2)
proof (induction e l rest rule: GetBracketValues.induct)
  case (1 e l rest)
  have add: "\<forall>x \<in> set (if c then l @ [(''{{'' @ x @ ''}}'', y)] else l). P x" for c x y
    using "1.prems"(2) assms(3) [of x y] by auto
  have one: "P (''{{'' @ a @ ''}}'' @ b @ ''}}'', y)" for a b y
    using assms(3) [of "a @ ''}}'' @ b" y] by simp
  obtain c0 where c0: "adjust_close e (index_of e ''{{'') (index_of e ''}}'') = Some c0"
    using "1.prems"(1) by (subst (asm) GetBracketValues.simps) (auto simp: Let_def split: Option.bind_splits)
  note prem = "1.prems"(1) [unfolded GetBracketValues.simps [of e l rest] Let_def c0 Option.bind.simps]
  show ?case
  proof (cases "skip_braces e c0 - index_of e ''{{'' \<ge> 0")
    case True
    note prem1 = prem [unfolded if_P [OF True]]
    note IH = "1.IH"(1,2) [OF refl c0 refl refl True refl]
    from prem1 IH add assms(3) [of e e] show ?thesis
      by (auto split: if_splits Option.bind_splits)
  next
    case False
    from prem [unfolded if_not_P [OF False]] "1.IH"(3) [OF refl c0 refl refl False refl refl] "1.prems"(2) one
    show ?thesis by (auto split: if_splits Option.bind_splits)
  qed
qed

section \<open>Properties of GetBracketValues\<close>

text \<open>On a search key whose brackets are balanced and not nested, \<open>GetBracketValues\<close> returns
  each bracketed value in order, then the text after the last bracket, leaving out what is
  empty.\<close>

lemma get_bracket_values_balanced:
  assumes "\<forall>(a, b) \<in> set segs. plain a \<and> plain b" and "plain rest"
  shows "GetBracketValues (render segs rest) lst [] =
    Some (lst @ map bracketed (filter (\<lambda>s. s \<noteq> []) (map snd segs @ [rest])))"
  by (rule bracket_values_render [OF assms])

text \<open>A key in which a closing bracket comes before the first opening one, and none comes
  after it, sends \<open>GetBracketValues\<close> into an endless loop: \<open>firstClose\<close> is set to the same
  position again and again.\<close>

lemma get_bracket_values_hangs:
  assumes "contains expr ''}}''" and "index_of expr ''}}'' < index_of expr ''{{''"
    and "\<not> contains (drop (nat (index_of expr ''{{'')) expr) ''}}''"
  shows "adjust_close expr (index_of expr ''{{'') (index_of expr ''}}'') = None \<and>
    GetBracketValues expr lst restOfString = None"
proof -
  have "0 \<le> index_of expr ''}}''" using index_of_bound [OF assms(1)] by simp
  moreover have "index_of expr ''{{'' \<le> int (length expr)"
    using index_of_le [of expr "''{{''"] by auto
  ultimately have a: "adjust_close expr (index_of expr ''{{'') (index_of expr ''}}'') = None"
    using assms by (intro adjust_close_loops) auto
  then have "GetBracketValues expr lst restOfString = None"
    by (subst GetBracketValues.simps) simp
  with a show ?thesis by blast
qed

text \<open>A key with an opening bracket and no closing one makes \<open>GetBracketValues\<close> slice past
  the end of the empty rest of the string: it panics.\<close>

lemma get_bracket_values_unclosed_panics:
  assumes "contains expr ''{{''" and "\<not> contains expr ''}}''"
  shows "index_of [] ''}}'' + 2 = 1 \<and> slice ([] :: string) 0 1 = None \<and>
    GetBracketValues expr lst [] = None"
proof -
  have "0 \<le> index_of expr ''{{''" using index_of_bound [OF assms(1)] by simp
  moreover have "index_of expr ''}}'' = - 1" using assms(2) by (simp add: index_of_minus_one)
  ultimately show ?thesis
    by (subst GetBracketValues.simps) (simp add: adjust_close_keep bracket_empty slice_def)
qed

end
