(* ===== verification/LineSearch.thy ===== *)
theory LineSearch
  imports DetectHelper
begin

text \<open>
  The rest of \<open>pkg/detector/helper.go\<close>: from one part of a search key to a line of the file.
  \<open>lev\<close> stands for \<open>levenshtein.ComputeDistance\<close>.
\<close>

section \<open>GenerateSubstrings\<close>

text \<open>The loop that puts the bracketed values back for their placeholders\<close>

fun replace_placeholders :: "nat \<Rightarrow> (string \<times> string) list \<Rightarrow> string \<Rightarrow> string" where
  "replace_placeholders idx [] key = key"
| "replace_placeholders idx ((s0, s1) # extracted) key =
     replace_placeholders (Suc idx) extracted
       (go_replace key (''{{'' @ itoa (int idx) @ ''}}'') s0 1)"

definition looksLikeListAttribute :: "string \<Rightarrow> string list \<Rightarrow> bool" where
  "looksLikeListAttribute attrName lines =
     list_ex (\<lambda>line. has_prefix (trim_space line) (attrName @ '' = ['')) lines"

fun resolveListIndex :: "string \<Rightarrow> int \<Rightarrow> string list \<Rightarrow> string option" where
  "resolveListIndex attrName index [] = Some []"
| "resolveListIndex attrName index (line # lines) =
     (let trimmed = trim_space line in
      if has_prefix trimmed (attrName @ '' = ['') then
        (let start = index_of trimmed ''[''; end' = index_of trimmed '']'' in
         if start \<ge> 0 \<and> end' > start then do {
           inside \<leftarrow> slice trimmed (start + 1) end';
           let items = split_on inside '','';
           if index < int (length items) then do {
             item \<leftarrow> at items index;
             Some (trim_set (trim_space item) [CHR 0x22])
           }
           else resolveListIndex attrName index lines
         }
         else resolveListIndex attrName index lines)
      else resolveListIndex attrName index lines)"

text \<open>The last loop: the value of the first assignment to \<open>substr1\<close> from the current line on\<close>

fun value_from_lines :: "string \<Rightarrow> string list \<Rightarrow> string" where
  "value_from_lines substr1 [] = []"
| "value_from_lines substr1 (line0 # lines) =
     (let line = trim_space line0 in
      if has_prefix line (substr1 @ '' ='') then
        (case split_two line ''='' of [a, b] \<Rightarrow> trim_space b | _ \<Rightarrow> [])
      else value_from_lines substr1 lines)"

text \<open>
  \<open>GenerateSubstrings\<close> in the cases of its source: an index \<open>base[n]\<close> or a map key
  \<open>base["k"]\<close>, and otherwise \<open>key = value\<close>. \<open>currentLine\<close> is not negative.
\<close>

definition strip_bracket_value :: "string \<Rightarrow> string" where
  "strip_bracket_value s =
     (let bracketValue = trim_set s [CHR 0x22, CHR 0x27] in
      if has_prefix bracketValue ''{{'' \<and> has_suffix bracketValue ''}}''
      then trim_suffix (trim_prefix bracketValue ''{{'') ''}}'' else bracketValue)"

definition index_substrings ::
  "string \<Rightarrow> string \<Rightarrow> string list \<Rightarrow> (string \<times> string) option" where
  "index_substrings base bracketValue lines =
     (case atoi bracketValue of
        Some index \<Rightarrow>
          (if looksLikeListAttribute base lines
           then map_option (Pair base) (resolveListIndex base index lines)
           else Some (base, []))
      | None \<Rightarrow> Some (base, bracketValue))"

definition fallback_substrings :: "string \<Rightarrow> string list \<Rightarrow> int \<Rightarrow> string \<times> string" where
  "fallback_substrings key lines currentLine =
     (let parts = split_two key ''='';
          substr1 = trim_space (hd parts);
          substr2 = (case parts of [a, b] \<Rightarrow> trim_space b | _ \<Rightarrow> [])
      in if substr2 = [] \<and> substr1 \<noteq> []
         then (substr1, value_from_lines substr1 (drop (nat currentLine) lines))
         else (substr1, substr2))"

definition GenerateSubstrings ::
  "string \<Rightarrow> (string \<times> string) list \<Rightarrow> string list \<Rightarrow> int \<Rightarrow> (string \<times> string) option" where
  "GenerateSubstrings key0 extracted lines currentLine =
     (let key = replace_placeholders 0 extracted key0;
          start = index_of key ''['';
          end' = last_index_of key '']''
      in if contains key ''['' \<and> has_suffix key '']'' \<and> start > 0 \<and> end' > start then do {
           base \<leftarrow> slice key 0 start;
           bracketValue \<leftarrow> slice key (start + 1) end';
           index_substrings base (strip_bracket_value bracketValue) lines
         }
         else Some (fallback_substrings key lines currentLine))"

section \<open>The lines around a result\<close>

fun createVulnLines :: "int \<Rightarrow> string list \<Rightarrow> CodeLine list" where
  "createVulnLines startPos [] = []"
| "createVulnLines startPos (line # lines) =
     \<lparr>Position = startPos, CodeText = line\<rparr> # createVulnLines (startPos + 1) lines"

definition GetAdjacentVulnLines :: "int \<Rightarrow> int \<Rightarrow> string list \<Rightarrow> CodeLine list option" where
  "GetAdjacentVulnLines idx adj0 lines =
     (let n = int (length lines);
          (adj, startPos, endPos) =
            (if adj0 \<le> n then
               (let endPos0 = idx + go_div adj0 2 + 1;
                    endPos = (if n < endPos0 then n else endPos0);
                    startAdj = (if even adj0 then adj0 - 1 else adj0);
                    startPos0 = idx - go_div startAdj 2;
                    startPos = (if startPos0 < 0 then 0 else startPos0)
                in (adj0, startPos, endPos))
             else (n, 0, n))
      in if idx = 0 then map_option (createVulnLines 1) (slice lines 0 adj)
         else if idx = n - 1 then
           map_option (createVulnLines (n - adj + 1)) (slice_from lines (n - adj))
         else map_option (createVulnLines (startPos + 1)) (slice lines startPos endPos))"

section \<open>The nearest line\<close>

definition min_step :: "int \<times> int \<Rightarrow> int \<times> int \<Rightarrow> int \<times> int" where
  "min_step best entry =
     (let (minDistance, lineOfMinDistance) = best; (line, distance) = entry in
      if distance < minDistance \<or> distance = minDistance \<and> line < lineOfMinDistance
      then (distance, line) else best)"

definition SelectLineWithMinimumDistance ::
  "((int, int) gomap \<Rightarrow> (int, int) gomap) \<Rightarrow> (int, int) gomap \<Rightarrow> int \<Rightarrow> int" where
  "SelectLineWithMinimumDistance r distances startingFrom =
     snd (foldl min_step (MaxInteger, startingFrom) (r distances))"

text \<open>The two loops of \<open>ExtractLineFragment\<close>, which look for a space on each side\<close>

function back_to_space :: "string \<Rightarrow> int \<Rightarrow> int option" where
  "back_to_space line start =
     (if start \<ge> 0 then
        (case at line start of
           None \<Rightarrow> None
         | Some c \<Rightarrow> if c = CHR '' '' then Some start else back_to_space line (start - 1))
      else Some start)"
  by pat_completeness auto
termination
  by (relation "measure (\<lambda>(line, i). nat (i + 1))") auto

function forward_to_space :: "string \<Rightarrow> int \<Rightarrow> int option" where
  "forward_to_space line end' =
     (if end' < int (length line) then
        (case at line end' of
           None \<Rightarrow> None
         | Some c \<Rightarrow> if c = CHR '' '' then Some end' else forward_to_space line (end' + 1))
      else Some end')"
  by pat_completeness auto
termination
  by (relation "measure (\<lambda>(line, i). nat (int (length line) - i))") auto

declare back_to_space.simps [simp del] forward_to_space.simps [simp del]

definition removeExtras :: "string \<Rightarrow> int \<Rightarrow> int \<Rightarrow> string option" where
  "removeExtras result start end0 = do {
     c1 \<leftarrow> at result (end0 - 1);
     let end1 = (if c1 = CHR '':'' then end0 - 1 else end0);
     c2 \<leftarrow> at result (end1 - 1);
     let end2 = (if c2 = CHR 0x22 then end1 - 1 else end1);
     c3 \<leftarrow> at result (start + 1);
     let start1 = (if c3 = CHR 0x22 then start + 1 else start);
     slice result (start1 + 1) end2
   }"

definition ExtractLineFragment :: "string \<Rightarrow> string \<Rightarrow> bool \<Rightarrow> string option" where
  "ExtractLineFragment line substr key =
     (let idx = index_of line '':'' in
      if key \<and> idx \<ge> 0 then slice line 0 idx
      else do {
        let start0 = index_of line substr;
        start \<leftarrow> back_to_space line start0;
        end' \<leftarrow> forward_to_space line (start0 + int (length substr));
        removeExtras line start end'
      })"

section \<open>DetectCurrentLine\<close>

record DefaultDetectLineResponse =
  CurrentLine :: int
  IsBreak :: bool
  FoundAtLeastOne :: bool
  d_ResolvedFile :: string
  d_ResolvedFiles :: "(string, ResolvedFileSplit) gomap"

text \<open>The regular expression \<open>^\s+\<close>, replaced by nothing\<close>

definition strip_leading_space :: "string \<Rightarrow> string" where
  "strip_leading_space line =
     dropWhile (\<lambda>c. c \<in> {CHR 0x09, CHR 0x0A, CHR 0x0C, CHR 0x0D, CHR 0x20}) line"

type_synonym distance = "string \<Rightarrow> string \<Rightarrow> int"

definition checkLine ::
  "distance \<Rightarrow> string \<Rightarrow> string \<Rightarrow> (int, int) gomap \<Rightarrow> string \<Rightarrow> int \<Rightarrow> (int, int) gomap option" where
  "checkLine lev str1 str2 distances line0 i =
     (let line = strip_leading_space line0 in
      if str1 \<noteq> [] \<and> str2 \<noteq> [] \<and> contains line str1 then do {
        restLine \<leftarrow> slice_from line (index_of line str1 + int (length str1));
        if contains restLine str2 then do {
          f1 \<leftarrow> ExtractLineFragment line str1 False;
          f2 \<leftarrow> ExtractLineFragment restLine str2 False;
          Some (gomap_put i (lev f1 str1 + lev f2 str2) distances)
        }
        else Some distances
      }
      else if str1 \<noteq> [] \<and> contains line str1 then do {
        f1 \<leftarrow> ExtractLineFragment line str1 False;
        Some (gomap_put i (lev f1 str1) distances)
      }
      else Some distances)"

definition is_comment_line :: "string \<Rightarrow> bool" where
  "is_comment_line l \<longleftrightarrow> has_prefix (trim_space l) ''#'' \<or> has_prefix (trim_space l) ''//''"

fun line_distances ::
  "distance \<Rightarrow> string \<Rightarrow> string \<Rightarrow> int \<Rightarrow> string list \<Rightarrow> (int, int) gomap \<Rightarrow> (int, int) gomap option" where
  "line_distances lev str1 str2 i [] distances = Some distances"
| "line_distances lev str1 str2 i (line # lines) distances =
     (if is_comment_line line then line_distances lev str1 str2 (i + 1) lines distances
      else do {
        d \<leftarrow> checkLine lev str1 str2 distances line i;
        line_distances lev str1 str2 (i + 1) lines d
      })"

definition DetectCurrentLine ::
  "distance \<Rightarrow> ((int, int) gomap \<Rightarrow> (int, int) gomap) \<Rightarrow> string \<Rightarrow> string \<Rightarrow> string list \<Rightarrow>
     DefaultDetectLineResponse \<Rightarrow> DefaultDetectLineResponse option" where
  "DetectCurrentLine lev r str1 str2 lines d = do {
     distances \<leftarrow> line_distances lev str1 str2 (CurrentLine d) (drop (nat (CurrentLine d)) lines) [];
     if length distances = 0 then Some (d\<lparr>IsBreak := True\<rparr>)
     else Some (d\<lparr>CurrentLine := SelectLineWithMinimumDistance r distances (CurrentLine d),
                 IsBreak := False, FoundAtLeastOne := True\<rparr>)
   }"

section \<open>Lemmas\<close>

lemma createVulnLines_length [simp]: "length (createVulnLines p ls) = length ls"
  by (induction p ls rule: createVulnLines.induct) auto

lemma createVulnLines_nth:
  "i < length ls \<Longrightarrow> createVulnLines p ls ! i = \<lparr>Position = p + int i, CodeText = ls ! i\<rparr>"
proof (induction p ls arbitrary: i rule: createVulnLines.induct)
  case (2 p l ls)
  then show ?case by (cases i) auto
qed simp

text \<open>The window of lines that \<open>GetAdjacentVulnLines\<close> cuts\<close>

lemma adjacent_window:
  assumes "0 \<le> idx" and "idx < int (length lines)" and "1 \<le> adj"
  shows "\<exists>a b. 0 \<le> a \<and> a \<le> idx \<and> idx < b \<and> b \<le> int (length lines) \<and> b - a \<le> adj \<and>
    GetAdjacentVulnLines idx adj lines =
      Some (createVulnLines (a + 1) (take (nat (b - a)) (drop (nat a) lines)))"
proof -
  let ?n = "int (length lines)"
  consider (first) "idx = 0" | (last) "idx \<noteq> 0" "idx = ?n - 1"
    | (middle) "idx \<noteq> 0" "idx \<noteq> ?n - 1" by blast
  then show ?thesis
  proof cases
    case first
    let ?b = "min adj ?n"
    have "GetAdjacentVulnLines idx adj lines = Some (createVulnLines 1 (take (nat ?b) lines))"
      using assms first by (auto simp: GetAdjacentVulnLines_def Let_def slice_def)
    then show ?thesis using assms first by (intro exI [of _ 0] exI [of _ ?b]) auto
  next
    case last
    let ?a = "?n - min adj ?n"
    have "GetAdjacentVulnLines idx adj lines =
        Some (createVulnLines (?a + 1) (take (nat (?n - ?a)) (drop (nat ?a) lines)))"
      using assms last
      by (auto simp: GetAdjacentVulnLines_def Let_def slice_from_def slice_def)
    then show ?thesis using assms last by (intro exI [of _ ?a] exI [of _ ?n]) auto
  next
    case middle
    show ?thesis
    proof (cases "adj \<le> ?n")
      case True
      let ?b = "min ?n (idx + adj div 2 + 1)"
      let ?s = "if even adj then adj - 1 else adj"
      let ?a = "max 0 (idx - ?s div 2)"
      have gd: "go_div adj 2 = adj div 2" "go_div ?s 2 = ?s div 2"
        using assms(3) by (auto intro!: go_div_nonneg elim!: evenE)
      have cut: "\<And>x. (if ?n < x then ?n else x) = min ?n x" "\<And>y. (if y < 0 then 0 else y) = max (0::int) y"
        by auto
      have "GetAdjacentVulnLines idx adj lines = map_option (createVulnLines (?a + 1)) (slice lines ?a ?b)"
        using middle True unfolding GetAdjacentVulnLines_def Let_def gd cut by simp
      have d: "0 \<le> ?s div 2" "0 \<le> adj div 2" "?s div 2 + adj div 2 + 1 \<le> adj"
        using assms(3) by (auto elim!: evenE oddE)
      have bounds: "0 \<le> ?a" "?a \<le> idx" "idx < ?b" "?b \<le> ?n" "?b - ?a \<le> adj"
        using d assms by linarith+
      then have "?a \<le> ?b" by linarith
      with bounds(1,4) have "slice lines ?a ?b = Some (take (nat (?b - ?a)) (drop (nat ?a) lines))"
        by (simp only: slice_def simp_thms if_True)
      with \<open>GetAdjacentVulnLines idx adj lines = _\<close> have "GetAdjacentVulnLines idx adj lines =
          Some (createVulnLines (?a + 1) (take (nat (?b - ?a)) (drop (nat ?a) lines)))"
        by (simp only: option.map)
      with bounds show ?thesis by blast
    next
      case False
      then have "GetAdjacentVulnLines idx adj lines = Some (createVulnLines 1 lines)"
        using middle by (simp add: GetAdjacentVulnLines_def Let_def)
      then show ?thesis using assms False by (intro exI [of _ 0] exI [of _ ?n]) auto
    qed
  qed
qed

text \<open>The loop over the distances keeps the least pair of distance and line.\<close>

definition lex_le :: "int \<times> int \<Rightarrow> int \<times> int \<Rightarrow> bool" where
  "lex_le a b \<longleftrightarrow> fst a < fst b \<or> fst a = fst b \<and> snd a \<le> snd b"

lemma lex_le_trans: "lex_le a b \<Longrightarrow> lex_le b c \<Longrightarrow> lex_le a c"
  by (auto simp: lex_le_def)

lemma lex_le_refl [simp]: "lex_le a a"
  by (simp add: lex_le_def)

lemma min_step_least: "lex_le (min_step b e) b \<and> lex_le (min_step b e) (prod.swap e)"
  by (auto simp: min_step_def lex_le_def Let_def split: prod.splits)

lemma min_step_mem: "min_step b e = b \<or> min_step b e = prod.swap e"
  by (auto simp: min_step_def Let_def split: prod.splits)

lemma min_fold_least:
  "lex_le (foldl min_step b es) b \<and> (\<forall>e \<in> set es. lex_le (foldl min_step b es) (prod.swap e))"
proof (induction es arbitrary: b)
  case (Cons e es)
  from Cons.IH [of "min_step b e"] show ?case
    using min_step_least [of b e] by (auto intro: lex_le_trans)
qed simp

lemma min_fold_mem: "foldl min_step b es = b \<or> foldl min_step b es \<in> prod.swap ` set es"
proof (induction es arbitrary: b)
  case (Cons e es)
  from Cons.IH [of "min_step b e"] show ?case using min_step_mem [of b e] by auto
qed simp

lemma select_line_mem:
  assumes "range_order r"
  shows "SelectLineWithMinimumDistance r d s = s \<or> SelectLineWithMinimumDistance r d s \<in> fst ` set d"
  using min_fold_mem [of "(MaxInteger, s)" "r d"] range_order_set [OF assms, of d]
  by (force simp: SelectLineWithMinimumDistance_def)

lemma select_line_least:
  assumes "range_order r" and "d \<noteq> []" and "\<forall>(l, dist) \<in> set d. dist < MaxInteger"
  shows "\<exists>dist. (SelectLineWithMinimumDistance r d s, dist) \<in> set d \<and>
    (\<forall>(l', dist') \<in> set d. lex_le (dist, SelectLineWithMinimumDistance r d s) (dist', l'))"
proof -
  let ?m = "foldl min_step (MaxInteger, s) (r d)"
  have set: "set (r d) = set d" using range_order_set [OF assms(1)] .
  have least: "\<forall>e \<in> set d. lex_le ?m (prod.swap e)" using min_fold_least set by blast
  obtain l0 d0 where e0: "(l0, d0) \<in> set d" using assms(2) by (cases d) auto
  then have "fst ?m < MaxInteger" using least assms(3) by (fastforce simp: lex_le_def)
  then have "?m \<noteq> (MaxInteger, s)" by auto
  then have "?m \<in> prod.swap ` set d" using min_fold_mem [of "(MaxInteger, s)" "r d"] set by auto
  then have "(snd ?m, fst ?m) \<in> set d" by auto
  then show ?thesis using least unfolding SelectLineWithMinimumDistance_def
    by (intro exI [of _ "fst ?m"]) auto
qed

text \<open>The two searches for a space stop inside the line.\<close>

lemma back_to_space_spec:
  "- 1 \<le> i \<Longrightarrow> i < int (length line) \<Longrightarrow>
     \<exists>s. back_to_space line i = Some s \<and> - 1 \<le> s \<and> s \<le> i \<and> (0 \<le> s \<longrightarrow> line ! nat s = CHR '' '')"
proof (induction line i rule: back_to_space.induct)
  case (1 line i)
  show ?case
  proof (cases "0 \<le> i \<and> line ! nat i \<noteq> CHR '' ''")
    case True
    then have "at line i = Some (line ! nat i)" using 1 by (simp add: at_def)
    then show ?thesis using 1 True by (subst back_to_space.simps) force
  next
    case False
    then show ?thesis using "1.prems" by (subst back_to_space.simps) (auto simp: at_def)
  qed
qed

lemma forward_to_space_spec:
  "0 \<le> i \<Longrightarrow> i \<le> int (length line) \<Longrightarrow>
     \<exists>e. forward_to_space line i = Some e \<and> i \<le> e \<and> e \<le> int (length line)"
proof (induction line i rule: forward_to_space.induct)
  case (1 line i)
  show ?case
  proof (cases "i < int (length line) \<and> line ! nat i \<noteq> CHR '' ''")
    case True
    then have "at line i = Some (line ! nat i)" using 1 by (simp add: at_def)
    then show ?thesis using 1 True by (subst forward_to_space.simps) force
  next
    case False
    then show ?thesis using "1.prems" by (subst forward_to_space.simps) (auto simp: at_def)
  qed
qed

text \<open>
  A text to search for that holds a character other than a colon, a quote or a space: the
  fragment around it is not trimmed away.
\<close>

definition searchable :: "string \<Rightarrow> bool" where
  "searchable s \<longleftrightarrow> (\<exists>c \<in> set s. c \<noteq> CHR '':'' \<and> c \<noteq> CHR 0x22 \<and> c \<noteq> CHR '' '')"

lemma removeExtras_total:
  assumes q: "0 \<le> q" "q < int (length line)"
    and c: "line ! nat q \<noteq> CHR '':''" "line ! nat q \<noteq> CHR 0x22"
    and se: "- 1 \<le> s" "s < q" "q < e" "e \<le> int (length line)"
  shows "\<exists>f. removeExtras line s e = Some f \<and> sublist f line \<and> f \<noteq> []"
proof -
  define e1 where "e1 = (if line ! nat (e - 1) = CHR '':'' then e - 1 else e)"
  define e2 where "e2 = (if line ! nat (e1 - 1) = CHR 0x22 then e1 - 1 else e1)"
  define s1 where "s1 = (if line ! nat (s + 1) = CHR 0x22 then s + 1 else s)"
  have e1: "q < e1" "e1 \<le> e" using se c by (auto simp: e1_def) (smt (verit))
  have e2: "q < e2" "e2 \<le> e1" using e1 c by (auto simp: e2_def) (smt (verit))
  have s1: "s1 < q" "s \<le> s1" using se c by (auto simp: s1_def) (smt (verit))
  have "removeExtras line s e = slice line (s1 + 1) e2"
    using q se e1 by (simp add: removeExtras_def at_def e1_def e2_def s1_def)
  moreover have "slice line (s1 + 1) e2 = Some (take (nat (e2 - (s1 + 1))) (drop (nat (s1 + 1)) line))"
    using s1 e2 e1 se by (simp add: slice_def)
  ultimately show ?thesis
    using slice_sublist [of line "s1 + 1" e2] slice_length [of line "s1 + 1" e2] s1 e2 by force
qed

lemma fragment_total:
  assumes "contains line substr" and "searchable substr"
  shows "\<exists>f. ExtractLineFragment line substr False = Some f \<and> sublist f line \<and> f \<noteq> []"
proof -
  obtain n where n: "index_nat line substr = Some n" using assms(1) by (auto simp: contains_def)
  from index_nat_Some [OF n] have len: "n + length substr \<le> length line"
    and sub: "take (length substr) (drop n line) = substr" by auto
  obtain k where k: "k < length substr" "substr ! k \<noteq> CHR '':''" "substr ! k \<noteq> CHR 0x22"
      "substr ! k \<noteq> CHR '' ''"
    using assms(2) by (auto simp: searchable_def in_set_conv_nth)
  have at_k: "line ! (n + k) = substr ! k"
    using k(1) len sub by (metis add_leD1 nth_drop nth_take)
  obtain s where s: "back_to_space line (int n) = Some s" "- 1 \<le> s" "s \<le> int n"
      "0 \<le> s \<longrightarrow> line ! nat s = CHR '' ''"
    using back_to_space_spec [of "int n" line] k(1) len by force
  obtain e where e: "forward_to_space line (int n + int (length substr)) = Some e"
      "int n + int (length substr) \<le> e" "e \<le> int (length line)"
    using forward_to_space_spec [of "int n + int (length substr)" line] len by force
  have "s < int (n + k)"
  proof (rule ccontr)
    assume "\<not> s < int (n + k)"
    then have "s = int (n + k)" using s(3) by simp
    then have "line ! (n + k) = CHR '' ''" using s(4) by (simp flip: of_nat_add)
    then show False using at_k k(4) by simp
  qed
  then have "\<exists>f. removeExtras line s e = Some f \<and> sublist f line \<and> f \<noteq> []"
    using k len s e at_k by (intro removeExtras_total [of "int (n + k)"]) (auto simp: nat_int_add)
  then show ?thesis using s(1) e(1) n
    by (simp add: ExtractLineFragment_def index_of_def)
qed

text \<open>A line that \<open>checkLine\<close> gives a distance to\<close>

definition line_hit :: "string \<Rightarrow> string \<Rightarrow> string \<Rightarrow> bool" where
  "line_hit str1 str2 line0 \<longleftrightarrow>
     (let line = strip_leading_space line0 in
      \<not> is_comment_line line0 \<and> str1 \<noteq> [] \<and> contains line str1 \<and>
      (str2 = [] \<or> contains (drop (nat (index_of line str1) + length str1) line) str2))"

definition lev_small :: "distance \<Rightarrow> bool" where
  "lev_small lev \<longleftrightarrow> (\<forall>a b. 0 \<le> lev a b \<and> lev a b < 2 ^ 62)"

lemma checkLine_spec:
  assumes "str1 = [] \<or> searchable str1" and "str2 = [] \<or> searchable str2" and "\<not> is_comment_line line"
  shows "\<exists>v. checkLine lev str1 str2 d line i =
      Some (if line_hit str1 str2 line then gomap_put i v d else d) \<and>
      (lev_small lev \<longrightarrow> v < MaxInteger)"
proof -
  let ?l = "strip_leading_space line"
  let ?rest = "drop (nat (index_of ?l str1) + length str1) ?l"
  show ?thesis
  proof (cases "str1 \<noteq> [] \<and> contains ?l str1")
    case False
    then show ?thesis by (auto simp: checkLine_def line_hit_def Let_def MaxInteger_def intro: exI [of _ 0])
  next
    case True
    with assms(1) obtain f1 where f1: "ExtractLineFragment ?l str1 False = Some f1"
      using fragment_total by blast
    have rest: "slice_from ?l (index_of ?l str1 + int (length str1)) = Some ?rest"
      using index_of_bound [of ?l str1] True by (simp add: slice_from_Some_iff nat_add_distrib)
    show ?thesis
    proof (cases "str2 = []")
      case True
      have "lev_small lev \<longrightarrow> lev f1 str1 < MaxInteger"
      proof
        assume "lev_small lev"
        then have "lev f1 str1 < 2 ^ 62" by (auto simp: lev_small_def)
        then show "lev f1 str1 < MaxInteger" by (simp add: MaxInteger_def)
      qed
      with True show ?thesis using \<open>str1 \<noteq> [] \<and> contains ?l str1\<close> assms(3) f1
        by (intro exI [of _ "lev f1 str1"]) (simp add: checkLine_def line_hit_def Let_def)
    next
      case ne: False
      show ?thesis
      proof (cases "contains ?rest str2")
        case hit: True
        obtain f2 where f2: "ExtractLineFragment ?rest str2 False = Some f2"
          using fragment_total [OF hit] ne assms(2) by blast
        have "lev_small lev \<longrightarrow> lev f1 str1 + lev f2 str2 < MaxInteger"
        proof
          assume "lev_small lev"
          then have "lev f1 str1 < 2 ^ 62" "lev f2 str2 < 2 ^ 62" by (auto simp: lev_small_def)
          then show "lev f1 str1 + lev f2 str2 < MaxInteger" by (simp add: MaxInteger_def)
        qed
        then show ?thesis using True ne hit assms(3) f1 f2 rest
          by (intro exI [of _ "lev f1 str1 + lev f2 str2"]) (simp add: checkLine_def line_hit_def Let_def)
      next
        case False
        then show ?thesis using True ne rest
          by (auto simp: checkLine_def line_hit_def Let_def MaxInteger_def intro: exI [of _ 0])
      qed
    qed
  qed
qed

text \<open>The distances collected from a list of lines\<close>

lemma line_distances_spec:
  assumes "str1 = [] \<or> searchable str1" and "str2 = [] \<or> searchable str2"
  shows "\<exists>d'. line_distances lev str1 str2 i ls d = Some d' \<and>
    fst ` set d' = fst ` set d \<union> {i + int j | j. j < length ls \<and> line_hit str1 str2 (ls ! j)} \<and>
    (gomap_ok d \<longrightarrow> gomap_ok d') \<and>
    (lev_small lev \<longrightarrow> gomap_ok d \<longrightarrow> (\<forall>(k, v) \<in> set d. v < MaxInteger) \<longrightarrow>
       (\<forall>(k, v) \<in> set d'. v < MaxInteger))"
proof (induction ls arbitrary: i d)
  case Nil
  show ?case by simp
next
  case (Cons l ls)
  have hits: "{i + int j | j. j < length (l # ls) \<and> line_hit str1 str2 ((l # ls) ! j)} =
      (if line_hit str1 str2 l then {i} else {}) \<union>
      {(i + 1) + int j | j. j < length ls \<and> line_hit str1 str2 (ls ! j)}" (is "?L = ?R")
  proof (intro equalityI subsetI)
    fix x assume "x \<in> ?L"
    then obtain j where "x = i + int j" "j < length (l # ls)" "line_hit str1 str2 ((l # ls) ! j)" by blast
    then show "x \<in> ?R" by (cases j) auto
  next
    fix x assume "x \<in> ?R"
    then consider "x = i" "line_hit str1 str2 l"
      | j where "x = (i + 1) + int j" "j < length ls" "line_hit str1 str2 (ls ! j)"
      by (auto split: if_splits)
    then show "x \<in> ?L"
    proof cases
      case 1
      then show ?thesis by (auto intro: exI [of _ 0])
    next
      case 2
      then show ?thesis by (auto intro: exI [of _ "Suc j"])
    qed
  qed
  show ?case
  proof (cases "is_comment_line l")
    case True
    then have "\<not> line_hit str1 str2 l" by (simp add: line_hit_def Let_def)
    then show ?thesis using Cons.IH [of "i + 1" d] True hits by simp
  next
    case False
    obtain v where v: "checkLine lev str1 str2 d l i =
        Some (if line_hit str1 str2 l then gomap_put i v d else d)" "lev_small lev \<longrightarrow> v < MaxInteger"
      using checkLine_spec [OF assms False] by blast
    let ?d = "if line_hit str1 str2 l then gomap_put i v d else d"
    have ok: "gomap_ok d \<longrightarrow> gomap_ok ?d" by auto
    have small: "lev_small lev \<longrightarrow> gomap_ok d \<longrightarrow> (\<forall>(k, v) \<in> set d. v < MaxInteger) \<longrightarrow>
        (\<forall>(k, v) \<in> set ?d. v < MaxInteger)"
    proof (intro impI ballI)
      fix kv assume "lev_small lev" "gomap_ok d" and d: "\<forall>(k, v) \<in> set d. v < MaxInteger"
        and "kv \<in> set ?d"
      then have "kv \<in> set d \<or> kv = (i, v)"
        using gomap_put_mem [of d i v] by (auto split: if_splits)
      then show "case kv of (k, v) \<Rightarrow> v < MaxInteger" using d v(2) \<open>lev_small lev\<close> by auto
    qed
    obtain d' where
      d': "line_distances lev str1 str2 (i + 1) ls ?d = Some d'"
        "fst ` set d' = fst ` set ?d \<union> {(i + 1) + int j | j. j < length ls \<and> line_hit str1 str2 (ls ! j)}"
        "gomap_ok ?d \<longrightarrow> gomap_ok d'"
        "lev_small lev \<longrightarrow> gomap_ok ?d \<longrightarrow> (\<forall>(k, v) \<in> set ?d. v < MaxInteger) \<longrightarrow>
           (\<forall>(k, v) \<in> set d'. v < MaxInteger)"
      using Cons.IH [of "i + 1" ?d] by (elim exE conjE) (rule that)
    have "fst ` set ?d = fst ` set d \<union> (if line_hit str1 str2 l then {i} else {})"
      by (simp add: gomap_put_keys)
    then have "fst ` set d' = fst ` set d \<union> ?L" using d'(2) by (simp only: hits Un_assoc)
    moreover have "line_distances lev str1 str2 i (l # ls) d = Some d'"
      using d'(1) v(1) False by simp
    moreover have "gomap_ok d \<longrightarrow> gomap_ok d'" using ok d'(3) by blast
    moreover have "lev_small lev \<longrightarrow> gomap_ok d \<longrightarrow> (\<forall>(k, v) \<in> set d. v < MaxInteger) \<longrightarrow>
        (\<forall>(k, v) \<in> set d'. v < MaxInteger)" using ok small d'(4) by blast
    ultimately show ?thesis by blast
  qed
qed

lemma DetectCurrentLine_spec:
  fixes lines :: "string list" and str1 str2 :: string and d :: DefaultDetectLineResponse
  assumes s1: "str1 = [] \<or> searchable str1" and s2: "str2 = [] \<or> searchable str2"
    and cur: "0 \<le> CurrentLine d" and r: "range_order r"
  defines "hits \<equiv> {k. CurrentLine d \<le> k \<and> k < int (length lines) \<and> line_hit str1 str2 (lines ! nat k)}"
  shows "\<exists>d'. DetectCurrentLine lev r str1 str2 lines d = Some d' \<and>
    (hits = {} \<longrightarrow> d' = d\<lparr>IsBreak := True\<rparr>) \<and>
    (hits \<noteq> {} \<longrightarrow> (\<exists>k. d' = d\<lparr>CurrentLine := k, IsBreak := False, FoundAtLeastOne := True\<rparr> \<and>
       CurrentLine d \<le> k \<and> k < int (length lines) \<and> (lev_small lev \<longrightarrow> k \<in> hits)))"
proof -
  let ?ls = "drop (nat (CurrentLine d)) lines"
  obtain ds where ds: "line_distances lev str1 str2 (CurrentLine d) ?ls [] = Some ds"
      "fst ` set ds = {CurrentLine d + int j | j. j < length ?ls \<and> line_hit str1 str2 (?ls ! j)}"
      "gomap_ok ds" "lev_small lev \<longrightarrow> (\<forall>(k, v) \<in> set ds. v < MaxInteger)"
    using line_distances_spec [OF s1 s2, of lev "CurrentLine d" ?ls "[]"] by auto
  have keys: "fst ` set ds = hits"
  proof (intro equalityI subsetI)
    fix k assume "k \<in> fst ` set ds"
    then obtain j where "k = CurrentLine d + int j" "j < length ?ls" "line_hit str1 str2 (?ls ! j)"
      unfolding ds(2) by blast
    then show "k \<in> hits" using cur by (simp add: hits_def nat_add_distrib)
  next
    fix k assume k: "k \<in> hits"
    then have "k = CurrentLine d + int (nat (k - CurrentLine d))" by (simp add: hits_def)
    moreover have "nat (CurrentLine d) + nat (k - CurrentLine d) = nat (CurrentLine d + (k - CurrentLine d))"
      using k cur by (intro nat_add_distrib [symmetric]) (auto simp: hits_def)
    then have "nat (CurrentLine d) + nat (k - CurrentLine d) = nat k" by simp
    ultimately show "k \<in> fst ` set ds" unfolding ds(2) using k cur
      by (intro CollectI exI [of _ "nat (k - CurrentLine d)"]) (auto simp: hits_def)
  qed
  show ?thesis
  proof (cases "ds = []")
    case True
    then have "hits = {}" using keys by simp
    with True show ?thesis using ds(1) by (simp add: DetectCurrentLine_def)
  next
    case False
    let ?k = "SelectLineWithMinimumDistance r ds (CurrentLine d)"
    obtain h where h: "h \<in> hits" using keys False by (cases ds) auto
    have "?k = CurrentLine d \<or> ?k \<in> hits" using select_line_mem [OF r] keys by blast
    then have "CurrentLine d \<le> ?k \<and> ?k < int (length lines)" using h by (auto simp: hits_def)
    moreover have "lev_small lev \<longrightarrow> ?k \<in> hits"
      using select_line_least [OF r False, of "CurrentLine d"] ds(4) keys by force
    moreover have "DetectCurrentLine lev r str1 str2 lines d =
        Some (d\<lparr>CurrentLine := ?k, IsBreak := False, FoundAtLeastOne := True\<rparr>)"
      using ds(1) False by (simp add: DetectCurrentLine_def)
    ultimately show ?thesis using h by blast
  qed
qed

section \<open>Properties\<close>

text \<open>Asked for \<open>adj\<close> lines around line \<open>idx\<close> of the file, \<open>GetAdjacentVulnLines\<close> returns a
  window of consecutive lines of the file with their line numbers: at most \<open>adj\<close> of them, the
  line asked for among them. It does not panic.\<close>

lemma adjacent_lines_window:
  assumes "0 \<le> idx" and "idx < int (length lines)" and "1 \<le> adj"
  shows "\<exists>ls. GetAdjacentVulnLines idx adj lines = Some ls \<and> int (length ls) \<le> adj \<and>
    \<lparr>Position = idx + 1, CodeText = lines ! nat idx\<rparr> \<in> set ls \<and>
    (\<forall>i < length ls. Position (ls ! i) = Position (ls ! 0) + int i \<and>
       1 \<le> Position (ls ! i) \<and> Position (ls ! i) \<le> int (length lines) \<and>
       CodeText (ls ! i) = lines ! nat (Position (ls ! i) - 1))"
proof -
  obtain a b where ab: "0 \<le> a" "a \<le> idx" "idx < b" "b \<le> int (length lines)" "b - a \<le> adj"
      "GetAdjacentVulnLines idx adj lines =
         Some (createVulnLines (a + 1) (take (nat (b - a)) (drop (nat a) lines)))"
    using adjacent_window [OF assms] by blast
  let ?ws = "take (nat (b - a)) (drop (nat a) lines)"
  let ?ls = "createVulnLines (a + 1) ?ws"
  have len: "length ?ws = nat (b - a)" using ab by simp
  have nth: "?ls ! i = \<lparr>Position = a + 1 + int i, CodeText = lines ! (nat a + i)\<rparr>" if "i < length ?ls" for i
    using that ab by (simp add: createVulnLines_nth)
  have "nat (idx - a) < length ?ls" using ab len by simp
  then have "\<lparr>Position = idx + 1, CodeText = lines ! nat idx\<rparr> \<in> set ?ls"
    using nth [of "nat (idx - a)"] nth_mem [of "nat (idx - a)" ?ls] ab
    by (simp add: add.commute flip: nat_add_distrib)
  moreover have "int (length ?ls) \<le> adj" using ab len by simp
  moreover have "\<forall>i < length ?ls. Position (?ls ! i) = Position (?ls ! 0) + int i \<and>
      1 \<le> Position (?ls ! i) \<and> Position (?ls ! i) \<le> int (length lines) \<and>
      CodeText (?ls ! i) = lines ! nat (Position (?ls ! i) - 1)"
  proof (intro allI impI)
    fix i assume i: "i < length ?ls"
    then have "0 < length ?ls" by (rule le_less_trans [OF le0])
    then have "?ls ! 0 = \<lparr>Position = a + 1, CodeText = lines ! nat a\<rparr>" by (simp only: nth) simp
    moreover have "int i < b - a" using i len ab by simp
    ultimately show "Position (?ls ! i) = Position (?ls ! 0) + int i \<and>
        1 \<le> Position (?ls ! i) \<and> Position (?ls ! i) \<le> int (length lines) \<and>
        CodeText (?ls ! i) = lines ! nat (Position (?ls ! i) - 1)"
      using nth [OF i] ab by (simp add: nat_add_distrib)
  qed
  ultimately show ?thesis using ab(6) by blast
qed

text \<open>Whatever the order in which Go ranges over the distances,
  \<open>SelectLineWithMinimumDistance\<close> returns a line of least distance, and of several the first.\<close>

lemma select_line_minimum:
  assumes "range_order r" and "d \<noteq> []" and "\<forall>(l, dist) \<in> set d. dist < MaxInteger"
  shows "\<exists>dist. (SelectLineWithMinimumDistance r d s, dist) \<in> set d \<and>
    (\<forall>(l', dist') \<in> set d. dist < dist' \<or> dist = dist' \<and> SelectLineWithMinimumDistance r d s \<le> l')"
  using select_line_least [OF assms, of s] by (simp add: lex_le_def)

text \<open>One step of the search, for texts that are empty or hold a character other than a
  colon, a quote or a space, and distances that fit an integer: it returns; if no line from the
  current one on is a hit it only sets the break flag, and otherwise it moves to a hit, never
  backwards and never past the end of the file.\<close>

lemma detect_current_line_step:
  assumes "str1 = [] \<or> searchable str1" and "str2 = [] \<or> searchable str2"
    and "0 \<le> CurrentLine d" and "range_order r" and "lev_small lev"
  shows "\<exists>d'. DetectCurrentLine lev r str1 str2 lines d = Some d' \<and>
    (if \<exists>k. CurrentLine d \<le> k \<and> k < int (length lines) \<and> line_hit str1 str2 (lines ! nat k)
     then \<exists>k. d' = d\<lparr>CurrentLine := k, IsBreak := False, FoundAtLeastOne := True\<rparr> \<and>
       CurrentLine d \<le> k \<and> k < int (length lines) \<and> line_hit str1 str2 (lines ! nat k)
     else d' = d\<lparr>IsBreak := True\<rparr>)"
  using DetectCurrentLine_spec [OF assms(1-4), of lev lines] assms(5) by fastforce

end
