(* ===== verification/DetectLine.thy ===== *)
theory DetectLine
  imports LineSearch
begin

text \<open>
  From a result's search key to a line: the interface \<open>kindDetectLine\<close> of
  \<open>pkg/detector/detector.go\<close> as the locale \<open>line_detector\<close>, the default detector
  (\<open>default_detect.go\<close>), the registry of detectors, and the search by path of
  \<open>search_line_detector.go\<close>, for which \<open>gjson.GetBytes\<close> and \<open>json.Marshal\<close> are parameters.
\<close>

section \<open>The interface\<close>

text \<open>
  What the inspector relies on: a detector answers with a line of the file and a window of
  numbered lines, or with -1 and no lines, and names the file it was asked about.
\<close>

type_synonym detector = "FileMetadata \<Rightarrow> string \<Rightarrow> int \<Rightarrow> VulnerabilityLines option"

definition undetectedVulnerabilityLine :: int where
  "undetectedVulnerabilityLine = - 1"

definition detected_in :: "FileMetadata \<Rightarrow> VulnerabilityLines \<Rightarrow> bool" where
  "detected_in f v \<longleftrightarrow>
     (if vl_Line v = undetectedVulnerabilityLine then vl_VulnLines v = []
      else 1 \<le> vl_Line v \<and> vl_Line v \<le> int (length (f_LinesOriginalData f)))"

locale line_detector =
  fixes detect :: detector
  assumes detect_in_file: "detect f key n = Some v \<Longrightarrow> detected_in f v"
    and detect_resolved: "detect f key n = Some v \<Longrightarrow> vl_ResolvedFile v = f_FilePath f"

section \<open>The default detector\<close>

definition prepareResolvedFiles ::
  "(string, ResolvedFile) gomap \<Rightarrow> (string, ResolvedFileSplit) gomap" where
  "prepareResolvedFiles resFiles =
     foldl (\<lambda>m (f, res). gomap_put f \<lparr>rs_Path = rf_Path res, rs_Lines = rf_LinesContent res\<rparr> m) [] resFiles"

text \<open>The bracketed values of the key are replaced by numbered placeholders.\<close>

fun number_placeholders :: "nat \<Rightarrow> (string \<times> string) list \<Rightarrow> string \<Rightarrow> string" where
  "number_placeholders idx [] s = s"
| "number_placeholders idx ((str0, str1) # extracted) s =
     number_placeholders (Suc idx) extracted
       (go_replace s str0 (''{{'' @ itoa (int idx) @ ''}}'') (- 1))"

text \<open>From the first part with \<open>$ref\<close> on, the parts are one part again.\<close>

fun join_ref :: "string list \<Rightarrow> string list" where
  "join_ref [] = []"
| "join_ref (s # ss) = (if contains s ''$ref'' then [join (s # ss) ''.''] else s # join_ref ss)"

definition bicep_key :: "string \<Rightarrow> string" where
  "bicep_key s =
     replace_all (replace_all (replace_all s ''resources'' ''resource'') ''parameters'' ''param'')
       ''variables'' ''variable''"

fun detect_keys ::
  "distance \<Rightarrow> ((int, int) gomap \<Rightarrow> (int, int) gomap) \<Rightarrow> (string \<Rightarrow> string) \<Rightarrow> (string \<times> string) list \<Rightarrow>
     string list \<Rightarrow> string list \<Rightarrow> DefaultDetectLineResponse \<Rightarrow> DefaultDetectLineResponse option" where
  "detect_keys lev r tweak extracted lines [] d = Some d"
| "detect_keys lev r tweak extracted lines (key # keys) d = do {
     (substr1, substr2) \<leftarrow> GenerateSubstrings key extracted lines (CurrentLine d);
     d' \<leftarrow> DetectCurrentLine lev r (tweak substr1) substr2 lines d;
     if IsBreak d' then Some d' else detect_keys lev r tweak extracted lines keys d'
   }"

definition default_DetectLine ::
  "distance \<Rightarrow> ((int, int) gomap \<Rightarrow> (int, int) gomap) \<Rightarrow> detector" where
  "default_DetectLine lev r file searchKey outputLines = do {
     let detector0 = \<lparr>CurrentLine = 0, IsBreak = False, FoundAtLeastOne = False,
       d_ResolvedFile = f_FilePath file,
       d_ResolvedFiles = prepareResolvedFiles (f_ResolvedFiles file)\<rparr>;
     extractedString \<leftarrow> GetBracketValues searchKey [] [];
     let sanitizedSubstring = number_placeholders 0 extractedString searchKey;
     let lines = f_LinesOriginalData file;
     let tweak = (if f_Kind file = KindBICEP then bicep_key else (\<lambda>s. s));
     detector \<leftarrow> detect_keys lev r tweak extractedString lines
       (join_ref (split_on sanitizedSubstring ''.'')) detector0;
     if FoundAtLeastOne detector then do {
       vulnLines \<leftarrow> GetAdjacentVulnLines (CurrentLine detector) outputLines lines;
       Some (zero_vuln_lines\<lparr>vl_Line := CurrentLine detector + 1, vl_VulnLines := vulnLines,
         vl_ResolvedFile := d_ResolvedFile detector\<rparr>)
     }
     else Some (zero_vuln_lines\<lparr>vl_Line := undetectedVulnerabilityLine, vl_VulnLines := [],
       vl_ResolvedFile := d_ResolvedFile detector\<rparr>)
   }"

section \<open>The registry\<close>

record DetectLine =
  detectors :: "(FileKind, detector) gomap"
  outputLines :: int
  defaultDetector :: detector

definition NewDetectLine ::
  "distance \<Rightarrow> ((int, int) gomap \<Rightarrow> (int, int) gomap) \<Rightarrow> int \<Rightarrow> DetectLine" where
  "NewDetectLine lev r n =
     \<lparr>detectors = [], outputLines = n, defaultDetector = default_DetectLine lev r\<rparr>"

definition Add :: "detector \<Rightarrow> FileKind \<Rightarrow> DetectLine \<Rightarrow> DetectLine" where
  "Add det kind d = d\<lparr>detectors := gomap_put kind det (detectors d)\<rparr>"

definition registry_DetectLine ::
  "DetectLine \<Rightarrow> FileMetadata \<Rightarrow> string \<Rightarrow> VulnerabilityLines option" where
  "registry_DetectLine d file searchKey =
     (case map_of (detectors d) (f_Kind file) of
        Some det \<Rightarrow> det file searchKey (outputLines d)
      | None \<Rightarrow> defaultDetector d file searchKey (outputLines d))"

definition GetAdjacent :: "DetectLine \<Rightarrow> FileMetadata \<Rightarrow> int \<Rightarrow> VulnerabilityLines option" where
  "GetAdjacent d file line = do {
     vulnLines \<leftarrow> GetAdjacentVulnLines (line - 1) (outputLines d) (f_LinesOriginalData file);
     Some (zero_vuln_lines\<lparr>vl_Line := line, vl_VulnLines := vulnLines, vl_ResolvedFile := f_FilePath file\<rparr>)
   }"

section \<open>The search by path\<close>

text \<open>
  \<open>get content path\<close> is \<open>int(gjson.GetBytes(content, path).Int())\<close>.
\<close>

record searchLineDetector =
  content :: string
  resolvedPath :: string
  resolvedArrayPath :: string
  targetObj :: string

definition path_objects :: "searchLineDetector \<Rightarrow> string list" where
  "path_objects d =
     [resolvedPath d @ ''._kics_lines._kics_'' @ targetObj d @ ''._kics_line'',
      resolvedPath d @ ''.'' @ targetObj d @ ''._kics_lines._kics__default._kics_line'',
      resolvedArrayPath d @ ''.'' @ targetObj d @ ''._kics__default._kics_line'',
      resolvedArrayPath d @ ''._kics_'' @ targetObj d @ ''._kics_line'']"

fun first_line :: "(string \<Rightarrow> string \<Rightarrow> int) \<Rightarrow> string \<Rightarrow> string list \<Rightarrow> int" where
  "first_line get json [] = - 1"
| "first_line get json (pathItem # paths) =
     (if get json pathItem > 0 then get json pathItem else first_line get json paths)"

definition getResult :: "(string \<Rightarrow> string \<Rightarrow> int) \<Rightarrow> searchLineDetector \<Rightarrow> int" where
  "getResult get d = first_line get (content d) (path_objects d)"

definition escape_dots :: "string \<Rightarrow> string" where
  "escape_dots s = replace_all s ''.'' [CHR 0x5C, CHR ''.'']"

text \<open>The key of the last array of the path, looked for from its end\<close>

fun last_array :: "bool \<Rightarrow> string list \<Rightarrow> string" where
  "last_array foundArrayIdx [] = []"
| "last_array foundArrayIdx (item # items) =
     (if atoi item \<noteq> None then last_array True items
      else if foundArrayIdx then item else last_array foundArrayIdx items)"

definition path_step :: "string \<Rightarrow> string \<times> string \<Rightarrow> string \<Rightarrow> string \<times> string" where
  "path_step arrayObject paths pathItem =
     (let (objPath, arrPath) = paths in
      (objPath @ ''.'' @ escape_dots pathItem,
       if pathItem = arrayObject
       then arrPath @ ''._kics_lines._kics_'' @ escape_dots pathItem @ ''._kics_arr''
       else arrPath @ ''.'' @ escape_dots pathItem))"

definition preparePath ::
  "(string \<Rightarrow> string \<Rightarrow> int) \<Rightarrow> string list \<Rightarrow> searchLineDetector \<Rightarrow> int" where
  "preparePath get pathItems d =
     (if pathItems = [] then 1
      else
        let objPath = escape_dots (hd pathItems);
            arrayObject = last_array False (rev pathItems);
            arrPath = (if arrayObject = objPath
                       then ''_kics_lines._kics_'' @ arrayObject @ ''._kics_arr'' else objPath);
            treated = (if length pathItems > 1 then butlast (tl pathItems) else []);
            (obj, arr) = foldl (path_step arrayObject) (objPath, arrPath) treated
        in getResult get (d\<lparr>resolvedPath := obj, resolvedArrayPath := arr, targetObj := last pathItems\<rparr>))"

text \<open>\<open>marshal\<close> is \<open>json.Marshal\<close>: the text, or an error.\<close>

definition GetLineBySearchLine ::
  "(doc option \<Rightarrow> string + string) \<Rightarrow> (string \<Rightarrow> string \<Rightarrow> int) \<Rightarrow> string list \<Rightarrow> FileMetadata \<Rightarrow>
     string option \<times> int" where
  "GetLineBySearchLine marshal get pathComponents file =
     (case marshal (f_LineInfoDocument file) of
        Inl err \<Rightarrow> (Some err, - 1)
      | Inr text \<Rightarrow> (None, preparePath get pathComponents
          \<lparr>content = text, resolvedPath = [], resolvedArrayPath = [], targetObj = []\<rparr>))"

section \<open>Lemmas\<close>

lemma checkLine_keys:
  "checkLine lev str1 str2 d line i = Some d' \<Longrightarrow> fst ` set d' \<subseteq> insert i (fst ` set d)"
proof -
  assume "checkLine lev str1 str2 d line i = Some d'"
  then have "d' = d \<or> (\<exists>v. d' = gomap_put i v d)"
    by (auto simp: checkLine_def Let_def split: if_splits Option.bind_splits)
  then show ?thesis using gomap_put_keys [of i _ d] by blast
qed

lemma line_distances_keys:
  "line_distances lev str1 str2 i lines d = Some d' \<Longrightarrow>
     fst ` set d' \<subseteq> fst ` set d \<union> {i ..< i + int (length lines)}"
proof (induction lev str1 str2 i lines d rule: line_distances.induct)
  case (2 lev str1 str2 i line lines d)
  have shift: "{i + 1 ..< i + 1 + int (length lines)} \<subseteq> {i ..< i + int (length (line # lines))}"
    "i \<in> {i ..< i + int (length (line # lines))}" by auto
  show ?case
  proof (cases "is_comment_line line")
    case True
    with "2.prems" have "line_distances lev str1 str2 (i + 1) lines d = Some d'" by simp
    from subset_trans [OF "2.IH"(1) [OF True this] Un_mono [OF subset_refl shift(1)]]
    show ?thesis .
  next
    case False
    with "2.prems" obtain e where e: "checkLine lev str1 str2 d line i = Some e"
        "line_distances lev str1 str2 (i + 1) lines e = Some d'"
      by (auto split: Option.bind_splits)
    have "fst ` set d' \<subseteq> insert i (fst ` set d) \<union> {i ..< i + int (length (line # lines))}"
      by (rule subset_trans [OF "2.IH"(2) [OF False e] Un_mono [OF checkLine_keys [OF e(1)] shift(1)]])
    also have "\<dots> = fst ` set d \<union> {i ..< i + int (length (line # lines))}"
      by (simp only: Un_insert_left Un_insert_right insert_absorb [OF UnI2 [OF shift(2)]])
    finally show ?thesis .
  qed
qed simp

text \<open>
  The state of a search: the current line is not negative, and once something was found it is a
  line of the file.
\<close>

definition search_ok :: "string list \<Rightarrow> DefaultDetectLineResponse \<Rightarrow> bool" where
  "search_ok lines d \<longleftrightarrow>
     0 \<le> CurrentLine d \<and> (FoundAtLeastOne d \<longrightarrow> CurrentLine d < int (length lines))"

lemma DetectCurrentLine_ok:
  assumes "DetectCurrentLine lev r str1 str2 lines d = Some d'" and "search_ok lines d" and "range_order r"
  shows "search_ok lines d' \<and> CurrentLine d \<le> CurrentLine d' \<and> d_ResolvedFile d' = d_ResolvedFile d"
proof -
  obtain ds where ds: "line_distances lev str1 str2 (CurrentLine d) (drop (nat (CurrentLine d)) lines) [] = Some ds"
      "Some d' = (if length ds = 0 then Some (d\<lparr>IsBreak := True\<rparr>)
         else Some (d\<lparr>CurrentLine := SelectLineWithMinimumDistance r ds (CurrentLine d),
                 IsBreak := False, FoundAtLeastOne := True\<rparr>))"
    using assms(1) by (auto simp: DetectCurrentLine_def split: Option.bind_splits)
  show ?thesis
  proof (cases "ds = []")
    case True
    then show ?thesis using ds(2) assms(2) by (simp add: search_ok_def)
  next
    case False
    let ?k = "SelectLineWithMinimumDistance r ds (CurrentLine d)"
    have keys: "fst ` set ds \<subseteq> {CurrentLine d ..< int (length lines)}"
      using line_distances_keys [OF ds(1)] assms(2)
      by (fastforce simp: search_ok_def subset_iff)
    obtain x where "x \<in> fst ` set ds" using False by (cases ds) auto
    then have "CurrentLine d \<le> ?k \<and> ?k < int (length lines)"
      using select_line_mem [OF assms(3), of ds "CurrentLine d"] keys by force
    then show ?thesis using ds(2) False assms(2) by (simp add: search_ok_def)
  qed
qed

lemma detect_keys_ok:
  "detect_keys lev r tweak extracted lines keys d = Some d' \<Longrightarrow> search_ok lines d \<Longrightarrow> range_order r \<Longrightarrow>
     search_ok lines d' \<and> CurrentLine d \<le> CurrentLine d' \<and> d_ResolvedFile d' = d_ResolvedFile d"
proof (induction lev r tweak extracted lines keys d rule: detect_keys.induct)
  case (2 lev r tweak extracted lines key keys d)
  from "2.prems"(1) obtain s1 s2 e where e: "GenerateSubstrings key extracted lines (CurrentLine d) = Some (s1, s2)"
      "DetectCurrentLine lev r (tweak s1) s2 lines d = Some e"
      "(if IsBreak e then Some e else detect_keys lev r tweak extracted lines keys e) = Some d'"
    by (auto split: Option.bind_splits)
  note step = DetectCurrentLine_ok [OF e(2) "2.prems"(2,3)]
  show ?case
  proof (cases "IsBreak e")
    case True
    then show ?thesis using step e(3) by simp
  next
    case False
    have "detect_keys lev r tweak extracted lines keys e = Some d'" using e(3) False by simp
    from "2.IH" [OF e(1) refl e(2) False this] step "2.prems"(3) show ?thesis by auto
  qed
qed simp

lemma default_DetectLine_found:
  assumes "default_DetectLine lev r f key n = Some v" and "range_order r"
  shows "vl_ResolvedFile v = f_FilePath f \<and>
    (vl_Line v = - 1 \<and> vl_VulnLines v = [] \<or>
     1 \<le> vl_Line v \<and> vl_Line v \<le> int (length (f_LinesOriginalData f)) \<and>
     GetAdjacentVulnLines (vl_Line v - 1) n (f_LinesOriginalData f) = Some (vl_VulnLines v))"
proof -
  let ?d0 = "\<lparr>CurrentLine = 0, IsBreak = False, FoundAtLeastOne = False,
       d_ResolvedFile = f_FilePath f, d_ResolvedFiles = prepareResolvedFiles (f_ResolvedFiles f)\<rparr>"
  have "search_ok (f_LinesOriginalData f) ?d0" by (simp add: search_ok_def)
  then show ?thesis
    using assms detect_keys_ok [of lev r _ _ "f_LinesOriginalData f" _ ?d0]
    by (fastforce simp: default_DetectLine_def Let_def zero_vuln_lines_def search_ok_def
        undetectedVulnerabilityLine_def split: Option.bind_splits if_splits)
qed

lemma default_line_detector: "range_order r \<Longrightarrow> line_detector (default_DetectLine lev r)"
  by unfold_locales
    (auto simp: detected_in_def undetectedVulnerabilityLine_def dest!: default_DetectLine_found)

interpretation default_det: line_detector "default_DetectLine lev rev" for lev
  by (rule default_line_detector) (rule range_order_id)

text \<open>A registry of detectors that keep the contract keeps it.\<close>

definition registry_ok :: "DetectLine \<Rightarrow> bool" where
  "registry_ok d \<longleftrightarrow>
     line_detector (defaultDetector d) \<and> (\<forall>k det. map_of (detectors d) k = Some det \<longrightarrow> line_detector det)"

lemma registry_new: "range_order r \<Longrightarrow> registry_ok (NewDetectLine lev r n)"
  by (simp add: registry_ok_def NewDetectLine_def default_line_detector)

lemma registry_add: "registry_ok d \<Longrightarrow> line_detector det \<Longrightarrow> registry_ok (Add det kind d)"
  by (simp add: registry_ok_def Add_def)

lemma registry_line_detector:
  assumes "registry_ok d"
  shows "line_detector (\<lambda>f key n. registry_DetectLine d f key)"
proof unfold_locales
  fix f key and n :: int and v
  assume v: "registry_DetectLine d f key = Some v"
  obtain det where det: "line_detector det" "det f key (outputLines d) = Some v"
    using v assms by (auto simp: registry_DetectLine_def registry_ok_def split: option.splits)
  show "detected_in f v" by (rule line_detector.detect_in_file [OF det])
  show "vl_ResolvedFile v = f_FilePath f" by (rule line_detector.detect_resolved [OF det])
qed

lemma first_line_spec:
  "first_line get json paths = n \<Longrightarrow>
     n = - 1 \<and> (\<forall>p \<in> set paths. get json p \<le> 0) \<or>
     n > 0 \<and> (\<exists>pre p post. paths = pre @ p # post \<and> get json p = n \<and> (\<forall>q \<in> set pre. get json q \<le> 0))"
proof (induction paths)
  case (Cons p ps)
  show ?case
  proof (cases "get json p > 0")
    case True
    then have "n > 0 \<and> p # ps = [] @ p # ps \<and> get json p = n \<and> (\<forall>q \<in> set []. get json q \<le> 0)"
      using Cons.prems by simp
    then show ?thesis by blast
  next
    case False
    then have "first_line get json ps = n" using Cons.prems by simp
    then consider "n = - 1" "\<forall>p \<in> set ps. get json p \<le> 0"
      | pre q post where "n > 0" "ps = pre @ q # post" "get json q = n" "\<forall>q \<in> set pre. get json q \<le> 0"
      using Cons.IH by blast
    then show ?thesis
    proof cases
      case 1
      then show ?thesis using False by simp
    next
      case 2
      then have "n > 0 \<and> p # ps = (p # pre) @ q # post \<and> get json q = n \<and>
          (\<forall>q \<in> set (p # pre). get json q \<le> 0)"
        using False by simp
      then show ?thesis by blast
    qed
  qed
qed simp

text \<open>A path without array indices asks for the same keys in both forms.\<close>

lemma last_array_none: "\<forall>x \<in> set items. atoi x = None \<Longrightarrow> last_array False items = []"
  by (induction items) auto

lemma path_fold_plain:
  "[] \<notin> set mid \<Longrightarrow> foldl (path_step []) (p, p) mid =
     (let q = join (p # map escape_dots mid) ''.'' in (q, q))"
proof (induction mid arbitrary: p)
  case (Cons m mid)
  have "join ((p @ ''.'' @ escape_dots m) # map escape_dots mid) ''.'' =
      join (p # escape_dots m # map escape_dots mid) ''.''"
    by (cases mid) simp_all
  moreover have "path_step [] (p, p) m = (p @ ''.'' @ escape_dots m, p @ ''.'' @ escape_dots m)"
    using Cons.prems by (auto simp: path_step_def)
  ultimately show ?case using Cons by (simp add: Let_def)
qed simp

section \<open>Properties\<close>

text \<open>For a path of at least two keys, none empty or a number, \<open>GetLineBySearchLine\<close> tries four
  places of the line information, the parent path with its dots escaped, in order, and answers
  with the first positive line found there, or with -1.\<close>

lemma search_line_plain_path:
  assumes "marshal (f_LineInfoDocument f) = Inr json"
    and "\<forall>x \<in> set (a # mid @ [t]). atoi x = None" and "[] \<notin> set mid" and "escape_dots a \<noteq> []"
  shows "GetLineBySearchLine marshal get (a # mid @ [t]) f =
    (None, first_line get json
       (map (\<lambda>key. join (map escape_dots (a # mid)) ''.'' @ key)
          [''._kics_lines._kics_'' @ t @ ''._kics_line'',
           ''.'' @ t @ ''._kics_lines._kics__default._kics_line'',
           ''.'' @ t @ ''._kics__default._kics_line'', ''._kics_'' @ t @ ''._kics_line'']))"
proof -
  have "last_array False (rev (a # mid @ [t])) = []"
    by (rule last_array_none) (use assms(2) in auto)
  moreover have "butlast (tl (a # mid @ [t])) = mid" by simp
  ultimately show ?thesis using assms(1,4) path_fold_plain [OF assms(3), of "escape_dots a"]
    by (simp add: GetLineBySearchLine_def preparePath_def getResult_def path_objects_def Let_def)
qed


end
