(* ===== verification/TerraformDetect.thy ===== *)
theory TerraformDetect
  imports DetectLine
begin

text \<open>
  The Terraform detector (\<open>pkg/detector/terraform/terraform_detect.go\<close>). The HCL parser is a
  parameter: \<open>parse src\<close> is its error, or its body, which is \<open>None\<close> when the body is not an
  \<open>hclsyntax.Body\<close>. Of the parser's tree the model keeps what the detector reads.
\<close>

section \<open>The parsed blocks\<close>

record Pos =
  p_Line :: int
  p_Column :: int

definition zero_pos :: Pos where
  "zero_pos = \<lparr>p_Line = 0, p_Column = 0\<rparr>"

datatype Expression = ObjectConsExpr | FunctionCallExpr | OtherExpr

record Attribute =
  a_Start :: Pos
  a_End :: Pos
  a_Expr :: Expression

text \<open>\<open>Block type start end blocks attributes\<close>: \<open>start\<close> is \<open>TypeRange.Start\<close>, \<open>end\<close> is
  \<open>Body.SrcRange.End\<close>.\<close>

datatype Block = Block (b_Type: string) (b_Start: Pos) (b_End: Pos) (b_Blocks: "Block list")
  (b_Attributes: "(string, Attribute) gomap")

type_synonym attr_order = "(string, Attribute) gomap \<Rightarrow> (string, Attribute) gomap"
type_synonym hcl_parser = "string \<Rightarrow> string + Block list option"

section \<open>Keys\<close>

definition is_digit :: "char \<Rightarrow> bool" where
  "is_digit c \<longleftrightarrow> digit_val c \<noteq> None"

text \<open>\<open>[%!s(int=12)]\<close>, what \<open>fmt\<close> writes for a number where a string was asked for, is \<open>[12]\<close>.\<close>

function sanitizeSearchKey :: "string \<Rightarrow> string" where
  "sanitizeSearchKey [] = []"
| "sanitizeSearchKey (c # s) =
     (let rest = drop 9 (c # s); digits = takeWhile is_digit rest; after = dropWhile is_digit rest in
      if has_prefix (c # s) ''[%!s(int='' \<and> digits \<noteq> [] \<and> has_prefix after '')]''
      then ''['' @ digits @ '']'' @ sanitizeSearchKey (drop 2 after)
      else c # sanitizeSearchKey s)"
  by pat_completeness auto
termination
proof (relation "measure length")
  fix c :: char and s rest digits after
  assume "rest = drop 9 (c # s)" "after = dropWhile is_digit rest"
  then have "length after \<le> length s"
    using length_dropWhile_le [of is_digit rest] by simp
  then show "(drop 2 after, c # s) \<in> measure length" by simp
qed auto

fun normalize_key :: "nat \<Rightarrow> (string \<times> string) list \<Rightarrow> string \<Rightarrow> string" where
  "normalize_key i [] key = key"
| "normalize_key i ((match0, match1) # extracted) key =
     normalize_key (Suc i) extracted
       (if \<not> contains match0 ''{{''
        then go_replace key match0 (''{{'' @ itoa (int i) @ ''}}'') (- 1) else key)"

text \<open>\<open>append(keyParts[:i+1], keyParts[i+1:]...)\<close> at the first part with \<open>$ref\<close>\<close>

fun append_ref :: "string list \<Rightarrow> string list \<Rightarrow> string list" where
  "append_ref before [] = before"
| "append_ref before (part # parts) =
     (if contains part ''$ref'' then (before @ [part]) @ parts
      else append_ref (before @ [part]) parts)"

section \<open>Where to insert a fix\<close>

fun first_attribute ::
  "(string, Attribute) gomap \<Rightarrow> int \<Rightarrow> string \<times> Pos \<times> Pos \<times> bool" where
  "first_attribute [] line = ([], zero_pos, zero_pos, False)"
| "first_attribute ((name, attr) # attrs) line =
     (if line \<ge> p_Line (a_Start attr) \<and> line \<le> p_Line (a_End attr) \<and> a_Expr attr \<noteq> OtherExpr
      then (name, a_Start attr, a_End attr, True)
      else first_attribute attrs line)"

fun findContainingStructure ::
    "attr_order \<Rightarrow> Block \<Rightarrow> int \<Rightarrow> string \<times> Pos \<times> Pos \<times> bool" and
  findInBlocks :: "attr_order \<Rightarrow> Block list \<Rightarrow> int \<Rightarrow> (string \<times> Pos \<times> Pos \<times> bool) option" where
  "findContainingStructure r (Block ty start end' blocks attributes) line =
     (case findInBlocks r blocks line of
        Some found \<Rightarrow> found
      | None \<Rightarrow> first_attribute (r attributes) line)"
| "findInBlocks r [] line = None"
| "findInBlocks r (nested # blocks) line =
     (if line \<ge> p_Line (b_Start nested) \<and> line \<le> p_Line (b_End nested)
      then (let (name, s, e, isAttr) = findContainingStructure r nested line in
            if name \<noteq> [] then Some (name, s, e, isAttr)
            else Some (b_Type nested, b_Start nested, b_End nested, False))
      else findInBlocks r blocks line)"

definition countLeadingSpacesOrTabs :: "string \<Rightarrow> int" where
  "countLeadingSpacesOrTabs line = int (length (takeWhile (\<lambda>b. b = CHR '' '' \<or> b = CHR 0x09) line))"

fun firstNonWhitespaceIndex :: "int \<Rightarrow> string \<Rightarrow> int" where
  "firstNonWhitespaceIndex i [] = - 1"
| "firstNonWhitespaceIndex i (c # line) =
     (if c \<noteq> CHR '' '' \<and> c \<noteq> CHR 0x09 then i else firstNonWhitespaceIndex (i + 1) line)"

text \<open>The search upwards for the line that opens a heredoc; \<open>n\<close> is \<open>i + 1\<close>\<close>

fun heredoc_above :: "string \<Rightarrow> string list \<Rightarrow> nat \<Rightarrow> bool option" where
  "heredoc_above line lines 0 = Some False"
| "heredoc_above line lines (Suc i) = do {
     l \<leftarrow> at lines (int i);
     let text = trim_space l;
     let parts = split_on text ''<<'';
     if contains text ''<<'' \<and> length parts = 2 then Some (line = trim_space (parts ! 1))
     else heredoc_above line lines i
   }"

definition isHeredocTerminator :: "string \<Rightarrow> string list \<Rightarrow> int \<Rightarrow> bool option" where
  "isHeredocTerminator line lines idx = heredoc_above line lines (nat idx)"

text \<open>The loop of the case \<open>nested-end\<close>: down from line \<open>i\<close> to line \<open>low\<close>\<close>

function indent_above :: "string list \<Rightarrow> int \<Rightarrow> int \<Rightarrow> int option" where
  "indent_above lines i low =
     (if i \<ge> low then
        (case at lines i of
           None \<Rightarrow> None
         | Some l \<Rightarrow>
             if trim_space l \<noteq> [] \<and> \<not> has_prefix (trim_space l) ''#''
             then Some (countLeadingSpacesOrTabs l)
             else indent_above lines (i - 1) low)
      else Some 0)"
  by pat_completeness auto
termination
  by (relation "measure (\<lambda>(lines, i, low). nat (i + 1 - low))") auto

declare indent_above.simps [simp del]

datatype caseType = NestedEnd | NestedStart | NestedBody | BlockBody | BlockStart

definition determineInsertionIndent ::
  "string list \<Rightarrow> int \<Rightarrow> caseType \<Rightarrow> int \<Rightarrow> int \<Rightarrow> int option" where
  "determineInsertionIndent lines insertionLine ct nestedStart nestedEnd =
     (case ct of
        NestedEnd \<Rightarrow> indent_above lines (nestedEnd - 2) (nestedStart - 1)
      | NestedStart \<Rightarrow>
          map_option (\<lambda>l. countLeadingSpacesOrTabs l + 2) (at lines (nestedStart - 1))
      | NestedBody \<Rightarrow> map_option countLeadingSpacesOrTabs (at lines (insertionLine - 1))
      | BlockBody \<Rightarrow> map_option countLeadingSpacesOrTabs (at lines (insertionLine - 1))
      | BlockStart \<Rightarrow> do {
          l \<leftarrow> at lines (insertionLine - 1);
          Some (if trim_space l \<noteq> ''}'' \<and> firstNonWhitespaceIndex 0 l \<noteq> - 1
                then firstNonWhitespaceIndex 0 l else 1)
        })"

text \<open>The loop that moves the insertion line above the attributes that end the block\<close>

function skip_attributes :: "attr_order \<Rightarrow> Block \<Rightarrow> int \<Rightarrow> int \<Rightarrow> int" where
  "skip_attributes r block i insertionLine =
     (if i \<ge> p_Line (b_Start block) then
        (case findContainingStructure r block i of
           (name, s, e, attr) \<Rightarrow>
             if attr \<and> p_Line e \<ge> insertionLine
             then skip_attributes r block (i - 1) (p_Line s - 1)
             else insertionLine)
      else insertionLine)"
  by pat_completeness auto
termination
  by (relation "measure (\<lambda>(r, block, i, n). nat (i + 1 - p_Line (b_Start block)))") auto

declare skip_attributes.simps [simp del]

definition calculateInsertionPoint ::
  "attr_order \<Rightarrow> Block \<Rightarrow> int \<Rightarrow> string list \<Rightarrow> (int \<times> int) option" where
  "calculateInsertionPoint r block line lines = do {
     let (name, nestedStart, nestedEnd, isAttr) = findContainingStructure r block line;
     (insertionLine, ct) \<leftarrow>
       (if name \<noteq> [] then do {
          l \<leftarrow> at lines (p_Line nestedStart - 1);
          let lineText = trim_space l;
          Some (if isAttr \<and> contains lineText ''('' \<and> contains lineText ''{''
                then (p_Line nestedEnd + 1, BlockBody)
                else if line = p_Line nestedEnd then (p_Line nestedEnd - 1, NestedEnd)
                else if line = p_Line nestedStart then (p_Line nestedStart + 1, NestedStart)
                else (line, NestedBody))
        }
        else if line = p_Line (b_Start block) then
          Some (skip_attributes r block (p_Line (b_End block) - 1) (p_Line (b_End block) - 1), BlockStart)
        else Some (line, BlockBody));
     indent \<leftarrow> determineInsertionIndent lines insertionLine ct (p_Line nestedStart) (p_Line nestedEnd);
     l \<leftarrow> at lines (insertionLine - 1);
     let trimmed = trim_space l;
     closes \<leftarrow> (if ct = BlockStart then
                 (if contains trimmed ''}'' then Some True
                  else isHeredocTerminator trimmed lines (insertionLine - 1))
               else Some False);
     Some (insertionLine, if closes then int (length l) + 1 else indent + 1)
   }"

section \<open>The block of a line\<close>

definition toResourceLine :: "Pos \<Rightarrow> ResourceLine" where
  "toResourceLine pos = \<lparr>Col = p_Column pos, LineNo = p_Line pos\<rparr>"

definition extractBlockSource :: "string list \<Rightarrow> int \<Rightarrow> int \<Rightarrow> string option" where
  "extractBlockSource lines start end' =
     map_option (\<lambda>ls. join ls [CHR 0x0A] @ [CHR 0x0A]) (slice lines (start - 1) end')"

definition block_lines ::
  "attr_order \<Rightarrow> Block \<Rightarrow> int \<Rightarrow> string list \<Rightarrow> VulnerabilityLines option" where
  "block_lines r block identifyingLine strLines = do {
     let start = b_Start block;
     let end' = b_End block;
     blockSrc \<leftarrow> extractBlockSource strLines (p_Line start) (p_Line end');
     (insertionLine, insertionCol) \<leftarrow> calculateInsertionPoint r block identifyingLine strLines;
     lineText \<leftarrow> at strLines (identifyingLine - 1);
     let loc = \<lparr>LocStart = toResourceLine start, LocEnd = toResourceLine end'\<rparr>;
     let ins = \<lparr>Col = insertionCol, LineNo = insertionLine\<rparr>;
     Some (zero_vuln_lines\<lparr>vl_VulnerablilityLocation := loc,
       vl_RemediationLocation := \<lparr>LocStart = ins, LocEnd = ins\<rparr>, vl_BlockLocation := loc,
       vl_LineWithVulnerability := lineText, vl_ResourceSource := blockSrc\<rparr>)
   }"

definition covers :: "int \<Rightarrow> Block \<Rightarrow> bool" where
  "covers line block \<longleftrightarrow> line \<ge> p_Line (b_Start block) \<and> line \<le> p_Line (b_End block)"

definition locateTerraformBlock ::
  "hcl_parser \<Rightarrow> attr_order \<Rightarrow> string \<Rightarrow> int \<Rightarrow> string list \<Rightarrow> (string + VulnerabilityLines) option" where
  "locateTerraformBlock parse r src identifyingLine strLines =
     (if identifyingLine \<le> 0 \<or> identifyingLine > int (length strLines)
      then Some (Inl (''line '' @ itoa identifyingLine @ '' is out of range''))
      else case parse src of
        Inl errs \<Rightarrow> Some (Inl (''failed to parse HCL: '' @ errs))
      | Inr None \<Rightarrow> Some (Inl ''unexpected HCL body type'')
      | Inr (Some blocks) \<Rightarrow>
          (case find (covers identifyingLine) blocks of
             Some block \<Rightarrow> map_option Inr (block_lines r block identifyingLine strLines)
           | None \<Rightarrow> Some (Inl (''failed to locate block for line '' @ itoa identifyingLine))))"

section \<open>DetectLine\<close>

definition buildEmptyVulnerabilityLines :: "FileMetadata \<Rightarrow> VulnerabilityLines" where
  "buildEmptyVulnerabilityLines file =
     zero_vuln_lines\<lparr>vl_Line := undetectedVulnerabilityLine, vl_VulnLines := [],
       vl_ResolvedFile := f_FilePath file, vl_ResourceSource := [],
       vl_FileSource := f_LinesOriginalData file\<rparr>"

definition terraform_DetectLine ::
  "distance \<Rightarrow> hcl_parser \<Rightarrow> ((int, int) gomap \<Rightarrow> (int, int) gomap) \<Rightarrow> attr_order \<Rightarrow> detector" where
  "terraform_DetectLine lev parse r ra file searchKey0 nlines = do {
     let searchKey = sanitizeSearchKey searchKey0;
     let detection0 = \<lparr>CurrentLine = 0, IsBreak = False, FoundAtLeastOne = False,
       d_ResolvedFile = f_FilePath file, d_ResolvedFiles = []\<rparr>;
     extracted \<leftarrow> GetBracketValues searchKey [] [];
     let normalizedKey = normalize_key 0 extracted searchKey;
     let keyParts = append_ref [] (fields_func (\<lambda>c. c = CHR ''.'' \<or> c = CHR ''/'') normalizedKey []);
     let lines = f_LinesOriginalData file;
     detection \<leftarrow> detect_keys lev r (\<lambda>s. s) extracted lines keyParts detection0;
     if FoundAtLeastOne detection then do {
       let line = CurrentLine detection + 1;
       located \<leftarrow> locateTerraformBlock parse ra (f_OriginalData file) line lines;
       case located of
         Inl err \<Rightarrow> Some (buildEmptyVulnerabilityLines file)
       | Inr vulnLines \<Rightarrow> do {
           adjacent \<leftarrow> GetAdjacentVulnLines (CurrentLine detection) nlines lines;
           Some (vulnLines\<lparr>vl_Line := line, vl_VulnLines := adjacent,
             vl_ResolvedFile := f_FilePath file, vl_FileSource := lines\<rparr>)
         }
     }
     else Some (buildEmptyVulnerabilityLines file)
   }"

section \<open>Lemmas\<close>

lemma append_ref_same: "append_ref before parts = before @ parts"
  by (induction before parts rule: append_ref.induct) auto

lemma calculateInsertionPoint_in_file:
  assumes "calculateInsertionPoint r block line lines = Some (l, c)"
  shows "1 \<le> l \<and> l \<le> int (length lines) \<and> 1 \<le> c"
proof -
  have count: "0 \<le> countLeadingSpacesOrTabs x" for x by (simp add: countLeadingSpacesOrTabs_def)
  have above: "indent_above lines i low = Some n \<Longrightarrow> 0 \<le> n" for i low n
    by (induction lines i low rule: indent_above.induct)
      (subst (asm) (2) indent_above.simps, auto simp: count split: if_splits option.splits)
  have first: "firstNonWhitespaceIndex i x = - 1 \<or> i \<le> firstNonWhitespaceIndex i x" for i x
    by (induction i x rule: firstNonWhitespaceIndex.induct) (auto split: if_splits)
  have indent: "determineInsertionIndent lines n ct s e = Some k \<Longrightarrow> 0 \<le> k" for n ct s e k
    using first [of 0] above count
    by (fastforce simp: determineInsertionIndent_def split: caseType.splits Option.bind_splits if_splits)
  show ?thesis using assms indent
    by (fastforce simp: calculateInsertionPoint_def Let_def at_Some_iff
        split: Option.bind_splits prod.splits if_splits)
qed

lemma block_lines_spec:
  assumes "block_lines r b line lines = Some v"
  shows "vl_BlockLocation v = \<lparr>LocStart = toResourceLine (b_Start b), LocEnd = toResourceLine (b_End b)\<rparr> \<and>
    vl_LineWithVulnerability v = lines ! nat (line - 1) \<and>
    (\<exists>src. slice lines (p_Line (b_Start b) - 1) (p_Line (b_End b)) = Some src \<and>
       vl_ResourceSource v = join src [CHR 0x0A] @ [CHR 0x0A]) \<and>
    1 \<le> LineNo (LocStart (vl_RemediationLocation v)) \<and>
    LineNo (LocStart (vl_RemediationLocation v)) \<le> int (length lines)"
  using assms calculateInsertionPoint_in_file [of r b line lines]
  by (auto simp: block_lines_def Let_def extractBlockSource_def at_Some_iff zero_vuln_lines_def
      split: Option.bind_splits)

lemma bracket_values_marked:
  assumes "GetBracketValues key [] [] = Some extracted"
  shows "\<forall>(m0, m1) \<in> set extracted. contains m0 ''{{''"
proof -
  have "contains (''{{'' @ inner @ ''}}'') ''{{''" for inner
    by (simp add: has_prefix_contains)
  then show ?thesis
    using bracket_values_all [OF assms, of "\<lambda>x. contains (fst x) ''{{''"] by auto
qed

lemma normalize_key_same:
  "\<forall>(m0, m1) \<in> set extracted. contains m0 ''{{'' \<Longrightarrow> normalize_key i extracted key = key"
  by (induction i extracted key rule: normalize_key.induct) auto

lemma located_found:
  assumes "terraform_DetectLine lev parse r ra f key n = Some v" and "range_order r"
  shows "vl_ResolvedFile v = f_FilePath f \<and>
    (v = buildEmptyVulnerabilityLines f \<or>
     1 \<le> vl_Line v \<and> vl_Line v \<le> int (length (f_LinesOriginalData f)) \<and>
     GetAdjacentVulnLines (vl_Line v - 1) n (f_LinesOriginalData f) = Some (vl_VulnLines v))"
proof -
  let ?d0 = "\<lparr>CurrentLine = 0, IsBreak = False, FoundAtLeastOne = False,
       d_ResolvedFile = f_FilePath f, d_ResolvedFiles = []\<rparr>"
  have "search_ok (f_LinesOriginalData f) ?d0" by (simp add: search_ok_def)
  then show ?thesis
    using assms detect_keys_ok [of lev r _ _ "f_LinesOriginalData f" _ ?d0]
    by (fastforce simp: terraform_DetectLine_def Let_def buildEmptyVulnerabilityLines_def
        zero_vuln_lines_def search_ok_def split: Option.bind_splits if_splits sum.splits)
qed

lemma terraform_line_detector:
  "range_order r \<Longrightarrow> line_detector (terraform_DetectLine lev parse r ra)"
  by unfold_locales
    (auto simp: detected_in_def undetectedVulnerabilityLine_def buildEmptyVulnerabilityLines_def
      zero_vuln_lines_def dest!: located_found)

interpretation terraform_det: line_detector "terraform_DetectLine lev parse rev ra" for lev parse ra
  by (rule terraform_line_detector) (rule range_order_id)

lemma find_Some_mem: "find p xs = Some x \<Longrightarrow> x \<in> set xs \<and> p x"
  by (induction xs) (auto split: if_splits)

lemma first_attribute_other:
  "\<forall>(k, a) \<in> set attrs. a_Expr a = OtherExpr \<Longrightarrow>
     first_attribute attrs line = ([], zero_pos, zero_pos, False)"
  by (induction attrs line rule: first_attribute.induct) auto

section \<open>Properties\<close>

text \<open>The block that \<open>locateTerraformBlock\<close> answers with is one of the parsed blocks and
  covers the line; the answer holds that block's location and source lines and the text of the
  line, and the place for a fix is a line of the file.\<close>

lemma terraform_block_located:
  assumes "locateTerraformBlock parse r src line lines = Some (Inr v)"
  shows "\<exists>blocks b. parse src = Inr (Some blocks) \<and> b \<in> set blocks \<and> covers line b \<and>
    vl_BlockLocation v = \<lparr>LocStart = toResourceLine (b_Start b), LocEnd = toResourceLine (b_End b)\<rparr> \<and>
    vl_LineWithVulnerability v = lines ! nat (line - 1) \<and>
    (\<exists>ls. slice lines (p_Line (b_Start b) - 1) (p_Line (b_End b)) = Some ls \<and>
       vl_ResourceSource v = join ls [CHR 0x0A] @ [CHR 0x0A]) \<and>
    1 \<le> LineNo (LocStart (vl_RemediationLocation v)) \<and>
    LineNo (LocStart (vl_RemediationLocation v)) \<le> int (length lines)"
proof -
  obtain blocks b where "parse src = Inr (Some blocks)" "find (covers line) blocks = Some b"
      "block_lines r b line lines = Some v"
    using assms by (auto simp: locateTerraformBlock_def split: if_splits sum.splits option.splits)
  then show ?thesis using block_lines_spec [of r b line lines v] find_Some_mem [of "covers line" blocks b]
    by blast
qed

text \<open>A block that starts and ends on the first line of its file, without an attribute whose
  value is an object or a function call, makes the Terraform detector panic for a result on that
  line: it looks for a place for the fix on the line above.\<close>

lemma terraform_one_line_block_panics:
  assumes "parse src = Inr (Some (Block ty \<lparr>p_Line = 1, p_Column = c\<rparr> \<lparr>p_Line = 1, p_Column = c'\<rparr> [] attrs # bs))"
    and "range_order r" and "\<forall>(k, a) \<in> set attrs. a_Expr a = OtherExpr"
  shows "locateTerraformBlock parse r src 1 (l # ls) = None"
proof -
  let ?b = "Block ty \<lparr>p_Line = 1, p_Column = c\<rparr> \<lparr>p_Line = 1, p_Column = c'\<rparr> [] attrs"
  have "first_attribute (r attrs) i = ([], zero_pos, zero_pos, False)" for i
    by (rule first_attribute_other) (use assms(3) range_order_set [OF assms(2)] in simp)
  then have "findContainingStructure r ?b i = ([], zero_pos, zero_pos, False)" for i by simp
  then have "calculateInsertionPoint r ?b 1 (l # ls) = None"
    by (simp add: calculateInsertionPoint_def skip_attributes.simps [of r ?b 0]
        determineInsertionIndent_def at_def)
  then show ?thesis using assms(1)
    by (simp add: locateTerraformBlock_def covers_def block_lines_def)
qed

text \<open>The placeholders that should protect the dots inside brackets are never put in: the
  Terraform detector's condition on the match is false for every match, so it splits the key
  itself.\<close>

lemma terraform_placeholders_never_used:
  assumes "GetBracketValues key [] [] = Some extracted"
  shows "normalize_key 0 extracted key = key \<and> append_ref [] parts = parts"
  using normalize_key_same [OF bracket_values_marked [OF assms]] by (simp add: append_ref_same)

end
