(* ===== verification/HelmDetect.thy ===== *)
theory HelmDetect
  imports TerraformDetect
begin

text \<open>
  The Helm detector (\<open>pkg/detector/helm/helm_detect.go\<close>) and the registry the inspector builds
  of the three detectors. The Helm detector deletes the auxiliary lines \<open># KICS_HELM_ID_\<close> from
  the slice it is ranging over; the slice is modelled with its backing array.
\<close>

section \<open>The search\<close>

record dupHistory =
  unique :: bool
  lastUniqueLine :: int

record detectCurlLine =
  foundRes :: bool
  lineRes :: int
  breakRes :: bool
  lastUnique :: dupHistory

type_synonym int_order = "(int, int) gomap \<Rightarrow> (int, int) gomap"
type_synonym id_info = "(int, (int, int) gomap) gomap option"

text \<open>A lookup in a Go map of integers: a missing key gives 0.\<close>

definition get_int :: "('k, int) gomap \<Rightarrow> 'k \<Rightarrow> int" where
  "get_int m k = (case map_of m k of Some v \<Rightarrow> v | None \<Rightarrow> 0)"

text \<open>The loop over the distances; the type assertion panics when the id has no entry.\<close>

fun no_duplicate ::
  "(int, int) gomap \<Rightarrow> int \<Rightarrow> (int, (int, int) gomap) gomap \<Rightarrow> int \<Rightarrow> (int, int) gomap \<Rightarrow> bool option" where
  "no_duplicate dis line idInfo id' [] = Some True"
| "no_duplicate dis line idInfo id' ((key, v) # entries) =
     (if v = get_int dis line \<and> key \<noteq> line then do {
        m \<leftarrow> map_of idInfo id';
        if get_int m key \<noteq> 0 then Some False else no_duplicate dis line idInfo id' entries
      }
      else no_duplicate dis line idInfo id' entries)"

definition detectLastSingle ::
  "int_order \<Rightarrow> int \<Rightarrow> (int, int) gomap \<Rightarrow> id_info \<Rightarrow> int \<Rightarrow> bool option" where
  "detectLastSingle r line dis idInfo id' =
     (case idInfo of
        None \<Rightarrow> Some True
      | Some info \<Rightarrow> no_duplicate dis line info id' (r dis))"

definition helm_check ::
  "distance \<Rightarrow> string \<Rightarrow> string \<Rightarrow> bool \<Rightarrow> string \<Rightarrow> int \<Rightarrow> (int, int) gomap \<Rightarrow> (int, int) gomap option" where
  "helm_check lev str1 str2 byKey line i distances =
     (if str1 \<noteq> [] \<and> str2 \<noteq> [] then
        (if contains line str1 \<and> contains line str2 then do {
           f \<leftarrow> ExtractLineFragment line str2 byKey;
           Some (gomap_put i (lev f str2) distances)
         }
         else Some distances)
      else if str1 \<noteq> [] \<and> contains line str1 then do {
        f \<leftarrow> ExtractLineFragment (trim_space line) str1 byKey;
        Some (gomap_put i (lev f str1) distances)
      }
      else Some distances)"

fun helm_distances ::
  "distance \<Rightarrow> string \<Rightarrow> string \<Rightarrow> bool \<Rightarrow> int \<Rightarrow> string list \<Rightarrow> (int, int) gomap \<Rightarrow>
     (int, int) gomap option" where
  "helm_distances lev str1 str2 byKey i [] distances = Some distances"
| "helm_distances lev str1 str2 byKey i (line # lines) distances = do {
     d \<leftarrow> helm_check lev str1 str2 byKey line i distances;
     helm_distances lev str1 str2 byKey (i + 1) lines d
   }"

definition helm_detectCurrentLine ::
  "distance \<Rightarrow> int_order \<Rightarrow> string list \<Rightarrow> string \<Rightarrow> string \<Rightarrow> bool \<Rightarrow> id_info \<Rightarrow> int \<Rightarrow> detectCurlLine \<Rightarrow>
     detectCurlLine option" where
  "helm_detectCurrentLine lev r lines str1 str2 byKey idInfo id' d = do {
     distances \<leftarrow> helm_distances lev str1 str2 byKey (lineRes d) (drop (nat (lineRes d)) lines) [];
     let lastSingle = lastUniqueLine (lastUnique d);
     if distances = [] then
       Some \<lparr>foundRes = foundRes d, lineRes = lineRes d, breakRes = True,
         lastUnique = \<lparr>unique = unique (lastUnique d), lastUniqueLine = lastSingle\<rparr>\<rparr>
     else do {
       let lineResponse = SelectLineWithMinimumDistance r distances (lineRes d);
       uniq \<leftarrow> detectLastSingle r lineResponse distances idInfo id';
       Some \<lparr>foundRes = True, lineRes = lineResponse, breakRes = False,
         lastUnique = \<lparr>unique = uniq,
           lastUniqueLine = (if uniq then lineResponse else lastSingle)\<rparr>\<rparr>
     }
   }"

fun helm_keys ::
  "distance \<Rightarrow> int_order \<Rightarrow> (string \<times> string) list \<Rightarrow> string list \<Rightarrow> id_info \<Rightarrow> int \<Rightarrow> string list \<Rightarrow>
     detectCurlLine \<Rightarrow> detectCurlLine option" where
  "helm_keys lev r extracted lines idInfo id' [] d = Some d"
| "helm_keys lev r extracted lines idInfo id' (key # keys) d = do {
     (substr1, _) \<leftarrow> GenerateSubstrings key extracted lines (lineRes d);
     d' \<leftarrow> helm_detectCurrentLine lev r lines (substr1 @ '':'') [] True idInfo id' d;
     if breakRes d' then Some d' else helm_keys lev r extracted lines idInfo id' keys d'
   }"

section \<open>The auxiliary lines\<close>

definition is_aux :: "string \<Rightarrow> bool" where
  "is_aux line \<longleftrightarrow> contains line ''# KICS_HELM_ID_''"

text \<open>
  \<open>lines = append(lines[:i], lines[i+1:]...)\<close> moves the rest of the slice one place down in its
  backing array \<open>arr\<close> and leaves what is behind the new end \<open>len - 1\<close> as it was. The loop ranges
  over the positions of the old slice, and reads the array as it is by then.
\<close>

fun delete_aux ::
  "nat list \<Rightarrow> string list \<Rightarrow> nat \<Rightarrow> int \<Rightarrow> (int, int) gomap \<Rightarrow> (string list \<times> (int, int) gomap) option" where
  "delete_aux [] arr len cnt lineRemove = Some (take len arr, lineRemove)"
| "delete_aux (i # is) arr len cnt lineRemove =
     (if is_aux (arr ! i) then
        (if Suc i \<le> len
         then delete_aux is (take i arr @ drop (Suc i) (take len arr) @ drop (len - 1) arr) (len - 1)
           (cnt + 1) (gomap_put (int i) (cnt + 1) lineRemove)
         else None)
      else delete_aux is arr len cnt lineRemove)"

definition remove_aux_lines :: "string list \<Rightarrow> (string list \<times> (int, int) gomap) option" where
  "remove_aux_lines lines = delete_aux [0 ..< length lines] lines (length lines) 0 []"

fun last_below :: "(int, int) gomap \<Rightarrow> int \<Rightarrow> int list \<Rightarrow> int \<Rightarrow> int" where
  "last_below lineRemove current [] remove = remove"
| "last_below lineRemove current (k # ks) remove =
     (if current > k then last_below lineRemove current ks (get_int lineRemove k) else remove)"

definition removeLines :: "int_order \<Rightarrow> int \<Rightarrow> (int, int) gomap \<Rightarrow> int" where
  "removeLines r current lineRemove =
     current - last_below lineRemove current (sort (map fst (r lineRemove))) 0"

section \<open>DetectLine\<close>

definition helm_DetectLine :: "distance \<Rightarrow> int_order \<Rightarrow> detector" where
  "helm_DetectLine lev r file searchKey0 nlines = do {
     let searchKey = trim_right_set (trim_left_set (f_HelmID file) ''# '') '':'' @ ''.'' @ searchKey0;
     let lines = f_LinesOriginalData file;
     let curLineRes0 = \<lparr>foundRes = False, lineRes = 0, breakRes = False,
       lastUnique = \<lparr>unique = False, lastUniqueLine = 0\<rparr>\<rparr>;
     extractedString \<leftarrow> GetBracketValues searchKey [] [];
     let sanitizedSubstring = number_placeholders 0 extractedString searchKey;
     let helmID = (case atoi (trim_suffix (trim_prefix (f_HelmID file) ''# KICS_HELM_ID_'') '':'') of
       Some n \<Rightarrow> n | None \<Rightarrow> - 1);
     res \<leftarrow> helm_keys lev r extractedString lines (f_IDInfo file) helmID
       (split_on sanitizedSubstring ''.'') curLineRes0;
     let line = (if unique (lastUnique res) then lineRes res else lastUniqueLine (lastUnique res));
     if foundRes res then do {
       (lines', lineRemove) \<leftarrow> remove_aux_lines lines;
       let line' = removeLines r line lineRemove;
       vulnLines \<leftarrow> GetAdjacentVulnLines line' nlines lines';
       text \<leftarrow> at lines' line';
       Some (zero_vuln_lines\<lparr>vl_Line := line' + 1, vl_VulnLines := vulnLines,
         vl_LineWithVulnerability := hd (split_on text '': ''), vl_ResolvedFile := f_FilePath file\<rparr>)
     }
     else Some (zero_vuln_lines\<lparr>vl_Line := undetectedVulnerabilityLine, vl_VulnLines := [],
       vl_ResolvedFile := f_FilePath file\<rparr>)
   }"

section \<open>The inspector's registry\<close>

definition inspector_detectors ::
  "distance \<Rightarrow> hcl_parser \<Rightarrow> int_order \<Rightarrow> attr_order \<Rightarrow> int \<Rightarrow> DetectLine" where
  "inspector_detectors lev parse r ra n =
     Add (terraform_DetectLine lev parse r ra) KindTerraform
       (Add (helm_DetectLine lev r) KindHELM (NewDetectLine lev r n))"

section \<open>Lemmas\<close>

lemma delete_aux_length:
  "delete_aux is arr len n m = Some (ls, m') \<Longrightarrow> length ls \<le> len"
proof (induction "is" arr len n m rule: delete_aux.induct)
  case (2 i "is" arr len n m)
  then show ?case by (fastforce split: if_splits)
qed auto

lemma remove_aux_shorter: "remove_aux_lines lines = Some (ls, m) \<Longrightarrow> length ls \<le> length lines"
  unfolding remove_aux_lines_def by (rule delete_aux_length)

lemma helm_line_detector: "line_detector (helm_DetectLine lev r)"
  by unfold_locales
    (auto simp: helm_DetectLine_def Let_def detected_in_def undetectedVulnerabilityLine_def
      zero_vuln_lines_def at_Some_iff dest!: remove_aux_shorter split: Option.bind_splits if_splits)

interpretation helm_det: line_detector "helm_DetectLine lev r" for lev r
  by (rule helm_line_detector)

lemma inspector_registry_ok: "range_order r \<Longrightarrow> registry_ok (inspector_detectors lev parse r ra n)"
  unfolding inspector_detectors_def
  by (intro registry_add registry_new helm_line_detector terraform_line_detector)

text \<open>
  Where no two auxiliary lines are adjacent and the last line is none, the loop deletes exactly
  the auxiliary lines; \<open>aux_entries\<close> are the entries it makes in \<open>lineRemove\<close>.
\<close>

fun separated :: "string list \<Rightarrow> bool" where
  "separated [] = True"
| "separated [x] = (\<not> is_aux x)"
| "separated (x # y # zs) = ((\<not> is_aux x \<or> \<not> is_aux y) \<and> separated (y # zs))"

fun aux_entries :: "nat \<Rightarrow> int \<Rightarrow> string list \<Rightarrow> (int \<times> int) list" where
  "aux_entries i n [] = []"
| "aux_entries i n (x # xs) =
     (if is_aux x then (int i, n + 1) # aux_entries i (n + 1) xs else aux_entries (Suc i) n xs)"

lemma separated_last: "separated ys \<Longrightarrow> ys \<noteq> [] \<Longrightarrow> \<not> is_aux (last ys)"
  by (induction ys rule: separated.induct) auto

lemma delete_aux_none:
  "\<forall>i \<in> set is. \<not> is_aux (arr ! i) \<Longrightarrow> delete_aux is arr len n m = Some (take len arr, m)"
  by (induction "is" arr len n m rule: delete_aux.induct) auto

lemma delete_aux_spec:
  "separated ys \<Longrightarrow> length D = i \<Longrightarrow> \<forall>t \<in> set tail. \<not> is_aux t \<Longrightarrow> N = i + length ys + length tail \<Longrightarrow>
   delete_aux [i ..< N] (D @ ys @ tail) (i + length ys) n m =
     Some (D @ filter (\<lambda>l. \<not> is_aux l) ys, foldl (\<lambda>m (k, v). gomap_put k v m) m (aux_entries i n ys))"
proof (induction "length ys" arbitrary: ys D i tail n m rule: less_induct)
  case less
  show ?case
  proof (cases ys)
    case Nil
    then show ?thesis using less.prems by (subst delete_aux_none) (auto simp: nth_append)
  next
    case (Cons y zs)
    then have "i < N" using less.prems by simp
    then have range: "[i ..< N] = i # [Suc i ..< N]" by (rule upt_conv_Cons)
    have at_i: "(D @ ys @ tail) ! i = y" using less.prems(2) Cons by (simp add: nth_append)
    show ?thesis
    proof (cases "is_aux y")
      case False
      have sep: "separated zs" using less.prems(1) Cons by (cases zs) auto
      have "delete_aux [Suc i ..< N] ((D @ [y]) @ zs @ tail) (Suc i + length zs) n m =
          Some ((D @ [y]) @ filter (\<lambda>l. \<not> is_aux l) zs,
            foldl (\<lambda>m (k, v). gomap_put k v m) m (aux_entries (Suc i) n zs))"
        by (rule less.hyps) (use less.prems Cons sep in auto)
      then show ?thesis using False range at_i Cons by simp
    next
      case True
      obtain z ws where zs: "zs = z # ws" using less.prems(1) True Cons by (cases zs) auto
      have z: "\<not> is_aux z" and sep: "separated ws"
        using less.prems(1) True Cons zs by (cases ws; simp)+
      have last: "\<not> is_aux (last ys)"
        by (rule separated_last) (use less.prems(1) Cons in auto)
      have arr: "take i (D @ ys @ tail) @ drop (Suc i) (take (i + length ys) (D @ ys @ tail)) @
          drop (i + length ys - 1) (D @ ys @ tail) = (D @ [z]) @ ws @ (last ys # tail)"
      proof -
        obtain u v where "ys = u @ [v]" using Cons rev_exhaust by blast
        then have "drop (i + length ys - 1) (D @ ys @ tail) = last ys # tail"
          using less.prems(2) by simp
        then show ?thesis using less.prems(2) Cons zs by simp
      qed
      have "delete_aux [Suc i ..< N] ((D @ [z]) @ ws @ (last ys # tail)) (Suc i + length ws) (n + 1)
            (gomap_put (int i) (n + 1) m) =
          Some ((D @ [z]) @ filter (\<lambda>l. \<not> is_aux l) ws, foldl (\<lambda>m (k, v). gomap_put k v m)
            (gomap_put (int i) (n + 1) m) (aux_entries (Suc i) (n + 1) ws))"
        by (rule less.hyps) (use less.prems Cons zs sep last in auto)
      then show ?thesis using True range at_i Cons zs z arr by simp
    qed
  qed
qed

lemma remove_aux_lines_separated:
  assumes "separated lines"
  shows "remove_aux_lines lines =
    Some (filter (\<lambda>l. \<not> is_aux l) lines,
      foldl (\<lambda>m (k, v). gomap_put k v m) [] (aux_entries 0 0 lines))"
  using delete_aux_spec [OF assms, of "[]" 0 "[]" "length lines" 0 "[]"]
  by (simp add: remove_aux_lines_def)

lemma aux_entries_plain:
  "\<forall>x \<in> set xs. \<not> is_aux x \<Longrightarrow> aux_entries i n (xs @ ys) = aux_entries (i + length xs) n ys"
  by (induction xs arbitrary: i) auto

lemma separated_plain: "\<forall>x \<in> set xs. \<not> is_aux x \<Longrightarrow> separated xs"
  by (induction xs rule: separated.induct) auto

lemma separated_append:
  "\<forall>x \<in> set xs. \<not> is_aux x \<Longrightarrow> ys \<noteq> [] \<Longrightarrow> separated (xs @ ys) \<longleftrightarrow> separated ys"
proof (induction xs)
  case (Cons x xs)
  then show ?case by (cases xs; cases ys) simp_all
qed simp

lemma separated_document:
  "is_aux h \<Longrightarrow> ys \<noteq> [] \<Longrightarrow> \<not> is_aux (hd ys) \<Longrightarrow> separated (h # ys) \<longleftrightarrow> separated ys"
  by (cases ys) auto

lemma removeLines_sorted:
  "range_order r \<Longrightarrow> gomap_ok m \<Longrightarrow> sorted (map fst m) \<Longrightarrow>
     removeLines r cur m = cur - last_below m cur (map fst m) 0"
proof -
  assume a: "range_order r" "gomap_ok m" "sorted (map fst m)"
  have "mset (map fst (r m)) = mset (map fst m)"
    using a(1) by (simp add: range_order_def)
  then have "sort (map fst (r m)) = map fst m"
    using a(3) by (intro properties_for_sort) auto
  then show ?thesis by (simp add: removeLines_def)
qed

section \<open>Properties\<close>

text \<open>C4. With the detectors the inspector registers, whatever the file and the search key: if
  \<open>DetectLine\<close> returns, it answers with a line of the file, or with -1 and no lines, and names
  the file it was asked about.\<close>

theorem detectors_stay_in_file:
  assumes "range_order r" and "registry_DetectLine (inspector_detectors lev parse r ra n) file key = Some v"
  shows "detected_in file v \<and> vl_ResolvedFile v = f_FilePath file"
  using registry_line_detector [OF inspector_registry_ok [OF assms(1)]] assms(2)
    line_detector.detect_in_file line_detector.detect_resolved by blast

theorem detectors_stay_in_file_witness:
  "\<exists>v. registry_DetectLine (inspector_detectors (\<lambda>a b. 0) (\<lambda>src. Inl ''x'') rev id 3)
     (zero_file\<lparr>f_FilePath := ''a''\<rparr>) [] = Some v \<and> vl_ResolvedFile v = ''a''"
proof -
  let ?d = "inspector_detectors (\<lambda>a b. 0) (\<lambda>src. Inl ''x'') rev id 3"
  let ?f = "zero_file\<lparr>f_FilePath := ''a''\<rparr>"
  have brackets: "GetBracketValues [] [] [] = Some []"
    using bracket_values_render [of "[]" "[]" "[]"] by simp
  have "\<exists>v. registry_DetectLine ?d ?f [] = Some v"
    by (simp add: registry_DetectLine_def inspector_detectors_def Add_def NewDetectLine_def zero_file_def
        KindTerraform_def KindHELM_def KindBICEP_def default_DetectLine_def brackets split_on_absent
        contains_def GenerateSubstrings_def fallback_substrings_def split_two_def DetectCurrentLine_def
        index_of_def trim_space_def Let_def prepareResolvedFiles_def)
  then obtain v where v: "registry_DetectLine ?d ?f [] = Some v" by blast
  have "vl_ResolvedFile v = ''a''"
    using detectors_stay_in_file [OF range_order_id(3) v] by simp
  with v show ?thesis by blast
qed

text \<open>In a Helm template with one auxiliary line, which is not its last, the detector removes
  that line and no other, and a line found before or after it is reported at its place in the
  original template.\<close>

lemma helm_single_document:
  assumes "is_aux h" and "\<forall>l \<in> set (A @ B). \<not> is_aux l" and "B \<noteq> []" and "range_order r"
    and "0 \<le> k" and "k < int (length (A @ h # B))" and "k \<noteq> int (length A)"
  shows "\<exists>m. remove_aux_lines (A @ h # B) = Some (A @ B, m) \<and>
    (A @ B) ! nat (removeLines r k m) = (A @ h # B) ! nat k"
proof -
  have "separated (A @ h # B)"
    using assms(1-3) by (simp add: separated_append separated_document separated_plain)
  moreover have "aux_entries 0 0 (A @ h # B) = [(int (length A), 1)]"
    using assms(1,2) aux_entries_plain [of B "length A" 1 "[]"] by (simp add: aux_entries_plain)
  moreover have "filter (\<lambda>l. \<not> is_aux l) (A @ h # B) = A @ B"
    using assms(1,2) by (simp add: filter_id_conv)
  ultimately have "remove_aux_lines (A @ h # B) = Some (A @ B, [(int (length A), 1)])"
    by (simp add: remove_aux_lines_separated)
  moreover have "removeLines r k [(int (length A), 1)] = (if k > int (length A) then k - 1 else k)"
    using assms(4) by (simp add: removeLines_sorted get_int_def)
  moreover have "(A @ B) ! nat (k - 1) = (A @ h # B) ! nat k" if "k > int (length A)"
  proof -
    define j where "j = nat k - Suc (length A)"
    then have "nat k = length A + Suc j" "nat (k - 1) = length A + j" using that by auto
    then show ?thesis by (simp add: nth_append)
  qed
  moreover have "(A @ B) ! nat k = (A @ h # B) ! nat k" if "k < int (length A)"
    using that assms(5) by (simp add: nth_append nat_less_iff)
  ultimately show ?thesis using assms(7) by (auto simp: not_less)
qed

text \<open>In a template of three documents, the last line of the second is reported one line too
  high: the deletions made while ranging put the third auxiliary line's entry too early.\<close>

lemma helm_third_document_misplaced:
  assumes "is_aux h1" and "is_aux h2" and "is_aux h3" and "\<forall>l \<in> set (A @ B @ C). \<not> is_aux l"
    and "A \<noteq> []" and "B \<noteq> []" and "C \<noteq> []" and "range_order r"
  shows "\<exists>m k. remove_aux_lines (h1 # A @ h2 # B @ h3 # C) = Some (A @ B @ C, m) \<and>
    (h1 # A @ h2 # B @ h3 # C) ! nat k = last B \<and>
    (A @ B @ C) ! nat (k - 2) = last B \<and> removeLines r k m = k - 3"
proof -
  let ?xs = "h1 # A @ h2 # B @ h3 # C"
  let ?a = "int (length A)" and ?b = "int (length B)"
  let ?m = "[(0, 1), (?a, 2), (?a + ?b, 3)] :: (int \<times> int) list"
  let ?k = "?a + ?b + 1"
  have sepC: "separated C" and plain: "\<not> is_aux (hd A)" "\<not> is_aux (hd B)" "\<not> is_aux (hd C)"
    using assms(4-7) by (auto intro: separated_plain)
  have "separated ?xs"
    using assms plain sepC by (simp add: separated_append separated_document)
  moreover have "aux_entries 0 0 ?xs = ?m"
    using assms(1-4) aux_entries_plain [of C _ _ "[]"] by (simp add: aux_entries_plain)
  moreover have "filter (\<lambda>l. \<not> is_aux l) ?xs = A @ B @ C"
    using assms(1-4) by (simp add: filter_id_conv)
  moreover have pos: "0 < ?a" "0 < ?b" using assms(5,6) by simp_all
  moreover have ne: "?a + ?b \<noteq> 0" using pos by linarith
  then have "foldl (\<lambda>m (k, v). gomap_put k v m) [] ?m = ?m" using assms(5,6) by simp
  ultimately have "remove_aux_lines ?xs = Some (A @ B @ C, ?m)"
    by (simp only: remove_aux_lines_separated)
  moreover have "removeLines r ?k ?m = ?k - 3"
    using assms(5,6,8) ne by (simp add: removeLines_sorted get_int_def)
  moreover have "nat ?k = Suc (length A + length B)" "nat (?k - 2) = length A + (length B - 1)"
    using pos by linarith+
  then have "?xs ! nat ?k = last B" "(A @ B @ C) ! nat (?k - 2) = last B"
    using assms(6) by (simp_all add: nth_append nth_Cons' last_conv_nth)
  ultimately show ?thesis by blast
qed

end
