(* ===== verification/Tracker.thy ===== *)
theory Tracker
  imports ModelTypes
begin

text \<open>
  The scan counters. The engine and the services see a tracker through the interfaces of
  \<open>pkg/engine/tracker.go\<close> and \<open>pkg/kics/service.go\<close>: a Go interface value is a record of
  operations here (\<open>EngineTracker\<close>, \<open>FilesTracker\<close>), the laws an implementation promises are
  the locales \<open>engine_tracker\<close> and \<open>files_tracker\<close>, and \<open>CITracker\<close>
  (\<open>internal/tracker/ci.go\<close>) is the implementation. Counters are unbounded here: they count
  files and queries and stay far below \<open>2 ^ 63\<close>.
\<close>

section \<open>The interfaces\<close>

record 't EngineTracker =
  op_TrackQueryLoad :: "int \<Rightarrow> 't \<Rightarrow> 't"
  op_TrackQueryExecuting :: "int \<Rightarrow> 't \<Rightarrow> 't"
  op_TrackQueryExecution :: "int \<Rightarrow> 't \<Rightarrow> 't"
  op_TrackScanPath :: "'t \<Rightarrow> 't"
  op_TrackScanSecret :: "'t \<Rightarrow> 't"
  op_FailedDetectLine :: "'t \<Rightarrow> 't"
  op_FailedComputeSimilarityID :: "'t \<Rightarrow> 't"
  op_FailedComputeOldSimilarityID :: "'t \<Rightarrow> 't"
  op_GetOutputLines :: "'t \<Rightarrow> int"

record 't FilesTracker =
  op_TrackFileFound :: "string \<Rightarrow> 't \<Rightarrow> 't"
  op_TrackFileParse :: "string \<Rightarrow> 't \<Rightarrow> 't"
  op_TrackFileFoundCountLines :: "int \<Rightarrow> 't \<Rightarrow> 't"
  op_TrackFileParseCountLines :: "int \<Rightarrow> 't \<Rightarrow> 't"
  op_TrackFileIgnoreCountLines :: "int \<Rightarrow> 't \<Rightarrow> 't"
  op_TrackFileFoundCountResources :: "int \<Rightarrow> 't \<Rightarrow> 't"

text \<open>
  What the engine relies on: \<open>loaded\<close>, \<open>executing\<close>, \<open>executed\<close> and \<open>failed_ids\<close> read the
  tracker, and each operation moves the one count it is about.
\<close>

locale engine_tracker =
  fixes ops :: "'t EngineTracker"
    and loaded executing executed failed_ids :: "'t \<Rightarrow> int"
  assumes load:
      "loaded (op_TrackQueryLoad ops n t) = loaded t + n"
      "executed (op_TrackQueryLoad ops n t) = executed t"
      "executing (op_TrackQueryLoad ops n t) = executing t"
    and executing:
      "executing (op_TrackQueryExecuting ops n t) = executing t + n"
      "executed (op_TrackQueryExecuting ops n t) = executed t"
      "loaded (op_TrackQueryExecuting ops n t) = loaded t"
    and execution:
      "executed (op_TrackQueryExecution ops n t) = executed t + n"
      "executing (op_TrackQueryExecution ops n t) = executing t"
      "loaded (op_TrackQueryExecution ops n t) = loaded t"
    and failed_line:
      "executed (op_FailedDetectLine ops t) = executed t - 1"
      "loaded (op_FailedDetectLine ops t) = loaded t"
      "executing (op_FailedDetectLine ops t) = executing t"
    and failed_id:
      "failed_ids (op_FailedComputeSimilarityID ops t) = failed_ids t + 1"
      "executed (op_FailedComputeSimilarityID ops t) = executed t"
      "executed (op_FailedComputeOldSimilarityID ops t) = executed t"
    and frame_ids:
      "failed_ids (op_TrackQueryLoad ops n t) = failed_ids t"
      "failed_ids (op_TrackQueryExecution ops n t) = failed_ids t"
      "failed_ids (op_FailedDetectLine ops t) = failed_ids t"
begin

lemmas tracker_laws [simp] = load executing execution failed_line failed_id frame_ids

lemma loads: "loaded (foldl (\<lambda>t n. op_TrackQueryLoad ops n t) t ns) = loaded t + sum_list ns"
  by (induction ns arbitrary: t) auto

lemma loads_frame:
  "executed (foldl (\<lambda>t n. op_TrackQueryLoad ops n t) t ns) = executed t"
  "executing (foldl (\<lambda>t n. op_TrackQueryLoad ops n t) t ns) = executing t"
  by (induction ns arbitrary: t) auto

lemma executings:
  "executing (foldl (\<lambda>t n. op_TrackQueryExecuting ops n t) t ns) = executing t + sum_list ns"
  by (induction ns arbitrary: t) auto

lemma executions:
  "executed (foldl (\<lambda>t n. op_TrackQueryExecution ops n t) t ns) = executed t + sum_list ns"
  by (induction ns arbitrary: t) auto

end

text \<open>
  What the services rely on: the number of files found and parsed counts a path once, however
  often it is tracked, and the line counts add up.
\<close>

locale files_tracker =
  fixes fops :: "'t FilesTracker"
    and found_paths parsed_paths :: "'t \<Rightarrow> string set"
    and found_files parsed_files found_lines parsed_lines ignored_lines :: "'t \<Rightarrow> int"
    and inv :: "'t \<Rightarrow> bool"
  assumes found: "inv t \<Longrightarrow> found_paths (op_TrackFileFound fops p t) = insert p (found_paths t)"
    and found_parsed: "parsed_paths (op_TrackFileFound fops p t) = parsed_paths t"
    and parsed: "inv t \<Longrightarrow> parsed_paths (op_TrackFileParse fops p t) = insert p (parsed_paths t)"
    and parsed_found: "found_paths (op_TrackFileParse fops p t) = found_paths t"
    and found_count: "inv t \<Longrightarrow> found_files t = int (card (found_paths t))"
    and parsed_count: "inv t \<Longrightarrow> parsed_files t = int (card (parsed_paths t))"
    and inv_found: "inv t \<Longrightarrow> inv (op_TrackFileFound fops p t)"
    and inv_parsed: "inv t \<Longrightarrow> inv (op_TrackFileParse fops p t)"
    and count_frame:
      "t' \<in> {op_TrackFileFoundCountLines fops n t, op_TrackFileParseCountLines fops n t,
         op_TrackFileIgnoreCountLines fops n t, op_TrackFileFoundCountResources fops n t} \<Longrightarrow>
       found_paths t' = found_paths t \<and> parsed_paths t' = parsed_paths t \<and> (inv t \<longrightarrow> inv t')"
    and lines_found: "found_lines (op_TrackFileFoundCountLines fops n t) = found_lines t + n"
    and lines_parsed: "parsed_lines (op_TrackFileParseCountLines fops n t) = parsed_lines t + n"
    and lines_ignored: "ignored_lines (op_TrackFileIgnoreCountLines fops n t) = ignored_lines t + n"
begin

lemma track_all_found:
  "inv t \<Longrightarrow>
     inv (foldl (\<lambda>t p. op_TrackFileFound fops p t) t ps) \<and>
     found_paths (foldl (\<lambda>t p. op_TrackFileFound fops p t) t ps) = found_paths t \<union> set ps"
  by (induction ps arbitrary: t) (auto simp: inv_found found)

lemma found_files_distinct:
  "inv t \<Longrightarrow> found_files (foldl (\<lambda>t p. op_TrackFileFound fops p t) t ps) =
     int (card (found_paths t \<union> set ps))"
  using track_all_found by (simp add: found_count)

lemma parsed_le_found:
  assumes "inv t" and "parsed_paths t \<subseteq> found_paths t" and "finite (found_paths t)"
  shows "parsed_files t \<le> found_files t"
  using assms by (simp add: found_count parsed_count card_mono)

end

section \<open>CITracker\<close>

record CITracker =
  ExecutingQueries :: int
  ExecutedQueries :: int
  FoundFiles :: int
  FailedSimilarityID :: int
  FailedOldSimilarityID :: int
  LoadedQueries :: int
  ParsedFiles :: int
  ScanSecrets :: int
  ScanPaths :: int
  lines :: int
  FoundCountLines :: int
  ParsedCountLines :: int
  IgnoreCountLines :: int
  VersionInfo :: "bool \<times> string"
  BagOfFilesParse :: "(string, int) gomap"
  BagOfFilesFound :: "(string, int) gomap"
  FoundResources :: int

definition zero_tracker :: CITracker where
  "zero_tracker =
     \<lparr>ExecutingQueries = 0, ExecutedQueries = 0, FoundFiles = 0, FailedSimilarityID = 0,
      FailedOldSimilarityID = 0, LoadedQueries = 0, ParsedFiles = 0, ScanSecrets = 0,
      ScanPaths = 0, lines = 0, FoundCountLines = 0, ParsedCountLines = 0, IgnoreCountLines = 0,
      VersionInfo = (False, []), BagOfFilesParse = [], BagOfFilesFound = [], FoundResources = 0\<rparr>"

definition MinimumPreviewLines :: int where "MinimumPreviewLines = 1"
definition MaximumPreviewLines :: int where "MaximumPreviewLines = 30"

definition NewTracker :: "int \<Rightarrow> string + CITracker" where
  "NewTracker previewLines =
     (if previewLines < MinimumPreviewLines \<or> previewLines > MaximumPreviewLines
      then Inl (''output lines minimum is '' @ itoa MinimumPreviewLines @
                '' and maximum is '' @ itoa MaximumPreviewLines)
      else Inr (zero_tracker\<lparr>lines := previewLines\<rparr>))"

definition GetOutputLines :: "CITracker \<Rightarrow> int" where
  "GetOutputLines c = lines c"

definition TrackQueryLoad :: "int \<Rightarrow> CITracker \<Rightarrow> CITracker" where
  "TrackQueryLoad n c = c\<lparr>LoadedQueries := LoadedQueries c + n\<rparr>"

definition TrackQueryExecuting :: "int \<Rightarrow> CITracker \<Rightarrow> CITracker" where
  "TrackQueryExecuting n c = c\<lparr>ExecutingQueries := ExecutingQueries c + n\<rparr>"

definition TrackQueryExecution :: "int \<Rightarrow> CITracker \<Rightarrow> CITracker" where
  "TrackQueryExecution n c = c\<lparr>ExecutedQueries := ExecutedQueries c + n\<rparr>"

definition TrackFileFound :: "string \<Rightarrow> CITracker \<Rightarrow> CITracker" where
  "TrackFileFound path c =
     (case map_of (BagOfFilesFound c) path of
        None \<Rightarrow> c\<lparr>BagOfFilesFound := gomap_put path 1 (BagOfFilesFound c),
                  FoundFiles := FoundFiles c + 1\<rparr>
      | Some n \<Rightarrow> c\<lparr>BagOfFilesFound := gomap_put path (n + 1) (BagOfFilesFound c)\<rparr>)"

definition TrackFileParse :: "string \<Rightarrow> CITracker \<Rightarrow> CITracker" where
  "TrackFileParse path c =
     (case map_of (BagOfFilesParse c) path of
        None \<Rightarrow> c\<lparr>BagOfFilesParse := gomap_put path 1 (BagOfFilesParse c),
                  ParsedFiles := ParsedFiles c + 1\<rparr>
      | Some n \<Rightarrow> c\<lparr>BagOfFilesParse := gomap_put path (n + 1) (BagOfFilesParse c)\<rparr>)"

definition FailedDetectLine :: "CITracker \<Rightarrow> CITracker" where
  "FailedDetectLine c = c\<lparr>ExecutedQueries := ExecutedQueries c - 1\<rparr>"

definition FailedComputeSimilarityID :: "CITracker \<Rightarrow> CITracker" where
  "FailedComputeSimilarityID c = c\<lparr>FailedSimilarityID := FailedSimilarityID c + 1\<rparr>"

definition FailedComputeOldSimilarityID :: "CITracker \<Rightarrow> CITracker" where
  "FailedComputeOldSimilarityID c = c\<lparr>FailedOldSimilarityID := FailedOldSimilarityID c + 1\<rparr>"

definition TrackScanSecret :: "CITracker \<Rightarrow> CITracker" where
  "TrackScanSecret c = c\<lparr>ScanSecrets := ScanSecrets c + 1\<rparr>"

definition TrackScanPath :: "CITracker \<Rightarrow> CITracker" where
  "TrackScanPath c = c\<lparr>ScanPaths := ScanPaths c + 1\<rparr>"

definition TrackVersion :: "bool \<times> string \<Rightarrow> CITracker \<Rightarrow> CITracker" where
  "TrackVersion retrievedVersion c = c\<lparr>VersionInfo := retrievedVersion\<rparr>"

definition TrackFileFoundCountLines :: "int \<Rightarrow> CITracker \<Rightarrow> CITracker" where
  "TrackFileFoundCountLines n c = c\<lparr>FoundCountLines := FoundCountLines c + n\<rparr>"

definition TrackFileParseCountLines :: "int \<Rightarrow> CITracker \<Rightarrow> CITracker" where
  "TrackFileParseCountLines n c = c\<lparr>ParsedCountLines := ParsedCountLines c + n\<rparr>"

definition TrackFileIgnoreCountLines :: "int \<Rightarrow> CITracker \<Rightarrow> CITracker" where
  "TrackFileIgnoreCountLines n c = c\<lparr>IgnoreCountLines := IgnoreCountLines c + n\<rparr>"

definition TrackFileFoundCountResources :: "int \<Rightarrow> CITracker \<Rightarrow> CITracker" where
  "TrackFileFoundCountResources n c = c\<lparr>FoundResources := FoundResources c + n\<rparr>"

lemmas tracker_defs = TrackQueryLoad_def TrackQueryExecuting_def TrackQueryExecution_def
  TrackFileFound_def TrackFileParse_def FailedDetectLine_def FailedComputeSimilarityID_def
  FailedComputeOldSimilarityID_def TrackScanSecret_def TrackScanPath_def TrackVersion_def
  TrackFileFoundCountLines_def TrackFileParseCountLines_def TrackFileIgnoreCountLines_def
  TrackFileFoundCountResources_def GetOutputLines_def

definition ci_engine :: "CITracker EngineTracker" where
  "ci_engine =
     \<lparr>op_TrackQueryLoad = TrackQueryLoad, op_TrackQueryExecuting = TrackQueryExecuting,
      op_TrackQueryExecution = TrackQueryExecution, op_TrackScanPath = TrackScanPath,
      op_TrackScanSecret = TrackScanSecret, op_FailedDetectLine = FailedDetectLine,
      op_FailedComputeSimilarityID = FailedComputeSimilarityID,
      op_FailedComputeOldSimilarityID = FailedComputeOldSimilarityID,
      op_GetOutputLines = GetOutputLines\<rparr>"

definition ci_files :: "CITracker FilesTracker" where
  "ci_files =
     \<lparr>op_TrackFileFound = TrackFileFound, op_TrackFileParse = TrackFileParse,
      op_TrackFileFoundCountLines = TrackFileFoundCountLines,
      op_TrackFileParseCountLines = TrackFileParseCountLines,
      op_TrackFileIgnoreCountLines = TrackFileIgnoreCountLines,
      op_TrackFileFoundCountResources = TrackFileFoundCountResources\<rparr>"

subsection \<open>The invariant of the bags\<close>

text \<open>
  Each count of files is the number of paths in its bag, and a bag counts from one.
\<close>

definition bag_ok :: "(string, int) gomap \<Rightarrow> int \<Rightarrow> bool" where
  "bag_ok b n \<longleftrightarrow> gomap_ok b \<and> n = int (length b) \<and> (\<forall>(p, k) \<in> set b. 1 \<le> k)"

definition tracker_ok :: "CITracker \<Rightarrow> bool" where
  "tracker_ok c \<longleftrightarrow> bag_ok (BagOfFilesFound c) (FoundFiles c) \<and> bag_ok (BagOfFilesParse c) (ParsedFiles c)"

definition bag_paths :: "(string, int) gomap \<Rightarrow> string set" where
  "bag_paths b = fst ` set b"

lemma bag_ok_card: "bag_ok b n \<Longrightarrow> n = int (card (bag_paths b))"
  using distinct_card [of "map fst b"] by (simp add: bag_ok_def bag_paths_def)

lemma bag_ok_new: "bag_ok b n \<Longrightarrow> map_of b p = None \<Longrightarrow> bag_ok (gomap_put p 1 b) (n + 1)"
  using gomap_put_mem [of b p 1]
  by (auto simp: bag_ok_def gomap_put_length map_of_eq_None_iff intro: gomap_put_ok)

lemma bag_ok_again:
  assumes "bag_ok b n" and "map_of b p = Some k"
  shows "bag_ok (gomap_put p (k + 1) b) n"
proof -
  from assms(2) have m: "(p, k) \<in> set b" by (rule map_of_SomeD)
  then have "p \<in> fst ` set b" by force
  moreover have "1 \<le> k" using m assms(1) by (auto simp: bag_ok_def)
  ultimately show ?thesis using assms(1) gomap_put_mem [of b p "k + 1"]
    by (auto simp: bag_ok_def gomap_put_length intro: gomap_put_ok)
qed

lemma tracker_ok_found: "tracker_ok c \<Longrightarrow> tracker_ok (TrackFileFound p c)"
  by (auto simp: tracker_ok_def TrackFileFound_def bag_ok_new bag_ok_again split: option.split)

lemma tracker_ok_parse: "tracker_ok c \<Longrightarrow> tracker_ok (TrackFileParse p c)"
  by (auto simp: tracker_ok_def TrackFileParse_def bag_ok_new bag_ok_again split: option.split)

lemma bag_paths_put: "bag_paths (gomap_put p k b) = insert p (bag_paths b)"
  by (simp add: bag_paths_def gomap_put_keys)

interpretation ci: engine_tracker ci_engine LoadedQueries ExecutingQueries ExecutedQueries
  FailedSimilarityID
  by unfold_locales (simp_all add: ci_engine_def tracker_defs)

interpretation ci_files: files_tracker ci_files "\<lambda>c. bag_paths (BagOfFilesFound c)"
  "\<lambda>c. bag_paths (BagOfFilesParse c)" FoundFiles ParsedFiles FoundCountLines ParsedCountLines
  IgnoreCountLines tracker_ok
  by unfold_locales
    (auto simp: ci_files_def tracker_ok_found tracker_ok_parse bag_ok_card tracker_ok_def
      tracker_defs bag_paths_put bag_ok_new bag_ok_again split: option.split)

lemma tracker_ok_new: "NewTracker n = Inr c \<Longrightarrow> tracker_ok c"
  by (auto simp: NewTracker_def tracker_ok_def bag_ok_def zero_tracker_def split: if_splits)

section \<open>Properties\<close>

text \<open>A tracker is created exactly for 1 to 30 preview lines, and it then has that many
  output lines and every counter at zero.\<close>

lemma new_tracker_bounds:
  "(\<exists>c. NewTracker n = Inr c) = (1 \<le> n \<and> n \<le> 30) \<and>
   (\<forall>c. NewTracker n = Inr c \<longrightarrow> GetOutputLines c = n \<and> c = zero_tracker\<lparr>lines := n\<rparr>)"
  by (auto simp: NewTracker_def GetOutputLines_def MinimumPreviewLines_def MaximumPreviewLines_def
      zero_tracker_def split: if_splits)

definition track_found_all :: "string list \<Rightarrow> CITracker \<Rightarrow> CITracker" where
  "track_found_all ps c = foldl (\<lambda>c p. TrackFileFound p c) c ps"

lemma bag_counts:
  "map_of (BagOfFilesFound (track_found_all ps c)) p =
     (if p \<in> set ps
      then Some ((case map_of (BagOfFilesFound c) p of None \<Rightarrow> 0 | Some k \<Rightarrow> k) + int (count_list ps p))
      else map_of (BagOfFilesFound c) p)"
proof (induction ps arbitrary: c)
  case (Cons q ps)
  have "track_found_all (q # ps) c = track_found_all ps (TrackFileFound q c)"
    by (simp add: track_found_all_def)
  moreover have "map_of (BagOfFilesFound (TrackFileFound q c)) p =
      (if p = q then Some ((case map_of (BagOfFilesFound c) p of None \<Rightarrow> 0 | Some k \<Rightarrow> k) + 1)
       else map_of (BagOfFilesFound c) p)"
    by (auto simp: TrackFileFound_def split: option.split)
  moreover have "p \<notin> set ps \<Longrightarrow> count_list ps p = 0" by simp
  ultimately show ?case using Cons.IH [of "TrackFileFound q c"] by auto
qed (simp add: track_found_all_def)

text \<open>After a new tracker has been told of the found files \<open>ps\<close>, the number of found files
  is the number of different paths, and the bag holds how often each path was found.\<close>

lemma found_files_counts_paths:
  assumes "NewTracker n = Inr c"
  shows "FoundFiles (track_found_all ps c) = int (card (set ps)) \<and>
    (\<forall>p. map_of (BagOfFilesFound (track_found_all ps c)) p =
           (if p \<in> set ps then Some (int (count_list ps p)) else None))"
proof -
  have z: "BagOfFilesFound c = []"
    using assms by (auto simp: NewTracker_def zero_tracker_def split: if_splits)
  have "FoundFiles (track_found_all ps c) = int (card (set ps))"
    using ci_files.found_files_distinct [OF tracker_ok_new [OF assms], of ps]
    by (simp add: track_found_all_def ci_files_def z bag_paths_def)
  then show ?thesis by (simp add: bag_counts z)
qed

end
