(* ===== verification/VulnBuilder.thy ===== *)
theory VulnBuilder
  imports Similarity HelmDetect Tracker
begin

text \<open>
  From a query's answer to a vulnerability: \<open>pkg/engine/vulnerability_utils.go\<close> and
  \<open>DefaultVulnerabilityBuilder\<close> (\<open>pkg/engine/vulnerability_builder.go\<close>). Logging is left out.
  Parameters: \<open>sha\<close> (SHA-256), \<open>marshal_doc\<close> (\<open>json.Marshal\<close> of a result), \<open>marshal\<close> and \<open>get\<close>
  of the search by path.
\<close>

section \<open>Reading a result\<close>

datatype engine_error = ErrNoResult | ErrInvalidResult | OtherError string

definition DefaultQueryID :: string where "DefaultQueryID = ''Undefined''"
definition DefaultQueryName :: string where "DefaultQueryName = ''Anonymous''"
definition DefaultExperimental :: bool where "DefaultExperimental = False"
definition DefaultQueryDescriptionID :: string where "DefaultQueryDescriptionID = ''Undefined''"
definition DefaultQueryURI :: string where
  "DefaultQueryURI = ''https://github.com/Checkmarx/kics/''"
definition DefaultIssueType :: IssueType where "DefaultIssueType = IssueTypeIncorrectValue"

definition mergeWithMetadata :: "doc \<Rightarrow> doc \<Rightarrow> doc" where
  "mergeWithMetadata base additional =
     foldl (\<lambda>b (k, v). if map_of b k \<noteq> None then b else gomap_put k v b) base additional"

definition bool_text :: "bool \<Rightarrow> string" where
  "bool_text b = (if b then ''true'' else ''false'')"

text \<open>A pointer to a string is a \<open>string option\<close>.\<close>

definition mapKeyToString :: "doc \<Rightarrow> string \<Rightarrow> bool \<Rightarrow> string + string option" where
  "mapKeyToString m key allowNil =
     (case map_of m key of
        None \<Rightarrow> Inl (''key '' @ [CHR 0x27] @ key @ [CHR 0x27] @ '' not found in map'')
      | Some v \<Rightarrow> Inr (case v of
          JNum t \<Rightarrow> Some t
        | JStr s \<Rightarrow> Some s
        | JInt i \<Rightarrow> Some (itoa i)
        | JFloat t \<Rightarrow> Some t
        | JNull \<Rightarrow> if allowNil then None else Some ''null''
        | JBool b \<Rightarrow> Some (bool_text b)
        | JList _ \<Rightarrow> if allowNil then None else Some []
        | JObj _ \<Rightarrow> if allowNil then None else Some []))"

definition mustMapKeyToString :: "doc \<Rightarrow> string \<Rightarrow> string option" where
  "mustMapKeyToString m key = (case mapKeyToString m key True of Inr res \<Rightarrow> res | Inl _ \<Rightarrow> None)"

definition PtrStringToString :: "string option \<Rightarrow> string" where
  "PtrStringToString v = (case v of None \<Rightarrow> [] | Some s \<Rightarrow> s)"

definition tryOverride :: "string \<Rightarrow> string \<Rightarrow> doc \<Rightarrow> string option" where
  "tryOverride overrideKey vulnParam vObj =
     (if overrideKey \<noteq> [] then
        (case map_of vObj ''override'' of
           Some (JObj override) \<Rightarrow>
             (case map_of override overrideKey of
                Some (JObj overrideObject) \<Rightarrow>
                  (case map_of overrideObject vulnParam of
                     Some _ \<Rightarrow>
                       (case mapKeyToString overrideObject vulnParam True of
                          Inl _ \<Rightarrow> None | Inr overrideValue \<Rightarrow> overrideValue)
                   | None \<Rightarrow> None)
              | _ \<Rightarrow> None)
         | _ \<Rightarrow> None)
      else None)"

text \<open>Both dereference the pointer they end with, which panics when it is nil.\<close>

definition getStringFromMap :: "string \<Rightarrow> string \<Rightarrow> string \<Rightarrow> doc \<Rightarrow> string option" where
  "getStringFromMap vulnParam defaultParam overrideKey vObj =
     (case mapKeyToString vObj vulnParam False of
        Inl _ \<Rightarrow> Some defaultParam
      | Inr ts \<Rightarrow>
          (case tryOverride overrideKey vulnParam vObj of Some o' \<Rightarrow> Some o' | None \<Rightarrow> ts))"

definition ParseBool :: "string \<Rightarrow> bool option" where
  "ParseBool s =
     (if s \<in> {''1'', ''t'', ''T'', ''true'', ''TRUE'', ''True''} then Some True
      else if s \<in> {''0'', ''f'', ''F'', ''false'', ''FALSE'', ''False''} then Some False
      else None)"

definition getBoolFromMap :: "string \<Rightarrow> bool \<Rightarrow> string \<Rightarrow> doc \<Rightarrow> bool option" where
  "getBoolFromMap vulnParam defaultParam overrideKey vObj =
     (case mapKeyToString vObj vulnParam False of
        Inl _ \<Rightarrow> Some defaultParam
      | Inr ts \<Rightarrow> do {
          s \<leftarrow> (case tryOverride overrideKey vulnParam vObj of Some o' \<Rightarrow> Some o' | None \<Rightarrow> ts);
          Some (case ParseBool s of Some b \<Rightarrow> b | None \<Rightarrow> defaultParam)
        })"

definition getSeverity :: "string \<Rightarrow> Severity" where
  "getSeverity severity = (case find (\<lambda>si. severity = si) AllSeverities of Some si \<Rightarrow> si | None \<Rightarrow> [])"

definition getResolvedSeverity :: "doc \<Rightarrow> string \<Rightarrow> bool \<Rightarrow> Severity option" where
  "getResolvedSeverity vObj overrideKey useOldSeverities =
     (case mapKeyToString vObj ''severity'' False of
        Inl _ \<Rightarrow> Some SeverityInfo
      | Inr s \<Rightarrow> do {
          s' \<leftarrow> s;
          let sev = getSeverity (to_upper s');
          if sev = [] then Some SeverityInfo
          else
            case tryOverride overrideKey ''severity'' vObj of
              Some overrideValue \<Rightarrow>
                Some (if getSeverity (to_upper overrideValue) \<noteq> []
                      then getSeverity (to_upper overrideValue) else sev)
            | None \<Rightarrow>
                if useOldSeverities then
                  (case mapKeyToString vObj ''oldSeverity'' False of
                     Inl _ \<Rightarrow> Some sev
                   | Inr oldS \<Rightarrow> map_option (\<lambda>o'. getSeverity (to_upper o')) oldS)
                else Some sev
        })"

definition getCloudProvider :: "string \<Rightarrow> doc \<Rightarrow> string option" where
  "getCloudProvider overrideKey vObj =
     (if map_of vObj ''cloudProvider'' \<noteq> None
      then getStringFromMap ''cloudProvider'' [] overrideKey vObj else Some [])"

section \<open>The search key\<close>

text \<open>Elements 0, 2, 4 and 6 by number: the result has the third, fifth and seventh.\<close>

definition sanitizeINIKey :: "string list \<Rightarrow> string list \<times> string" where
  "sanitizeINIKey vulsSplit =
     (let n = length vulsSplit;
          vulsRefact =
            (if n \<ge> 3 then
               (''['' @ vulsSplit ! 2 @ '']'') #
               (if n \<ge> 5 then vulsSplit ! 4 # (if n \<ge> 7 then [vulsSplit ! 6] else []) else [])
             else vulsSplit)
      in (vulsRefact, join vulsRefact ''.''))"

definition strip_key :: "string \<Rightarrow> string option" where
  "strip_key vulSplit = do {
     inner \<leftarrow> (if has_prefix vulSplit ''{{'' \<and> has_suffix vulSplit ''}}''
               then slice vulSplit 2 (int (length vulSplit) - 2) else Some vulSplit);
     Some (hd (split_on inner ''=''))
   }"

text \<open>
  \<open>modifyVulSearchKeyReference\<close>: \<open>modify_loop\<close> is its loop with \<open>index\<close> parts of \<open>all\<close> behind it,
  \<open>modify_list\<close> the loop over a list in the document.
\<close>

lemma jval_size_entry [termination_simp]: "map_of m k = Some d \<Longrightarrow> size d < size (JObj m)"
  by (induction m) (auto split: if_splits)

function modify_loop :: "jval \<Rightarrow> string \<Rightarrow> string list \<Rightarrow> nat \<Rightarrow> (string \<times> bool) option" and
  modify_list :: "jval list \<Rightarrow> string \<Rightarrow> string list \<Rightarrow> (string \<times> bool) option" where
  "modify_loop doc original all index =
     (if index \<ge> length all then Some (original, False)
      else case doc of
        JObj docTyped \<Rightarrow> do {
          vulSplit \<leftarrow> strip_key (all ! index);
          case map_of docTyped vulSplit of
            None \<Rightarrow> Some (original, False)
          | Some newDoc \<Rightarrow>
              (case map_of docTyped ''RefMetadata'' of
                 Some metadataRefDoc \<Rightarrow>
                   (case metadataRefDoc of
                      JObj md \<Rightarrow>
                        (case map_of md ''$ref'' of
                           Some (JStr ref) \<Rightarrow> Some (join (take index all) ''.'' @ ''.$ref='' @ ref, True)
                         | _ \<Rightarrow> None)
                    | _ \<Rightarrow> None)
               | None \<Rightarrow> modify_loop newDoc original all (Suc index))
        }
      | JList docTyped \<Rightarrow> do {
          (newSearchKey, modified) \<leftarrow> modify_list docTyped original (drop index all);
          Some (if modified then (join (take index all) ''.'' @ ''.'' @ newSearchKey, True)
                else (original, False))
        }
      | _ \<Rightarrow> Some (original, False))"
| "modify_list [] original parts = Some (original, False)"
| "modify_list (listDoc # docs) original parts = do {
     (newSearchKey, modified) \<leftarrow> modify_loop listDoc original parts 0;
     if modified then Some (newSearchKey, True) else modify_list docs original parts
   }"
  by pat_completeness auto
termination
  by (relation "measure (\<lambda>x. case x of Inl (doc, _, all, i) \<Rightarrow> size doc | Inr (docs, _) \<Rightarrow> size_list size docs)")
    (auto dest: jval_size_entry)

declare modify_loop.simps [simp del]

definition modifyVulSearchKeyReference :: "jval \<Rightarrow> string \<Rightarrow> string list \<Rightarrow> (string \<times> bool) option" where
  "modifyVulSearchKeyReference doc originalSearchKey stringVulList =
     modify_loop doc originalSearchKey stringVulList 0"

section \<open>The builder\<close>

text \<open>Of a prepared query the builder reads the metadata.\<close>

record QueryContext =
  scanID :: string
  Files :: "(string, FileMetadata) gomap"
  Query :: QueryMetadata
  BaseScanPaths :: "string list"

record searchLineCalculator =
  lineNr :: int
  similarityIDLineInfo :: string
  linesVulne :: VulnerabilityLines

fun all_strings :: "jval list \<Rightarrow> string list option" where
  "all_strings [] = Some []"
| "all_strings (JStr s # vs) = map_option (Cons s) (all_strings vs)"
| "all_strings (v # vs) = None"

type_synonym line_source = "doc option \<Rightarrow> string + string"
type_synonym line_get = "string \<Rightarrow> string \<Rightarrow> int"

definition calculate ::
  "line_source \<Rightarrow> line_get \<Rightarrow> doc \<Rightarrow> FileMetadata \<Rightarrow> searchLineCalculator \<Rightarrow> searchLineCalculator option" where
  "calculate marshal get vObj file s =
     (case map_of vObj ''searchLine'' of
        None \<Rightarrow> Some s
      | Some (JList elems) \<Rightarrow> do {
          line \<leftarrow> all_strings elems;
          let nr = snd (GetLineBySearchLine marshal get line file);
          Some (s\<lparr>lineNr := nr,
            similarityIDLineInfo := (if nr \<ge> 0 then itoa nr else similarityIDLineInfo s)\<rparr>)
        }
      | Some _ \<Rightarrow> None)"

definition calculeSearchLine ::
  "line_source \<Rightarrow> line_get \<Rightarrow> doc \<Rightarrow> FileMetadata \<Rightarrow> searchLineCalculator \<Rightarrow>
     (int \<times> string \<times> VulnerabilityLines) option" where
  "calculeSearchLine marshal get vObj file s =
     map_option (\<lambda>s'. (lineNr s', similarityIDLineInfo s', linesVulne s')) (calculate marshal get vObj file s)"

type_synonym file_order = "(string, FileMetadata) gomap \<Rightarrow> (string, FileMetadata) gomap"

definition checkMinified :: "file_order \<Rightarrow> QueryContext \<Rightarrow> string \<Rightarrow> bool" where
  "checkMinified r ctx resolvedFile =
     (case find (\<lambda>(i, f). f_FilePath f = resolvedFile) (r (Files ctx)) of
        Some (i, f) \<Rightarrow> f_IsMinified f
      | None \<Rightarrow> False)"

definition buildSimilarityID ::
  "(string \<Rightarrow> string) \<Rightarrow> QueryContext \<Rightarrow> string \<Rightarrow> string \<Rightarrow> string \<Rightarrow> string \<Rightarrow> string + string" where
  "buildSimilarityID sha ctx resolvedFile queryID searchKey searchValue =
     ComputeSimilarityID sha (BaseScanPaths ctx) resolvedFile queryID searchKey searchValue"

definition oldBuildSimilarityID ::
  "(string \<Rightarrow> string) \<Rightarrow> file_order \<Rightarrow> QueryContext \<Rightarrow> string \<Rightarrow> string \<Rightarrow> string \<Rightarrow> string \<Rightarrow> string \<Rightarrow>
     string + string" where
  "oldBuildSimilarityID sha r ctx resolvedFile queryID searchKey lineInfo searchValue =
     (if checkMinified r ctx resolvedFile
      then ComputeSimilarityID sha (BaseScanPaths ctx) resolvedFile queryID searchKey searchValue
      else ComputeSimilarityID sha (BaseScanPaths ctx) resolvedFile queryID lineInfo searchValue)"

definition or_failed :: "('t \<Rightarrow> 't) \<Rightarrow> string + string \<Rightarrow> 't \<Rightarrow> string option \<times> 't" where
  "or_failed failed res t = (case res of Inr v \<Rightarrow> (Some v, t) | Inl _ \<Rightarrow> (None, failed t))"

definition generateSimilaritiesID ::
  "(string \<Rightarrow> string) \<Rightarrow> file_order \<Rightarrow> 't EngineTracker \<Rightarrow> QueryContext \<Rightarrow> string \<Rightarrow> string \<Rightarrow> string \<Rightarrow> string \<Rightarrow>
     string \<Rightarrow> string \<Rightarrow> bool \<Rightarrow> 't \<Rightarrow> (string option \<times> string option) \<times> 't" where
  "generateSimilaritiesID sha r tr ctx resolvedFile queryID lineInfo searchValue searchKey lineInfoOld newID t0 =
     (let old = oldBuildSimilarityID sha r ctx resolvedFile queryID searchKey lineInfoOld searchValue in
      if newID then
        (let (sim, t1) = or_failed (op_FailedComputeSimilarityID tr)
               (buildSimilarityID sha ctx resolvedFile queryID lineInfo searchValue) t0;
             (oldSim, t2) = or_failed (op_FailedComputeOldSimilarityID tr) old t1
         in ((sim, oldSim), t2))
      else
        (let (sim, t1) = or_failed (op_FailedComputeSimilarityID tr) old t0
         in ((sim, None), t1)))"

text \<open>The value under a key that must be a string if it is there\<close>

definition string_at :: "doc \<Rightarrow> string \<Rightarrow> string option" where
  "string_at vObj key =
     (case map_of vObj key of None \<Rightarrow> Some [] | Some (JStr s) \<Rightarrow> Some s | Some _ \<Rightarrow> None)"

text \<open>
  The block that detects the line: the result \<open>None\<close> inside is the error \<open>ErrNoResult\<close>.
  \<open>LineInfoDocument\<close> is passed as a map even when it is nil.
\<close>

definition locate_result ::
  "DetectLine \<Rightarrow> FileMetadata \<Rightarrow> doc \<Rightarrow>
     (VulnerabilityLines \<times> string \<times> string \<times> doc) option option" where
  "locate_result detector file vObj =
     (case map_of vObj ''searchKey'' of
        None \<Rightarrow> Some (Some (zero_vuln_lines\<lparr>vl_Line := - 1\<rparr>, [], [], vObj))
      | Some (JStr searchKey0) \<Rightarrow>
          (let (vulsSplit, searchKey1) =
             (if f_Kind file = KindINI then sanitizeINIKey (split_on searchKey0 ''.'')
              else (split_on searchKey0 ''.'', searchKey0))
           in do {
             lastPart \<leftarrow> at vulsSplit (int (length vulsSplit) - 1);
             if contains lastPart ''RefMetadata'' then Some None
             else do {
               (searchKey, _) \<leftarrow> modifyVulSearchKeyReference
                 (JObj (case f_LineInfoDocument file of Some d \<Rightarrow> d | None \<Rightarrow> [])) searchKey1 vulsSplit;
               lines \<leftarrow> registry_DetectLine detector file searchKey;
               Some (Some (lines, searchKey, searchKey0, gomap_put ''searchKey'' (JStr searchKey) vObj))
             }
           })
      | Some _ \<Rightarrow> None)"

record 't builder_env =
  be_sha :: "string \<Rightarrow> string"
  be_files :: file_order
  be_marshal_doc :: "doc \<Rightarrow> string + string"
  be_marshal :: line_source
  be_get :: line_get
  be_tracker :: "'t EngineTracker"

definition fill_vulnerability ::
  "'t builder_env \<Rightarrow> QueryContext \<Rightarrow> FileMetadata \<Rightarrow> bool \<Rightarrow> bool \<Rightarrow> int \<Rightarrow> string \<Rightarrow> doc \<Rightarrow>
     VulnerabilityLines \<Rightarrow> string \<Rightarrow> string \<Rightarrow> string \<Rightarrow> int \<Rightarrow> 't \<Rightarrow> (Vulnerability \<times> 't) option" where
  "fill_vulnerability env ctx file useOldSeverities newSimID queryDuration output vObj lv searchKey
     lineInfo lineInfoOld lineNumber t = do {
     searchValue \<leftarrow> string_at vObj ''searchValue'';
     overrideKey \<leftarrow> string_at vObj ''overrideKey'';
     queryID \<leftarrow> getStringFromMap ''id'' DefaultQueryID overrideKey vObj;
     severity \<leftarrow> getResolvedSeverity vObj overrideKey useOldSeverities;
     let issueType = (case mustMapKeyToString vObj ''issueType'' of Some v \<Rightarrow> v | None \<Rightarrow> DefaultIssueType);
     let ((sim, oldSim), t') = generateSimilaritiesID (be_sha env) (be_files env) (be_tracker env) ctx
       (vl_ResolvedFile lv) queryID lineInfo searchValue searchKey lineInfoOld newSimID t;
     queryName \<leftarrow> getStringFromMap ''queryName'' DefaultQueryName overrideKey vObj;
     experimental \<leftarrow> getBoolFromMap ''experimental'' DefaultExperimental overrideKey vObj;
     queryURI \<leftarrow> getStringFromMap ''descriptionUrl'' DefaultQueryURI overrideKey vObj;
     category \<leftarrow> getStringFromMap ''category'' [] overrideKey vObj;
     description \<leftarrow> getStringFromMap ''descriptionText'' [] overrideKey vObj;
     descriptionID \<leftarrow> getStringFromMap ''descriptionID'' DefaultQueryDescriptionID overrideKey vObj;
     platform \<leftarrow> getStringFromMap ''platform'' [] overrideKey vObj;
     cwe \<leftarrow> getStringFromMap ''cwe'' [] overrideKey vObj;
     cloudProvider \<leftarrow> getCloudProvider overrideKey vObj;
     Some (zero_vulnerability\<lparr>
       v_ID := 0, v_SimilarityID := PtrStringToString sim, v_OldSimilarityID := PtrStringToString oldSim,
       v_ScanID := scanID ctx, v_FileID := f_ID file, v_FileName := vl_ResolvedFile lv,
       v_QueryName := queryName, v_QueryID := queryID, v_Experimental := experimental,
       v_QueryURI := queryURI, v_Category := category, v_Description := description,
       v_DescriptionID := descriptionID, v_Severity := severity, v_Platform := platform, v_CWE := cwe,
       v_Line := vl_Line lv, v_VulnerabilityLocation := vl_VulnerablilityLocation lv,
       v_RemediationLocation := vl_RemediationLocation lv, v_VulnLines := vl_VulnLines lv,
       v_ResourceType := PtrStringToString (mustMapKeyToString vObj ''resourceType''),
       v_ResourceName := PtrStringToString (mustMapKeyToString vObj ''resourceName''),
       v_IssueType := issueType, v_SearchKey := searchKey, v_SearchLine := lineNumber,
       v_SearchValue := searchValue,
       v_KeyExpectedValue := PtrStringToString (mustMapKeyToString vObj ''keyExpectedValue''),
       v_KeyActualValue := PtrStringToString (mustMapKeyToString vObj ''keyActualValue''),
       v_Value := mustMapKeyToString vObj ''value'', v_Output := output,
       v_CloudProvider := cloudProvider,
       v_Remediation := PtrStringToString (mustMapKeyToString vObj ''remediation''),
       v_RemediationType := PtrStringToString (mustMapKeyToString vObj ''remediationType''),
       v_QueryDuration := queryDuration, v_LineWithVulnerability := vl_LineWithVulnerability lv,
       v_ResourceSource := vl_ResourceSource lv, v_FileSource := vl_FileSource lv,
       v_BlockLocation := vl_BlockLocation lv\<rparr>, t')
   }"

definition DefaultVulnerabilityBuilder ::
  "'t builder_env \<Rightarrow> DetectLine \<Rightarrow> bool \<Rightarrow> bool \<Rightarrow> int \<Rightarrow> QueryContext \<Rightarrow> jval \<Rightarrow> 't \<Rightarrow>
     ((engine_error + Vulnerability) \<times> 't) option" where
  "DefaultVulnerabilityBuilder env detector useOldSeverities newSimID queryDuration ctx v t =
     (case v of
        JObj vObj0 \<Rightarrow>
          (let vObj1 = mergeWithMetadata vObj0 (qm_Metadata (Query ctx)) in
           case be_marshal_doc env vObj1 of
             Inl err \<Rightarrow> Some (Inl (OtherError (''failed to marshall query output: '' @ err)), t)
           | Inr output \<Rightarrow>
               (case mapKeyToString vObj1 ''documentId'' False of
                  Inl err \<Rightarrow> Some (Inl (OtherError (''failed to recognize file id: '' @ err)), t)
                | Inr fileID \<Rightarrow> do {
                    i \<leftarrow> fileID;
                    case map_of (Files ctx) i of
                      None \<Rightarrow> Some (Inl (OtherError ''failed to find file from query response''), t)
                    | Some file \<Rightarrow> do {
                        located \<leftarrow> locate_result detector file vObj1;
                        case located of
                          None \<Rightarrow> Some (Inl ErrNoResult, t)
                        | Some (lv0, searchKey, lineInfo, vObj) \<Rightarrow> do {
                            (lineNumber, lineInfoOld, lv1) \<leftarrow>
                              (if f_Kind file \<noteq> KindHELM \<and> length (f_ResolvedFiles file) = 0
                               then calculeSearchLine (be_marshal env) (be_get env) vObj file
                                 \<lparr>lineNr = - 1, similarityIDLineInfo = lineInfo, linesVulne = lv0\<rparr>
                               else Some (0, lineInfo, lv0));
                            let lv = (if vl_Line lv1 = - 1 then lv1\<lparr>vl_Line := 1\<rparr> else lv1);
                            (vul, t') \<leftarrow> fill_vulnerability env ctx file useOldSeverities newSimID
                              queryDuration output vObj lv searchKey lineInfo lineInfoOld lineNumber t;
                            Some (Inr vul, t')
                          }
                      }
                  }))
      | _ \<Rightarrow> Some (Inl ErrInvalidResult, t))"

section \<open>Lemmas\<close>

lemma mapKeyToString_not_nil: "mapKeyToString m k False = Inr v \<Longrightarrow> v \<noteq> None"
  by (auto simp: mapKeyToString_def split: option.splits jval.splits)

lemma getStringFromMap_total: "\<exists>s. getStringFromMap p d k m = Some s"
  using mapKeyToString_not_nil [of m p]
  by (auto simp: getStringFromMap_def split: sum.splits option.splits)

lemma getBoolFromMap_total: "\<exists>b. getBoolFromMap p d k m = Some b"
  using mapKeyToString_not_nil [of m p]
  by (auto simp: getBoolFromMap_def split: sum.splits option.splits)

lemma getCloudProvider_total: "\<exists>s. getCloudProvider k m = Some s"
  using getStringFromMap_total [of "''cloudProvider''" "[]" k m] by (auto simp: getCloudProvider_def)

lemma getSeverity_mem: "getSeverity s \<noteq> [] \<Longrightarrow> getSeverity s \<in> set AllSeverities"
  by (auto simp: getSeverity_def split: option.splits dest: find_Some_mem)

lemma severity_total:
  "\<exists>s. getResolvedSeverity m k old = Some s \<and> (s \<in> set AllSeverities \<or> old \<and> s = [])"
proof -
  have info: "SeverityInfo \<in> set AllSeverities" by (simp add: AllSeverities_def)
  show ?thesis
  proof (cases "mapKeyToString m ''severity'' False")
    case (Inl e)
    then show ?thesis using info by (simp add: getResolvedSeverity_def)
  next
    case (Inr v)
    then obtain s where s: "v = Some s" using mapKeyToString_not_nil by blast
    have old: "\<exists>o'. mapKeyToString m ''oldSeverity'' False = Inr x \<longrightarrow> x = Some o'" for x
      using mapKeyToString_not_nil by blast
    show ?thesis
      using Inr s info getSeverity_mem mapKeyToString_not_nil [of m "''oldSeverity''"]
      by (auto simp: getResolvedSeverity_def Let_def split: option.splits sum.splits)
  qed
qed

lemma similarity_never_fails:
  "generateSimilaritiesID sha r tr ctx f q li sv sk lio new t = (ids, t') \<Longrightarrow> t' = t"
  by (auto simp: generateSimilaritiesID_def or_failed_def buildSimilarityID_def oldBuildSimilarityID_def
      ComputeSimilarityID_def Let_def split: if_splits)

lemma fill_vulnerability_spec:
  assumes "fill_vulnerability env ctx file uo ns qd out vObj lv sk li lio ln t = Some (vul, t')"
  shows "v_Line vul = vl_Line lv \<and> v_FileName vul = vl_ResolvedFile lv \<and> v_FileID vul = f_ID file \<and>
    v_ScanID vul = scanID ctx \<and> v_VulnLines vul = vl_VulnLines lv \<and> v_SearchKey vul = sk \<and> t' = t"
  using assms similarity_never_fails
  by (auto simp: fill_vulnerability_def Let_def zero_vulnerability_def split: Option.bind_splits prod.splits)

lemma calculeSearchLine_lines:
  "calculeSearchLine marshal get vObj file s = Some (n, li, lv) \<Longrightarrow> lv = linesVulne s"
  by (auto simp: calculeSearchLine_def calculate_def Let_def split: option.splits jval.splits Option.bind_splits)

lemma locate_result_spec:
  assumes "locate_result det file vObj = Some (Some (lv, sk, li, vObj'))" and "registry_ok det"
  shows "detected_in file lv \<and> (vl_ResolvedFile lv = f_FilePath file \<or> vl_ResolvedFile lv = [])"
proof (cases "map_of vObj ''searchKey''")
  case None
  with assms(1) show ?thesis
    by (auto simp: locate_result_def detected_in_def zero_vuln_lines_def undetectedVulnerabilityLine_def)
next
  case (Some v)
  with assms(1) obtain key where "registry_DetectLine det file key = Some lv"
    by (auto simp: locate_result_def Let_def split: jval.splits prod.splits Option.bind_splits if_splits)
  with registry_line_detector [OF assms(2)] show ?thesis
    using line_detector.detect_in_file line_detector.detect_resolved by blast
qed

lemma modify_spec:
  "modify_loop doc original all i = Some (k, m) \<Longrightarrow> if m then contains k ''.$ref='' else k = original"
  "modify_list docs original parts = Some (k, m) \<Longrightarrow> if m then contains k ''.$ref='' else k = original"
proof (induction doc original all i and docs original parts arbitrary: k m and k m
    rule: modify_loop_modify_list.induct)
  case (1 doc original all i)
  have mid1: "contains (a @ ''.$ref='' @ b) ''.$ref=''" for a b :: string
    by (rule contains_append_mid)
  have mid2: "contains (a @ ''.'' @ b) ''.$ref=''" if "contains b ''.$ref=''" for a b :: string
  proof -
    from that obtain p q where "b = p @ ''.$ref='' @ q" by (auto simp: contains_iff sublist_def)
    then have "a @ ''.'' @ b = (a @ ''.'' @ p) @ ''.$ref='' @ q" by simp
    then show ?thesis by (simp only: contains_append_mid)
  qed
  show ?case
  proof (cases "i \<ge> length all")
    case True
    then show ?thesis using "1.prems" by (simp add: modify_loop.simps)
  next
    case False
    note prem = "1.prems" [unfolded modify_loop.simps [of doc] if_not_P [OF False]]
    show ?thesis
    proof (cases doc)
      case (JObj d)
      with prem obtain vs where vs: "strip_key (all ! i) = Some vs" by (auto split: Option.bind_splits)
      show ?thesis
      proof (cases "map_of d vs")
        case None
        then show ?thesis using prem JObj vs by simp
      next
        case (Some new)
        show ?thesis
        proof (cases "map_of d ''RefMetadata''")
          case None
          then have "modify_loop new original all (Suc i) = Some (k, m)" using prem JObj vs Some by simp
          then show ?thesis using "1.IH"(2) [OF False JObj vs Some None] by blast
        next
          case (Some ref)
          then show ?thesis using prem JObj vs \<open>map_of d vs = Some new\<close> mid1
            by (auto split: jval.splits option.splits)
        qed
      qed
    next
      case (JList ds)
      then show ?thesis using prem "1.IH"(1) [OF False JList] mid2
        by (fastforce split: Option.bind_splits if_splits)
    qed (use prem in auto)
  qed
next
  case (3 d ds original parts)
  then show ?case by (fastforce split: Option.bind_splits if_splits)
qed simp

text \<open>The builder writes to the tracker at most, and what it builds does not depend on it.\<close>

lemma generate_pure: "\<exists>ids. \<forall>t. generateSimilaritiesID sha r tr ctx f q li sv sk lio new t = (ids, t)"
  by (cases new) (auto simp: generateSimilaritiesID_def or_failed_def buildSimilarityID_def
      oldBuildSimilarityID_def ComputeSimilarityID_def Let_def)

lemma fill_pure:
  "(\<forall>t. fill_vulnerability env ctx file uo ns qd outp vObj lv sk li lio ln t = None) \<or>
   (\<exists>v. \<forall>t. fill_vulnerability env ctx file uo ns qd outp vObj lv sk li lio ln t = Some (v, t))"
proof (cases "string_at vObj ''searchValue''"; cases "string_at vObj ''overrideKey''")
  fix sv k
  assume sv: "string_at vObj ''searchValue'' = Some sv" and k: "string_at vObj ''overrideKey'' = Some k"
  have str: "getStringFromMap p d k vObj = Some (the (getStringFromMap p d k vObj))" for p d
    using getStringFromMap_total [of p d k vObj] by auto
  have bool: "getBoolFromMap p d k vObj = Some (the (getBoolFromMap p d k vObj))" for p d
    using getBoolFromMap_total [of p d k vObj] by auto
  have cloud: "getCloudProvider k vObj = Some (the (getCloudProvider k vObj))"
    using getCloudProvider_total [of k vObj] by auto
  obtain sev where sev: "getResolvedSeverity vObj k uo = Some sev" using severity_total by blast
  obtain ids where ids: "\<forall>t. generateSimilaritiesID (be_sha env) (be_files env) (be_tracker env) ctx
      (vl_ResolvedFile lv) (the (getStringFromMap ''id'' DefaultQueryID k vObj)) li sv sk lio ns t = (ids, t)"
    using generate_pure by blast
  obtain a b where ab: "ids = (a, b)" by force
  obtain f where f: "f = (\<lambda>p d. the (getStringFromMap p d k vObj))" by blast
  obtain g where g: "g = (\<lambda>p d. the (getBoolFromMap p d k vObj))" by blast
  have f': "getStringFromMap p d k vObj = Some (f p d)" for p d using str f by simp
  have g': "getBoolFromMap p d k vObj = Some (g p d)" for p d using bool g by simp
  obtain cp where cp: "getCloudProvider k vObj = Some cp" using cloud by blast
  have ids': "generateSimilaritiesID (be_sha env) (be_files env) (be_tracker env) ctx
      (vl_ResolvedFile lv) (f ''id'' DefaultQueryID) li sv sk lio ns t = (ids, t)" for t
    using ids by (simp add: f)
  show ?thesis
    by (rule disjI2) (simp add: fill_vulnerability_def Let_def sv k f' g' cp sev ids' ab)
qed (simp_all add: fill_vulnerability_def)

lemma builder_pure:
  "(\<forall>t. DefaultVulnerabilityBuilder env det uo ns qd ctx v t = None) \<or>
   (\<exists>r. \<forall>t. DefaultVulnerabilityBuilder env det uo ns qd ctx v t = Some (r, t))"
proof -
  let ?B = "DefaultVulnerabilityBuilder env det uo ns qd ctx v"
  have fixed: ?thesis if "\<And>t. ?B t = Some (r, t)" for r using that by blast
  have never: ?thesis if "\<And>t. ?B t = None" using that by blast
  show ?thesis
  proof (cases v)
    case (JObj m)
    let ?m = "mergeWithMetadata m (qm_Metadata (Query ctx))"
    note B = DefaultVulnerabilityBuilder_def JObj Let_def
    show ?thesis
    proof (cases "be_marshal_doc env ?m"; cases "mapKeyToString ?m ''documentId'' False")
      fix outp ptr
      assume outp: "be_marshal_doc env ?m = Inr outp" and ptr: "mapKeyToString ?m ''documentId'' False = Inr ptr"
      then obtain i where i: "ptr = Some i" using mapKeyToString_not_nil by blast
      show ?thesis
      proof (cases "map_of (Files ctx) i")
        case None
        show ?thesis by (rule fixed) (simp add: B outp ptr i None)
      next
        case (Some fl)
        note C = B outp ptr i Some
        consider "locate_result det fl ?m = None" | "locate_result det fl ?m = Some None"
          | lv0 sk li vObj where "locate_result det fl ?m = Some (Some (lv0, sk, li, vObj))"
          by (cases "locate_result det fl ?m") force+
        then show ?thesis
        proof cases
          case 1
          show ?thesis by (rule never) (simp add: C 1)
        next
          case 2
          show ?thesis by (rule fixed) (simp add: C 2)
        next
          case 3
          let ?calc = "if f_Kind fl \<noteq> KindHELM \<and> length (f_ResolvedFiles fl) = 0
            then calculeSearchLine (be_marshal env) (be_get env) vObj fl
              \<lparr>lineNr = - 1, similarityIDLineInfo = li, linesVulne = lv0\<rparr>
            else Some (0, li, lv0)"
          obtain F where F: "\<And>t. ?B t = ?calc \<bind> (\<lambda>(ln, lio, lv1). F ln lio lv1 t)"
            "F = (\<lambda>ln lio lv1 t. fill_vulnerability env ctx fl uo ns qd outp vObj
              (if vl_Line lv1 = - 1 then lv1\<lparr>vl_Line := 1\<rparr> else lv1) sk li lio ln t \<bind>
              (\<lambda>(vul, t'). Some (Inr vul, t')))"
            by (simp add: C 3)
          show ?thesis
          proof (cases ?calc)
            case None
            show ?thesis by (rule never) (simp only: F(1) None Option.bind.simps)
          next
            case (Some x)
            obtain ln lio lv1 where x: "x = (ln, lio, lv1)" by (cases x) auto
            have *: "?B t = F ln lio lv1 t" for t
              by (simp only: F(1) Some x Option.bind.simps prod.case)
            show ?thesis
              using fill_pure [of env ctx fl uo ns qd outp vObj
                  "if vl_Line lv1 = - 1 then lv1\<lparr>vl_Line := 1\<rparr> else lv1" sk li lio ln]
              by (auto simp only: * F(2) Option.bind.simps prod.case)
          qed
        qed
      qed
    qed (auto intro!: fixed simp: B)
  qed (auto intro!: fixed simp: DefaultVulnerabilityBuilder_def)
qed

lemma builder_line:
  assumes "DefaultVulnerabilityBuilder env det uo ns qd ctx v t = Some (Inr vul, t')" and "registry_ok det"
  shows "\<exists>i file. map_of (Files ctx) i = Some file \<and> v_FileID vul = f_ID file \<and>
    v_ScanID vul = scanID ctx \<and> v_FileName vul \<in> {f_FilePath file, []} \<and>
    1 \<le> v_Line vul \<and> v_Line vul \<le> max 1 (int (length (f_LinesOriginalData file))) \<and> t' = t"
proof -
  from assms(1) obtain vObj1 outp i fl lv0 sk li vObj ln lio lv1
    where f: "map_of (Files ctx) i = Some fl"
      and loc: "locate_result det fl vObj1 = Some (Some (lv0, sk, li, vObj))"
      and calc: "(if f_Kind fl \<noteq> KindHELM \<and> length (f_ResolvedFiles fl) = 0
                  then calculeSearchLine (be_marshal env) (be_get env) vObj fl
                    \<lparr>lineNr = - 1, similarityIDLineInfo = li, linesVulne = lv0\<rparr>
                  else Some (0, li, lv0)) = Some (ln, lio, lv1)"
      and fill: "fill_vulnerability env ctx fl uo ns qd outp vObj
          (if vl_Line lv1 = - 1 then lv1\<lparr>vl_Line := 1\<rparr> else lv1) sk li lio ln t = Some (vul, t')"
    by (auto simp: DefaultVulnerabilityBuilder_def Let_def
        split: jval.splits sum.splits option.splits Option.bind_splits)
  have "lv1 = lv0" using calc calculeSearchLine_lines by (fastforce split: if_splits)
  then show ?thesis
    using locate_result_spec [OF loc assms(2)] fill_vulnerability_spec [OF fill] f
    by (intro exI [of _ i] exI [of _ fl])
      (auto simp: detected_in_def undetectedVulnerabilityLine_def split: if_splits)
qed

section \<open>Properties\<close>

text \<open>C3. Every vulnerability the default builder makes belongs to a file of the scan and to a
  line of it: at least 1, and within the file unless the line was not found, which is reported as
  line 1. The builder never reports the line -1 and counts no failed similarity id.\<close>

theorem builder_reports_a_line:
  assumes "DefaultVulnerabilityBuilder env det uo ns qd ctx v t = Some (Inr vul, t')" and "registry_ok det"
  shows "\<exists>i file. map_of (Files ctx) i = Some file \<and> v_FileID vul = f_ID file \<and>
    v_ScanID vul = scanID ctx \<and> v_FileName vul \<in> {f_FilePath file, []} \<and>
    1 \<le> v_Line vul \<and> v_Line vul \<le> max 1 (int (length (f_LinesOriginalData file))) \<and> t' = t"
  by (rule builder_line [OF assms])

definition example_env :: "CITracker builder_env" where
  "example_env = \<lparr>be_sha = id, be_files = id, be_marshal_doc = (\<lambda>d. Inr []), be_marshal = (\<lambda>d. Inr []),
     be_get = (\<lambda>c p. 0), be_tracker = ci_engine\<rparr>"

theorem builder_reports_a_line_witness:
  "\<exists>vul t'. DefaultVulnerabilityBuilder example_env (NewDetectLine (\<lambda>a b. 0) rev 3) False False 0
      \<lparr>scanID = ''s'', Files = [(''f'', zero_file)], Query = undefined\<lparr>qm_Metadata := []\<rparr>, BaseScanPaths = []\<rparr>
      (JObj [(''documentId'', JStr ''f'')]) zero_tracker = Some (Inr vul, t') \<and> v_Line vul = 1"
proof -
  let ?ctx = "\<lparr>scanID = ''s'', Files = [(''f'', zero_file)], Query = undefined\<lparr>qm_Metadata := []\<rparr>, BaseScanPaths = []\<rparr>"
  let ?b = "DefaultVulnerabilityBuilder example_env (NewDetectLine (\<lambda>a b. 0) rev 3) False False 0 ?ctx
      (JObj [(''documentId'', JStr ''f'')]) zero_tracker"
  have "\<exists>vul t'. ?b = Some (Inr vul, t')"
    by (simp add: DefaultVulnerabilityBuilder_def mergeWithMetadata_def example_env_def mapKeyToString_def
        locate_result_def zero_file_def KindHELM_def calculeSearchLine_def calculate_def zero_vuln_lines_def
        fill_vulnerability_def string_at_def getStringFromMap_def getBoolFromMap_def getResolvedSeverity_def
        getCloudProvider_def Let_def split: prod.splits)
  then obtain vul t' where v: "?b = Some (Inr vul, t')" by blast
  from builder_reports_a_line [OF v registry_new [OF range_order_id(3)]] have "v_Line vul = 1"
    by (auto simp: zero_file_def split: if_splits)
  with v show ?thesis by blast
qed

text \<open>The severity of a result is one of the six severities; only when old severities are
  asked for can it be empty.\<close>

lemma resolved_severity_known:
  "\<exists>s. getResolvedSeverity vObj overrideKey useOldSeverities = Some s \<and>
     (s \<in> set AllSeverities \<or> useOldSeverities \<and> s = [])"
  by (rule severity_total)

text \<open>With old severities, an old severity that is none of the six replaces a good severity by
  the empty one.\<close>

lemma old_severity_can_be_empty:
  "getResolvedSeverity [(''severity'', JStr ''HIGH''), (''oldSeverity'', JStr ''moderate'')] [] False =
     Some SeverityHigh \<and>
   getResolvedSeverity [(''severity'', JStr ''HIGH''), (''oldSeverity'', JStr ''moderate'')] [] True = Some []"
  by (simp add: getResolvedSeverity_def mapKeyToString_def getSeverity_def AllSeverities_def severity_defs
      to_upper_def upper_char_def tryOverride_def)

text \<open>\<open>modifyVulSearchKeyReference\<close> either leaves the search key as it is or returns a key
  that points through a \<open>$ref\<close>.\<close>

lemma modified_key_points_to_ref:
  assumes "modifyVulSearchKeyReference doc key parts = Some (k, modified)"
  shows "if modified then contains k ''.$ref='' else k = key"
  using modify_spec(1) assms unfolding modifyVulSearchKeyReference_def by blast

end
