(* ===== verification/Jsonencode.thy ===== *)
theory Jsonencode
  imports ModelTypes
begin

text \<open>
  The inspector's treatment of Terraform's \<open>jsonencode(...)\<close> in the payload
  (\<open>pkg/engine/inspector.go\<close>, \<open>TransformJsonencodeInPayload\<close> to \<open>normalizeKeyExpr\<close>). OPA's
  \<open>ast.Value\<close> is a \<open>jval\<close>: the payload comes from JSON, so the keys of its objects are strings. The
  parser \<open>hclsyntax.ParseExpression\<close> is a parameter, whose trees are \<open>hcl_expr\<close>.
\<close>

section \<open>Expressions\<close>

text \<open>
  A number is kept as the text \<open>fmt\<close> writes for its \<open>float64\<close>. \<open>ObjectConsKeyExpr e\<close> is a key that
  \<open>UnwrapExpression\<close> takes to \<open>e\<close>. Of any other expression the code looks, by reflection, at an
  exported field \<open>KeyExpr\<close>, which a \<open>ForExpr\<close> has.
\<close>

datatype hcl_literal = LitString string | LitNumber string | LitBool bool | LitNull | LitOther

datatype hcl_expr =
    LiteralValueExpr hcl_literal
  | TemplateExpr "hcl_expr list"
  | TemplateWrapExpr hcl_expr
  | ScopeTraversalExpr string
  | TupleConsExpr "hcl_expr list"
  | ObjectConsExpr "(hcl_expr \<times> hcl_expr) list"
  | ObjectConsKeyExpr hcl_expr
  | ParenthesesExpr hcl_expr
  | AnyExpr "hcl_expr option"

definition literalToAst :: "hcl_literal \<Rightarrow> string + jval" where
  "literalToAst val =
     (case val of
        LitString s \<Rightarrow> Inr (JStr s)
      | LitNumber t \<Rightarrow> Inr (JNum t)
      | LitBool b \<Rightarrow> Inr (JBool b)
      | LitNull \<Rightarrow> Inr JNull
      | LitOther \<Rightarrow> Inr (JStr ''__UNSUPPORTED_LITERAL__''))"

fun normalizeKeyExpr :: "hcl_expr \<Rightarrow> hcl_expr" where
  "normalizeKeyExpr (TemplateWrapExpr wrapped) = normalizeKeyExpr wrapped"
| "normalizeKeyExpr (ParenthesesExpr e) = normalizeKeyExpr e"
| "normalizeKeyExpr (AnyExpr (Some keyExpr)) = normalizeKeyExpr keyExpr"
| "normalizeKeyExpr e = e"

lemma normalizeKeyExpr_size [termination_simp]: "size (normalizeKeyExpr e) \<le> size e"
  by (induction e rule: normalizeKeyExpr.induct) auto

definition template_part :: "hcl_expr \<Rightarrow> string" where
  "template_part part =
     (case part of
        LiteralValueExpr (LitString s) \<Rightarrow> s
      | LiteralValueExpr _ \<Rightarrow> []
      | _ \<Rightarrow> ''${...}'')"

definition or_unresolved :: "string + jval \<Rightarrow> jval" where
  "or_unresolved res = (case res of Inr v \<Rightarrow> v | Inl _ \<Rightarrow> JStr ''__UNRESOLVED__'')"

function (sequential) expressionToAST :: "hcl_expr \<Rightarrow> string + jval" and
  object_items :: "(hcl_expr \<times> hcl_expr) list \<Rightarrow> doc \<Rightarrow> doc" and
  tuple_terms :: "hcl_expr list \<Rightarrow> jval list" where
  "expressionToAST (LiteralValueExpr e) = literalToAst e"
| "expressionToAST (TemplateExpr parts) = Inr (JStr (concat (map template_part parts)))"
| "expressionToAST (TemplateWrapExpr wrapped) = expressionToAST wrapped"
| "expressionToAST (ScopeTraversalExpr rootName) = Inr (JStr rootName)"
| "expressionToAST (TupleConsExpr exprs) = Inr (JList (tuple_terms exprs))"
| "expressionToAST (ObjectConsExpr items) = Inr (JObj (object_items items []))"
| "expressionToAST (ObjectConsKeyExpr unwrapped) = expressionToAST unwrapped"
| "expressionToAST e = Inr (JStr ''__UNSUPPORTED_EXPR__'')"
| "object_items [] obj = obj"
| "object_items ((keyExpr, valueExpr) # items) obj =
     (case expressionToAST (normalizeKeyExpr keyExpr) of
        Inr (JStr strKey) \<Rightarrow>
          object_items items (gomap_put strKey (or_unresolved (expressionToAST valueExpr)) obj)
      | _ \<Rightarrow> object_items items obj)"
| "tuple_terms [] = []"
| "tuple_terms (item # exprs) = or_unresolved (expressionToAST item) # tuple_terms exprs"
  by pat_completeness auto
termination
  by (relation "measure (\<lambda>x. case x of
        Inl e \<Rightarrow> size e
      | Inr (Inl (items, _)) \<Rightarrow> size_list (size_prod size size) items
      | Inr (Inr es) \<Rightarrow> size_list size es)")
    (auto simp: less_Suc_eq_le intro: le_trans [OF normalizeKeyExpr_size])

section \<open>jsonencode\<close>

type_synonym expr_parser = "string \<Rightarrow> string + hcl_expr"

definition parseJsonencodeHCL :: "expr_parser \<Rightarrow> string \<Rightarrow> string + jval" where
  "parseJsonencodeHCL parse input0 =
     (let input1 = trim_space input0;
          input = (if has_prefix input1 ''${'' \<and> has_suffix input1 ''}''
                   then trim_suffix (trim_prefix input1 ''${'') ''}'' else input1)
      in if \<not> has_prefix input ''jsonencode('' \<or> \<not> has_suffix input '')''
         then Inl (''expected jsonencode(...) format, got: '' @ input)
         else case parse (trim_suffix (trim_prefix input ''jsonencode('') '')'') of
           Inl diags \<Rightarrow> Inl (''HCL parse error: '' @ diags)
         | Inr expr \<Rightarrow>
             (case expressionToAST expr of
                Inl err \<Rightarrow> Inl (''expression to AST failed: '' @ err)
              | Inr val \<Rightarrow> Inr val))"

lemma jval_entry_size [termination_simp]: "(k, v) \<in> set m \<Longrightarrow> size v < Suc (size_list (size_prod size size) m)"
  by (induction m) auto

fun TransformJsonencodeInPayload :: "expr_parser \<Rightarrow> jval \<Rightarrow> jval" where
  "TransformJsonencodeInPayload parse (JObj m) =
     JObj (map (\<lambda>(k, v). (k, TransformJsonencodeInPayload parse v)) m)"
| "TransformJsonencodeInPayload parse (JList vs) = JList (map (TransformJsonencodeInPayload parse) vs)"
| "TransformJsonencodeInPayload parse (JStr str) =
     (if contains str ''jsonencode('' then
        (case parseJsonencodeHCL parse str of Inr parsed \<Rightarrow> parsed | Inl _ \<Rightarrow> JStr str)
      else JStr str)"
| "TransformJsonencodeInPayload parse v = v"

section \<open>Lemmas\<close>

lemma expressionToAST_total: "\<exists>v. expressionToAST e = Inr v"
proof (induction e)
  case (LiteralValueExpr l)
  then show ?case by (cases l) (simp_all add: literalToAst_def)
qed auto

text \<open>The HCL a JSON value is written as\<close>

fun json_value :: "jval \<Rightarrow> bool" where
  "json_value (JObj m) \<longleftrightarrow> distinct (map fst m) \<and> (\<forall>kv \<in> set m. json_value (snd kv))"
| "json_value (JList vs) \<longleftrightarrow> (\<forall>v \<in> set vs. json_value v)"
| "json_value (JInt i) \<longleftrightarrow> False"
| "json_value (JFloat t) \<longleftrightarrow> False"
| "json_value v \<longleftrightarrow> True"

definition string_expr :: "string \<Rightarrow> hcl_expr" where
  "string_expr s = TemplateExpr [LiteralValueExpr (LitString s)]"

fun json_expr :: "jval \<Rightarrow> hcl_expr" where
  "json_expr (JStr s) = string_expr s"
| "json_expr (JNum t) = LiteralValueExpr (LitNumber t)"
| "json_expr (JBool b) = LiteralValueExpr (LitBool b)"
| "json_expr (JList vs) = TupleConsExpr (map json_expr vs)"
| "json_expr (JObj m) =
     ObjectConsExpr (map (\<lambda>(k, v). (ObjectConsKeyExpr (string_expr k), json_expr v)) m)"
| "json_expr v = LiteralValueExpr LitNull"

lemma string_expr_value: "expressionToAST (string_expr s) = Inr (JStr s)"
  by (simp add: string_expr_def template_part_def)

lemma tuple_terms_map:
  "\<forall>v \<in> set vs. expressionToAST (f v) = Inr v \<Longrightarrow> tuple_terms (map f vs) = vs"
  by (induction vs) (auto simp: or_unresolved_def)

lemma gomap_put_snoc: "k \<notin> fst ` set m \<Longrightarrow> gomap_put k v m = m @ [(k, v)]"
  by (induction m) auto

lemma object_items_map:
  "\<forall>(k, v) \<in> set m. expressionToAST (f v) = Inr v \<Longrightarrow> distinct (map fst (acc @ m)) \<Longrightarrow>
     object_items (map (\<lambda>(k, v). (ObjectConsKeyExpr (string_expr k), f v)) m) acc = acc @ m"
proof (induction m arbitrary: acc)
  case (Cons kv m)
  obtain k v where kv: "kv = (k, v)" by force
  then have "k \<notin> fst ` set acc" using Cons.prems(2) by auto
  then have "gomap_put k v acc = acc @ [(k, v)]" by (rule gomap_put_snoc)
  then show ?case using Cons kv by (simp add: string_expr_value or_unresolved_def)
qed simp

lemma json_expr_value: "json_value v \<Longrightarrow> expressionToAST (json_expr v) = Inr v"
proof (induction v rule: json_expr.induct)
  case (4 vs)
  then show ?case by (simp add: tuple_terms_map)
next
  case (5 m)
  have "\<forall>(k, v) \<in> set m. expressionToAST (json_expr v) = Inr v"
    using 5 by fastforce
  then show ?case using object_items_map [of m json_expr "[]"] 5 by simp
qed (auto simp: string_expr_value literalToAst_def)

fun plain_value :: "jval \<Rightarrow> bool" where
  "plain_value (JObj m) \<longleftrightarrow> (\<forall>kv \<in> set m. plain_value (snd kv))"
| "plain_value (JList vs) \<longleftrightarrow> (\<forall>v \<in> set vs. plain_value v)"
| "plain_value (JStr s) \<longleftrightarrow> \<not> contains s ''jsonencode(''"
| "plain_value v \<longleftrightarrow> True"

lemma transform_plain: "plain_value v \<Longrightarrow> TransformJsonencodeInPayload parse v = v"
proof (induction parse v rule: TransformJsonencodeInPayload.induct)
  case (1 parse m)
  have "map (\<lambda>(k, v). (k, TransformJsonencodeInPayload parse v)) m = map id m"
    using 1 by (intro map_cong) auto
  then show ?case by simp
next
  case (2 parse vs)
  then have "map (TransformJsonencodeInPayload parse) vs = map id vs" by (intro map_cong) auto
  then show ?case by simp
qed auto

section \<open>Properties\<close>



text \<open>Decoding is not idempotent: a string that is a call again is decoded the next time. A
  worker decodes its payload once more before every query, so what a query sees depends on how
  many queries its worker has run before.\<close>

lemma jsonencode_decoded_again:
  "\<exists>parse v. TransformJsonencodeInPayload parse v = JStr ''jsonencode(1)'' \<and>
     TransformJsonencodeInPayload parse (TransformJsonencodeInPayload parse v) = JNum ''1''"
proof -
  let ?parse = "\<lambda>t. Inr (if t = ''1'' then LiteralValueExpr (LitNumber ''1'')
      else string_expr ''jsonencode(1)'') :: string + hcl_expr"
  let ?outer = "''jsonencode('' @ [CHR 0x22] @ ''jsonencode(1)'' @ [CHR 0x22] @ '')''"
  have "TransformJsonencodeInPayload ?parse (JStr ?outer) = JStr ''jsonencode(1)''"
  proof -
    have "trim_space ?outer = ?outer" "contains ?outer ''jsonencode(''" by code_simp+
    then show ?thesis
      by (simp add: parseJsonencodeHCL_def trim_prefix_def trim_suffix_def has_suffix_def string_expr_value)
  qed
  moreover have "TransformJsonencodeInPayload ?parse (JStr ''jsonencode(1)'') = JNum ''1''"
  proof -
    have "trim_space ''jsonencode(1)'' = ''jsonencode(1)''" "contains ''jsonencode(1)'' ''jsonencode(''"
      by code_simp+
    then show ?thesis
      by (simp add: parseJsonencodeHCL_def trim_prefix_def trim_suffix_def has_suffix_def literalToAst_def)
  qed
  ultimately show ?thesis by metis
qed

end
