(* ===== verification/Inspector.thy ===== *)
theory Inspector
  imports VulnBuilder QuerySource Jsonencode "HOL-Library.Transitive_Closure_Table"
begin

text \<open>
  The inspector (\<open>pkg/engine/inspector.go\<close>): which queries run, what of their answers is kept,
  and the workers that run them. OPA is a parameter: \<open>en_prepare\<close> prepares a query from its modules
  and its store's data (\<open>None\<close> when reading the data panics), \<open>en_eval\<close> evaluates it. Times are
  parameters too: \<open>en_timeout i\<close> is whether the time to decode results is over at item \<open>i\<close>.
\<close>

section \<open>State\<close>

record QueryLoader =
  commonLibrary :: RegoLibraries
  platformLibraries :: "(string, RegoLibraries) gomap"
  querySum :: int
  QueriesMetadata :: "QueryMetadata list"

text \<open>What the workers share and change is apart from what they only read.\<close>

record Inspector =
  i_QueryLoader :: QueryLoader
  i_excludeResults :: "(string, bool) gomap"
  i_detector :: DetectLine
  i_enableCoverageReport :: bool
  i_useOldSeverities :: bool
  i_numWorkers :: int
  i_kicsComputeNewSimID :: bool

record 't InspectorState =
  s_tracker :: 't
  s_failedQueries :: "(string, engine_error) gomap"
  s_coverageReport :: string

type_synonym 't vulnerability_builder =
  "DetectLine \<Rightarrow> bool \<Rightarrow> bool \<Rightarrow> int \<Rightarrow> QueryContext \<Rightarrow> jval \<Rightarrow> 't \<Rightarrow>
     ((engine_error + Vulnerability) \<times> 't) option"

text \<open>
  An evaluation fails with an error that is, or is not, a cancellation. A call that does not
  return normally is \<open>None\<close> in the model; \<open>en_hangs\<close> tells the endless loop, which \<open>recover\<close> does
  not end, from the panic, which it does.
\<close>

record ('t, 'q) engine_env =
  en_vb :: "'t vulnerability_builder"
  en_tracker :: "'t EngineTracker"
  en_prepare :: "(string \<times> string) list \<Rightarrow> string \<Rightarrow> (string + 'q) option"
  en_eval :: "'q \<Rightarrow> jval \<Rightarrow> (bool \<times> string) + doc list"
  en_parse_expr :: expr_parser
  en_parse_module :: "string \<Rightarrow> string \<Rightarrow> string + string"
  en_report :: "string \<Rightarrow> string \<Rightarrow> string"
  en_unmarshal :: "string \<Rightarrow> string + doc option"
  en_marshal_doc :: "doc \<Rightarrow> string + string"
  en_doc_order :: "doc \<Rightarrow> doc"
  en_ctx_err :: "string option"
  en_timeout :: "nat \<Rightarrow> bool"
  en_duration :: int
  en_hangs :: "QueryContext \<Rightarrow> bool"
  en_panic :: "QueryContext \<Rightarrow> string"

section \<open>Queries and platforms\<close>

definition adjustNumWorkers :: "int \<Rightarrow> int \<Rightarrow> int" where
  "adjustNumWorkers GOMAXPROCS workers = (if workers = 0 then GOMAXPROCS else workers)"

definition contains_platform :: "string list \<Rightarrow> string \<Rightarrow> bool" where
  "contains_platform s e =
     (if e = ''common'' then True
      else
        let e' = (if e = ''k8s'' then ''kubernetes'' else e)
        in list_ex (\<lambda>a. equal_fold a e') s)"

definition getPlatformLibraries ::
  "((string, unit) gomap \<Rightarrow> (string, unit) gomap) \<Rightarrow> (string \<Rightarrow> string + RegoLibraries) \<Rightarrow>
     QueryMetadata list \<Rightarrow> (string, RegoLibraries) gomap" where
  "getPlatformLibraries r getQueryLibrary queries =
     (let supportedPlatforms = foldl (\<lambda>m q. gomap_put (qm_Platform q) () m) [] queries in
      foldl (\<lambda>libs (platform, _).
          case getQueryLibrary platform of Inl _ \<Rightarrow> libs | Inr lib \<Rightarrow> gomap_put platform lib libs)
        [] (r supportedPlatforms))"

definition prepareQueries ::
  "'t EngineTracker \<Rightarrow> QueryMetadata list \<Rightarrow> RegoLibraries \<Rightarrow> (string, RegoLibraries) gomap \<Rightarrow> 't \<Rightarrow>
     QueryLoader \<times> 't" where
  "prepareQueries tr queries commonLib platformLibs t0 =
     (let (sum, t) = foldl (\<lambda>(sum, t) metadata.
            (sum + qm_Aggregation metadata, op_TrackQueryLoad tr (qm_Aggregation metadata) t)) (0, t0) queries
      in (\<lparr>commonLibrary = commonLib, platformLibraries = platformLibs, querySum = sum,
           QueriesMetadata = queries\<rparr>, t))"

definition getQueriesByPlat :: "QueryLoader \<Rightarrow> string list \<Rightarrow> QueryMetadata list" where
  "getQueriesByPlat ql platforms = filter (\<lambda>q. contains_platform platforms (qm_Platform q)) (QueriesMetadata ql)"

definition LenQueriesByPlat :: "'t EngineTracker \<Rightarrow> QueryLoader \<Rightarrow> string list \<Rightarrow> 't \<Rightarrow> int \<times> 't" where
  "LenQueriesByPlat tr ql platforms t0 =
     foldl (\<lambda>(n, t) query.
       if contains_platform platforms (qm_Platform query)
       then (n + 1, op_TrackQueryExecuting tr (qm_Aggregation query) t) else (n, t))
       (0, t0) (QueriesMetadata ql)"

record 'q query_source =
  qs_GetQueries :: "QueryInspectorParameters \<Rightarrow> (string + QueryMetadata list) option"
  qs_GetQueryLibrary :: "string \<Rightarrow> string + RegoLibraries"

definition NewInspector ::
  "('t, 'q) engine_env \<Rightarrow> 's query_source \<Rightarrow> (int \<Rightarrow> DetectLine) \<Rightarrow>
     ((string, unit) gomap \<Rightarrow> (string, unit) gomap) \<Rightarrow> int \<Rightarrow> QueryInspectorParameters \<Rightarrow>
     (string, bool) gomap \<Rightarrow> bool \<Rightarrow> int \<Rightarrow> bool \<Rightarrow> 't \<Rightarrow> (string + Inspector \<times> 't InspectorState) option" where
  "NewInspector env source detectors' r GOMAXPROCS queryParameters excludeResults useOldSeverities numWorkers
     kicsComputeNewSimID t0 = do {
     queries \<leftarrow> qs_GetQueries source queryParameters;
     Some (case queries of
       Inl err \<Rightarrow> Inl (''failed to get queries: '' @ err)
     | Inr queries \<Rightarrow>
         (case qs_GetQueryLibrary source ''common'' of
            Inl err \<Rightarrow> Inl (''failed to get library: '' @ err)
          | Inr commonLib \<Rightarrow>
              (let platformLibs = getPlatformLibraries r (qs_GetQueryLibrary source) queries;
                   (queryLoader, t) = prepareQueries (en_tracker env) queries commonLib platformLibs t0
               in Inr (\<lparr>i_QueryLoader = queryLoader, i_excludeResults = excludeResults,
                    i_detector = detectors' (op_GetOutputLines (en_tracker env) t),
                    i_enableCoverageReport = False, i_useOldSeverities = useOldSeverities,
                    i_numWorkers = adjustNumWorkers GOMAXPROCS numWorkers,
                    i_kicsComputeNewSimID = kicsComputeNewSimID\<rparr>,
                  \<lparr>s_tracker = t, s_failedQueries = [], s_coverageReport = []\<rparr>))))
   }"

definition EnableCoverageReport :: "Inspector \<Rightarrow> Inspector" where
  "EnableCoverageReport c = c\<lparr>i_enableCoverageReport := True\<rparr>"

definition GetCoverageReport :: "'t InspectorState \<Rightarrow> string" where
  "GetCoverageReport s = s_coverageReport s"

definition GetFailedQueries :: "'t InspectorState \<Rightarrow> (string, engine_error) gomap" where
  "GetFailedQueries s = s_failedQueries s"

section \<open>Loading a query\<close>

definition LoadQuery ::
  "('t, 'q) engine_env \<Rightarrow> QueryLoader \<Rightarrow> QueryMetadata \<Rightarrow> (string + 'q) option" where
  "LoadQuery env q query =
     (case map_of (platformLibraries q) (qm_Platform query) of
        None \<Rightarrow> Some (Inl ''failed to get platform library'')
      | Some platformGeneralQuery \<Rightarrow>
          (case en_ctx_err env of
             Some err \<Rightarrow> Some (Inl err)
           | None \<Rightarrow> do {
               merged1 \<leftarrow> MergeInputData (en_unmarshal env) (en_marshal_doc env) (en_doc_order env)
                 (LibraryInputData platformGeneralQuery) (qm_InputData query);
               let data1 = (case merged1 of Inl _ \<Rightarrow> [] | Inr d \<Rightarrow> d);
               merged2 \<leftarrow> MergeInputData (en_unmarshal env) (en_marshal_doc env) (en_doc_order env)
                 (LibraryInputData (commonLibrary q)) data1;
               let data2 = (case merged2 of Inl _ \<Rightarrow> [] | Inr d \<Rightarrow> d);
               en_prepare env
                 [(''Common'', LibraryCode (commonLibrary q)), (''Generic'', LibraryCode platformGeneralQuery),
                  (qm_Query query, qm_Content query)] data2
             }))"

section \<open>What is kept of a query's answer\<close>

definition checkComment :: "int \<Rightarrow> int list \<Rightarrow> bool" where
  "checkComment line ignoreLines = list_ex (\<lambda>ignoreLine. line = ignoreLine) ignoreLines"

definition isDisabled :: "string \<Rightarrow> string \<Rightarrow> bool \<Rightarrow> bool" where
  "isDisabled queries queryID outp =
     (if list_ex (\<lambda>query. equal_fold query queryID) (split_on queries '','') then outp else \<not> outp)"

definition ShouldSkipVulnerability :: "(string, string) gomap \<Rightarrow> string \<Rightarrow> bool" where
  "ShouldSkipVulnerability command queryID =
     (case map_of command ''enable'' of
        Some queries \<Rightarrow> isDisabled queries queryID False
      | None \<Rightarrow>
          (case map_of command ''disable'' of
             Some queries \<Rightarrow> isDisabled queries queryID True
           | None \<Rightarrow> False))"

definition UndetectedVulnerabilityLine :: int where "UndetectedVulnerabilityLine = - 1"

text \<open>A file that is not in the context is the zero file.\<close>

definition file_of :: "QueryContext \<Rightarrow> string \<Rightarrow> FileMetadata" where
  "file_of ctx i = (case map_of (Files ctx) i of Some f \<Rightarrow> f | None \<Rightarrow> zero_file)"

definition error_text :: "engine_error \<Rightarrow> string" where
  "error_text e =
     (case e of
        ErrNoResult \<Rightarrow> ''query: not result''
      | ErrInvalidResult \<Rightarrow> ''query: invalid result format''
      | OtherError s \<Rightarrow> s)"

definition note_failed :: "string \<Rightarrow> engine_error \<Rightarrow> 't InspectorState \<Rightarrow> 't InspectorState" where
  "note_failed q e s =
     (if map_of (s_failedQueries s) q = None
      then s\<lparr>s_failedQueries := gomap_put q e (s_failedQueries s)\<rparr> else s)"

definition getVulnerabilitiesFromQuery ::
  "('t, 'q) engine_env \<Rightarrow> Inspector \<Rightarrow> QueryContext \<Rightarrow> jval \<Rightarrow> 't InspectorState \<Rightarrow>
     ((Vulnerability option \<times> bool) \<times> 't InspectorState) option" where
  "getVulnerabilitiesFromQuery env c ctx queryResultItem s = do {
     (built, t) \<leftarrow> en_vb env (i_detector c) (i_useOldSeverities c) (i_kicsComputeNewSimID c) (en_duration env)
       ctx queryResultItem (s_tracker s);
     let s1 = s\<lparr>s_tracker := t\<rparr>;
     Some (case built of
       Inl err \<Rightarrow>
         (if error_text err = error_text ErrNoResult then ((None, False), s1)
          else ((None, False), note_failed (qm_Query (Query ctx)) err s1))
     | Inr vulnerability \<Rightarrow>
         (let file = file_of ctx (v_FileID vulnerability) in
          if ShouldSkipVulnerability (f_Commands file) (v_QueryID vulnerability) then ((None, False), s1)
          else if v_Line vulnerability = UndetectedVulnerabilityLine then ((None, True), s1)
          else if map_of (i_excludeResults c) (v_SimilarityID vulnerability) \<noteq> None then ((None, False), s1)
          else if checkComment (v_Line vulnerability) (f_LinesIgnore file) then ((None, False), s1)
          else ((Some vulnerability, False), s1)))
   }"

text \<open>
  The loop of \<open>DecodeQueryResults\<close>. The \<open>break\<close> in its \<open>select\<close> leaves the \<open>select\<close>, so the loop
  goes on and skips the items left. The state is returned also when an item panics.
\<close>

fun decode_items ::
  "('t, 'q) engine_env \<Rightarrow> Inspector \<Rightarrow> QueryContext \<Rightarrow> nat \<Rightarrow> jval list \<Rightarrow> 't InspectorState \<Rightarrow>
     (Vulnerability list \<times> bool) option \<times> 't InspectorState" where
  "decode_items env c ctx i [] s = (Some ([], False), s)"
| "decode_items env c ctx i (item # items) s =
     (if en_timeout env i then decode_items env c ctx (Suc i) items s
      else case getVulnerabilitiesFromQuery env c ctx item s of
        None \<Rightarrow> (None, s)
      | Some ((vulnerability, aux), s1) \<Rightarrow>
          (case decode_items env c ctx (Suc i) items s1 of
             (None, s2) \<Rightarrow> (None, s2)
           | (Some (vs, failed), s2) \<Rightarrow>
               (Some (case vulnerability of
                        Some v \<Rightarrow> if \<not> aux then v # vs else vs
                      | None \<Rightarrow> vs, aux \<or> failed), s2)))"

definition DecodeQueryResults ::
  "('t, 'q) engine_env \<Rightarrow> Inspector \<Rightarrow> QueryContext \<Rightarrow> doc list \<Rightarrow> 't InspectorState \<Rightarrow>
     (engine_error + Vulnerability list) option \<times> 't InspectorState" where
  "DecodeQueryResults env c ctx results s =
     (case results of
        [] \<Rightarrow> (Some (Inl ErrNoResult), s)
      | bindings # _ \<Rightarrow>
          (case map_of bindings ''result'' of
             None \<Rightarrow> (Some (Inl ErrNoResult), s)
           | Some (JList queryResultItems) \<Rightarrow>
               (case decode_items env c ctx 0 queryResultItems s of
                  (None, s1) \<Rightarrow> (None, s1)
                | (Some (vulnerabilities, failedDetectLine), s1) \<Rightarrow>
                    (Some (Inr vulnerabilities),
                     if failedDetectLine
                     then s1\<lparr>s_tracker := op_FailedDetectLine (en_tracker env) (s_tracker s1)\<rparr> else s1))
           | Some _ \<Rightarrow> (Some (Inl ErrInvalidResult), s)))"

section \<open>Running a query\<close>

definition set_coverage :: "string \<Rightarrow> 't InspectorState \<Rightarrow> 't InspectorState" where
  "set_coverage rep s = s\<lparr>s_coverageReport := rep\<rparr>"

text \<open>The body of \<open>doRun\<close> after the payload is decoded, without its \<open>recover\<close>\<close>

definition run_body ::
  "('t, 'q) engine_env \<Rightarrow> Inspector \<Rightarrow> QueryContext \<Rightarrow> 'q \<Rightarrow> jval \<Rightarrow> 't InspectorState \<Rightarrow>
     (engine_error + Vulnerability list) option \<times> 't InspectorState" where
  "run_body env c ctx opaQuery payload s =
     (case en_eval env opaQuery payload of
        Inl (cancelled, err) \<Rightarrow>
          (Some (Inl (OtherError ((if cancelled then ''query executing timeout exited: ''
            else ''failed to evaluate query: '') @ err))), s)
      | Inr results \<Rightarrow>
          (if i_enableCoverageReport c then
             (case en_parse_module env (qm_Query (Query ctx)) (qm_Content (Query ctx)) of
                Inl err \<Rightarrow> (Some (Inl (OtherError (''failed to parse coverage module: '' @ err))), s)
              | Inr md \<Rightarrow>
                  DecodeQueryResults env c ctx results
                    (set_coverage (en_report env (qm_Query (Query ctx)) md) s))
           else DecodeQueryResults env c ctx results s))"

text \<open>
  \<open>doRun\<close>: the decoded payload stays in the worker's variable. \<open>recover\<close> turns a panic into an
  error and keeps no vulnerabilities; after an endless loop there is no result.
\<close>

definition doRun ::
  "('t, 'q) engine_env \<Rightarrow> Inspector \<Rightarrow> QueryContext \<Rightarrow> 'q \<Rightarrow> jval \<Rightarrow> 't InspectorState \<Rightarrow>
     ((engine_error + Vulnerability list) \<times> jval \<times> 't InspectorState) option" where
  "doRun env c ctx opaQuery payload s =
     (let payload' = TransformJsonencodeInPayload (en_parse_expr env) payload in
      case run_body env c ctx opaQuery payload' s of
        (Some res, s1) \<Rightarrow> Some (res, payload', s1)
      | (None, s1) \<Rightarrow>
          (if en_hangs env ctx then None
           else Some (Inl (OtherError (''panic: '' @ en_panic env ctx)), payload', s1)))"

section \<open>Workers\<close>

record QueryResult =
  r_res :: "engine_error + Vulnerability list"
  r_queryID :: nat

text \<open>
  Each worker has its own payload variable, and the query it is running. All take their queries
  from one channel \<open>jobs\<close> and send to one channel \<open>results\<close>.
\<close>

record 't inspection =
  n_jobs :: "nat list"
  n_workers :: "(jval \<times> nat option) list"
  n_results :: "QueryResult list"
  n_state :: "'t InspectorState"

definition query_context ::
  "string \<Rightarrow> FileMetadata list \<Rightarrow> string list \<Rightarrow> QueryMetadata \<Rightarrow> QueryContext" where
  "query_context scan files baseScanPaths query =
     \<lparr>scanID = scan, Files = ToMap files, Query = query, BaseScanPaths = baseScanPaths\<rparr>"

definition track_execution ::
  "'t EngineTracker \<Rightarrow> int \<Rightarrow> engine_error + 'a \<Rightarrow> 't InspectorState \<Rightarrow> 't InspectorState" where
  "track_execution tr n res s =
     (case res of Inl _ \<Rightarrow> s | Inr _ \<Rightarrow> s\<lparr>s_tracker := op_TrackQueryExecution tr n (s_tracker s)\<rparr>)"

text \<open>
  One turn of the loop of \<open>performInspection\<close>: a query that cannot be loaded is passed over, and
  otherwise its result is sent. \<open>None\<close> when the turn does not end.
\<close>

definition inspect_job ::
  "('t, 'q) engine_env \<Rightarrow> Inspector \<Rightarrow> (QueryMetadata \<Rightarrow> QueryContext) \<Rightarrow> QueryMetadata list \<Rightarrow> nat \<Rightarrow> jval \<Rightarrow>
     't InspectorState \<Rightarrow> (QueryResult option \<times> jval \<times> 't InspectorState) option" where
  "inspect_job env c mkctx queries job payload s = do {
     loaded \<leftarrow> LoadQuery env (i_QueryLoader c) (queries ! job);
     case loaded of
       Inl err \<Rightarrow> Some (None, payload, s)
     | Inr queryOpa \<Rightarrow> do {
         (res, payload', s1) \<leftarrow> doRun env c (mkctx (queries ! job)) queryOpa payload s;
         Some (Some \<lparr>r_res = res, r_queryID = job\<rparr>, payload',
           track_execution (en_tracker env) (qm_Aggregation (queries ! job)) res s1)
       }
   }"

text \<open>
  A step of worker \<open>w\<close> of \<open>performInspection\<close>: an idle worker takes the next query, a busy one
  ends its turn.
\<close>

definition worker_step ::
  "('t, 'q) engine_env \<Rightarrow> Inspector \<Rightarrow> (QueryMetadata \<Rightarrow> QueryContext) \<Rightarrow> QueryMetadata list \<Rightarrow>
     't inspection \<Rightarrow> nat \<Rightarrow> 't inspection option" where
  "worker_step env c mkctx queries n w =
     (if w < length (n_workers n) then
        (case n_workers n ! w of
           (payload, None) \<Rightarrow>
             (case n_jobs n of
                [] \<Rightarrow> None
              | job # jobs \<Rightarrow>
                  Some (n\<lparr>n_jobs := jobs, n_workers := (n_workers n)[w := (payload, Some job)]\<rparr>))
         | (payload, Some job) \<Rightarrow> do {
             (res, payload', s) \<leftarrow> inspect_job env c mkctx queries job payload (n_state n);
             Some (n\<lparr>n_workers := (n_workers n)[w := (payload', None)],
               n_results := n_results n @ (case res of None \<Rightarrow> [] | Some x \<Rightarrow> [x]), n_state := s\<rparr>)
           })
      else None)"

inductive inspect_step ::
  "('t, 'q) engine_env \<Rightarrow> Inspector \<Rightarrow> (QueryMetadata \<Rightarrow> QueryContext) \<Rightarrow> QueryMetadata list \<Rightarrow>
     't inspection \<Rightarrow> 't inspection \<Rightarrow> bool"
  for env c mkctx queries where
  worker: "worker_step env c mkctx queries n w = Some n' \<Longrightarrow> inspect_step env c mkctx queries n n'"

fun run_schedule ::
  "('t, 'q) engine_env \<Rightarrow> Inspector \<Rightarrow> (QueryMetadata \<Rightarrow> QueryContext) \<Rightarrow> QueryMetadata list \<Rightarrow> nat list \<Rightarrow>
     't inspection \<Rightarrow> 't inspection option" where
  "run_schedule env c mkctx queries [] n = Some n"
| "run_schedule env c mkctx queries (w # ws) n = do {
     n' \<leftarrow> worker_step env c mkctx queries n w;
     run_schedule env c mkctx queries ws n'
   }"

definition start_inspection ::
  "Inspector \<Rightarrow> jval \<Rightarrow> QueryMetadata list \<Rightarrow> 't InspectorState \<Rightarrow> 't inspection" where
  "start_inspection c astPayload queries s =
     \<lparr>n_jobs = [0 ..< length queries], n_workers = replicate (nat (i_numWorkers c)) (astPayload, None),
      n_results = [], n_state = s\<rparr>"

text \<open>The channel \<open>results\<close> is closed when every worker has left its loop.\<close>

definition inspection_over :: "'t inspection \<Rightarrow> bool" where
  "inspection_over n \<longleftrightarrow>
     (\<forall>w \<in> set (n_workers n). snd w = None) \<and> (n_workers n = [] \<or> n_jobs n = [])"

text \<open>The loop of \<open>Inspect\<close> over the results\<close>

fun collect_results ::
  "QueryMetadata list \<Rightarrow> QueryResult list \<Rightarrow> (string, engine_error) gomap \<Rightarrow>
     Vulnerability list \<times> (string, engine_error) gomap" where
  "collect_results queries [] failed = ([], failed)"
| "collect_results queries (result # results) failed =
     (case r_res result of
        Inl err \<Rightarrow> collect_results queries results (gomap_put (qm_Query (queries ! r_queryID result)) err failed)
      | Inr vs \<Rightarrow> (let (vulns, failed') = collect_results queries results failed in (vs @ vulns, failed')))"

text \<open>
  \<open>Inspect\<close>: \<open>to_payload\<close> is the way of the combined files through \<open>json.Marshal\<close>, \<open>UnmarshalJSON\<close>
  and \<open>ast.InterfaceToValue\<close>. The workers run as \<open>schedule\<close> says; a result is given when it takes
  them to the end.
\<close>

definition Inspect ::
  "('t, 'q) engine_env \<Rightarrow> Inspector \<Rightarrow> (doc list \<Rightarrow> string + jval) \<Rightarrow> string \<Rightarrow> FileMetadata list \<Rightarrow> string list \<Rightarrow>
     string list \<Rightarrow> nat list \<Rightarrow> 't InspectorState \<Rightarrow>
     ((string + Vulnerability list) \<times> 't InspectorState) option" where
  "Inspect env c to_payload scan files baseScanPaths platforms schedule s = do {
     (documents, files') \<leftarrow> Combine False files;
     case to_payload documents of
       Inl err \<Rightarrow> Some (Inl err, s)
     | Inr astPayload \<Rightarrow> do {
         let queries = getQueriesByPlat (i_QueryLoader c) platforms;
         n \<leftarrow> run_schedule env c (query_context scan files' baseScanPaths) queries schedule
           (start_inspection c astPayload queries s);
         if inspection_over n then
           (let (vulnerabilities, failed) = collect_results queries (n_results n) (s_failedQueries (n_state n))
            in Some (Inr vulnerabilities, (n_state n)\<lparr>s_failedQueries := failed\<rparr>))
         else None
       }
   }"

section \<open>The builder's contract\<close>

text \<open>
  What the workers rely on: what a builder returns does not depend on the tracker, which it only
  writes to. The client's lemmas follow a query's result through the inspector.
\<close>

locale pure_builder =
  fixes vb :: "'t vulnerability_builder"
  assumes vb_pure: "map_option fst (vb d o' n dur ctx v t) = map_option fst (vb d o' n dur ctx v t')"
begin

definition runs_with :: "('t, 'q) engine_env \<Rightarrow> bool" where
  "runs_with env \<longleftrightarrow> en_vb env = vb"

lemma vb_cases:
  assumes "runs_with env"
  obtains "\<And>t. en_vb env d o' n dur ctx v t = None"
  | r st where "\<And>t. en_vb env d o' n dur ctx v t = Some (r, st t)"
proof (cases "\<exists>t r t'. en_vb env d o' n dur ctx v t = Some (r, t')")
  case True
  then obtain t0 r t0' where r: "vb d o' n dur ctx v t0 = Some (r, t0')"
    using assms by (auto simp: runs_with_def)
  have "\<exists>t'. vb d o' n dur ctx v t = Some (r, t')" for t
    using vb_pure [of d o' n dur ctx v t t0] r by auto
  then obtain st where "\<And>t. vb d o' n dur ctx v t = Some (r, st t)" by metis
  then show ?thesis using that(2) assms by (auto simp: runs_with_def)
next
  case False
  have "en_vb env d o' n dur ctx v t = None" for t
  proof (cases "en_vb env d o' n dur ctx v t")
    case (Some x)
    then show ?thesis using False by (cases x) auto
  qed simp
  then show ?thesis by (rule that(1))
qed

lemma item_pure:
  assumes "runs_with env"
  shows "map_option fst (getVulnerabilitiesFromQuery env c ctx v s) =
    map_option fst (getVulnerabilitiesFromQuery env c ctx v s')"
  by (rule vb_cases [OF assms, of "i_detector c" "i_useOldSeverities c" "i_kicsComputeNewSimID c"
        "en_duration env" ctx v])
    (auto simp: getVulnerabilitiesFromQuery_def Let_def split: sum.splits engine_error.splits)

lemma items_pure:
  assumes "runs_with env"
  shows "fst (decode_items env c ctx i items s) = fst (decode_items env c ctx i items s')"
proof (induction items arbitrary: i s s')
  case (Cons v vs)
  show ?case
  proof (cases "en_timeout env i")
    case True
    then show ?thesis using Cons.IH [of "Suc i" s s'] by simp
  next
    case False
    note pure = item_pure [OF assms, of c ctx v s s']
    show ?thesis
    proof (cases "getVulnerabilitiesFromQuery env c ctx v s")
      case None
      then show ?thesis using False pure by simp
    next
      case (Some r)
      obtain x aux s1 where r: "r = ((x, aux), s1)" by (cases r) auto
      then obtain s1' where s1': "getVulnerabilitiesFromQuery env c ctx v s' = Some ((x, aux), s1')"
        using pure Some by (cases "getVulnerabilitiesFromQuery env c ctx v s'") auto
      have "fst (decode_items env c ctx (Suc i) vs s1) = fst (decode_items env c ctx (Suc i) vs s1')"
        by (rule Cons.IH)
      then show ?thesis using False Some r s1'
        by (auto split: prod.splits option.splits)
    qed
  qed
qed simp

lemma decode_pure:
  assumes "runs_with env"
  shows "fst (DecodeQueryResults env c ctx results s) = fst (DecodeQueryResults env c ctx results s')"
proof (cases "\<exists>b bs items. results = b # bs \<and> map_of b ''result'' = Some (JList items)")
  case True
  then obtain b bs items where "results = b # bs" "map_of b ''result'' = Some (JList items)" by blast
  then show ?thesis using items_pure [OF assms, of c ctx 0 items s s']
    by (auto simp: DecodeQueryResults_def split: prod.splits option.splits)
next
  case False
  then show ?thesis by (auto simp: DecodeQueryResults_def split: list.splits option.splits jval.splits)
qed

lemma body_pure:
  assumes "runs_with env"
  shows "fst (run_body env c ctx q payload s) = fst (run_body env c ctx q payload s')"
  using decode_pure [OF assms] by (auto simp: run_body_def split: sum.splits)

lemma doRun_pure:
  assumes "runs_with env"
  shows "map_option (\<lambda>(res, payload', s). (res, payload')) (doRun env c ctx q payload s) =
    map_option (\<lambda>(res, payload', s). (res, payload')) (doRun env c ctx q payload s')"
  using body_pure [OF assms, of c ctx q "TransformJsonencodeInPayload (en_parse_expr env) payload" s s']
  by (auto simp: doRun_def Let_def split: prod.splits option.splits)

lemma job_pure:
  assumes "runs_with env"
  shows "map_option (\<lambda>(res, payload', s). (res, payload')) (inspect_job env c mkctx queries j payload s) =
    map_option (\<lambda>(res, payload', s). (res, payload')) (inspect_job env c mkctx queries j payload s')"
proof (cases "LoadQuery env (i_QueryLoader c) (queries ! j)")
  case (Some loaded)
  show ?thesis
  proof (cases loaded)
    case (Inr q)
    have "map_option (\<lambda>(res, payload', s). (res, payload')) (doRun env c (mkctx (queries ! j)) q payload s) =
      map_option (\<lambda>(res, payload', s). (res, payload')) (doRun env c (mkctx (queries ! j)) q payload s')"
      by (rule doRun_pure [OF assms])
    then show ?thesis using Some Inr
      by (cases "doRun env c (mkctx (queries ! j)) q payload s";
          cases "doRun env c (mkctx (queries ! j)) q payload s'") (auto simp: inspect_job_def)
  qed (simp add: inspect_job_def Some)
qed (simp add: inspect_job_def)

end

interpretation default_builder: pure_builder "DefaultVulnerabilityBuilder be" for be
proof unfold_locales
  fix d o' n dur ctx v t t'
  show "map_option fst (DefaultVulnerabilityBuilder be d o' n dur ctx v t) =
      map_option fst (DefaultVulnerabilityBuilder be d o' n dur ctx v t')"
    using builder_pure [of be d o' n dur ctx v] by auto
qed

section \<open>The workers, whatever their schedule\<close>

definition job_outcome ::
  "('t, 'q) engine_env \<Rightarrow> Inspector \<Rightarrow> (QueryMetadata \<Rightarrow> QueryContext) \<Rightarrow> QueryMetadata list \<Rightarrow> jval \<Rightarrow>
     't InspectorState \<Rightarrow> nat \<Rightarrow> QueryResult option option" where
  "job_outcome env c mkctx queries payload s j = map_option fst (inspect_job env c mkctx queries j payload s)"

definition settled_payload :: "expr_parser \<Rightarrow> jval \<Rightarrow> bool" where
  "settled_payload parse p \<longleftrightarrow>
     TransformJsonencodeInPayload parse (TransformJsonencodeInPayload parse p) = TransformJsonencodeInPayload parse p"

lemma doRun_payload:
  assumes "TransformJsonencodeInPayload (en_parse_expr env) p = TransformJsonencodeInPayload (en_parse_expr env) p'"
  shows "doRun env c ctx q p s = doRun env c ctx q p' s"
  by (simp add: doRun_def assms)

lemma doRun_transforms:
  "doRun env c ctx q p s = Some (res, p', s1) \<Longrightarrow> p' = TransformJsonencodeInPayload (en_parse_expr env) p"
  by (auto simp: doRun_def Let_def split: prod.splits option.splits if_splits)

lemma inspect_job_id:
  "inspect_job env c mkctx queries j p s = Some (Some r, p', s1) \<Longrightarrow> r_queryID r = j"
  by (auto simp: inspect_job_def split: Option.bind_splits sum.splits)

context pure_builder
begin

lemma job_settled:
  assumes "runs_with env" and "settled_payload (en_parse_expr env) p0"
    and "p \<in> {p0, TransformJsonencodeInPayload (en_parse_expr env) p0}"
    and "inspect_job env c mkctx queries j p s = Some (res, p', s1)"
  shows "job_outcome env c mkctx queries p0 s0 j = Some res \<and>
    p' \<in> {p0, TransformJsonencodeInPayload (en_parse_expr env) p0}"
proof -
  let ?T = "TransformJsonencodeInPayload (en_parse_expr env)"
  have T: "?T p = ?T p0" using assms(2,3) by (auto simp: settled_payload_def)
  obtain loaded where loaded: "LoadQuery env (i_QueryLoader c) (queries ! j) = Some loaded"
    using assms(4) by (auto simp: inspect_job_def split: Option.bind_splits)
  show ?thesis
  proof (cases loaded)
    case (Inl e)
    then show ?thesis using assms(3,4) loaded by (auto simp: inspect_job_def job_outcome_def)
  next
    case (Inr q)
    let ?ctx = "mkctx (queries ! j)"
    obtain r s2 where r: "doRun env c ?ctx q p s = Some (r, p', s2)" "res = Some \<lparr>r_res = r, r_queryID = j\<rparr>"
      using assms(4) loaded Inr by (auto simp: inspect_job_def split: Option.bind_splits)
    have "doRun env c ?ctx q p0 s = Some (r, p', s2)" using r(1) doRun_payload [OF T] by simp
    then obtain s3 where "doRun env c ?ctx q p0 s0 = Some (r, p', s3)"
      using doRun_pure [OF assms(1), of c ?ctx q p0 s s0]
      by (cases "doRun env c ?ctx q p0 s0") auto
    then show ?thesis using doRun_transforms [OF r(1)] r(2) loaded Inr T
      by (simp add: job_outcome_def inspect_job_def)
  qed
qed

end

text \<open>The queries the workers are at\<close>

definition job_of :: "nat option \<Rightarrow> nat multiset" where
  "job_of j = (case j of None \<Rightarrow> {#} | Some j \<Rightarrow> {#j#})"

definition busy :: "(jval \<times> nat option) list \<Rightarrow> nat multiset" where
  "busy ws = sum_list (map (\<lambda>w. job_of (snd w)) ws)"

lemma busy_update:
  "i < length ws \<Longrightarrow> busy (ws[i := (p, j)]) + job_of (snd (ws ! i)) = busy ws + job_of j"
proof (induction ws arbitrary: i)
  case (Cons w ws)
  show ?case
  proof (cases i)
    case 0
    then show ?thesis by (simp add: busy_def union_commute)
  next
    case (Suc k)
    then show ?thesis using Cons.IH [of k] Cons.prems by (simp add: busy_def union_assoc)
  qed
qed simp

lemma busy_empty: "busy ws = {#} \<longleftrightarrow> (\<forall>w \<in> set ws. snd w = None)"
  by (induction ws) (auto simp: busy_def job_of_def split: option.splits)

definition queries_left :: "'t inspection \<Rightarrow> nat" where
  "queries_left n = 2 * length (n_jobs n) + size (busy (n_workers n))"

text \<open>
  The invariant of the workers: every query is waiting, being run, passed over because it cannot be
  loaded, or has its one result, which is the one it has when it is run first and alone.
\<close>

definition inspection_inv ::
  "expr_parser \<Rightarrow> jval \<Rightarrow> (nat \<Rightarrow> QueryResult option option) \<Rightarrow> nat \<Rightarrow> nat \<Rightarrow> 't inspection \<Rightarrow> bool" where
  "inspection_inv parse p0 outcome N k n \<longleftrightarrow>
     length (n_workers n) = k \<and>
     (\<forall>w \<in> set (n_workers n). fst w \<in> {p0, TransformJsonencodeInPayload parse p0}) \<and>
     (\<forall>r \<in> set (n_results n). outcome (r_queryID r) = Some (Some r)) \<and>
     (\<exists>skipped. (\<forall>j \<in> set skipped. outcome j = Some None) \<and>
        mset (n_jobs n) + busy (n_workers n) + mset (map r_queryID (n_results n)) + mset skipped = mset [0 ..< N])"

lemma start_inv: "inspection_inv parse p0 outcome (length queries) (nat (i_numWorkers c)) (start_inspection c p0 queries s)"
proof -
  have "busy (replicate k (p0, None)) = {#}" for k by (simp add: busy_empty)
  then show ?thesis by (auto simp: inspection_inv_def start_inspection_def)
qed

lemma worker_step_left:
  assumes "worker_step env c mkctx queries n w = Some n'"
  shows "queries_left n = Suc (queries_left n')"
proof -
  obtain p j where w: "w < length (n_workers n)" "n_workers n ! w = (p, j)"
    using assms by (cases "n_workers n ! w") (auto simp: worker_step_def split: if_splits)
  have up: "size (busy ((n_workers n)[w := (p', j')])) + size (job_of j) = size (busy (n_workers n)) + size (job_of j')"
    for p' j' using arg_cong [OF busy_update [OF w(1), of p' j'], of size] w(2) by simp
  show ?thesis
  proof (cases j)
    case None
    with assms w obtain job jobs where "n_jobs n = job # jobs"
        "n' = n\<lparr>n_jobs := jobs, n_workers := (n_workers n)[w := (p, Some job)]\<rparr>"
      by (auto simp: worker_step_def split: list.splits)
    then show ?thesis using up [of p "Some job"] None by (simp add: queries_left_def job_of_def)
  next
    case (Some job)
    with assms w obtain p' s rs where "n' = n\<lparr>n_workers := (n_workers n)[w := (p', None)],
        n_results := n_results n @ rs, n_state := s\<rparr>"
      by (auto simp: worker_step_def split: Option.bind_splits)
    then show ?thesis using up [of p' None] Some by (simp add: queries_left_def job_of_def)
  qed
qed

context pure_builder
begin

lemma worker_step_inv:
  assumes "runs_with env" and "settled_payload (en_parse_expr env) p0"
    and "worker_step env c mkctx queries n w = Some n'"
    and "inspection_inv (en_parse_expr env) p0 (job_outcome env c mkctx queries p0 s0) N k n"
  shows "inspection_inv (en_parse_expr env) p0 (job_outcome env c mkctx queries p0 s0) N k n'"
proof -
  let ?O = "job_outcome env c mkctx queries p0 s0"
  let ?P = "{p0, TransformJsonencodeInPayload (en_parse_expr env) p0}"
  from assms(4) obtain skipped where inv: "length (n_workers n) = k" "\<forall>w \<in> set (n_workers n). fst w \<in> ?P"
      "\<forall>r \<in> set (n_results n). ?O (r_queryID r) = Some (Some r)" "\<forall>j \<in> set skipped. ?O j = Some None"
      "mset (n_jobs n) + busy (n_workers n) + mset (map r_queryID (n_results n)) + mset skipped = mset [0 ..< N]"
    unfolding inspection_inv_def by blast
  obtain p j where w: "w < length (n_workers n)" "n_workers n ! w = (p, j)"
    using assms(3) by (cases "n_workers n ! w") (auto simp: worker_step_def split: if_splits)
  have p: "p \<in> ?P" using inv(2) w nth_mem by fastforce
  have up: "busy ((n_workers n)[w := (p', j')]) + job_of j = busy (n_workers n) + job_of j'" for p' j'
    using busy_update [OF w(1), of p' j'] w(2) by simp
  show ?thesis
  proof (cases j)
    case None
    with assms(3) w obtain job jobs where n': "n_jobs n = job # jobs"
        "n' = n\<lparr>n_jobs := jobs, n_workers := (n_workers n)[w := (p, Some job)]\<rparr>"
      by (auto simp: worker_step_def split: list.splits)
    have "busy (n_workers n') = add_mset job (busy (n_workers n))"
      using up [of p "Some job"] n'(2) None by (simp add: job_of_def)
    moreover have "\<forall>w \<in> set (n_workers n'). fst w \<in> ?P"
      using inv(2) p n'(2) set_update_subset_insert [of "n_workers n" w "(p, Some job)"] by fastforce
    ultimately show ?thesis using inv n'
      unfolding inspection_inv_def by (intro conjI exI [of _ skipped]) auto
  next
    case (Some job)
    with assms(3) w obtain res p' s where n': "inspect_job env c mkctx queries job p (n_state n) = Some (res, p', s)"
        "n' = n\<lparr>n_workers := (n_workers n)[w := (p', None)],
           n_results := n_results n @ (case res of None \<Rightarrow> [] | Some x \<Rightarrow> [x]), n_state := s\<rparr>"
      by (auto simp: worker_step_def split: Option.bind_splits)
    note job = job_settled [OF assms(1,2) p n'(1), of s0]
    have b: "add_mset job (busy (n_workers n')) = busy (n_workers n)"
      using up [of p' None] n'(2) Some by (simp add: job_of_def)
    have pay: "\<forall>w \<in> set (n_workers n'). fst w \<in> ?P"
      using inv(2) job n'(2) set_update_subset_insert [of "n_workers n" w "(p', None)"] by fastforce
    show ?thesis
    proof (cases res)
      case None
      then have "mset (n_jobs n') + busy (n_workers n') + mset (map r_queryID (n_results n')) +
          mset (job # skipped) = mset [0 ..< N]"
        using inv(5) b n'(2) by (simp flip: b)
      then show ?thesis using inv None n'(2) pay job
        unfolding inspection_inv_def by (intro conjI exI [of _ "job # skipped"]) auto
    next
      case (Some r)
      have "r_queryID r = job" using inspect_job_id n'(1) Some by blast
      then have "mset (n_jobs n') + busy (n_workers n') + mset (map r_queryID (n_results n')) +
          mset skipped = mset [0 ..< N]"
        using inv(5) n'(2) Some by (simp flip: b)
      then show ?thesis using inv Some n'(2) pay job \<open>r_queryID r = job\<close>
        unfolding inspection_inv_def by (intro conjI exI [of _ skipped]) auto
    qed
  qed
qed

lemma steps_inv:
  assumes "(inspect_step env c mkctx queries)\<^sup>*\<^sup>* n n'" and "runs_with env"
    and "settled_payload (en_parse_expr env) p0"
    and "inspection_inv (en_parse_expr env) p0 (job_outcome env c mkctx queries p0 s0) N k n"
  shows "inspection_inv (en_parse_expr env) p0 (job_outcome env c mkctx queries p0 s0) N k n'"
  using assms(1)
proof (induction rule: rtranclp_induct)
  case (step y z)
  then obtain w where "worker_step env c mkctx queries y w = Some z" by (auto elim: inspect_step.cases)
  then show ?case using worker_step_inv [OF assms(2,3)] step.IH by blast
qed (rule assms(4))

end

text \<open>At the end the results are those of the queries that can be loaded, one for each.\<close>

lemma map_filter_mset:
  "mset xs = mset ys \<Longrightarrow> mset (List.map_filter f xs) = mset (List.map_filter f ys)"
  by (simp add: List.map_filter_def mset_filter)

lemma map_filter_none: "\<forall>x \<in> set xs. f x = None \<Longrightarrow> List.map_filter f xs = []"
  by (induction xs) (auto simp: List.map_filter_simps)

lemma map_filter_some: "\<forall>x \<in> set xs. f (g x) = Some x \<Longrightarrow> List.map_filter f (map g xs) = xs"
  by (induction xs) (auto simp: List.map_filter_simps)

lemma map_filter_append: "List.map_filter f (xs @ ys) = List.map_filter f xs @ List.map_filter f ys"
  by (simp add: List.map_filter_def)

definition expected_results :: "(nat \<Rightarrow> QueryResult option option) \<Rightarrow> nat \<Rightarrow> QueryResult list" where
  "expected_results outcome N = List.map_filter (\<lambda>j. the (outcome j)) [0 ..< N]"

lemma over_results:
  assumes "inspection_inv parse p0 outcome N k n" and "inspection_over n" and "0 < k"
  shows "mset (n_results n) = mset (expected_results outcome N)"
proof -
  obtain skipped where inv: "length (n_workers n) = k" "\<forall>r \<in> set (n_results n). outcome (r_queryID r) = Some (Some r)"
      "\<forall>j \<in> set skipped. outcome j = Some None"
      "mset (n_jobs n) + busy (n_workers n) + mset (map r_queryID (n_results n)) + mset skipped = mset [0 ..< N]"
    using assms(1) unfolding inspection_inv_def by blast
  have "n_jobs n = []" "busy (n_workers n) = {#}"
    using assms(2,3) inv(1) by (auto simp: inspection_over_def busy_empty)
  then have "mset (map r_queryID (n_results n) @ skipped) = mset [0 ..< N]" using inv(4) by simp
  then have "mset (List.map_filter (\<lambda>j. the (outcome j)) (map r_queryID (n_results n) @ skipped)) =
      mset (expected_results outcome N)"
    unfolding expected_results_def by (rule map_filter_mset)
  moreover have "List.map_filter (\<lambda>j. the (outcome j)) (map r_queryID (n_results n) @ skipped) = n_results n"
    using inv(2,3) by (simp add: map_filter_append map_filter_none map_filter_some)
  ultimately show ?thesis by simp
qed

definition result_vulns :: "QueryResult \<Rightarrow> Vulnerability list" where
  "result_vulns r = (case r_res r of Inl _ \<Rightarrow> [] | Inr vs \<Rightarrow> vs)"

lemma collect_vulns: "fst (collect_results queries rs failed) = concat (map result_vulns rs)"
  by (induction queries rs failed rule: collect_results.induct)
    (auto simp: result_vulns_def split: sum.splits prod.splits)

lemma concat_mset: "mset rs = mset rs' \<Longrightarrow> mset (concat (map f rs)) = mset (concat (map f rs'))"
proof -
  assume "mset rs = mset rs'"
  then have "image_mset (mset \<circ> f) (mset rs) = image_mset (mset \<circ> f) (mset rs')" by simp
  then have "sum_mset (mset (map (mset \<circ> f) rs)) = sum_mset (mset (map (mset \<circ> f) rs'))" by simp
  then show ?thesis unfolding mset_concat map_map sum_mset_sum_list [symmetric] .
qed

lemma run_schedule_steps:
  "run_schedule env c mkctx queries ws n = Some n' \<Longrightarrow> (inspect_step env c mkctx queries)\<^sup>*\<^sup>* n n'"
proof (induction env c mkctx queries ws n rule: run_schedule.induct)
  case (2 env c mkctx queries w ws n)
  then obtain m where "worker_step env c mkctx queries n w = Some m"
      "run_schedule env c mkctx queries ws m = Some n'" by (auto split: Option.bind_splits)
  with 2 show ?case by (meson converse_rtranclp_into_rtranclp inspect_step.intros)
qed simp

lemma run_schedule_left:
  "run_schedule env c mkctx queries ws n = Some n' \<Longrightarrow> queries_left n = length ws + queries_left n'"
proof (induction env c mkctx queries ws n rule: run_schedule.induct)
  case (2 env c mkctx queries w ws n)
  then obtain m where "worker_step env c mkctx queries n w = Some m"
      "run_schedule env c mkctx queries ws m = Some n'" by (auto split: Option.bind_splits)
  with 2 show ?case using worker_step_left by fastforce
qed simp

context pure_builder
begin

lemma outcome_any:
  assumes "runs_with env"
  shows "job_outcome env c mkctx queries p s j = job_outcome env c mkctx queries p s' j"
  using job_pure [OF assms, of c mkctx queries j p s s']
  by (cases "inspect_job env c mkctx queries j p s"; cases "inspect_job env c mkctx queries j p s'")
    (auto simp: job_outcome_def)

lemma inspect_vulns:
  assumes "runs_with env" and "0 < i_numWorkers c" and "settled_payload (en_parse_expr env) p"
    and "Inspect env c to_payload scan files bases platforms schedule s = Some (Inr vs, s1)"
    and "Combine False files = Some (documents, files')" and "to_payload documents = Inr p"
    and "queries = getQueriesByPlat (i_QueryLoader c) platforms"
  shows "mset vs = mset (concat (map result_vulns (expected_results
    (job_outcome env c (query_context scan files' bases) queries p s0) (length queries))))"
proof -
  let ?mk = "query_context scan files' bases"
  let ?O = "job_outcome env c ?mk queries p s0"
  obtain n where n: "run_schedule env c ?mk queries schedule (start_inspection c p queries s) = Some n"
      "inspection_over n" "vs = fst (collect_results queries (n_results n) (s_failedQueries (n_state n)))"
    using assms(4-7) by (auto simp: Inspect_def Let_def split: Option.bind_splits if_splits prod.splits)
  have "inspection_inv (en_parse_expr env) p ?O (length queries) (nat (i_numWorkers c)) n"
    using steps_inv [OF run_schedule_steps [OF n(1)] assms(1,3) start_inv] .
  from over_results [OF this n(2)] assms(2) have "mset (n_results n) = mset (expected_results ?O (length queries))"
    by simp
  then show ?thesis using n(3) concat_mset collect_vulns by metis
qed

lemma inspection_progress:
  assumes "runs_with env" and "settled_payload (en_parse_expr env) p" and "0 < i_numWorkers c"
    and "\<forall>j < length queries. job_outcome env c mkctx queries p s0 j \<noteq> None"
    and "run_schedule env c mkctx queries ws (start_inspection c p queries s) = Some n"
    and "\<not> inspection_over n"
  shows "\<exists>w n'. worker_step env c mkctx queries n w = Some n'"
proof -
  let ?O = "job_outcome env c mkctx queries p s0"
  have "inspection_inv (en_parse_expr env) p ?O (length queries) (nat (i_numWorkers c)) n"
    using steps_inv [OF run_schedule_steps [OF assms(5)] assms(1,2) start_inv] .
  then obtain skipped where inv: "length (n_workers n) = nat (i_numWorkers c)"
      "\<forall>w \<in> set (n_workers n). fst w \<in> {p, TransformJsonencodeInPayload (en_parse_expr env) p}"
      "mset (n_jobs n) + busy (n_workers n) + mset (map r_queryID (n_results n)) + mset skipped =
         mset [0 ..< length queries]"
    unfolding inspection_inv_def by blast
  show ?thesis
  proof (cases "\<exists>w \<in> set (n_workers n). snd w \<noteq> None")
    case True
    then obtain w q j where w: "w < length (n_workers n)" "n_workers n ! w = (q, Some j)"
      by (metis in_set_conv_nth not_None_eq prod.collapse)
    then have "j \<in># busy (n_workers n)"
      by (auto simp: busy_def job_of_def in_set_conv_nth sum_list_update
          intro!: bexI [of _ "n_workers n ! w"] simp: nth_mem)
    then have "j \<in># mset [0 ..< length queries]" unfolding inv(3) [symmetric] by simp
    then have "?O j \<noteq> None" using assms(4) by simp
    then obtain res p' s' where "inspect_job env c mkctx queries j p s0 = Some (res, p', s')"
      by (auto simp: job_outcome_def)
    moreover have "TransformJsonencodeInPayload (en_parse_expr env) q = TransformJsonencodeInPayload (en_parse_expr env) p"
      using inv(2) w nth_mem assms(2) by (fastforce simp: settled_payload_def)
    ultimately have "inspect_job env c mkctx queries j q s0 \<noteq> None"
      using doRun_payload by (fastforce simp: inspect_job_def split: Option.bind_splits sum.splits)
    then have "inspect_job env c mkctx queries j q (n_state n) \<noteq> None"
      using job_pure [OF assms(1), of c mkctx queries j q s0 "n_state n"]
      by (cases "inspect_job env c mkctx queries j q (n_state n)") auto
    then show ?thesis using w by (intro exI [of _ w]) (auto simp: worker_step_def)
  next
    case False
    then have "n_workers n \<noteq> []" "n_jobs n \<noteq> []"
      using assms(6) by (auto simp: inspection_over_def)
    then show ?thesis using False
      by (intro exI [of _ 0]) (auto simp: worker_step_def neq_Nil_conv)
  qed
qed

end

section \<open>Kept results\<close>

lemma kept_item:
  assumes "getVulnerabilitiesFromQuery env c ctx item s = Some ((Some v, aux), s')"
  shows "(\<exists>t t'. en_vb env (i_detector c) (i_useOldSeverities c) (i_kicsComputeNewSimID c) (en_duration env)
      ctx item t = Some (Inr v, t')) \<and>
    \<not> ShouldSkipVulnerability (f_Commands (file_of ctx (v_FileID v))) (v_QueryID v) \<and> v_Line v \<noteq> - 1 \<and>
    map_of (i_excludeResults c) (v_SimilarityID v) = None \<and>
    v_Line v \<notin> set (f_LinesIgnore (file_of ctx (v_FileID v)))"
  using assms
  by (auto simp: getVulnerabilitiesFromQuery_def Let_def UndetectedVulnerabilityLine_def checkComment_def
      list_ex_iff split: Option.bind_splits sum.splits if_splits) blast

lemma kept_items:
  "decode_items env c ctx i items s = (Some (vs, failed), s') \<Longrightarrow> v \<in> set vs \<Longrightarrow>
     \<exists>item \<in> set items. \<exists>t t' aux. getVulnerabilitiesFromQuery env c ctx item t = Some ((Some v, aux), t')"
proof (induction env c ctx i items s arbitrary: vs failed s' rule: decode_items.induct)
  case (2 env c ctx i item items s)
  show ?case
  proof (cases "en_timeout env i")
    case True
    then show ?thesis using "2.IH"(1) [OF True] "2.prems" by auto
  next
    case False
    with "2.prems"(1) obtain x aux s1 where one: "getVulnerabilitiesFromQuery env c ctx item s = Some ((x, aux), s1)"
      by (auto split: option.splits)
    with False "2.prems"(1) obtain vs1 failed1 s2 where
        rest: "decode_items env c ctx (Suc i) items s1 = (Some (vs1, failed1), s2)"
      and vs: "vs = (case x of Some v \<Rightarrow> if \<not> aux then v # vs1 else vs1 | None \<Rightarrow> vs1)"
      by (auto split: prod.splits option.splits)
    show ?thesis
    proof (cases "v \<in> set vs1")
      case True
      then show ?thesis using "2.IH"(2) [OF False one _ _ rest] by fastforce
    next
      case False
      then have "x = Some v" using "2.prems"(2) vs by (auto split: option.splits if_splits)
      then show ?thesis using one by auto
    qed
  qed
qed auto

lemma decode_kept:
  assumes "DecodeQueryResults env c ctx results s = (Some (Inr vs), s')" and "v \<in> set vs"
  shows "\<exists>item t t' aux. getVulnerabilitiesFromQuery env c ctx item t = Some ((Some v, aux), t')"
  using assms kept_items [of env c ctx 0]
  by (fastforce simp: DecodeQueryResults_def split: list.splits option.splits jval.splits prod.splits)

lemma unloaded_steps:
  "run_schedule env c mkctx queries ws n = Some n' \<Longrightarrow>
   \<forall>q \<in> set queries. \<exists>err. LoadQuery env (i_QueryLoader c) q = Some (Inl err) \<Longrightarrow>
   \<forall>j \<in> set (n_jobs n). j < length queries \<Longrightarrow>
   \<forall>w \<in> set (n_workers n). \<forall>j. snd w = Some j \<longrightarrow> j < length queries \<Longrightarrow>
   n_state n' = n_state n \<and> n_results n' = n_results n"
proof (induction env c mkctx queries ws n rule: run_schedule.induct)
  case (2 env c mkctx queries w ws n)
  from "2.prems"(1) obtain m where m: "worker_step env c mkctx queries n w = Some m"
      "run_schedule env c mkctx queries ws m = Some n'" by (auto split: Option.bind_splits)
  obtain p j where w: "w < length (n_workers n)" "n_workers n ! w = (p, j)"
    using m(1) by (cases "n_workers n ! w") (auto simp: worker_step_def split: if_splits)
  have "n_state m = n_state n \<and> n_results m = n_results n \<and>
      (\<forall>j \<in> set (n_jobs m). j < length queries) \<and>
      (\<forall>w \<in> set (n_workers m). \<forall>j. snd w = Some j \<longrightarrow> j < length queries)"
  proof (cases j)
    case None
    with m(1) w obtain job jobs where m': "n_jobs n = job # jobs"
        "m = n\<lparr>n_jobs := jobs, n_workers := (n_workers n)[w := (p, Some job)]\<rparr>"
      by (auto simp: worker_step_def split: list.splits)
    then show ?thesis using "2.prems"(3,4) set_update_subset_insert [of "n_workers n" w "(p, Some job)"] by fastforce
  next
    case (Some job)
    then have "job < length queries" using "2.prems"(4) w nth_mem by fastforce
    then obtain err where "LoadQuery env (i_QueryLoader c) (queries ! job) = Some (Inl err)"
      using "2.prems"(2) nth_mem by blast
    then have "m = n\<lparr>n_workers := (n_workers n)[w := (p, None)]\<rparr>"
      using m(1) w Some by (simp add: worker_step_def inspect_job_def)
    then show ?thesis using "2.prems"(3,4) set_update_subset_insert [of "n_workers n" w "(p, None)"] by fastforce
  qed
  then show ?case using "2.IH" [OF m "2.prems"(2)] by auto
qed simp

section \<open>An example\<close>

definition example_query :: QueryMetadata where
  "example_query = \<lparr>qm_InputData = ''{}'', qm_Query = ''q'', qm_Content = [], qm_Metadata = [],
     qm_Platform = ''terraform'', qm_CWE = [], qm_Aggregation = 1, qm_Experimental = False\<rparr>"

definition example_engine :: "(CITracker, unit) engine_env" where
  "example_engine =
     \<lparr>en_vb = DefaultVulnerabilityBuilder example_env, en_tracker = ci_engine,
      en_prepare = (\<lambda>m d. Some (Inr ())), 
      en_eval = (\<lambda>q p. Inr [[(''result'', JList [JObj [(''documentId'', JStr ''f'')]])]]),
      en_parse_expr = (\<lambda>t. Inl []), en_parse_module = (\<lambda>a b. Inl []), en_report = (\<lambda>a b. []),
      en_unmarshal = (\<lambda>t. Inl []), en_marshal_doc = (\<lambda>d. Inl []), en_doc_order = id, en_ctx_err = None,
      en_timeout = (\<lambda>i. False), en_duration = 0, en_hangs = (\<lambda>c. False), en_panic = (\<lambda>c. [])\<rparr>"

definition example_inspector :: Inspector where
  "example_inspector =
     \<lparr>i_QueryLoader = \<lparr>commonLibrary = \<lparr>LibraryCode = [], LibraryInputData = ''{}''\<rparr>,
        platformLibraries = [(''terraform'', \<lparr>LibraryCode = [], LibraryInputData = ''{}''\<rparr>)],
        querySum = 2, QueriesMetadata = [example_query, example_query]\<rparr>,
      i_excludeResults = [], i_detector = NewDetectLine (\<lambda>a b. 0) rev 3, i_enableCoverageReport = False,
      i_useOldSeverities = False, i_numWorkers = 2, i_kicsComputeNewSimID = False\<rparr>"

definition example_file :: FileMetadata where
  "example_file = zero_file\<lparr>f_ID := ''f'', f_Document := [(''resource'', JNull)]\<rparr>"

definition example_state :: "CITracker InspectorState" where
  "example_state = \<lparr>s_tracker = zero_tracker, s_failedQueries = [], s_coverageReport = []\<rparr>"

lemma example_settled: "settled_payload (en_parse_expr example_engine) JNull"
  by (simp add: settled_payload_def)

lemma example_load: "LoadQuery example_engine (i_QueryLoader example_inspector) example_query = Some (Inr ())"
  by (simp add: LoadQuery_def example_engine_def example_inspector_def example_query_def MergeInputData_def
      checkEmptyInputdata_def emptyInputData_def)

abbreviation example_item :: jval where
  "example_item \<equiv> JObj [(''documentId'', JStr ''f'')]"

lemma example_kept:
  assumes "Files ctx = [(''f'', fl)]" and "f_Kind fl = []" and "f_ResolvedFiles fl = []"
    and "f_Commands fl = []" and "f_LinesIgnore fl = []" and "f_ID fl = ''f''" and "qm_Metadata (Query ctx) = []"
  shows "\<exists>v. getVulnerabilitiesFromQuery example_engine example_inspector ctx example_item s =
    Some ((Some v, False), s)"
proof -
  let ?b = "DefaultVulnerabilityBuilder example_env (NewDetectLine (\<lambda>a b. 0) rev 3) False False 0 ctx
      example_item (s_tracker s)"
  have "\<exists>v t. ?b = Some (Inr v, t)"
    by (simp add: DefaultVulnerabilityBuilder_def mergeWithMetadata_def example_env_def mapKeyToString_def
        assms locate_result_def KindHELM_def calculeSearchLine_def calculate_def zero_vuln_lines_def
        fill_vulnerability_def string_at_def getStringFromMap_def getBoolFromMap_def getResolvedSeverity_def
        getCloudProvider_def Let_def split: prod.splits)
  then obtain v t where v: "?b = Some (Inr v, t)" by blast
  have "1 \<le> v_Line v" "t = s_tracker s" "v_FileID v = ''f''"
    using builder_line [OF v registry_new [OF range_order_id(3)]] assms by (auto split: if_splits)
  then show ?thesis using v assms
    by (simp add: example_engine_def example_inspector_def
        getVulnerabilitiesFromQuery_def file_of_def ShouldSkipVulnerability_def checkComment_def
        UndetectedVulnerabilityLine_def)
qed

definition example_ctx :: QueryContext where
  "example_ctx = query_context ''s''
     [example_file\<lparr>f_Document := tag_doc example_file (f_Document example_file)\<rparr>] [] example_query"

lemma example_kept_ctx:
  "\<exists>v. getVulnerabilitiesFromQuery example_engine example_inspector example_ctx example_item s =
    Some ((Some v, False), s)"
  by (rule example_kept [of _ "example_file\<lparr>f_Document := tag_doc example_file (f_Document example_file)\<rparr>"])
    (simp_all add: example_ctx_def query_context_def ToMap_def example_file_def zero_file_def example_query_def)

lemma example_decode:
  "\<exists>v. DecodeQueryResults example_engine example_inspector example_ctx
      [[(''result'', JList [example_item])]] s = (Some (Inr [v]), s)"
proof -
  obtain v where v: "getVulnerabilitiesFromQuery example_engine example_inspector example_ctx example_item s =
      Some ((Some v, False), s)" using example_kept_ctx by blast
  have "\<not> en_timeout example_engine 0" by (simp add: example_engine_def)
  then show ?thesis using v by (simp add: DecodeQueryResults_def)
qed

lemma example_job:
  "\<exists>v. \<forall>j s. j < 2 \<longrightarrow> inspect_job example_engine example_inspector
      (query_context ''s'' [example_file\<lparr>f_Document := tag_doc example_file (f_Document example_file)\<rparr>] [])
      [example_query, example_query] j JNull s = Some (Some \<lparr>r_res = Inr [v s], r_queryID = j\<rparr>, JNull,
        track_execution (en_tracker example_engine) 1 (Inr [v s]) s)"
proof -
  have "\<exists>v. doRun example_engine example_inspector example_ctx () JNull s = Some (Inr [v], JNull, s)" for s
    using example_decode [of s]
    by (auto simp: doRun_def run_body_def example_engine_def example_inspector_def)
  then obtain v where v: "\<And>s. doRun example_engine example_inspector example_ctx () JNull s =
      Some (Inr [v s], JNull, s)" by metis
  show ?thesis using v [unfolded example_ctx_def] example_load
    by (intro exI [of _ v]) (auto simp: inspect_job_def nth_Cons' example_query_def)
qed

lemma example_inspect:
  assumes "schedule \<in> {[0, 1, 0, 1], [1, 1, 0, 0]}"
  shows "\<exists>v w s1. Inspect example_engine example_inspector (\<lambda>d. Inr JNull) ''s'' [example_file] [] [''terraform'']
    schedule example_state = Some (Inr [v, w], s1)"
proof -
  let ?file = "example_file\<lparr>f_Document := tag_doc example_file (f_Document example_file)\<rparr>"
  have comb: "Combine False [example_file] = Some ([tag_doc example_file (f_Document example_file)], [?file])"
    by (simp add: combine_skips_def example_file_def zero_file_def)
  have queries: "getQueriesByPlat (i_QueryLoader example_inspector) [''terraform''] = [example_query, example_query]"
    by (simp add: getQueriesByPlat_def example_inspector_def example_query_def contains_platform_def)
  obtain v where job: "\<And>j s. j < 2 \<Longrightarrow> inspect_job example_engine example_inspector
      (query_context ''s'' [?file] []) [example_query, example_query] j JNull s =
      Some (Some \<lparr>r_res = Inr [v s], r_queryID = j\<rparr>, JNull,
        track_execution (en_tracker example_engine) 1 (Inr [v s]) s)"
    using example_job by blast
  have start: "start_inspection example_inspector JNull [example_query, example_query] example_state =
      \<lparr>n_jobs = [0, 1], n_workers = [(JNull, None), (JNull, None)], n_results = [], n_state = example_state\<rparr>"
    by (simp add: start_inspection_def example_inspector_def numeral_2_eq_2)
  show ?thesis using assms
    by (auto simp: Inspect_def comb queries start worker_step_def job inspection_over_def Let_def simp del: Combine.simps split: prod.splits)
qed

section \<open>Properties\<close>







text \<open>With the default builder and the registered detectors the count of undetected lines is
  never touched: the builder turns a line that was not found into line 1 before the inspector
  looks at it.\<close>

lemma failed_detect_line_unreachable:
  assumes "en_vb env = DefaultVulnerabilityBuilder be" and "registry_ok (i_detector c)"
    and "getVulnerabilitiesFromQuery env c ctx item s = Some ((v, failed), s')"
  shows "\<not> failed \<and> s_tracker s' = s_tracker s"
proof -
  obtain built t where b: "DefaultVulnerabilityBuilder be (i_detector c) (i_useOldSeverities c)
      (i_kicsComputeNewSimID c) (en_duration env) ctx item (s_tracker s) = Some (built, t)"
    using assms(1,3) by (auto simp: getVulnerabilitiesFromQuery_def split: Option.bind_splits)
  have t: "t = s_tracker s"
    using builder_pure [of be "i_detector c" "i_useOldSeverities c" "i_kicsComputeNewSimID c"
        "en_duration env" ctx item] b by auto
  show ?thesis
  proof (cases built)
    case (Inl e)
    then show ?thesis using assms(1,3) b t
      by (auto simp: getVulnerabilitiesFromQuery_def note_failed_def split: if_splits)
  next
    case (Inr vul)
    have "1 \<le> v_Line vul" using builder_line [OF b [unfolded Inr] assms(2)] by blast
    then show ?thesis using assms(1,3) b t Inr
      by (auto simp: getVulnerabilitiesFromQuery_def Let_def UndetectedVulnerabilityLine_def split: if_splits)
  qed
qed

text \<open>A query whose platform has no library is passed over in silence: a run over such queries
  alone returns no vulnerabilities, no error, and records no failed query.\<close>

lemma unloadable_queries_unreported:
  assumes "\<forall>q \<in> set (getQueriesByPlat (i_QueryLoader c) platforms).
      map_of (platformLibraries (i_QueryLoader c)) (qm_Platform q) = None"
    and "Inspect env c to_payload scan files bases platforms schedule s = Some (Inr vs, s')"
  shows "vs = [] \<and> s_failedQueries s' = s_failedQueries s \<and> s_tracker s' = s_tracker s"
proof -
  let ?queries = "getQueriesByPlat (i_QueryLoader c) platforms"
  obtain files' p n where n: "run_schedule env c (query_context scan files' bases) ?queries schedule
        (start_inspection c p ?queries s) = Some n"
      "vs = fst (collect_results ?queries (n_results n) (s_failedQueries (n_state n)))"
      "s' = (n_state n)\<lparr>s_failedQueries := snd (collect_results ?queries (n_results n) (s_failedQueries (n_state n)))\<rparr>"
    using assms(2) by (auto simp: Inspect_def Let_def split: Option.bind_splits if_splits prod.splits sum.splits)
  have "\<forall>q \<in> set ?queries. \<exists>err. LoadQuery env (i_QueryLoader c) q = Some (Inl err)"
    using assms(1) by (simp add: LoadQuery_def)
  then have "n_state n = s \<and> n_results n = []"
    using unloaded_steps [OF n(1)] by (simp add: start_inspection_def)
  then show ?thesis using n(2,3) by simp
qed

text \<open>C26. A file's \<open>disable\<close> command suppresses exactly the results of the queries it lists, in any
  case, and its \<open>enable\<close> command, which wins, exactly those of the queries it does not list.\<close>

theorem skip_follows_commands:
  assumes "\<forall>q \<in> set ids. CHR '','' \<notin> set q" and "ids \<noteq> []"
  shows "ShouldSkipVulnerability (gomap_put ''enable'' (join ids '','') command) q =
      (\<forall>i \<in> set ids. \<not> equal_fold i q) \<and>
    (map_of command ''enable'' = None \<longrightarrow>
      ShouldSkipVulnerability (gomap_put ''disable'' (join ids '','') command) q =
        (\<exists>i \<in> set ids. equal_fold i q))"
proof -
  have "split_on (join ids '','') '','' = ids" using assms by (intro split_on_join) auto
  then show ?thesis by (auto simp: ShouldSkipVulnerability_def isDisabled_def list_ex_iff)
qed

theorem skip_follows_commands_witness:
  "ShouldSkipVulnerability [(''disable'', ''a,b'')] ''B'' \<and> \<not> ShouldSkipVulnerability [(''enable'', ''a,b'')] ''a''"
proof -
  have "equal_fold ''b'' ''B''" by code_simp
  then show ?thesis
    using skip_follows_commands [of "[''a'', ''b'']" "[]" "''B''"]
      skip_follows_commands [of "[''a'', ''b'']" "[]" "''a''"] by simp
qed

text \<open>\<open>LenQueriesByPlat\<close> returns the number of queries \<open>getQueriesByPlat\<close> will run, adds their
  aggregations to the tracker's count of executing queries, and leaves the other counts.\<close>

lemma len_queries_counts_executing:
  "fst (LenQueriesByPlat ci_engine ql platforms t) = int (length (getQueriesByPlat ql platforms)) \<and>
   ExecutingQueries (snd (LenQueriesByPlat ci_engine ql platforms t)) =
     ExecutingQueries t + sum_list (map qm_Aggregation (getQueriesByPlat ql platforms)) \<and>
   ExecutedQueries (snd (LenQueriesByPlat ci_engine ql platforms t)) = ExecutedQueries t"
proof -
  let ?step = "\<lambda>(n, t) query. if contains_platform platforms (qm_Platform query)
       then (n + 1, op_TrackQueryExecuting ci_engine (qm_Aggregation query) t) else (n, t)"
  have "fst (foldl ?step (n, t) qs) = n + int (length (filter (\<lambda>q. contains_platform platforms (qm_Platform q)) qs)) \<and>
    ExecutingQueries (snd (foldl ?step (n, t) qs)) = ExecutingQueries t +
      sum_list (map qm_Aggregation (filter (\<lambda>q. contains_platform platforms (qm_Platform q)) qs)) \<and>
    ExecutedQueries (snd (foldl ?step (n, t) qs)) = ExecutedQueries t" for n :: int and t qs
    by (induction qs arbitrary: n t) (auto simp: ci.executing)
  from this [of 0 t "QueriesMetadata ql"] show ?thesis
    by (simp only: LenQueriesByPlat_def getQueriesByPlat_def add_0)
qed

end
