(* ===== verification/Storage.thy ===== *)
theory Storage
  imports ModelTypes
begin

text \<open>
  The results storage: the \<open>Storage\<close> interface of \<open>pkg/kics/service.go\<close> as the locale
  \<open>scan_storage\<close>, and its implementation \<open>MemoryStorage\<close> (\<open>internal/storage/memory.go\<close>).
  All services of a scan share one storage, so the locale's client lemmas are about a sequence
  of \<open>SaveVulnerabilities\<close> calls in whatever order the services make them.
\<close>

section \<open>The interface\<close>

text \<open>
  A storage is a record of its operations. An operation that can fail returns \<open>Some\<close> of the error, or \<open>None\<close>, with the new state.
  \<open>recorded\<close> and \<open>files\<close> are what the storage has accepted; \<open>key\<close> is what tells two results
  apart. The order \<open>r\<close> is that of a \<open>range\<close> over a map keyed by strings.
\<close>

record 's StorageOps =
  op_SaveFile :: "FileMetadata \<Rightarrow> 's \<Rightarrow> string option \<times> 's"
  op_SaveVulnerabilities :: "Vulnerability list \<Rightarrow> 's \<Rightarrow> string option \<times> 's"
  op_GetVulnerabilities ::
    "((string, Vulnerability) gomap \<Rightarrow> (string, Vulnerability) gomap) \<Rightarrow> 's \<Rightarrow> Vulnerability list"
  op_GetScanSummary :: "string list \<Rightarrow> 's \<Rightarrow> unit list"

locale scan_storage =
  fixes save_file :: "FileMetadata \<Rightarrow> 's \<Rightarrow> string option \<times> 's"
    and save_vulns :: "Vulnerability list \<Rightarrow> 's \<Rightarrow> string option \<times> 's"
    and get_vulns ::
      "((string, Vulnerability) gomap \<Rightarrow> (string, Vulnerability) gomap) \<Rightarrow> 's \<Rightarrow> Vulnerability list"
    and recorded :: "'s \<Rightarrow> Vulnerability list"
    and files :: "'s \<Rightarrow> FileMetadata list"
    and key :: "Vulnerability \<Rightarrow> string"
  assumes save_file_files: "save_file f s = (None, s') \<Longrightarrow> files s' = files s @ [f]"
    and save_file_failed: "save_file f s = (Some err, s') \<Longrightarrow> files s' = files s"
    and save_file_recorded: "save_file f s = (e, s') \<Longrightarrow> recorded s' = recorded s"
    and save_vulns_recorded: "save_vulns vs s = (None, s') \<Longrightarrow> recorded s' = recorded s @ vs"
    and save_vulns_files: "save_vulns vs s = (e, s') \<Longrightarrow> files s' = files s"
    and get_vulns_recorded: "range_order r \<Longrightarrow> set (get_vulns r s) \<subseteq> set (recorded s)"
    and get_vulns_keys: "range_order r \<Longrightarrow> key ` set (get_vulns r s) = key ` set (recorded s)"
    and get_vulns_distinct: "range_order r \<Longrightarrow> distinct (map key (get_vulns r s))"
begin

text \<open>The services' calls, one after the other, up to the first that fails.\<close>

fun save_batches :: "Vulnerability list list \<Rightarrow> 's \<Rightarrow> string option \<times> 's" where
  "save_batches [] s = (None, s)"
| "save_batches (b # bs) s =
     (case save_vulns b s of (None, s') \<Rightarrow> save_batches bs s' | (Some e, s') \<Rightarrow> (Some e, s'))"

lemma save_batches_recorded:
  "save_batches bs s = (None, s') \<Longrightarrow> recorded s' = recorded s @ concat bs"
proof (induction bs arbitrary: s)
  case (Cons b bs)
  then obtain t where "save_vulns b s = (None, t)" "save_batches bs t = (None, s')"
    by (auto split: prod.splits option.splits)
  then show ?case using Cons.IH save_vulns_recorded by fastforce
qed simp

lemma save_batches_files: "save_batches bs s = (e, s') \<Longrightarrow> files s' = files s"
  by (induction bs arbitrary: s) (auto split: prod.splits option.splits dest: save_vulns_files)

text \<open>
  What a scan reports, up to which of several results with one key is kept, does not depend
  on the order in which the services saved their results.
\<close>

lemma save_batches_order:
  assumes "mset bs = mset bs'" and "save_batches bs s = (None, t)"
    and "save_batches bs' s = (None, t')" and "range_order r" and "range_order r'"
  shows "key ` set (get_vulns r t) = key ` set (get_vulns r' t')"
    and "length (get_vulns r t) = length (get_vulns r' t')"
proof -
  have "set bs = set bs'" using assms(1) by (metis set_mset_mset)
  then have "set (recorded t) = set (recorded t')"
    using save_batches_recorded [OF assms(2)] save_batches_recorded [OF assms(3)] by simp
  then show keys: "key ` set (get_vulns r t) = key ` set (get_vulns r' t')"
    using get_vulns_keys assms(4,5) by simp
  show "length (get_vulns r t) = length (get_vulns r' t')"
    using keys get_vulns_distinct assms(4,5) by (metis distinct_card length_map set_map)
qed

lemma get_vulns_empty: "range_order r \<Longrightarrow> get_vulns r s = [] \<longleftrightarrow> recorded s = []"
  using get_vulns_keys [of r s] by auto

end

section \<open>MemoryStorage\<close>

record MemoryStorage =
  vulnerabilities :: "Vulnerability list"
  allFiles :: "FileMetadata list"

definition NewMemoryStorage :: MemoryStorage where
  "NewMemoryStorage = \<lparr>vulnerabilities = [], allFiles = []\<rparr>"

definition SaveFile :: "FileMetadata \<Rightarrow> MemoryStorage \<Rightarrow> string option \<times> MemoryStorage" where
  "SaveFile metadata m = (None, m\<lparr>allFiles := allFiles m @ [metadata]\<rparr>)"

definition GetFiles :: "MemoryStorage \<Rightarrow> FileMetadata list" where
  "GetFiles m = allFiles m"

definition SaveVulnerabilities ::
  "Vulnerability list \<Rightarrow> MemoryStorage \<Rightarrow> string option \<times> MemoryStorage" where
  "SaveVulnerabilities vs m = (None, m\<lparr>vulnerabilities := vulnerabilities m @ vs\<rparr>)"

text \<open>The key of \<open>fmt.Sprintf("%s:%s:%d:%s:%s:%s", ...)\<close>\<close>

definition vuln_key :: "Vulnerability \<Rightarrow> string" where
  "vuln_key v =
     v_QueryID v @ '':'' @ v_FileName v @ '':'' @ itoa (v_Line v) @ '':'' @
     v_SimilarityID v @ '':'' @ v_SearchKey v @ '':'' @ v_KeyActualValue v"

definition vuln_dictionary :: "Vulnerability list \<Rightarrow> (string, Vulnerability) gomap" where
  "vuln_dictionary vs = foldl (\<lambda>d v. gomap_put (vuln_key v) v d) [] vs"

definition getUniqueVulnerabilities ::
  "((string, Vulnerability) gomap \<Rightarrow> (string, Vulnerability) gomap) \<Rightarrow> MemoryStorage \<Rightarrow>
     Vulnerability list" where
  "getUniqueVulnerabilities r m =
     (let uniqueVulnerabilities = map snd (r (vuln_dictionary (vulnerabilities m)))
      in if length uniqueVulnerabilities = 0 then vulnerabilities m else uniqueVulnerabilities)"

definition GetVulnerabilities ::
  "((string, Vulnerability) gomap \<Rightarrow> (string, Vulnerability) gomap) \<Rightarrow> MemoryStorage \<Rightarrow>
     Vulnerability list" where
  "GetVulnerabilities r m = getUniqueVulnerabilities r m"

definition GetScanSummary :: "string list \<Rightarrow> MemoryStorage \<Rightarrow> unit list" where
  "GetScanSummary scanIDs m = []"

subsection \<open>What the storage returns\<close>

lemma vuln_dictionary_ok: "gomap_ok (vuln_dictionary vs)"
  unfolding vuln_dictionary_def by (rule gomap_puts_ok) simp

lemma vuln_dictionary_get:
  "map_of (vuln_dictionary vs) k = Some v \<longleftrightarrow>
     (\<exists>pre post. vs = pre @ v # post \<and> vuln_key v = k \<and> k \<notin> vuln_key ` set post)"
  by (simp add: vuln_dictionary_def gomap_puts_get last_with_key)

lemma vuln_dictionary_key: "(k, v) \<in> set (vuln_dictionary vs) \<Longrightarrow> vuln_key v = k \<and> v \<in> set vs"
  using vuln_dictionary_get by (fastforce simp: gomap_mem_iff [OF vuln_dictionary_ok])

lemma vuln_dictionary_keys: "fst ` set (vuln_dictionary vs) = vuln_key ` set vs"
proof (induction vs rule: rev_induct)
  case (snoc v vs)
  then show ?case by (simp add: vuln_dictionary_def gomap_put_keys)
qed (simp add: vuln_dictionary_def)

lemma vuln_dictionary_empty: "vuln_dictionary vs = [] \<longleftrightarrow> vs = []"
  using vuln_dictionary_keys [of vs] by auto

lemma unique_eq:
  "range_order r \<Longrightarrow>
     getUniqueVulnerabilities r m = map snd (r (vuln_dictionary (vulnerabilities m)))"
  using range_order_length [of r "vuln_dictionary (vulnerabilities m)"]
  by (auto simp: getUniqueVulnerabilities_def Let_def vuln_dictionary_empty)

lemma unique_mem:
  assumes "range_order r"
  shows "v \<in> set (getUniqueVulnerabilities r m) \<longleftrightarrow>
     (\<exists>pre post. vulnerabilities m = pre @ v # post \<and> vuln_key v \<notin> vuln_key ` set post)"
proof -
  have "v \<in> set (getUniqueVulnerabilities r m) \<longleftrightarrow>
      (\<exists>k. (k, v) \<in> set (vuln_dictionary (vulnerabilities m)))"
    using range_order_set [OF assms] by (force simp: unique_eq [OF assms])
  then show ?thesis by (auto simp: gomap_mem_iff [OF vuln_dictionary_ok] vuln_dictionary_get)
qed

lemma unique_keys:
  assumes "range_order r"
  shows "map vuln_key (getUniqueVulnerabilities r m) =
     map fst (r (vuln_dictionary (vulnerabilities m)))"
  using vuln_dictionary_key range_order_set [OF assms]
  by (auto simp: unique_eq [OF assms])

lemma unique_distinct:
  "range_order r \<Longrightarrow> distinct (map vuln_key (getUniqueVulnerabilities r m))"
  by (simp add: unique_keys range_order_ok vuln_dictionary_ok)

lemma unique_key_set:
  assumes "range_order r"
  shows "vuln_key ` set (getUniqueVulnerabilities r m) = vuln_key ` set (vulnerabilities m)"
proof -
  have "vuln_key ` set (getUniqueVulnerabilities r m) =
      fst ` set (r (vuln_dictionary (vulnerabilities m)))"
    by (metis unique_keys [OF assms] set_map)
  then show ?thesis by (simp add: range_order_set [OF assms] vuln_dictionary_keys)
qed

interpretation mem: scan_storage SaveFile SaveVulnerabilities GetVulnerabilities
  vulnerabilities allFiles vuln_key
proof unfold_locales
  fix r s
  assume r: "range_order (r :: (string, Vulnerability) gomap \<Rightarrow> _)"
  show "set (GetVulnerabilities r s) \<subseteq> set (vulnerabilities s)"
    using unique_mem [OF r] by (force simp: GetVulnerabilities_def)
  show "vuln_key ` set (GetVulnerabilities r s) = vuln_key ` set (vulnerabilities s)"
    by (simp add: GetVulnerabilities_def unique_key_set [OF r])
  show "distinct (map vuln_key (GetVulnerabilities r s))"
    by (simp add: GetVulnerabilities_def unique_distinct [OF r])
qed (auto simp: SaveFile_def SaveVulnerabilities_def)

definition memory_storage :: "MemoryStorage StorageOps" where
  "memory_storage =
     \<lparr>op_SaveFile = SaveFile, op_SaveVulnerabilities = SaveVulnerabilities,
      op_GetVulnerabilities = GetVulnerabilities, op_GetScanSummary = GetScanSummary\<rparr>"

section \<open>Properties\<close>

text \<open>C21. \<open>GetVulnerabilities\<close> of the memory storage returns, in whatever order the map is
  ranged over, exactly the saved results that no later saved result with the same key
  replaces; no key is reported twice and no key is lost.\<close>

theorem get_vulnerabilities_last_of_each_key:
  assumes "range_order r"
  shows "(v \<in> set (GetVulnerabilities r m) \<longleftrightarrow>
      (\<exists>pre post. vulnerabilities m = pre @ v # post \<and> vuln_key v \<notin> vuln_key ` set post)) \<and>
    distinct (map vuln_key (GetVulnerabilities r m)) \<and>
    vuln_key ` set (GetVulnerabilities r m) = vuln_key ` set (vulnerabilities m)"
  using assms mem.get_vulns_distinct mem.get_vulns_keys
  by (simp add: GetVulnerabilities_def unique_mem)

definition example_vuln :: Vulnerability where
  "example_vuln = zero_vulnerability\<lparr>v_QueryID := ''q1'', v_FileName := ''main.tf'', v_Line := 3\<rparr>"

theorem get_vulnerabilities_last_of_each_key_witness:
  "range_order rev \<and>
   example_vuln \<in> set (GetVulnerabilities rev
     (snd (SaveVulnerabilities [example_vuln, example_vuln] NewMemoryStorage)))"
proof -
  have r: "range_order (rev :: (string, Vulnerability) gomap \<Rightarrow> _)" by (rule range_order_id)
  have "\<exists>pre post. [example_vuln, example_vuln] = pre @ example_vuln # post \<and>
      vuln_key example_vuln \<notin> vuln_key ` set post"
    by (rule exI [of _ "[example_vuln]"]) simp
  then show ?thesis
    using get_vulnerabilities_last_of_each_key
        [OF r, of example_vuln "snd (SaveVulnerabilities [example_vuln, example_vuln] NewMemoryStorage)"]
      range_order_id(3)
    by (simp add: SaveVulnerabilities_def NewMemoryStorage_def)
qed

text \<open>When no query id, file name, similarity id or search key holds a colon, two results
  have the same storage key exactly when they agree on all six of its fields: the storage
  then merges nothing but duplicates.\<close>

lemma vuln_key_separates:
  assumes "\<forall>x \<in> {v, w}. CHR '':'' \<notin> set (v_QueryID x) \<union> set (v_FileName x) \<union>
             set (v_SimilarityID x) \<union> set (v_SearchKey x)"
  shows "vuln_key v = vuln_key w \<longleftrightarrow>
    v_QueryID v = v_QueryID w \<and> v_FileName v = v_FileName w \<and> v_Line v = v_Line w \<and>
    v_SimilarityID v = v_SimilarityID w \<and> v_SearchKey v = v_SearchKey w \<and>
    v_KeyActualValue v = v_KeyActualValue w"
  using assms itoa_no_colon itoa_inj
  by (auto simp: vuln_key_def separator_cancel)

text \<open>The key does not escape the colons it joins the fields with: two results that
  differ in query id and file name can share a key, and the storage then keeps only one.\<close>

lemma vuln_key_collision_drops_result:
  "\<exists>v w. v_QueryID v \<noteq> v_QueryID w \<and> v_FileName v \<noteq> v_FileName w \<and>
     GetVulnerabilities (\<lambda>d. d) (snd (SaveVulnerabilities [v, w] NewMemoryStorage)) = [w]"
proof -
  let ?v = "zero_vulnerability\<lparr>v_QueryID := ''q'', v_FileName := ''a:b''\<rparr>"
  let ?w = "zero_vulnerability\<lparr>v_QueryID := ''q:a'', v_FileName := ''b''\<rparr>"
  have "vuln_key ?v = vuln_key ?w" by (simp add: vuln_key_def)
  then have "GetVulnerabilities (\<lambda>d. d) (snd (SaveVulnerabilities [?v, ?w] NewMemoryStorage)) = [?w]"
    by (simp add: GetVulnerabilities_def getUniqueVulnerabilities_def SaveVulnerabilities_def
        NewMemoryStorage_def vuln_dictionary_def)
  then show ?thesis
    by (intro exI [of _ ?v] exI [of _ ?w]) (simp add: zero_vulnerability_def)
qed

definition save_all :: "Vulnerability list list \<Rightarrow> MemoryStorage \<Rightarrow> MemoryStorage" where
  "save_all bs m = foldl (\<lambda>m b. snd (SaveVulnerabilities b m)) m bs"

lemma save_all_batches: "mem.save_batches bs m = (None, save_all bs m)"
  by (induction bs arbitrary: m) (simp_all add: save_all_def SaveVulnerabilities_def)

text \<open>C22. The services of a scan save their results into one storage in an order nothing
  fixes. Whatever that order, the storage reports the same keys and the same number of
  results.\<close>

theorem scan_results_schedule_independent:
  assumes "mset bs = mset bs'" and "range_order r" and "range_order r'"
  shows "vuln_key ` set (GetVulnerabilities r (save_all bs m)) =
      vuln_key ` set (GetVulnerabilities r' (save_all bs' m)) \<and>
    length (GetVulnerabilities r (save_all bs m)) = length (GetVulnerabilities r' (save_all bs' m))"
  using mem.save_batches_order [OF assms(1) save_all_batches save_all_batches assms(2,3)] by blast

theorem scan_results_schedule_independent_witness:
  "length (GetVulnerabilities rev (save_all [[example_vuln], [zero_vulnerability]] NewMemoryStorage)) =
   length (GetVulnerabilities id (save_all [[zero_vulnerability], [example_vuln]] NewMemoryStorage))"
  using scan_results_schedule_independent
    [OF _ range_order_id(3) range_order_id(2),
     of "[[example_vuln], [zero_vulnerability]]" "[[zero_vulnerability], [example_vuln]]" NewMemoryStorage]
  by (simp add: add_mset_commute)

end
