(* ===== verification/Service.thy ===== *)
theory Service
  imports FileParser Inspector Storage
begin

text \<open>
  The scan service, \<open>pkg/kics\<close>: reading a file in chunks, counting its Terraform resources,
  parsing it, preparing its documents and saving them (\<open>sink\<close>), the same for the files a
  resolver renders (\<open>resolverSink\<close>), and the scan of what was saved. \<open>service_env\<close> holds what a
  service is given, \<open>Service\<close> its state and that of the storage, the tracker and the parser it
  calls. An error is \<open>Some\<close> of its text.
\<close>

section \<open>Reading a file\<close>

text \<open>
  A reader is what its successive calls of \<open>Read\<close> give: some bytes, and perhaps an error; after
  the last one it gives \<open>io.EOF\<close>.
\<close>

datatype read_error = ReadEOF | ReadFailed string

type_synonym reader = "(string \<times> read_error option) list"

record Content =
  c_Content :: string
  c_CountLines :: int
  c_IsMinified :: bool
  c_CountResources :: int

definition empty_content :: Content where
  "empty_content = \<lparr>c_Content = [], c_CountLines = 0, c_IsMinified = False, c_CountResources = 0\<rparr>"

text \<open>
  The expression \<open>\bresource\s+"[^"]+"\s+"[^"]+"\s*\{\<close> of \<open>GetCountTerraformResources\<close>. Each of its
  parts ends where the next one begins, so that there is one way to match it at a position:
  \<open>match_quoted\<close> and \<open>match_resource\<close> return the text after the match.
\<close>

definition match_spaces1 :: "string \<Rightarrow> string option" where
  "match_spaces1 s = (case s of c # s' \<Rightarrow> if re_space c then Some (dropWhile re_space s') else None
                      | [] \<Rightarrow> None)"

definition match_quoted :: "string \<Rightarrow> string option" where
  "match_quoted s =
     (case s of
        q # s' \<Rightarrow>
          (if q = CHR 0x22 \<and> takeWhile (\<lambda>c. c \<noteq> CHR 0x22) s' \<noteq> []
           then (case dropWhile (\<lambda>c. c \<noteq> CHR 0x22) s' of _ # rest \<Rightarrow> Some rest | [] \<Rightarrow> None)
           else None)
      | [] \<Rightarrow> None)"

definition match_resource :: "string \<Rightarrow> string option" where
  "match_resource s =
     (if has_prefix s ''resource'' then do {
        s1 \<leftarrow> match_spaces1 (drop 8 s);
        s2 \<leftarrow> match_quoted s1;
        s3 \<leftarrow> match_spaces1 s2;
        s4 \<leftarrow> match_quoted s3;
        case dropWhile re_space s4 of
          c # rest \<Rightarrow> if c = CHR ''{'' then Some rest else None
        | [] \<Rightarrow> None
      } else None)"

definition word_char :: "char \<Rightarrow> bool" where
  "word_char c \<longleftrightarrow>
     (let n = of_char c :: nat in
      48 \<le> n \<and> n \<le> 57 \<or> 65 \<le> n \<and> n \<le> 90 \<or> 97 \<le> n \<and> n \<le> 122 \<or> n = 95)"

lemma match_spaces1_length: "match_spaces1 s = Some t \<Longrightarrow> length t < length s"
proof (cases s)
  case (Cons c s')
  moreover assume "match_spaces1 s = Some t"
  ultimately have "t = dropWhile re_space s'" by (simp add: match_spaces1_def split: if_splits)
  then show ?thesis using length_dropWhile_le [of re_space s'] Cons by simp
qed (simp add: match_spaces1_def)

lemma match_quoted_length: "match_quoted s = Some t \<Longrightarrow> length t < length s"
proof -
  assume a: "match_quoted s = Some t"
  then obtain q s' c where "s = q # s'" "dropWhile (\<lambda>c. c \<noteq> CHR 0x22) s' = c # t"
    by (auto simp: match_quoted_def split: list.splits if_splits)
  then show ?thesis using length_dropWhile_le [of "\<lambda>c. c \<noteq> CHR 0x22" s'] by simp
qed

lemma match_resource_length:
  assumes "match_resource s = Some t"
  shows "length t < length s"
proof -
  obtain s1 s2 s3 s4 where m: "match_spaces1 (drop 8 s) = Some s1" "match_quoted s1 = Some s2"
      "match_spaces1 s2 = Some s3" "match_quoted s3 = Some s4"
    and d: "(case dropWhile re_space s4 of [] \<Rightarrow> None
            | c # rest \<Rightarrow> if c = CHR ''{'' then Some rest else None) = Some t"
    using assms unfolding match_resource_def
    by (simp only: bind_eq_Some_conv option.distinct split: if_splits) blast
  have "length t < length (dropWhile re_space s4)"
    using d by (cases "dropWhile re_space s4") (simp_all split: if_splits)
  also have "\<dots> \<le> length s4" by (rule length_dropWhile_le)
  also have "\<dots> < length s3" using m(4) by (rule match_quoted_length)
  also have "\<dots> < length s2" using m(3) by (rule match_spaces1_length)
  also have "\<dots> < length s1" using m(2) by (rule match_quoted_length)
  also have "\<dots> < length (drop 8 s)" using m(1) by (rule match_spaces1_length)
  finally show ?thesis by simp
qed

text \<open>\<open>word\<close> says that the byte before is a word character: \<open>\b\<close> then fails before a letter.\<close>

function count_resources :: "bool \<Rightarrow> string \<Rightarrow> int" where
  "count_resources word s =
     (case (if word then None else match_resource s) of
        Some rest \<Rightarrow> 1 + count_resources False rest
      | None \<Rightarrow> (case s of [] \<Rightarrow> 0 | c # s' \<Rightarrow> count_resources (word_char c) s'))"
  by pat_completeness auto
termination
  by (relation "measure (\<lambda>(word, s). length s)")
    (auto dest: match_resource_length split: if_splits)

declare count_resources.simps [simp del]

definition GetCountTerraformResources :: "string \<Rightarrow> int" where
  "GetCountTerraformResources fileContent = count_resources False fileContent"

fun read_loop :: "reader \<Rightarrow> int \<Rightarrow> string \<Rightarrow> int \<Rightarrow> string + (string \<times> int)" where
  "read_loop rc maxSizeMB content0 countLines =
     (if maxSizeMB < 0 then Inl ''file size limit exceeded''
      else case rc of
        [] \<Rightarrow> Inr (content0, countLines)
      | (data, Some ReadEOF) # _ \<Rightarrow> Inr (content0, countLines)
      | (data, Some (ReadFailed err)) # _ \<Rightarrow> Inl err
      | (data, None) # rc' \<Rightarrow>
          read_loop rc' (maxSizeMB - 1) (content0 @ data) (countLines + (count_newlines data + 1)))"

declare read_loop.simps [simp del]

definition getContent :: "reader \<Rightarrow> int \<Rightarrow> string \<Rightarrow> Content \<times> string option" where
  "getContent rc maxSizeMB filename =
     (case read_loop rc maxSizeMB [] 0 of
        Inl err \<Rightarrow> (empty_content, Some err)
      | Inr (bytes, n) \<Rightarrow>
          (\<lparr>c_Content = bytes, c_CountLines = n, c_IsMinified = IsMinified filename bytes,
            c_CountResources = GetCountTerraformResources bytes\<rparr>, None))"

definition resolveCRLFFile :: "string \<Rightarrow> string" where
  "resolveCRLFFile fileContent = replace_all fileContent [CHR 0x0D, CHR 0x0A] [CHR 0x0A]"

section \<open>The environment and the state\<close>

text \<open>
  \<open>se_marshal\<close>, \<open>se_unmarshal\<close> and \<open>se_marshal_value\<close> are \<open>encoding/json\<close> on documents and on
  values; \<open>se_filter\<close> is the parser that ANTLR generates for AWS filter patterns with its printer,
  \<open>None\<close> for a text with errors; \<open>se_uuid\<close> is the \<open>n\<close>-th id that \<open>uuid.New\<close> gives.
\<close>

record ('s, 't, 'p) service_env =
  se_fs :: filesys
  se_vault_secret :: string
  se_parser :: "'p Parser"
  se_resolver :: Resolver
  se_storage :: "'s StorageOps"
  se_tracker :: "'t FilesTracker"
  se_marshal :: "doc \<Rightarrow> string + string"
  se_unmarshal :: "string \<Rightarrow> string + doc"
  se_marshal_value :: "jval \<Rightarrow> string + string"
  se_filter :: "string \<Rightarrow> jval option"
  se_uuid :: "nat \<Rightarrow> string"
  se_MaxFileSize :: int

record ('s, 't, 'p) Service =
  sv_storage :: 's
  sv_tracker :: 't
  sv_parser :: 'p
  sv_files :: "FileMetadata list"
  sv_ids :: nat

definition track :: "('t \<Rightarrow> 't) \<Rightarrow> ('s, 't, 'p) Service \<Rightarrow> ('s, 't, 'p) Service" where
  "track f s = s\<lparr>sv_tracker := f (sv_tracker s)\<rparr>"

definition parse_file ::
  "('s, 't, 'p) service_env \<Rightarrow> string \<Rightarrow> string \<Rightarrow> bool \<Rightarrow> bool \<Rightarrow> int \<Rightarrow> ('s, 't, 'p) Service \<Rightarrow>
     (ParsedDocument \<times> string option) \<times> ('s, 't, 'p) Service" where
  "parse_file env filename bytes openAPI minified depth s =
     (let (res, p) = Parse (se_fs env) (se_parser env) (se_vault_secret env) filename bytes openAPI
                       minified depth (sv_parser s)
      in (res, s\<lparr>sv_parser := p\<rparr>))"

section \<open>Preparing a document\<close>

definition filter_lines :: "(FileKind, string list) gomap" where
  "filter_lines =
     [(''TF'', [''pattern'']), (''JSON'', [''FilterPattern'']),
      (''YAML'', [''filter_pattern'', ''FilterPattern''])]"

definition resolveJSONFilter :: "('s, 't, 'p) service_env \<Rightarrow> string \<Rightarrow> string" where
  "resolveJSONFilter env jsonFilter =
     (case se_filter env jsonFilter of
        None \<Rightarrow> jsonFilter
      | Some parsed \<Rightarrow>
          (case se_marshal_value env parsed of Inl err \<Rightarrow> jsonFilter | Inr bytes \<Rightarrow> bytes))"

text \<open>
  \<open>prepareScanDocumentRoot\<close> changes the map it is given; \<open>resolve\<close> is \<open>resolveJSONFilter\<close>. The
  entries are changed one by one, so that the order of the \<open>range\<close> has no effect.
\<close>

definition filter_string :: "(string \<Rightarrow> string) \<Rightarrow> FileKind \<Rightarrow> string \<Rightarrow> string \<Rightarrow> string" where
  "filter_string resolve kind key val =
     (case map_of filter_lines kind of
        Some field \<Rightarrow> if key \<in> set field then resolve val else val
      | None \<Rightarrow> val)"

fun prepareScanDocumentRoot :: "(string \<Rightarrow> string) \<Rightarrow> FileKind \<Rightarrow> jval \<Rightarrow> jval"
  and prepareScanDocumentValue :: "(string \<Rightarrow> string) \<Rightarrow> FileKind \<Rightarrow> doc \<Rightarrow> doc" where
  "prepareScanDocumentRoot resolve kind (JObj body) = JObj (prepareScanDocumentValue resolve kind body)"
| "prepareScanDocumentRoot resolve kind (JList xs) = JList (map (prepareScanDocumentRoot resolve kind) xs)"
| "prepareScanDocumentRoot resolve kind v = v"
| "prepareScanDocumentValue resolve kind [] = []"
| "prepareScanDocumentValue resolve kind ((key, v) # body) =
     (if key = ''_kics_lines'' then prepareScanDocumentValue resolve kind body
      else (key, case v of
                   JStr str \<Rightarrow> JStr (filter_string resolve kind key str)
                 | _ \<Rightarrow> prepareScanDocumentRoot resolve kind v)
           # prepareScanDocumentValue resolve kind body)"

definition PrepareScanDocument :: "('s, 't, 'p) service_env \<Rightarrow> doc \<Rightarrow> FileKind \<Rightarrow> doc" where
  "PrepareScanDocument env body kind =
     (case se_marshal env body of
        Inl err \<Rightarrow> body
      | Inr j \<Rightarrow>
          (case se_unmarshal env j of
             Inl err \<Rightarrow> body
           | Inr bodyMap \<Rightarrow> prepareScanDocumentValue (resolveJSONFilter env) kind bodyMap))"

section \<open>Saving the documents of a file\<close>

definition saveToFile ::
  "('s, 't, 'p) service_env \<Rightarrow> FileMetadata \<Rightarrow> ('s, 't, 'p) Service \<Rightarrow> ('s, 't, 'p) Service" where
  "saveToFile env f s =
     (case op_SaveFile (se_storage env) f (sv_storage s) of
        (None, st) \<Rightarrow> s\<lparr>sv_storage := st, sv_files := sv_files s @ [f]\<rparr>
      | (Some err, st) \<Rightarrow> s\<lparr>sv_storage := st\<rparr>)"

text \<open>
  The loop over \<open>documents.Docs\<close>, the same in both sinks up to the file record \<open>mk\<close> it fills. It
  sorts \<open>documents.IgnoreLines\<close> in place, so the lines are a result, with the variable \<open>err\<close>,
  which each document sets anew.
\<close>

fun save_documents ::
  "('s, 't, 'p) service_env \<Rightarrow> (string \<Rightarrow> doc \<Rightarrow> int list \<Rightarrow> FileMetadata) \<Rightarrow> doc list \<Rightarrow> int list \<Rightarrow>
     string option \<Rightarrow> ('s, 't, 'p) Service \<Rightarrow> (int list \<times> string option) \<times> ('s, 't, 'p) Service" where
  "save_documents env mk [] ignoreLines err s = ((ignoreLines, err), s)"
| "save_documents env mk (d # ds) ignoreLines err s =
     (case se_marshal env d of
        Inl e \<Rightarrow> save_documents env mk ds ignoreLines (Some e) s
      | Inr _ \<Rightarrow>
          (let ignoreLines' = (if length ignoreLines > 0 then sort ignoreLines else ignoreLines);
               f = mk (se_uuid env (sv_ids s)) d ignoreLines'
           in save_documents env mk ds ignoreLines' None
                (saveToFile env f (s\<lparr>sv_ids := Suc (sv_ids s)\<rparr>))))"

definition sink_file ::
  "('s, 't, 'p) service_env \<Rightarrow> string \<Rightarrow> string \<Rightarrow> ParsedDocument \<Rightarrow> (string, string) gomap \<Rightarrow>
     string \<Rightarrow> doc \<Rightarrow> int list \<Rightarrow> FileMetadata" where
  "sink_file env filename scan documents fileCommands uuid document ignoreLines =
     zero_file\<lparr>f_ID := uuid, f_ScanID := scan,
       f_Document := PrepareScanDocument env document (pd_Kind documents),
       f_LineInfoDocument := Some document, f_OriginalData := pd_Content documents,
       f_Kind := pd_Kind documents, f_FilePath := filename, f_Commands := fileCommands,
       f_LinesIgnore := ignoreLines, f_ResolvedFiles := pd_ResolvedFiles documents,
       f_LinesOriginalData := SplitLines (pd_Content documents),
       f_IsMinified := pd_IsMinified documents\<rparr>"

text \<open>\<open>errors.Wrap\<close> of no error is no error.\<close>

definition wrap_error :: "string option \<Rightarrow> string \<Rightarrow> string option" where
  "wrap_error err msg = map_option (\<lambda>e. msg @ '': '' @ e) err"

definition lines_resolved :: "string \<Rightarrow> (string, ResolvedFile) gomap \<Rightarrow> int" where
  "lines_resolved filename resolved =
     sum_list (map (\<lambda>(k, ref). if rf_Path ref \<noteq> filename then int (length (rf_LinesContent ref)) else 0) resolved)"

definition sink ::
  "('s, 't, 'p) service_env \<Rightarrow> string \<Rightarrow> bool \<Rightarrow> int \<Rightarrow> string \<Rightarrow> reader \<Rightarrow> ('s, 't, 'p) Service \<Rightarrow>
     string option \<times> ('s, 't, 'p) Service" where
  "sink env scan openAPI depth filename rc s =
     (let tr = se_tracker env;
          s1 = track (op_TrackFileFound tr filename) s;
          (c, err) = getContent rc (se_MaxFileSize env) filename;
          bytes = resolveCRLFFile (c_Content c);
          s2 = track (op_TrackFileFoundCountLines tr (c_CountLines c)) s1;
          s3 = track (op_TrackFileFoundCountResources tr (c_CountResources c)) s2
      in case err of
        Some e \<Rightarrow> (wrap_error (Some e) (''failed to get file content: '' @ filename), s3)
      | None \<Rightarrow>
          (case parse_file env filename bytes openAPI (c_IsMinified c) depth s3 of
             ((documents, Some e), s4) \<Rightarrow> (None, s4)
           | ((documents, None), s4) \<Rightarrow>
               (let s5 = track (op_TrackFileFoundCountLines tr
                           (lines_resolved filename (pd_ResolvedFiles documents))) s4;
                    fileCommands = CommentsCommands (se_fs env) (se_parser env) filename bytes;
                    ((ignoreLines, err'), s6) =
                      save_documents env (sink_file env filename scan documents fileCommands)
                        (pd_Docs documents) (pd_IgnoreLines documents) None s5;
                    s7 = track (op_TrackFileParse tr filename) s6;
                    s8 = track (op_TrackFileParseCountLines tr
                           (pd_CountLines documents - int (length ignoreLines))) s7;
                    s9 = track (op_TrackFileIgnoreCountLines tr (int (length ignoreLines))) s8
                in (wrap_error err' ''failed to save file content'', s9))))"

section \<open>Rendered files\<close>

text \<open>
  \<open>.*\n?.*KICS_HELM_ID.+\n\<close>: the mark has to be followed by something on its line and by a line
  break. The leftmost match starts at the beginning of a line, and takes the line before the
  marked one with it. \<open>drop_marked\<close> goes through the lines, the last of which has no line break.
\<close>

definition marked_line :: "string \<Rightarrow> bool" where
  "marked_line l = contains (butlast l) ''KICS_HELM_ID''"

fun drop_marked :: "string list \<Rightarrow> string list" where
  "drop_marked (l0 # l1 # l2 # ls) =
     (if marked_line l1 then drop_marked (l2 # ls)
      else if marked_line l0 then drop_marked (l1 # l2 # ls)
      else l0 # drop_marked (l1 # l2 # ls))"
| "drop_marked [l0, l1] = (if marked_line l0 then [l1] else [l0, l1])"
| "drop_marked ls = ls"

definition remove_marks :: "string \<Rightarrow> string" where
  "remove_marks s = join (drop_marked (split_on s [CHR 0x0A])) [CHR 0x0A]"

text \<open>\<open>{{-\s*(.*?)\s*}}\<close>: \<open>match_action\<close> is what follows the opening bytes.\<close>

fun match_action :: "string \<Rightarrow> string option" where
  "match_action s =
     (if has_prefix (dropWhile re_space s) ''}}'' then Some (drop 2 (dropWhile re_space s))
      else case s of
        [] \<Rightarrow> None
      | c # s' \<Rightarrow> if c = CHR 0x0A then None else match_action s')"

declare match_action.simps [simp del]

lemma match_action_length: "match_action s = Some t \<Longrightarrow> length t \<le> length s"
proof (induction s rule: match_action.induct)
  case (1 s)
  have "length (drop 2 (dropWhile re_space s)) \<le> length s"
    using length_dropWhile_le [of re_space s] by simp
  then show ?case
    using "1.prems" "1.IH" by (subst (asm) match_action.simps) (fastforce split: if_splits list.splits)
qed

function remove_actions :: "string \<Rightarrow> string" where
  "remove_actions s =
     (case (if has_prefix s ''{{-'' then match_action (dropWhile re_space (drop 3 s)) else None) of
        Some rest \<Rightarrow> remove_actions rest
      | None \<Rightarrow> (case s of [] \<Rightarrow> [] | c # s' \<Rightarrow> c # remove_actions s'))"
  by pat_completeness auto
termination
proof (relation "measure length")
  fix s rest :: string
  assume "(if has_prefix s ''{{-'' then match_action (dropWhile re_space (drop 3 s)) else None) = Some rest"
  then have p: "has_prefix s ''{{-''" and "match_action (dropWhile re_space (drop 3 s)) = Some rest"
    by (simp_all split: if_splits)
  then have "length rest \<le> length (drop 3 s)"
    using match_action_length length_dropWhile_le order_trans by blast
  moreover have "0 < length s" using p by (cases s) auto
  ultimately show "(rest, s) \<in> measure length" unfolding in_measure length_drop by linarith
qed auto

declare remove_actions.simps [simp del]

definition getOriginalIgnoreLines ::
  "('s, 't, 'p) service_env \<Rightarrow> string \<Rightarrow> string \<Rightarrow> bool \<Rightarrow> bool \<Rightarrow> int \<Rightarrow> ('s, 't, 'p) Service \<Rightarrow>
     (int list \<times> string option) \<times> ('s, 't, 'p) Service" where
  "getOriginalIgnoreLines env filename originalFile openAPI minified depth s =
     (case parse_file env filename (remove_actions (remove_marks originalFile)) openAPI minified depth s of
        ((documentsOriginal, None), s') \<Rightarrow> ((pd_IgnoreLines documentsOriginal, None), s')
      | ((documentsOriginal, Some err), s') \<Rightarrow> (([], Some err), s'))"

definition resolved_file ::
  "('s, 't, 'p) service_env \<Rightarrow> string \<Rightarrow> FileKind \<Rightarrow> ResolvedHelm \<Rightarrow> ParsedDocument \<Rightarrow>
     (string, string) gomap \<Rightarrow> string \<Rightarrow> doc \<Rightarrow> int list \<Rightarrow> FileMetadata" where
  "resolved_file env scan kind rfile documents fileCommands uuid document ignoreLines =
     zero_file\<lparr>f_ID := uuid, f_ScanID := scan, f_Document := PrepareScanDocument env document kind,
       f_OriginalData := rh_OriginalData rfile, f_LineInfoDocument := Some document,
       f_Kind := kind, f_FilePath := rh_FileName rfile, f_Content := rh_Content rfile,
       f_HelmID := rh_SplitID rfile, f_Commands := fileCommands, f_IDInfo := rh_IDInfo rfile,
       f_LinesIgnore := ignoreLines, f_ResolvedFiles := pd_ResolvedFiles documents,
       f_LinesOriginalData := SplitLines (rh_OriginalData rfile),
       f_IsMinified := pd_IsMinified documents\<rparr>"

text \<open>
  One turn of the loop of \<open>resolverSink\<close>: \<open>False\<close> when it returns because the file does not parse.
\<close>

definition sink_resolved ::
  "('s, 't, 'p) service_env \<Rightarrow> string \<Rightarrow> bool \<Rightarrow> int \<Rightarrow> FileKind \<Rightarrow> ResolvedHelm \<Rightarrow>
     ('s, 't, 'p) Service \<Rightarrow> bool \<times> ('s, 't, 'p) Service" where
  "sink_resolved env scan openAPI depth kind rfile s =
     (let tr = se_tracker env;
          s1 = track (op_TrackFileFound tr (rh_FileName rfile)) s;
          minified = IsMinified (rh_FileName rfile) (rh_Content rfile)
      in case parse_file env (rh_FileName rfile) (rh_Content rfile) openAPI minified depth s1 of
        ((documents, Some err), s2) \<Rightarrow> (False, s2)
      | ((documents, None), s2) \<Rightarrow>
          (let newlines = count_newlines (rh_OriginalData rfile);
               (documents', s3) =
                 (if kind = KindHELM
                  then (case getOriginalIgnoreLines env (rh_FileName rfile) (rh_OriginalData rfile)
                               openAPI minified depth s2 of
                          ((ignoreList, None), s3) \<Rightarrow>
                            (documents\<lparr>pd_IgnoreLines := ignoreList, pd_CountLines := newlines\<rparr>, s3)
                        | ((ignoreList, Some err), s3) \<Rightarrow> (documents, s3))
                  else (documents\<lparr>pd_CountLines := newlines + 1\<rparr>, s2));
               fileCommands = CommentsCommands (se_fs env) (se_parser env) (rh_FileName rfile)
                                (rh_OriginalData rfile);
               ((ignoreLines, err), s4) =
                 save_documents env (resolved_file env scan kind rfile documents' fileCommands)
                   (pd_Docs documents') (pd_IgnoreLines documents') None s3;
               s5 = track (op_TrackFileParse tr (rh_FileName rfile)) s4;
               s6 = track (op_TrackFileFoundCountLines tr (pd_CountLines documents')) s5;
               s7 = track (op_TrackFileParseCountLines tr
                      (pd_CountLines documents' - int (length ignoreLines))) s6;
               s8 = track (op_TrackFileIgnoreCountLines tr (int (length ignoreLines))) s7;
               s9 = (if kind = KindTerraform
                     then track (op_TrackFileFoundCountResources tr
                            (GetCountTerraformResources (rh_Content rfile))) s8
                     else s8)
           in (True, s9)))"

fun sink_all_resolved ::
  "('s, 't, 'p) service_env \<Rightarrow> string \<Rightarrow> bool \<Rightarrow> int \<Rightarrow> FileKind \<Rightarrow> ResolvedHelm list \<Rightarrow>
     ('s, 't, 'p) Service \<Rightarrow> bool \<times> ('s, 't, 'p) Service" where
  "sink_all_resolved env scan openAPI depth kind [] s = (True, s)"
| "sink_all_resolved env scan openAPI depth kind (rfile # rfiles) s =
     (case sink_resolved env scan openAPI depth kind rfile s of
        (False, s') \<Rightarrow> (False, s')
      | (True, s') \<Rightarrow> sink_all_resolved env scan openAPI depth kind rfiles s')"

definition resolverSink ::
  "('s, 't, 'p) service_env \<Rightarrow> string \<Rightarrow> bool \<Rightarrow> int \<Rightarrow> string \<Rightarrow> ('s, 't, 'p) Service \<Rightarrow>
     (string list \<times> string option) \<times> ('s, 't, 'p) Service" where
  "resolverSink env scan openAPI depth filename s =
     (let kind = GetType (se_fs env) filename in
      if kind = KindCOMMON then (([], None), s)
      else case Resolve (se_resolver env) filename kind of
        Inl err \<Rightarrow> (([], Some err), s)
      | Inr resFiles \<Rightarrow>
          (case sink_all_resolved env scan openAPI depth kind (hf_File resFiles) s of
             (True, s') \<Rightarrow> ((hf_Excluded resFiles, None), s')
           | (False, s') \<Rightarrow> (([], None), s')))"

section \<open>The operations of a service\<close>

text \<open>
  A source provider calls the two sinks, in an order that may depend on what they return, and
  ends with an error or without, or blocks for ever: \<open>walk\<close> is such a run.
\<close>

datatype walk =
    WalkDone "string option"
  | WalkBlocked
  | WalkFile string reader "string option \<Rightarrow> walk"
  | WalkDir string "string list \<times> string option \<Rightarrow> walk"

primrec run_walk ::
  "(string \<Rightarrow> reader \<Rightarrow> 'st \<Rightarrow> string option \<times> 'st) \<Rightarrow>
   (string \<Rightarrow> 'st \<Rightarrow> (string list \<times> string option) \<times> 'st) \<Rightarrow> walk \<Rightarrow> 'st \<Rightarrow>
     (string option \<times> 'st) option" where
  "run_walk on_file on_dir (WalkDone err) = (\<lambda>s. Some (err, s))"
| "run_walk on_file on_dir WalkBlocked = (\<lambda>s. None)"
| "run_walk on_file on_dir (WalkFile filename rc k) =
     (\<lambda>s. let (err, s') = on_file filename rc s in run_walk on_file on_dir (k err) s')"
| "run_walk on_file on_dir (WalkDir filename k) =
     (\<lambda>s. let (res, s') = on_dir filename s in run_walk on_file on_dir (k res) s')"

record SourceProvider =
  sp_GetSources :: "Extensions \<Rightarrow> walk"
  sp_GetBasePaths :: "string list"

text \<open>What is sent on \<open>errCh\<close> is the first result.\<close>

definition PrepareSources ::
  "('s, 't, 'p) service_env \<Rightarrow> SourceProvider \<Rightarrow> string \<Rightarrow> bool \<Rightarrow> int \<Rightarrow> ('s, 't, 'p) Service \<Rightarrow>
     (string list \<times> ('s, 't, 'p) Service) option" where
  "PrepareSources env sp scan openAPI depth s =
     map_option (\<lambda>(err, s').
         (case err of None \<Rightarrow> [] | Some e \<Rightarrow> [''failed to read sources: '' @ e], s'))
       (run_walk (sink env scan openAPI depth) (resolverSink env scan openAPI depth)
          (sp_GetSources sp (SupportedExtensions (se_parser env))) s)"

text \<open>
  The service and its inspector hold the same tracker, which \<open>Inspect\<close> reads and returns here.
  \<open>Combine\<close>, which \<open>Inspect\<close> begins with, writes into the documents of the service's files.
\<close>

definition StartScan ::
  "('s, 't, 'p) service_env \<Rightarrow> SourceProvider \<Rightarrow> ('t, 'q) engine_env \<Rightarrow> Inspector \<Rightarrow>
     (doc list \<Rightarrow> string + jval) \<Rightarrow> string \<Rightarrow> nat list \<Rightarrow> ('s, 't, 'p) Service \<Rightarrow> 't InspectorState \<Rightarrow>
     (string list \<times> ('s, 't, 'p) Service \<times> 't InspectorState) option" where
  "StartScan env sp engine c to_payload scan schedule s ins = do {
     (res, ins') \<leftarrow> Inspect engine c to_payload scan (sv_files s) (sp_GetBasePaths sp)
                     (p_Platform (se_parser env)) schedule (ins\<lparr>s_tracker := sv_tracker s\<rparr>);
     (documents, files') \<leftarrow> Combine False (sv_files s);
     let vulns = (case res of Inl err \<Rightarrow> [] | Inr vs \<Rightarrow> vs);
     let errs = (case res of Inl err \<Rightarrow> [''failed to inspect files: '' @ err] | Inr vs \<Rightarrow> []);
     let (err, st) = op_SaveVulnerabilities (se_storage env) vulns (sv_storage s);
     Some (errs @ (case err of None \<Rightarrow> [] | Some e \<Rightarrow> [''failed to save vulnerabilities: '' @ e]),
           s\<lparr>sv_storage := st, sv_tracker := s_tracker ins', sv_files := files'\<rparr>, ins')
   }"

definition Service_GetVulnerabilities ::
  "('s, 't, 'p) service_env \<Rightarrow> ((string, Vulnerability) gomap \<Rightarrow> (string, Vulnerability) gomap) \<Rightarrow>
     string \<Rightarrow> ('s, 't, 'p) Service \<Rightarrow> Vulnerability list" where
  "Service_GetVulnerabilities env r scan s = op_GetVulnerabilities (se_storage env) r (sv_storage s)"

definition Service_GetScanSummary ::
  "('s, 't, 'p) service_env \<Rightarrow> string list \<Rightarrow> ('s, 't, 'p) Service \<Rightarrow> unit list" where
  "Service_GetScanSummary env scanIDs s = op_GetScanSummary (se_storage env) scanIDs (sv_storage s)"

section \<open>Masked secrets\<close>

record SecretTracker =
  st_ResolvedFilePath :: string
  st_Line :: int
  st_OriginalContent :: string
  st_MaskedContent :: string

definition updateMaskedSecretLine :: "Vulnerability \<Rightarrow> SecretTracker \<Rightarrow> Vulnerability" where
  "updateMaskedSecretLine v secretT =
     (if v_FileName v = st_ResolvedFilePath secretT
      then v\<lparr>v_VulnLines :=
             map (\<lambda>l. if Position l = st_Line secretT then l\<lparr>CodeText := st_MaskedContent secretT\<rparr> else l)
               (v_VulnLines v)\<rparr>
      else v)"

definition updateMaskedSecrets :: "Vulnerability list \<Rightarrow> SecretTracker list \<Rightarrow> Vulnerability list" where
  "updateMaskedSecrets vs tracked = map (\<lambda>v. foldl updateMaskedSecretLine v tracked) vs"

section \<open>What preparation does\<close>

text \<open>\<open>mentions k v\<close>: the key \<open>k\<close> occurs in an object at some depth of \<open>v\<close>.\<close>

fun mentions :: "string \<Rightarrow> jval \<Rightarrow> bool" where
  "mentions k (JObj m) = list_ex (\<lambda>(k', v). k' = k \<or> mentions k v) m"
| "mentions k (JList xs) = list_ex (mentions k) xs"
| "mentions k v = False"

lemma prepared_mentions:
  "\<not> mentions ''_kics_lines'' (prepareScanDocumentRoot r kind v)"
  "\<not> mentions ''_kics_lines'' (JObj (prepareScanDocumentValue r kind m))"
  by (induction r kind v and r kind m
      rule: prepareScanDocumentRoot_prepareScanDocumentValue.induct)
    (auto simp: list_ex_iff split: jval.split)

lemma prepared_keys:
  "map fst (prepareScanDocumentValue r kind m) = filter (\<lambda>k. k \<noteq> ''_kics_lines'') (map fst m)"
  by (induction m) auto

lemma prepared_unchanged:
  "map_of filter_lines kind = None \<Longrightarrow> \<not> mentions ''_kics_lines'' v \<Longrightarrow>
     prepareScanDocumentRoot r kind v = v"
  "map_of filter_lines kind = None \<Longrightarrow> \<not> mentions ''_kics_lines'' (JObj m) \<Longrightarrow>
     prepareScanDocumentValue r kind m = m"
  by (induction r kind v and r kind m
      rule: prepareScanDocumentRoot_prepareScanDocumentValue.induct)
    (auto simp: list_ex_iff filter_string_def intro: map_idI split: jval.split)

lemma prepared_get:
  "k \<noteq> ''_kics_lines'' \<Longrightarrow>
     map_of (prepareScanDocumentValue r kind m) k =
       map_option (\<lambda>v. case v of JStr str \<Rightarrow> JStr (filter_string r kind k str)
                      | _ \<Rightarrow> prepareScanDocumentRoot r kind v) (map_of m k)"
  by (induction m) (auto split: jval.split)

section \<open>Reading\<close>

definition chunks :: "string list \<Rightarrow> reader" where
  "chunks bs = map (\<lambda>b. (b, None)) bs"

lemma read_loop_prefix:
  "int (length bs) \<le> m \<Longrightarrow>
     read_loop (chunks bs @ rc) m acc n =
       read_loop rc (m - int (length bs)) (acc @ concat bs)
         (n + count_newlines (concat bs) + int (length bs))"
proof (induction bs arbitrary: m acc n)
  case (Cons b bs)
  then show ?case
    by (subst read_loop.simps) (auto simp: chunks_def count_newlines_def algebra_simps)
qed (simp add: chunks_def count_newlines_def)

lemma read_loop_limit:
  "m < int (length bs) \<Longrightarrow> read_loop (chunks bs @ rc) m acc n = Inl ''file size limit exceeded''"
proof (induction bs arbitrary: m acc n)
  case (Cons b bs)
  then show ?case by (subst read_loop.simps) (auto simp: chunks_def)
qed (simp add: chunks_def read_loop.simps)

lemma read_loop_end:
  "0 \<le> m \<Longrightarrow> read_loop [] m acc n = Inr (acc, n)"
  "0 \<le> m \<Longrightarrow> read_loop ((d, Some ReadEOF) # rc) m acc n = Inr (acc, n)"
  "0 \<le> m \<Longrightarrow> read_loop ((d, Some (ReadFailed e)) # rc) m acc n = Inl e"
  by (subst read_loop.simps; simp)+

section \<open>What the sinks save\<close>

text \<open>
  \<open>saved files P s s'\<close>: from \<open>s\<close> to \<open>s'\<close> the same files, all with \<open>P\<close>, are added to the service
  and, as \<open>files\<close> reads it, to the storage.
\<close>

definition saved ::
  "('s \<Rightarrow> FileMetadata list) \<Rightarrow> (FileMetadata \<Rightarrow> bool) \<Rightarrow>
     ('s, 't, 'p) Service \<Rightarrow> ('s, 't, 'p) Service \<Rightarrow> bool" where
  "saved files P s s' \<longleftrightarrow>
     (\<exists>new. sv_files s' = sv_files s @ new \<and> files (sv_storage s') = files (sv_storage s) @ new \<and>
        (\<forall>f \<in> set new. P f))"

lemma saved_same:
  "sv_files s' = sv_files s \<Longrightarrow> sv_storage s' = sv_storage s \<Longrightarrow> saved files P s s'"
  by (simp add: saved_def)

lemma saved_trans: "saved files P s s' \<Longrightarrow> saved files P s' s'' \<Longrightarrow> saved files P s s''"
  by (fastforce simp: saved_def)

lemma saved_then_same:
  "saved files P s s' \<Longrightarrow> sv_files s'' = sv_files s' \<Longrightarrow> sv_storage s'' = sv_storage s' \<Longrightarrow>
     saved files P s s''"
  by (simp add: saved_def)

lemma track_sel [simp]:
  "sv_files (track f s) = sv_files s" "sv_storage (track f s) = sv_storage s"
  "sv_parser (track f s) = sv_parser s" "sv_ids (track f s) = sv_ids s"
  "sv_tracker (track f s) = f (sv_tracker s)"
  by (simp_all add: track_def)

lemma parse_file_sel:
  assumes "parse_file env filename bytes openAPI minified depth s = (res, s')"
  shows "sv_files s' = sv_files s" "sv_storage s' = sv_storage s" "sv_tracker s' = sv_tracker s"
    "sv_ids s' = sv_ids s"
  using assms by (auto simp: parse_file_def Let_def split: prod.splits)

lemma saveToFile_sel [simp]:
  "sv_tracker (saveToFile env f s) = sv_tracker s" "sv_parser (saveToFile env f s) = sv_parser s"
  "sv_ids (saveToFile env f s) = sv_ids s"
  by (simp_all add: saveToFile_def split: prod.split option.split)

lemma save_documents_tracker:
  "save_documents env mk ds ig err s = (res, s') \<Longrightarrow>
     sv_tracker s' = sv_tracker s \<and> sv_parser s' = sv_parser s"
  by (induction env mk ds ig err s rule: save_documents.induct)
    (auto simp: Let_def split: sum.splits if_splits)

lemma getOriginalIgnoreLines_sel:
  assumes "getOriginalIgnoreLines env filename bytes openAPI minified depth s = (res, s')"
  shows "sv_files s' = sv_files s" "sv_storage s' = sv_storage s" "sv_tracker s' = sv_tracker s"
  using assms by (auto simp: getOriginalIgnoreLines_def parse_file_sel split: prod.splits option.splits)

text \<open>A run of a provider keeps to a relation that each call of a sink keeps to.\<close>

lemma run_walk_rel:
  assumes refl: "\<And>s. R s s" and trans: "\<And>s s' s''. R s s' \<Longrightarrow> R s' s'' \<Longrightarrow> R s s''"
    and f: "\<And>p rc s. R s (snd (on_file p rc s))" and d: "\<And>p s. R s (snd (on_dir p s))"
  shows "run_walk on_file on_dir w s = Some (err, s') \<Longrightarrow> R s s'"
proof (induction w arbitrary: s)
  case (WalkFile p rc k)
  show ?case
    using trans [OF f [of s p rc] WalkFile.IH [OF rangeI]] WalkFile.prems by (simp add: Let_def split_beta)
next
  case (WalkDir p k)
  show ?case
    using trans [OF d [of s p] WalkDir.IH [OF rangeI]] WalkDir.prems by (simp add: Let_def split_beta)
qed (simp_all add: refl)

lemma PrepareSources_rel:
  assumes "\<And>s. R s s" and "\<And>s s' s''. R s s' \<Longrightarrow> R s' s'' \<Longrightarrow> R s s''"
    and "\<And>p rc s. R s (snd (sink env scan openAPI depth p rc s))"
    and "\<And>p s. R s (snd (resolverSink env scan openAPI depth p s))"
    and "PrepareSources env sp scan openAPI depth s = Some (errs, s')"
  shows "R s s'"
  using run_walk_rel [of R, OF assms(1-4)] assms(5) by (auto simp: PrepareSources_def)

text \<open>One loop of \<open>resolverSink\<close> keeps to what its turns keep to.\<close>

lemma resolverSink_rel:
  assumes refl: "\<And>s. R s s" and trans: "\<And>s s' s''. R s s' \<Longrightarrow> R s' s'' \<Longrightarrow> R s s''"
    and turn: "\<And>kind rfile s. R s (snd (sink_resolved env scan openAPI depth kind rfile s))"
  shows "R s (snd (resolverSink env scan openAPI depth p s))"
proof -
  have "R s (snd (sink_all_resolved env scan openAPI depth kind rfiles s))" for kind rfiles s
  proof (induction rfiles arbitrary: s)
    case (Cons rfile rfiles)
    show ?case
      using turn [of s kind rfile] trans Cons.IH
      by (auto split: prod.split bool.split)
  qed (simp add: refl)
  then show ?thesis
    by (auto simp: resolverSink_def Let_def refl split: sum.split prod.split bool.split)
      (metis snd_conv)+
qed

text \<open>Either a sink saves nothing, or what it saves comes from one loop over the documents.\<close>

lemma sink_saves:
  assumes "sink env scan openAPI depth p rc s = (err, s')"
  shows "sv_files s' = sv_files s \<and> sv_storage s' = sv_storage s \<or>
    (\<exists>documents cs s5 s6 res. sv_files s5 = sv_files s \<and> sv_storage s5 = sv_storage s \<and>
       save_documents env (sink_file env p scan documents cs) (pd_Docs documents)
         (pd_IgnoreLines documents) None s5 = (res, s6) \<and>
       sv_files s' = sv_files s6 \<and> sv_storage s' = sv_storage s6)"
proof (cases "snd (getContent rc (se_MaxFileSize env) p)")
  case (Some e)
  then show ?thesis using assms by (auto simp: sink_def Let_def split: prod.splits)
next
  case None
  then obtain c documents e s4 where
      c: "getContent rc (se_MaxFileSize env) p = (c, None)" and
      f: "parse_file env p (resolveCRLFFile (c_Content c)) openAPI (c_IsMinified c) depth
        (track (op_TrackFileFoundCountResources (se_tracker env) (c_CountResources c))
          (track (op_TrackFileFoundCountLines (se_tracker env) (c_CountLines c))
            (track (op_TrackFileFound (se_tracker env) p) s))) = ((documents, e), s4)"
    by (metis surj_pair snd_conv)
  note s4 = parse_file_sel [OF f]
  show ?thesis
  proof (cases e)
    case (Some e')
    then show ?thesis using assms c f s4 by (auto simp: sink_def Let_def)
  next
    case None
    let ?s5 = "track (op_TrackFileFoundCountLines (se_tracker env)
      (lines_resolved p (pd_ResolvedFiles documents))) s4"
    let ?cs = "CommentsCommands (se_fs env) (se_parser env) p (resolveCRLFFile (c_Content c))"
    obtain res s6 where d: "save_documents env (sink_file env p scan documents ?cs)
        (pd_Docs documents) (pd_IgnoreLines documents) None ?s5 = (res, s6)"
      by (metis surj_pair)
    then have "sv_files s' = sv_files s6 \<and> sv_storage s' = sv_storage s6"
      using assms c f None by (auto simp: sink_def Let_def split: prod.splits)
    then show ?thesis using d s4 by (metis track_sel(1,2))
  qed
qed

lemma sink_resolved_saves:
  assumes "sink_resolved env scan openAPI depth kind rfile s = (b, s')"
  shows "sv_files s' = sv_files s \<and> sv_storage s' = sv_storage s \<or>
    (\<exists>documents cs s3 s4 res. sv_files s3 = sv_files s \<and> sv_storage s3 = sv_storage s \<and>
       save_documents env (resolved_file env scan kind rfile documents cs) (pd_Docs documents)
         (pd_IgnoreLines documents) None s3 = (res, s4) \<and>
       sv_files s' = sv_files s4 \<and> sv_storage s' = sv_storage s4)"
proof -
  obtain documents e s2 where
      f: "parse_file env (rh_FileName rfile) (rh_Content rfile) openAPI
        (IsMinified (rh_FileName rfile) (rh_Content rfile)) depth
        (track (op_TrackFileFound (se_tracker env) (rh_FileName rfile)) s) = ((documents, e), s2)"
    by (metis surj_pair)
  note s2 = parse_file_sel [OF f]
  show ?thesis
  proof (cases e)
    case (Some e')
    then show ?thesis using assms f s2 by (auto simp: sink_resolved_def Let_def)
  next
    case None
    define r where "r = (if kind = KindHELM
       then (case getOriginalIgnoreLines env (rh_FileName rfile) (rh_OriginalData rfile) openAPI
               (IsMinified (rh_FileName rfile) (rh_Content rfile)) depth s2 of
               ((ignoreList, None), s3) \<Rightarrow>
                 (documents\<lparr>pd_IgnoreLines := ignoreList,
                    pd_CountLines := count_newlines (rh_OriginalData rfile)\<rparr>, s3)
             | ((ignoreList, Some err), s3) \<Rightarrow> (documents, s3))
       else (documents\<lparr>pd_CountLines := count_newlines (rh_OriginalData rfile) + 1\<rparr>, s2))"
    obtain documents' s3 where r: "r = (documents', s3)" by (cases r)
    have s3: "sv_files s3 = sv_files s2 \<and> sv_storage s3 = sv_storage s2"
      using r getOriginalIgnoreLines_sel(1,2)
      by (auto simp: r_def split: if_splits prod.splits option.splits)
    let ?cs = "CommentsCommands (se_fs env) (se_parser env) (rh_FileName rfile) (rh_OriginalData rfile)"
    obtain res s4 where d: "save_documents env (resolved_file env scan kind rfile documents' ?cs)
        (pd_Docs documents') (pd_IgnoreLines documents') None s3 = (res, s4)"
      by (metis surj_pair)
    then have "sv_files s' = sv_files s4 \<and> sv_storage s' = sv_storage s4"
      using assms f None r unfolding sink_resolved_def r_def
      by (auto simp: Let_def split: prod.splits)
    then show ?thesis using d s2 s3 by (metis track_sel(1,2))
  qed
qed

context scan_storage
begin

definition saves_with :: "('s, 't, 'p) service_env \<Rightarrow> bool" where
  "saves_with env \<longleftrightarrow> op_SaveFile (se_storage env) = save_file"

lemma saveToFile_saved: "saves_with env \<Longrightarrow> P f \<Longrightarrow> saved files P s (saveToFile env f s)"
  by (auto simp: saves_with_def saveToFile_def saved_def save_file_files save_file_failed
      split: prod.split option.split)

lemma save_documents_saved:
  assumes "saves_with env" and "\<And>u d i j. se_marshal env d = Inr j \<Longrightarrow> P (mk u d i)"
  shows "save_documents env mk ds ig err s = (res, s') \<Longrightarrow> saved files P s s'"
proof (induction ds arbitrary: ig err s)
  case (Cons d ds)
  show ?case
  proof (cases "se_marshal env d")
    case (Inl e)
    then show ?thesis using Cons by simp
  next
    case (Inr j)
    let ?f = "mk (se_uuid env (sv_ids s)) d (if length ig > 0 then sort ig else ig)"
    let ?s1 = "saveToFile env ?f (s\<lparr>sv_ids := Suc (sv_ids s)\<rparr>)"
    have "saved files P (s\<lparr>sv_ids := Suc (sv_ids s)\<rparr>) ?s1"
      using assms(1) assms(2) [OF Inr] by (rule saveToFile_saved)
    then have "saved files P s ?s1" by (simp add: saved_def)
    moreover have "saved files P ?s1 s'"
      using Cons.IH Cons.prems Inr by (simp add: Let_def)
    ultimately show ?thesis by (rule saved_trans)
  qed
qed (simp add: saved_same)

lemma sink_saved:
  assumes "saves_with env"
    and "\<And>documents cs u d i j. se_marshal env d = Inr j \<Longrightarrow> P (sink_file env p scan documents cs u d i)"
  shows "saved files P s (snd (sink env scan openAPI depth p rc s))"
proof -
  obtain err s' where s: "sink env scan openAPI depth p rc s = (err, s')" by (metis surj_pair)
  have P: "save_documents env (sink_file env p scan documents cs) ds ig e t = (res, t') \<Longrightarrow>
      saved files P t t'" for documents cs ds ig e t res t'
    using save_documents_saved
      [where mk = "sink_file env p scan documents cs" and P = P, OF assms(1)] assms(2)
    by blast
  from sink_saves [OF s] show ?thesis
  proof (elim disjE exE conjE)
    fix documents cs t t' res
    assume t: "sv_files t = sv_files s" "sv_storage t = sv_storage s"
      "sv_files s' = sv_files t'" "sv_storage s' = sv_storage t'"
      and "save_documents env (sink_file env p scan documents cs) (pd_Docs documents)
         (pd_IgnoreLines documents) None t = (res, t')"
    from P [OF this(5)] show ?thesis by (simp add: saved_def s t)
  qed (simp add: s saved_same)
qed

lemma sink_resolved_saved:
  assumes "saves_with env"
    and "\<And>documents cs u d i j. se_marshal env d = Inr j \<Longrightarrow>
      P (resolved_file env scan kind rfile documents cs u d i)"
  shows "saved files P s (snd (sink_resolved env scan openAPI depth kind rfile s))"
proof -
  obtain b s' where s: "sink_resolved env scan openAPI depth kind rfile s = (b, s')" by (metis surj_pair)
  have P: "save_documents env (resolved_file env scan kind rfile documents cs) ds ig e t = (res, t') \<Longrightarrow>
      saved files P t t'" for documents cs ds ig e t res t'
    using save_documents_saved
      [where mk = "resolved_file env scan kind rfile documents cs" and P = P, OF assms(1)] assms(2)
    by blast
  from sink_resolved_saves [OF s] show ?thesis
  proof (elim disjE exE conjE)
    fix documents cs t t' res
    assume t: "sv_files t = sv_files s" "sv_storage t = sv_storage s"
      "sv_files s' = sv_files t'" "sv_storage s' = sv_storage t'"
      and "save_documents env (resolved_file env scan kind rfile documents cs) (pd_Docs documents)
         (pd_IgnoreLines documents) None t = (res, t')"
    from P [OF this(5)] show ?thesis by (simp add: saved_def s t)
  qed (simp add: s saved_same)
qed

lemma PrepareSources_saved:
  assumes "saves_with env"
    and "\<And>p documents cs u d i j. se_marshal env d = Inr j \<Longrightarrow>
      P (sink_file env p scan documents cs u d i)"
    and "\<And>kind rfile documents cs u d i j. se_marshal env d = Inr j \<Longrightarrow>
      P (resolved_file env scan kind rfile documents cs u d i)"
    and "PrepareSources env sp scan openAPI depth s = Some (errs, s')"
  shows "saved files P s s'"
proof (rule PrepareSources_rel [OF _ _ _ _ assms(4)])
  show "saved files P s (snd (sink env scan openAPI depth p rc s))" for p rc s
    by (rule sink_saved [OF assms(1)]) (rule assms(2))
  show "saved files P s (snd (resolverSink env scan openAPI depth p s))" for p s
  proof (rule resolverSink_rel)
    show "saved files P s (snd (sink_resolved env scan openAPI depth kind rfile s))" for s kind rfile
      by (rule sink_resolved_saved [OF assms(1)]) (rule assms(3))
  qed (auto simp: saved_same intro: saved_trans)
qed (auto simp: saved_same intro: saved_trans)

end

section \<open>What the sinks count\<close>

context files_tracker
begin

definition tracks_with :: "('s, 't, 'p) service_env \<Rightarrow> bool" where
  "tracks_with env \<longleftrightarrow> se_tracker env = fops"

definition scanned :: "'t \<Rightarrow> bool" where
  "scanned t \<longleftrightarrow> inv t \<and> parsed_paths t \<subseteq> found_paths t"

definition scanning :: "string \<Rightarrow> 't \<Rightarrow> bool" where
  "scanning p t \<longleftrightarrow> scanned t \<and> p \<in> found_paths t"

lemma scanning_found: "scanned t \<Longrightarrow> scanning p (op_TrackFileFound fops p t)"
  by (auto simp: scanned_def scanning_def found found_parsed inv_found)

lemma scanning_parsed: "scanning p t \<Longrightarrow> scanning p (op_TrackFileParse fops p t)"
  by (auto simp: scanned_def scanning_def parsed parsed_found inv_parsed)

lemma scanning_counts:
  "scanning p t \<Longrightarrow> scanning p (op_TrackFileFoundCountLines fops n t)"
  "scanning p t \<Longrightarrow> scanning p (op_TrackFileParseCountLines fops n t)"
  "scanning p t \<Longrightarrow> scanning p (op_TrackFileIgnoreCountLines fops n t)"
  "scanning p t \<Longrightarrow> scanning p (op_TrackFileFoundCountResources fops n t)"
  using count_frame [of _ n t] by (auto simp: scanned_def scanning_def)

lemmas scanning_intros = scanning_counts scanning_parsed scanning_found

lemma sink_scanning:
  assumes "tracks_with env" and "scanned (sv_tracker s)"
  shows "scanning p (sv_tracker (snd (sink env scan openAPI depth p rc s)))"
proof -
  have e: "se_tracker env = fops" using assms(1) by (simp add: tracks_with_def)
  show ?thesis using assms(2)
    by (auto simp: sink_def Let_def e split: prod.split option.split
        dest!: save_documents_tracker parse_file_sel(3) intro!: scanning_intros)
qed

lemma sink_resolved_scanning:
  assumes "tracks_with env" and "scanned (sv_tracker s)"
  shows "scanning (rh_FileName rfile) (sv_tracker (snd (sink_resolved env scan openAPI depth kind rfile s)))"
proof -
  have e: "se_tracker env = fops" using assms(1) by (simp add: tracks_with_def)
  show ?thesis using assms(2)
    by (auto simp: sink_resolved_def Let_def e split: prod.splits option.splits if_splits
        dest!: save_documents_tracker parse_file_sel(3) getOriginalIgnoreLines_sel(3)
        intro!: scanning_intros)
qed

lemma PrepareSources_scanned:
  assumes "tracks_with env" and "scanned (sv_tracker s)"
    and "PrepareSources env sp scan openAPI depth s = Some (errs, s')"
  shows "scanned (sv_tracker s')"
proof -
  let ?R = "\<lambda>s s'. scanned (sv_tracker s) \<longrightarrow> scanned (sv_tracker s')"
  have "?R s s'"
  proof (rule PrepareSources_rel [where R = ?R, OF _ _ _ _ assms(3)])
    show "?R s (snd (sink env scan openAPI depth p rc s))" for s p rc
      using sink_scanning [OF assms(1)] by (auto simp: scanning_def)
    show "?R s (snd (resolverSink env scan openAPI depth p s))" for s p
      using sink_resolved_scanning [OF assms(1)]
      by (intro resolverSink_rel [where R = ?R]) (auto simp: scanning_def)
  qed auto
  with assms(2) show ?thesis by blast
qed

end

section \<open>Properties\<close>

definition marshals :: "('s, 't, 'p) service_env \<Rightarrow> doc \<Rightarrow> bool" where
  "marshals env d \<longleftrightarrow> (case se_marshal env d of Inl e \<Rightarrow> False | Inr j \<Rightarrow> True)"

lemma save_documents_memory:
  assumes "se_storage env = memory_storage"
  shows "save_documents env mk ds ig err s = ((ig', err'), s') \<Longrightarrow>
    \<exists>new. sv_files s' = sv_files s @ new \<and>
      list_all2 (\<lambda>f d. \<exists>u. f = mk u d (sort ig)) new (filter (marshals env) ds) \<and>
      err' = (if ds = [] then err
              else case se_marshal env (last ds) of Inl e \<Rightarrow> Some e | Inr j \<Rightarrow> None)"
proof (induction ds arbitrary: ig err s)
  case (Cons d ds)
  show ?case
  proof (cases "se_marshal env d")
    case (Inl e)
    then have "save_documents env mk ds ig (Some e) s = ((ig', err'), s')" using Cons.prems by simp
    from Cons.IH [OF this] show ?thesis using Inl by (auto simp: marshals_def)
  next
    case (Inr j)
    have sorted: "(if length ig > 0 then sort ig else ig) = sort ig" by simp
    let ?f = "mk (se_uuid env (sv_ids s)) d (sort ig)"
    let ?s1 = "saveToFile env ?f (s\<lparr>sv_ids := Suc (sv_ids s)\<rparr>)"
    have s1: "sv_files ?s1 = sv_files s @ [?f]"
      by (simp add: saveToFile_def assms memory_storage_def SaveFile_def)
    from Inr Cons.prems have "save_documents env mk ds (sort ig) None ?s1 = ((ig', err'), s')"
      unfolding save_documents.simps sorted by (simp add: Let_def)
    from Cons.IH [OF this] obtain new where n: "sv_files s' = sv_files ?s1 @ new"
      "list_all2 (\<lambda>f d. \<exists>u. f = mk u d (sort ig)) new (filter (marshals env) ds)"
      "err' = (if ds = [] then None
              else case se_marshal env (last ds) of Inl e \<Rightarrow> Some e | Inr j \<Rightarrow> None)"
      by (auto simp: sorted_sort_id)
    have "marshals env d" using Inr by (simp add: marshals_def)
    then show ?thesis
      using n Inr by (intro exI [of _ "?f # new"]) (auto simp: s1)
  qed
qed simp

definition example_service_env :: "(MemoryStorage, CITracker, unit) service_env" where
  "example_service_env =
     \<lparr>se_fs = example_fs, se_vault_secret = [], se_parser = example_parser, se_resolver = [],
      se_storage = memory_storage, se_tracker = ci_files, se_marshal = (\<lambda>d. Inr ''{}''),
      se_unmarshal = (\<lambda>j. Inr [(''resource'', JObj [(''_kics_lines'', JNull)]), (''_kics_lines'', JNull)]),
      se_marshal_value = (\<lambda>v. Inr []), se_filter = (\<lambda>x. None), se_uuid = (\<lambda>n. itoa (int n)),
      se_MaxFileSize = 5\<rparr>"

definition example_service :: "(MemoryStorage, CITracker, unit) Service" where
  "example_service =
     \<lparr>sv_storage = NewMemoryStorage, sv_tracker = zero_tracker\<lparr>lines := 3\<rparr>, sv_parser = (),
      sv_files = [], sv_ids = 0\<rparr>"

definition example_provider :: SourceProvider where
  "example_provider =
     \<lparr>sp_GetSources = (\<lambda>exts. WalkFile ''a.tf'' (chunks [''x = 1'']) WalkDone), sp_GetBasePaths = []\<rparr>"

lemmas example_service_defs = example_service_env_def example_service_def example_provider_def

lemma example_prepared:
  "\<exists>errs s'. PrepareSources example_service_env example_provider ''s'' False 10 example_service = Some (errs, s')"
  by (simp add: PrepareSources_def example_provider_def Let_def split_beta)



text \<open>A file read in at most \<open>MaxFileSize\<close> chunks is read whole, and its lines are counted as
  its line breaks and one more for each chunk; a further chunk, or a read that fails, gives an
  error and no content. What a reader returns together with \<open>io.EOF\<close> is dropped.\<close>

lemma get_content_limit:
  "getContent (chunks bs) maxSizeMB filename =
     (if int (length bs) \<le> maxSizeMB
      then (\<lparr>c_Content = concat bs, c_CountLines = count_newlines (concat bs) + int (length bs),
             c_IsMinified = IsMinified filename (concat bs),
             c_CountResources = GetCountTerraformResources (concat bs)\<rparr>, None)
      else (empty_content, Some ''file size limit exceeded'')) \<and>
   getContent (chunks bs @ [(data, Some (ReadFailed err))]) maxSizeMB filename =
     (empty_content, Some (if int (length bs) \<le> maxSizeMB then err else ''file size limit exceeded'')) \<and>
   getContent (chunks bs @ [(data, Some ReadEOF)]) maxSizeMB filename =
     getContent (chunks bs) maxSizeMB filename"
  using read_loop_prefix [of bs maxSizeMB "[]" "[]" 0] read_loop_limit [of maxSizeMB bs "[]" "[]" 0]
  by (cases "int (length bs) \<le> maxSizeMB")
    (simp_all add: getContent_def read_loop_prefix read_loop_limit read_loop_end)

text \<open>C13. When a file is read and parsed, \<open>sink\<close> saves one file record for each document that
  can be marshalled, in the order of the documents, with the parsed content and the sorted
  ignored lines; the error it returns is that of the last document alone.\<close>

theorem sink_saves_documents:
  assumes "se_storage env = memory_storage"
    and "getContent rc (se_MaxFileSize env) filename = (c, None)"
    and "Parse (se_fs env) (se_parser env) (se_vault_secret env) filename
      (resolveCRLFFile (c_Content c)) openAPI (c_IsMinified c) depth (sv_parser s) = ((documents, None), p)"
    and "sink env scan openAPI depth filename rc s = (err, s')"
  shows "\<exists>new. sv_files s' = sv_files s @ new \<and>
    map f_LineInfoDocument new = map Some (filter (marshals env) (pd_Docs documents)) \<and>
    (\<forall>f \<in> set new. f_FilePath f = filename \<and> f_ScanID f = scan \<and>
       f_OriginalData f = pd_Content documents \<and> f_LinesIgnore f = sort (pd_IgnoreLines documents)) \<and>
    err = (if pd_Docs documents = [] then None
           else case se_marshal env (last (pd_Docs documents)) of
             Inl e \<Rightarrow> Some (''failed to save file content: '' @ e) | Inr j \<Rightarrow> None)"
proof -
  define s3 where "s3 = track (op_TrackFileFoundCountResources (se_tracker env) (c_CountResources c))
      (track (op_TrackFileFoundCountLines (se_tracker env) (c_CountLines c))
        (track (op_TrackFileFound (se_tracker env) filename) s))"
  define s5 where "s5 = track (op_TrackFileFoundCountLines (se_tracker env)
      (lines_resolved filename (pd_ResolvedFiles documents))) (s3\<lparr>sv_parser := p\<rparr>)"
  let ?cs = "CommentsCommands (se_fs env) (se_parser env) filename (resolveCRLFFile (c_Content c))"
  have f: "parse_file env filename (resolveCRLFFile (c_Content c)) openAPI (c_IsMinified c) depth s3 =
      ((documents, None), s3\<lparr>sv_parser := p\<rparr>)"
    using assms(3) by (simp add: parse_file_def s3_def)
  obtain ig' e' s6 where d: "save_documents env (sink_file env filename scan documents ?cs)
      (pd_Docs documents) (pd_IgnoreLines documents) None s5 = ((ig', e'), s6)"
    by (metis surj_pair)
  have r: "sv_files s' = sv_files s6 \<and> err = wrap_error e' ''failed to save file content''"
    using assms(2,4) f d unfolding sink_def s5_def s3_def by (auto simp: Let_def)
  have fs: "sv_files s5 = sv_files s" by (simp add: s5_def s3_def)
  from save_documents_memory [OF assms(1) d] obtain new where n: "sv_files s6 = sv_files s @ new"
    and l: "list_all2 (\<lambda>f d. \<exists>u. f = sink_file env filename scan documents ?cs u d
        (sort (pd_IgnoreLines documents))) new (filter (marshals env) (pd_Docs documents))"
    and e: "e' = (if pd_Docs documents = [] then None
       else case se_marshal env (last (pd_Docs documents)) of Inl e \<Rightarrow> Some e | Inr j \<Rightarrow> None)"
    unfolding fs by blast
  have "map f_LineInfoDocument new = map Some (filter (marshals env) (pd_Docs documents))"
    using l by (induction rule: list_all2_induct) (auto simp: sink_file_def)
  moreover have "\<forall>f \<in> set new. f_FilePath f = filename \<and> f_ScanID f = scan \<and>
       f_OriginalData f = pd_Content documents \<and> f_LinesIgnore f = sort (pd_IgnoreLines documents)"
    using l by (induction rule: list_all2_induct) (auto simp: sink_file_def)
  ultimately show ?thesis
    using r n e by (auto simp: wrap_error_def split: sum.split)
qed

theorem sink_saves_documents_witness:
  "map f_LinesIgnore (sv_files (snd (sink example_service_env ''s'' False 10 ''a.tf''
     (chunks [''x = 1'']) example_service))) = [[1, 3]]"
proof -
  let ?docs = "\<lparr>pd_Docs = [[(''resource'', JStr ''x = 1''), (''_kics_lines'', JNull)]],
    pd_Kind = KindTerraform, pd_Content = ''x = 1'', pd_IgnoreLines = [3, 1], pd_CountLines = 1,
    pd_ResolvedFiles = [], pd_IsMinified = False\<rparr>"
  obtain c where c: "getContent (chunks [''x = 1'']) 5 ''a.tf'' = (c, None)"
      "c_Content c = ''x = 1''" "c_IsMinified c = False"
    by (simp add: getContent_def chunks_def read_loop.simps IsMinified_def has_suffix_def)
  have x: "resolveCRLFFile ''x = 1'' = ''x = 1''" by code_simp
  have p: "Parse example_fs example_parser [] ''a.tf'' ''x = 1'' False False 10 () = ((?docs, None), ())"
    by (simp add: Parse_def example_valid example_parser_def DecryptAnsibleVault_def Let_def
        count_newlines_def example_valid [unfolded example_parser_def])
  obtain err s' where s: "sink example_service_env ''s'' False 10 ''a.tf'' (chunks [''x = 1''])
      example_service = (err, s')" by (metis surj_pair)
  have "\<exists>new. sv_files s' = sv_files example_service @ new \<and>
    map f_LineInfoDocument new = map Some (filter (marshals example_service_env) (pd_Docs ?docs)) \<and>
    (\<forall>f \<in> set new. f_FilePath f = ''a.tf'' \<and> f_ScanID f = ''s'' \<and>
       f_OriginalData f = pd_Content ?docs \<and> f_LinesIgnore f = sort (pd_IgnoreLines ?docs)) \<and>
    err = (if pd_Docs ?docs = [] then None
           else case se_marshal example_service_env (last (pd_Docs ?docs)) of
             Inl e \<Rightarrow> Some (''failed to save file content: '' @ e) | Inr j \<Rightarrow> None)"
    by (rule sink_saves_documents [where p = "()" and c = c, OF _ _ _ s])
      (simp_all add: example_service_env_def c x p)
  then obtain f where "sv_files s' = [f]" "f_LinesIgnore f = [1, 3]"
    by (auto simp: example_service_defs marshals_def)
  then show ?thesis by (simp add: s)
qed

text \<open>C5. Every file a service prepares is in the storage as well as in the service, in the same
  order, belongs to the scan, and its document holds no \<open>_kics_lines\<close>, when JSON reads what it
  wrote.\<close>

theorem service_files_stored:
  assumes "se_storage env = memory_storage"
    and "\<forall>d j. se_marshal env d = Inr j \<longrightarrow> (\<exists>m. se_unmarshal env j = Inr m)"
    and "PrepareSources env sp scan openAPI depth s = Some (errs, s')"
  shows "\<exists>new. sv_files s' = sv_files s @ new \<and> allFiles (sv_storage s') = allFiles (sv_storage s) @ new \<and>
    (\<forall>f \<in> set new. f_ScanID f = scan \<and> \<not> mentions ''_kics_lines'' (JObj (f_Document f)))"
proof -
  let ?P = "\<lambda>f. f_ScanID f = scan \<and> \<not> mentions ''_kics_lines'' (JObj (f_Document f))"
  have clean: "se_marshal env d = Inr j \<Longrightarrow>
      \<not> mentions ''_kics_lines'' (JObj (PrepareScanDocument env d kind))" for d j kind
    using prepared_mentions(2) assms(2) by (fastforce simp: PrepareScanDocument_def)
  have "mem.saves_with env" by (simp add: mem.saves_with_def assms(1) memory_storage_def)
  then have "saved allFiles ?P s s'"
    by (rule mem.PrepareSources_saved [OF _ _ _ assms(3)])
      (simp_all add: sink_file_def resolved_file_def clean del: mentions.simps)
  then show ?thesis by (simp add: saved_def)
qed

theorem service_files_stored_witness:
  "\<exists>errs s'. PrepareSources example_service_env example_provider ''s'' False 10 example_service =
     Some (errs, s') \<and> (\<forall>f \<in> set (allFiles (sv_storage s')). f_ScanID f = ''s'')"
proof -
  obtain errs s' where s: "PrepareSources example_service_env example_provider ''s'' False 10
      example_service = Some (errs, s')" using example_prepared by blast
  with service_files_stored [OF _ _ s] show ?thesis
    by (auto simp: example_service_defs NewMemoryStorage_def)
qed

text \<open>Whatever the provider delivers, a service that starts with a new tracker counts no more
  parsed files than found files, and every path it counts as parsed it has counted as found.\<close>

lemma parsed_files_found:
  assumes "se_tracker env = ci_files" and "NewTracker n = Inr (sv_tracker s)"
    and "PrepareSources env sp scan openAPI depth s = Some (errs, s')"
  shows "bag_paths (BagOfFilesParse (sv_tracker s')) \<subseteq> bag_paths (BagOfFilesFound (sv_tracker s')) \<and>
    ParsedFiles (sv_tracker s') \<le> FoundFiles (sv_tracker s')"
proof -
  have "BagOfFilesParse (sv_tracker s) = []"
    using assms(2) by (auto simp: NewTracker_def zero_tracker_def split: if_splits dest!: sym [of _ "sv_tracker s"])
  then have "ci_files.scanned (sv_tracker s)"
    using tracker_ok_new [OF assms(2)] unfolding ci_files.scanned_def by (simp add: bag_paths_def)
  then have "ci_files.scanned (sv_tracker s')"
    using ci_files.PrepareSources_scanned [of env s sp scan openAPI depth] assms(1,3)
    by (simp add: ci_files.tracks_with_def)
  then show ?thesis
    using ci_files.parsed_le_found [of "sv_tracker s'"]
    unfolding ci_files.scanned_def by (simp add: bag_paths_def)
qed

end
