(* ===== verification/YamlDoc.thy ===== *)
theory YamlDoc
  imports FileParser
begin

text \<open>
  YAML documents: \<open>pkg/model/model_yaml.go\<close> turns a tree of \<open>yaml.Node\<close> into a document with line
  information, and \<open>comment_yaml.go\<close> and \<open>comments.go\<close> collect on the way the lines that comments
  tell to ignore. The nodes are those of \<open>gopkg.in/yaml.v3\<close>. An alias holds the node it stands
  for, so that the trees are those without an alias inside its own anchor; on such a node
  \<open>unmarshal\<close> recurses without end.
\<close>

section \<open>Nodes\<close>

datatype ykind = DocumentNode | SequenceNode | MappingNode | ScalarNode | AliasNode

datatype ynode =
  YNode (yn_Kind: ykind) (yn_Tag: string) (yn_Value: string) (yn_Line: int)
    (yn_HeadComment: string) (yn_FootComment: string) (yn_Alias: "ynode option")
    (yn_Content: "ynode list")

section \<open>Commands in comments\<close>

text \<open>
  \<open>KICSCommentRgxp\<close> and \<open>KICSGetContentCommentRgxp\<close> match at the beginning of the text or after
  a line break. What follows the comment marks is no comment mark, so that there is one way to
  match at a position: \<open>after_marks\<close> skips marks and spaces, \<open>after_command\<close> returns the text
  after the command's name.
\<close>

fun drop_marks :: "string \<Rightarrow> string" where
  "drop_marks (c # d # s) =
     (if c = CHR ''/'' \<and> d = CHR ''/'' then drop_marks s
      else if c = CHR ''#'' \<or> c = CHR '';'' then drop_marks (d # s) else c # d # s)"
| "drop_marks [c] = (if c = CHR ''#'' \<or> c = CHR '';'' then [] else [c])"
| "drop_marks [] = []"

definition command_name :: string where "command_name = ''dd-iac-scan''"

definition after_command :: "string \<Rightarrow> string option" where
  "after_command s =
     (let s' = dropWhile re_space (drop_marks s)
      in if has_prefix s' command_name then Some (drop (length command_name) s') else None)"

definition command_at :: "(string \<Rightarrow> string option) \<Rightarrow> bool \<Rightarrow> string \<Rightarrow> string option" where
  "command_at tail start s =
     (case (if start then Option.bind (after_command s) tail else None) of
        Some rest \<Rightarrow> Some rest
      | None \<Rightarrow>
          (case s of
             c # s' \<Rightarrow> if c = CHR 0x0A then Option.bind (after_command s') tail else None
           | [] \<Rightarrow> None))"

text \<open>The ends of the two expressions: \<open>\s*\<close>, and \<open>([^\n]*)\n\<close>\<close>

definition comment_tail :: "string \<Rightarrow> string option" where
  "comment_tail s = Some (dropWhile re_space s)"

definition line_tail :: "string \<Rightarrow> string option" where
  "line_tail s = (case dropWhile (\<lambda>c. c \<noteq> CHR 0x0A) s of _ # rest \<Rightarrow> Some rest | [] \<Rightarrow> None)"

lemma drop_marks_length: "length (drop_marks s) \<le> length s"
  by (induction s rule: drop_marks.induct) auto

lemma after_command_length: "after_command s = Some t \<Longrightarrow> length t < length s"
proof -
  assume "after_command s = Some t"
  then have t: "t = drop (length command_name) (dropWhile re_space (drop_marks s))"
    and p: "prefix command_name (dropWhile re_space (drop_marks s))"
    by (auto simp: after_command_def Let_def has_prefix_def split: if_splits)
  have "length command_name \<le> length (dropWhile re_space (drop_marks s))"
    using p by (rule prefix_length_le)
  moreover have "length (dropWhile re_space (drop_marks s)) \<le> length s"
    using length_dropWhile_le drop_marks_length order_trans by blast
  moreover have "0 < length command_name" by (simp add: command_name_def)
  ultimately show ?thesis unfolding t length_drop by linarith
qed

lemma command_at_length:
  assumes "command_at tail start s = Some t" and "\<And>u v. tail u = Some v \<Longrightarrow> length v \<le> length u"
  shows "length t < length s"
proof -
  have *: "Option.bind (after_command u) tail = Some t \<Longrightarrow> length t < length u" for u
    using after_command_length assms(2) by (fastforce simp: bind_eq_Some_conv)
  show ?thesis
    using assms(1) * [of s] * [of "tl s"]
    by (auto simp: command_at_def split: option.splits if_splits list.splits)
qed

lemma tails_length:
  "comment_tail u = Some v \<Longrightarrow> length v \<le> length u"
  "line_tail u = Some v \<Longrightarrow> length v \<le> length u"
proof -
  show "comment_tail u = Some v \<Longrightarrow> length v \<le> length u"
    using length_dropWhile_le by (auto simp: comment_tail_def)
  show "line_tail u = Some v \<Longrightarrow> length v \<le> length u"
    using length_dropWhile_le [of "\<lambda>c. c \<noteq> CHR 0x0A" u]
    by (auto simp: line_tail_def split: list.splits)
qed

text \<open>\<open>MatchString\<close>, \<open>FindString\<close> and \<open>ReplaceAllString\<close> of the empty string\<close>

fun find_command :: "(string \<Rightarrow> string option) \<Rightarrow> bool \<Rightarrow> string \<Rightarrow> string option" where
  "find_command tail start s =
     (case command_at tail start s of
        Some rest \<Rightarrow> Some (take (length s - length rest) s)
      | None \<Rightarrow> (case s of [] \<Rightarrow> None | c # s' \<Rightarrow> find_command tail False s'))"

declare find_command.simps [simp del]

function remove_commands :: "bool \<Rightarrow> string \<Rightarrow> string" where
  "remove_commands start s =
     (case command_at comment_tail start s of
        Some rest \<Rightarrow> remove_commands False rest
      | None \<Rightarrow> (case s of [] \<Rightarrow> [] | c # s' \<Rightarrow> c # remove_commands False s'))"
  by pat_completeness auto
termination
  by (relation "measure (\<lambda>(start, s). length s)")
    (auto dest: command_at_length [OF _ tails_length(1)])

declare remove_commands.simps [simp del]

definition is_command :: "string \<Rightarrow> bool" where
  "is_command comment \<longleftrightarrow> find_command comment_tail True comment \<noteq> None"

text \<open>\<open>KICSCommentRgxpYaml\<close>: its marks and first spaces can be left out of a match.\<close>

fun ends_with_command :: "string \<Rightarrow> bool" where
  "ends_with_command s \<longleftrightarrow>
     has_prefix s command_name \<and>
       (let s' = dropWhile re_space (drop (length command_name) s) in
        (has_prefix s' ''ignore-line'' \<and> list_all re_space (drop 11 s')) \<or>
        (has_prefix s' ''ignore-block'' \<and> list_all re_space (drop 12 s'))) \<or>
     (case s of [] \<Rightarrow> False | c # s' \<Rightarrow> ends_with_command s')"

declare ends_with_command.simps [simp del]

fun first_command :: "string list \<Rightarrow> CommentCommand option" where
  "first_command [] = None"
| "first_command (c # cs) =
     (if c = IgnoreLine then Some IgnoreLine
      else if c = IgnoreBlock then Some IgnoreBlock else first_command cs)"

text \<open>\<open>commands[0]\<close> is there: splitting gives at least one piece.\<close>

definition ProcessCommands :: "string list \<Rightarrow> CommentCommand option" where
  "ProcessCommands commands =
     (case first_command commands of Some c \<Rightarrow> Some c | None \<Rightarrow> at commands 0)"

definition isHelm :: "string \<Rightarrow> bool" where
  "isHelm comment = contains comment ''helm''"

definition comment_value :: "string \<Rightarrow> CommentCommand option" where
  "comment_value c =
     (let comment0 = to_lower c;
          comment = (if isHelm comment0
            then (case find_command line_tail True comment0 of Some res \<Rightarrow> res | None \<Rightarrow> comment0)
            else comment0)
      in if is_command comment
         then ProcessCommands (split_on (trim_set (trim_set (remove_commands True comment) [CHR 0x0A])
                [CHR 0x0D]) '' '')
         else Some comment)"

section \<open>Lines to ignore\<close>

text \<open>\<open>RemoveDuplicates\<close>: \<open>seen\<close> holds the lines met so far.\<close>

fun remove_seen :: "int list \<Rightarrow> int list \<Rightarrow> int list" where
  "remove_seen seen [] = []"
| "remove_seen seen (l # ls) =
     (if l \<in> set seen then remove_seen seen ls else l # remove_seen (l # seen) ls)"

definition RemoveDuplicates :: "int list \<Rightarrow> int list" where
  "RemoveDuplicates lines = remove_seen [] lines"

text \<open>\<open>make\<close> panics on a negative length.\<close>

definition Range_lines :: "int \<Rightarrow> int \<Rightarrow> int list option" where
  "Range_lines start end0 = (if end0 - start + 1 < 0 then None else Some [start .. end0])"

fun getNodeLastLine :: "ynode \<Rightarrow> int" where
  "getNodeLastLine (YNode k tag val line h f a cs) =
     (if cs = [] then line + count_newlines val
      else foldl (\<lambda>lastLine (l, lineContent).
             let lastLine' = (if l > lastLine then l else lastLine)
             in if lineContent > lastLine' then lineContent else lastLine')
           line (map (\<lambda>c. (yn_Line c, getNodeLastLine c)) cs))"

definition processLine :: "ykind \<Rightarrow> ynode \<Rightarrow> int \<Rightarrow> int list option" where
  "processLine kind node position = do {
     nodeToIgnore \<leftarrow> (if kind = ScalarNode then Some node else at (yn_Content node) position);
     Some [yn_Line nodeToIgnore - 1, yn_Line nodeToIgnore]
   }"

definition processBlock :: "ykind \<Rightarrow> ynode list \<Rightarrow> int \<Rightarrow> int list option" where
  "processBlock kind ns position = do {
     contentToIgnore \<leftarrow>
       (if kind = SequenceNode then map_option yn_Content (at ns position)
        else if position = 0 then Some ns
        else map_option yn_Content (at ns (position + 1)));
     node \<leftarrow> at ns position;
     first \<leftarrow> at contentToIgnore 0;
     last_node \<leftarrow> at contentToIgnore (int (length contentToIgnore) - 1);
     block \<leftarrow> Range_lines (yn_Line first) (getNodeLastLine last_node);
     Some ([yn_Line node, yn_Line node - 1] @ block)
   }"

definition getSeqLastLine :: "ynode \<Rightarrow> int" where
  "getSeqLastLine node = (if yn_Content node = [] then yn_Line node else yn_Line (last (yn_Content node)))"

text \<open>The loop that goes back to the node with the comment\<close>

fun foot_position :: "string \<Rightarrow> ynode list \<Rightarrow> nat \<Rightarrow> nat option" where
  "foot_position comment ns position = do {
     node \<leftarrow> at ns (int position);
     if yn_FootComment node = comment then Some position
     else case position of 0 \<Rightarrow> None | Suc p \<Rightarrow> foot_position comment ns p
   }"

declare foot_position.simps [simp del]

definition getFootComments :: "string \<Rightarrow> ynode \<Rightarrow> int \<Rightarrow> int \<Rightarrow> int list option" where
  "getFootComments comment node position commentsNumber =
     (if position < 0 then None else do {
        p \<leftarrow> foot_position comment (yn_Content node) (nat position);
        n0 \<leftarrow> at (yn_Content node) (int p);
        n1 \<leftarrow> at (yn_Content node) (int p + 1);
        let line = (if yn_Kind n1 = SequenceNode then getSeqLastLine n1 else yn_Line n0);
        Some (map (\<lambda>i. line + i) [1 .. commentsNumber])
      })"

definition processRegularLine :: "string \<Rightarrow> ynode \<Rightarrow> int \<Rightarrow> bool \<Rightarrow> int list option" where
  "processRegularLine comment node position isFooter =
     (if yn_Content node = [] then Some []
      else do {
        n \<leftarrow> at (yn_Content node) position;
        let line = yn_Line n;
        let commentsNumber = count_newlines comment + 1;
        if isFooter then getFootComments comment node position commentsNumber
        else Some ((if ends_with_command comment then [line] else []) @
                   map (\<lambda>i. line - i) [1 .. commentsNumber])
      })"

definition processCommentYAML ::
  "string \<Rightarrow> int \<Rightarrow> ynode \<Rightarrow> ykind \<Rightarrow> bool \<Rightarrow> int list option" where
  "processCommentYAML comment position node kind isFooter = do {
     com \<leftarrow> comment_value comment;
     if com = IgnoreLine then processLine kind node position
     else if com = IgnoreBlock then processBlock kind (yn_Content node) position
     else processRegularLine comment node position isFooter
   }"

fun child_comments :: "ynode \<Rightarrow> nat \<Rightarrow> ynode list \<Rightarrow> int list option" where
  "child_comments node i [] = Some []"
| "child_comments node i (c # cs) = do {
     foot \<leftarrow> (if yn_FootComment c \<noteq> [] \<and> i + 2 < length (yn_Content node)
              then processCommentYAML (yn_FootComment c) (int i + 2) node (yn_Kind node) True
              else Some []);
     head0 \<leftarrow> (if yn_HeadComment c = [] then Some []
              else processCommentYAML (yn_HeadComment c) (int i) node (yn_Kind node) False);
     rest \<leftarrow> child_comments node (Suc i) cs;
     Some (foot @ head0 @ rest)
   }"

text \<open>\<open>NewIgnore\<close> is a global list of lines, which \<open>build\<close> appends to.\<close>

type_synonym ignore = "int list"

definition ignore_build :: "ignore \<Rightarrow> int list \<Rightarrow> ignore" where
  "ignore_build ig lines = ig @ lines"

definition ignore_GetLines :: "ignore \<Rightarrow> int list" where
  "ignore_GetLines ig = RemoveDuplicates ig"

definition ignore_Reset :: "ignore \<Rightarrow> ignore" where
  "ignore_Reset ig = []"

definition ignoreCommentsYAML :: "ynode \<Rightarrow> ignore \<Rightarrow> ignore option" where
  "ignoreCommentsYAML node ig =
     (if yn_HeadComment node \<noteq> []
      then map_option (ignore_build ig)
             (processCommentYAML (yn_HeadComment node) 0 node (yn_Kind node) False)
      else map_option (ignore_build ig) (child_comments node 0 (yn_Content node)))"

section \<open>Line information\<close>

datatype line_object = LineObject (lo_Line: int) (lo_Arr: "(string \<times> line_object) list list")

type_synonym line_map = "(string, line_object) gomap"

text \<open>
  \<open>getLines\<close> and \<open>getSeqLines\<close>; \<open>get_pairs\<close> is the loop two by two, which panics on a key
  without a value.
\<close>

definition entry_line :: "ynode \<Rightarrow> ynode \<Rightarrow> int" where
  "entry_line key entry =
     (if yn_Kind entry = ScalarNode then yn_Line entry
      else if yn_Kind entry = MappingNode \<and> length (yn_Content entry) > 0
      then yn_Line (hd (yn_Content entry))
      else yn_Line key)"

function (sequential) getLines :: "ynode \<Rightarrow> int \<Rightarrow> line_map option"
  and getSeqLines :: "ynode list \<Rightarrow> line_map list option"
  and get_entries :: "ynode \<Rightarrow> ynode list \<Rightarrow> line_map list option"
  and get_pairs :: "ynode list \<Rightarrow> line_map \<Rightarrow> line_map option" where
  "getLines (YNode k tag val line h f a cs) def0 =
     (if k = SequenceNode
      then map_option (\<lambda>arr. [(''_kics__default'', LineObject def0 arr)]) (getSeqLines cs)
      else get_pairs cs [(''_kics__default'', LineObject def0 [])])"
| "getSeqLines [] = Some []"
| "getSeqLines (cont # conts) = do {
     m \<leftarrow> getLines cont (yn_Line cont);
     ms \<leftarrow> getSeqLines conts;
     Some (m # ms)
   }"
| "get_entries key [] = Some []"
| "get_entries key (entry # entries) = do {
     m \<leftarrow> getLines entry (entry_line key entry);
     ms \<leftarrow> get_entries key entries;
     Some (m # ms)
   }"
| "get_pairs [] lineMap = Some lineMap"
| "get_pairs [key] lineMap = None"
| "get_pairs (key # YNode k tag val line h f a entries # cs) lineMap = do {
     lineArr \<leftarrow> (if k = SequenceNode then get_entries key entries else Some []);
     get_pairs cs (gomap_put (''_kics_'' @ yn_Value key) (LineObject (yn_Line key) lineArr) lineMap)
   }"
  by pat_completeness auto
termination
  by (relation "measure (\<lambda>x. case x of
      Inl (Inl (n, d)) \<Rightarrow> size n | Inl (Inr ns) \<Rightarrow> size_list size ns
    | Inr (Inl (k, ns)) \<Rightarrow> size_list size ns | Inr (Inr (ns, m)) \<Rightarrow> size_list size ns)") auto

text \<open>What \<open>encoding/json\<close> makes of line information; an empty \<open>Arr\<close> is left out.\<close>

fun line_json :: "line_object \<Rightarrow> jval" where
  "line_json (LineObject n arr) =
     JObj ((''_kics_line'', JInt n) #
       (if arr = [] then []
        else [(''_kics_arr'', JList (map (\<lambda>m. JObj (map (\<lambda>(k, v). (k, line_json v)) m)) arr))]))"

definition lines_value :: "line_map \<Rightarrow> jval" where
  "lines_value m = JObj (map (\<lambda>(k, v). (k, line_json v)) m)"

section \<open>Documents\<close>

definition transformBoolScalarNode :: "string \<Rightarrow> bool" where
  "transformBoolScalarNode val \<longleftrightarrow> val = ''true'' \<or> val = ''True''"

definition scalarNodeResolver :: "ynode \<Rightarrow> jval" where
  "scalarNodeResolver node =
     (if yn_Tag node = ''!!bool'' then JBool (transformBoolScalarNode (yn_Value node))
      else if yn_Tag node = ''!!int''
      then (case atoi (yn_Value node) of None \<Rightarrow> JStr (yn_Value node) | Some v \<Rightarrow> JInt v)
      else if yn_Tag node = ''!!null'' then JNull
      else JStr (yn_Value node))"

definition MergeMaps :: "doc \<Rightarrow> doc \<Rightarrow> doc" where
  "MergeMaps m1 m2 = foldl (\<lambda>m (key, val). gomap_put key val m) m1 m2"

text \<open>
  \<open>unmarshal\<close>: line information is kept as the value JSON gives it. \<open>unmarshal_pairs\<close> is the
  loop two by two, in which only a scalar key makes the code look at the value, and
  \<open>unmarshal_value\<close> is its inner \<open>switch\<close>.
\<close>

function (sequential) unmarshal :: "ynode \<Rightarrow> ignore \<Rightarrow> (jval \<times> ignore) option"
  and unmarshal_list :: "ynode list \<Rightarrow> ignore \<Rightarrow> (jval list \<times> ignore) option"
  and unmarshal_value :: "ynode \<Rightarrow> ynode \<Rightarrow> doc \<Rightarrow> ignore \<Rightarrow> (doc \<times> ignore) option"
  and unmarshal_pairs :: "ynode list \<Rightarrow> doc \<Rightarrow> ignore \<Rightarrow> (doc \<times> ignore) option" where
  "unmarshal (YNode k tag val line h f a cs) ig = do {
     ig1 \<leftarrow> ignoreCommentsYAML (YNode k tag val line h f a cs) ig;
     if k = SequenceNode then do {
       (contentArray, ig2) \<leftarrow> unmarshal_list cs ig1;
       Some (JObj [(''playbooks'', JList contentArray)], ig2)
     }
     else if k = ScalarNode then Some (scalarNodeResolver (YNode k tag val line h f a cs), ig1)
     else map_option (\<lambda>(tmp, ig2). (JObj tmp, ig2)) (unmarshal_pairs cs [] ig1)
   }"
| "unmarshal_list [] ig = Some ([], ig)"
| "unmarshal_list (c # cs) ig = do {
     (v, ig1) \<leftarrow> unmarshal c ig;
     (vs, ig2) \<leftarrow> unmarshal_list cs ig1;
     Some (v # vs, ig2)
   }"
| "unmarshal_value key (YNode k tag val line h f a entries) tmp ig =
     (case k of
        ScalarNode \<Rightarrow>
          Some (gomap_put (yn_Value key) (scalarNodeResolver (YNode k tag val line h f a entries)) tmp, ig)
      | MappingNode \<Rightarrow> do {
          (tt, ig1) \<leftarrow> unmarshal (YNode k tag val line h f a entries) ig;
          lines \<leftarrow> getLines (YNode k tag val line h f a entries) (yn_Line key);
          case tt of
            JObj m \<Rightarrow> Some (gomap_put (yn_Value key)
                              (JObj (gomap_put ''_kics_lines'' (lines_value lines) m)) tmp, ig1)
          | _ \<Rightarrow> None
        }
      | SequenceNode \<Rightarrow> do {
          (contentArray, ig1) \<leftarrow> unmarshal_list entries ig;
          Some (gomap_put (yn_Value key) (JList contentArray) tmp, ig1)
        }
      | AliasNode \<Rightarrow>
          (case a of
             None \<Rightarrow> None
           | Some target \<Rightarrow> do {
               (t1, ig1) \<leftarrow> unmarshal target ig;
               tmp1 \<leftarrow> (case t1 of
                 JObj m \<Rightarrow> do {
                   lines \<leftarrow> getLines (YNode k tag val line h f a entries) (yn_Line key);
                   Some (MergeMaps tmp (gomap_put ''_kics_lines'' (lines_value lines) m))
                 }
               | _ \<Rightarrow> Some tmp);
               (t2, ig2) \<leftarrow> unmarshal target ig1;
               Some (case t2 of JStr v \<Rightarrow> gomap_put (yn_Value key) (JStr v) tmp1 | _ \<Rightarrow> tmp1, ig2)
             })
      | DocumentNode \<Rightarrow> Some (tmp, ig))"
| "unmarshal_pairs [] tmp ig = Some (tmp, ig)"
| "unmarshal_pairs [key] tmp ig = (if yn_Kind key = ScalarNode then None else Some (tmp, ig))"
| "unmarshal_pairs (key # v # cs) tmp ig = do {
     (tmp', ig') \<leftarrow> (if yn_Kind key = ScalarNode then unmarshal_value key v tmp ig else Some (tmp, ig));
     unmarshal_pairs cs tmp' ig'
   }"
  by pat_completeness auto
termination
  by (relation "measure (\<lambda>x. case x of
      Inl (Inl (n, ig)) \<Rightarrow> 2 * size n | Inl (Inr (ns, ig)) \<Rightarrow> 2 * size_list size ns
    | Inr (Inl (key, v, tmp, ig)) \<Rightarrow> 2 * size v + 1
    | Inr (Inr (ns, tmp, ig)) \<Rightarrow> 2 * size_list size ns)") auto

text \<open>
  \<open>UnmarshalYAML\<close>: \<open>via_json\<close> is the way of a map through \<open>json.Marshal\<close> and \<open>json.Unmarshal\<close>.
\<close>

definition UnmarshalYAML :: "(doc \<Rightarrow> doc) \<Rightarrow> ynode \<Rightarrow> ignore \<Rightarrow> ((string + doc) \<times> ignore) option" where
  "UnmarshalYAML via_json node ig = do {
     (dpc, ig1) \<leftarrow> unmarshal node ig;
     case dpc of
       JObj m \<Rightarrow> do {
         lines \<leftarrow> getLines node 0;
         Some (Inr (via_json (gomap_put ''_kics_lines'' (lines_value lines) m)), ig1)
       }
     | _ \<Rightarrow> Some (Inl ''failed to parse yaml content'', ig1)
   }"

definition GetIgnoreLines ::
  "(string \<Rightarrow> string + ynode) \<Rightarrow> FileMetadata \<Rightarrow> ignore \<Rightarrow> (int list \<times> ignore) option" where
  "GetIgnoreLines yaml_Unmarshal file ig =
     (if path_ext (f_FilePath file) \<in> set [''.yml'', ''.yaml''] then
        (case yaml_Unmarshal (f_OriginalData file) of
           Inl err \<Rightarrow> Some (f_LinesIgnore file, ignore_Reset ig)
         | Inr node \<Rightarrow>
             (if yn_Kind node = DocumentNode \<and> length (yn_Content node) = 1 then do {
                (v, ig1) \<leftarrow> unmarshal (hd (yn_Content node)) (ignore_Reset ig);
                Some (ignore_GetLines ig1, ig1)
              }
              else Some (f_LinesIgnore file, ignore_Reset ig)))
      else Some (f_LinesIgnore file, ig))"

section \<open>Well-formed trees\<close>

text \<open>
  What the parser promises of its trees: mappings have a value for each key, scalars and aliases
  have no children, an alias has its target. \<open>uncommented\<close> trees have no comment to process.
\<close>

fun well_formed :: "ynode \<Rightarrow> bool" where
  "well_formed (YNode k tag val line h f a cs) \<longleftrightarrow>
     k \<noteq> DocumentNode \<and> list_all well_formed cs \<and>
     (k = MappingNode \<longrightarrow> even (length cs)) \<and>
     (k = ScalarNode \<or> k = AliasNode \<longrightarrow> cs = []) \<and>
     (k = AliasNode \<longrightarrow> a \<noteq> None) \<and>
     (case a of None \<Rightarrow> True | Some n \<Rightarrow> well_formed n)"

fun uncommented :: "ynode \<Rightarrow> bool" where
  "uncommented (YNode k tag val line h f a cs) \<longleftrightarrow>
     h = [] \<and> f = [] \<and> list_all uncommented cs \<and>
     (case a of None \<Rightarrow> True | Some n \<Rightarrow> uncommented n)"

fun pairs_of :: "'a list \<Rightarrow> ('a \<times> 'a) list" where
  "pairs_of (x # y # xs) = (x, y) # pairs_of xs"
| "pairs_of _ = []"

abbreviation keys_of :: "ynode list \<Rightarrow> ynode list" where
  "keys_of cs \<equiv> map fst (pairs_of cs)"

lemma even_length_Cons: "even (length (x # xs)) \<Longrightarrow> \<exists>y ys. xs = y # ys \<and> even (length ys)"
  by (cases xs) auto

lemma ynode_split: "(\<forall>k tag val line h f a cs. n = YNode k tag val line h f a cs \<longrightarrow> P) \<Longrightarrow> P"
  by (cases n) blast

definition kics_key :: "ynode \<Rightarrow> string" where
  "kics_key key = ''_kics_'' @ yn_Value key"

lemma kics_key_inj: "kics_key k1 = kics_key k2 \<longleftrightarrow> yn_Value k1 = yn_Value k2"
  by (simp add: kics_key_def)

lemma get_pairs_step:
  assumes "get_pairs (key # v # cs) m = Some m'"
  obtains arr where
    "get_pairs cs (gomap_put (kics_key key) (LineObject (yn_Line key) arr) m) = Some m'"
  using assms by (cases v) (auto simp: bind_eq_Some_conv kics_key_def)

lemma get_pairs_other:
  "get_pairs cs m = Some m' \<Longrightarrow> x \<notin> kics_key ` set (keys_of cs) \<Longrightarrow> map_of m' x = map_of m x"
proof (induction cs arbitrary: m rule: pairs_of.induct)
  case (1 key v cs)
  then show ?case by (elim get_pairs_step) fastforce
qed auto

lemma get_pairs_keys:
  "get_pairs cs m = Some m' \<Longrightarrow> fst ` set m' = fst ` set m \<union> kics_key ` set (keys_of cs)"
proof (induction cs arbitrary: m rule: pairs_of.induct)
  case (1 key v cs)
  from "1.prems" obtain arr where
      m': "get_pairs cs (gomap_put (kics_key key) (LineObject (yn_Line key) arr) m) = Some m'"
    by (rule get_pairs_step)
  from "1.IH" [OF m'] show ?case by (simp add: gomap_put_keys)
qed auto

lemma get_pairs_key:
  "get_pairs cs m = Some m' \<Longrightarrow> distinct (map yn_Value (keys_of cs)) \<Longrightarrow> key \<in> set (keys_of cs) \<Longrightarrow>
     \<exists>arr. map_of m' (kics_key key) = Some (LineObject (yn_Line key) arr)"
proof (induction cs arbitrary: m rule: pairs_of.induct)
  case (1 key' v cs)
  from "1.prems"(1) obtain arr where
      m': "get_pairs cs (gomap_put (kics_key key') (LineObject (yn_Line key') arr) m) = Some m'"
    by (rule get_pairs_step)
  show ?case
  proof (cases "key \<in> set (keys_of cs)")
    case True
    then show ?thesis using "1.IH" [OF m'] "1.prems"(2) by simp
  next
    case False
    then have "key = key'" using "1.prems"(3) by simp
    moreover have "kics_key key' \<notin> kics_key ` set (keys_of cs)"
      using "1.prems"(2) by (force simp: kics_key_inj)
    ultimately show ?thesis using get_pairs_other [OF m'] by simp
  qed
qed auto

lemma getLines_total:
  "well_formed n \<Longrightarrow> getLines n d \<noteq> None"
  "list_all well_formed ns \<Longrightarrow> getSeqLines ns \<noteq> None"
  "list_all well_formed es \<Longrightarrow> get_entries key es \<noteq> None"
  "list_all well_formed cs \<Longrightarrow> even (length cs) \<Longrightarrow> get_pairs cs m \<noteq> None"
proof (induction n d and ns and key es and cs m rule: getLines_getSeqLines_get_entries_get_pairs.induct)
  case (1 k tag val line h f a cs def0)
  then show ?case by (cases k) (auto)
qed (auto simp: bind_eq_Some_conv)

section \<open>The last line of a node\<close>

fun descendants :: "ynode \<Rightarrow> ynode list" where
  "descendants (YNode k tag val line h f a cs) =
     YNode k tag val line h f a cs # concat (map descendants cs)"

definition end_line :: "ynode \<Rightarrow> int" where
  "end_line n = (if yn_Content n = [] then yn_Line n + count_newlines (yn_Value n) else yn_Line n)"

lemma last_line_fold:
  fixes l :: int
  defines "f \<equiv> \<lambda>lastLine (l, lineContent).
             let lastLine' = (if l > lastLine then l else lastLine)
             in if lineContent > lastLine' then lineContent else lastLine'"
  shows "foldl f l ps = Max (insert l (fst ` set ps \<union> snd ` set ps))"
proof (induction ps arbitrary: l)
  case (Cons p ps)
  have "f l p = max l (max (fst p) (snd p))" by (cases p) (auto simp: f_def)
  then have "foldl f l (p # ps) =
      Max (insert (max l (max (fst p) (snd p))) (fst ` set ps \<union> snd ` set ps))"
    using Cons by simp
  also have "\<dots> = Max (insert l (fst ` set (p # ps) \<union> snd ` set (p # ps)))"
  proof (cases "set ps = {}")
    case False
    then show ?thesis by (simp add: max.assoc max.left_commute Un_insert_right)
  qed (simp add: max.assoc max.left_commute)
  finally show ?case .
qed simp

lemma last_line_children:
  assumes "cs \<noteq> []"
  shows "getNodeLastLine (YNode k tag val line h f a cs) =
    Max (insert line (yn_Line ` set cs \<union> getNodeLastLine ` set cs))"
  using assms by (simp add: last_line_fold image_image del: foldl_map)

lemma end_line_ge: "yn_Line n \<le> end_line n"
  by (simp add: end_line_def count_newlines_def)

lemma descendants_self: "n \<in> set (descendants n)"
  by (cases n) simp

lemma last_line_bounds:
  "(\<forall>d \<in> set (descendants n). end_line d \<le> getNodeLastLine n) \<and>
   getNodeLastLine n \<in> end_line ` set (descendants n)"
proof (induction n rule: getNodeLastLine.induct)
  case (1 k tag val line h f a cs)
  let ?n = "YNode k tag val line h f a cs"
  show ?case
  proof (cases "cs = []")
    case False
    let ?S = "insert line (yn_Line ` set cs \<union> getNodeLastLine ` set cs)"
    have last: "getNodeLastLine ?n = Max ?S" using False by (rule last_line_children)
    have own: "end_line ?n = line" using False by (simp add: end_line_def)
    have child: "(\<forall>d \<in> set (descendants c). end_line d \<le> getNodeLastLine c) \<and>
        getNodeLastLine c \<in> end_line ` set (descendants c)" if "c \<in> set cs" for c
      using "1.IH" False that by blast
    have up: "end_line d \<le> getNodeLastLine ?n" if "d \<in> set (descendants ?n)" for d
    proof -
      from that consider "d = ?n" | c where "c \<in> set cs" "d \<in> set (descendants c)" by auto
      then show ?thesis
      proof cases
        case 1
        have "line \<le> Max ?S" by (intro Max_ge) auto
        then show ?thesis unfolding last 1 own .
      next
        case 2
        then have "end_line d \<le> getNodeLastLine c" using child by blast
        also have "\<dots> \<le> Max ?S" using 2(1) by (intro Max_ge) auto
        finally show ?thesis unfolding last .
      qed
    qed
    have "Max ?S \<in> ?S" by (rule Max_in) auto
    then consider "Max ?S = line" | c where "c \<in> set cs" "Max ?S = yn_Line c"
      | c where "c \<in> set cs" "Max ?S = getNodeLastLine c" by auto
    then have "getNodeLastLine ?n \<in> end_line ` set (descendants ?n)"
    proof cases
      case 1
      then show ?thesis using last own by (intro image_eqI [of _ _ ?n]) auto
    next
      case (2 c)
      have "yn_Line c \<le> getNodeLastLine c"
        using end_line_ge [of c] child [OF 2(1)] descendants_self [of c] by fastforce
      moreover have "getNodeLastLine c \<le> Max ?S" using 2(1) by (intro Max_ge) auto
      ultimately have "Max ?S = getNodeLastLine c" using 2(2) by simp
      then show ?thesis using child [OF 2(1)] 2(1) last by auto
    next
      case (3 c)
      then show ?thesis using child [OF 3(1)] last by auto
    qed
    then show ?thesis using up by blast
  qed (simp add: end_line_def)
qed

section \<open>What a document holds\<close>

lemma uncommented_children:
  "list_all uncommented cs \<Longrightarrow> child_comments node i cs = Some []"
proof (induction cs arbitrary: i)
  case (Cons c cs)
  then show ?case by (cases c) auto
qed simp

lemma uncommented_ignore: "uncommented n \<Longrightarrow> ignoreCommentsYAML n ig = Some ig"
  by (cases n) (simp add: ignoreCommentsYAML_def uncommented_children ignore_build_def)

declare unmarshal.simps [simp del]

lemma unmarshal_total:
  "well_formed n \<Longrightarrow> uncommented n \<Longrightarrow>
     \<exists>v. unmarshal n ig = Some (v, ig) \<and> (yn_Kind n \<noteq> ScalarNode \<longrightarrow> (\<exists>m. v = JObj m))"
  "list_all well_formed ns \<Longrightarrow> list_all uncommented ns \<Longrightarrow> \<exists>vs. unmarshal_list ns ig = Some (vs, ig)"
  "well_formed v \<Longrightarrow> uncommented v \<Longrightarrow> \<exists>m. unmarshal_value key v tmp ig = Some (m, ig)"
  "list_all well_formed cs \<Longrightarrow> list_all uncommented cs \<Longrightarrow> even (length cs) \<Longrightarrow>
     \<exists>m. unmarshal_pairs cs tmp ig = Some (m, ig)"
proof (induction n ig and ns ig and key v tmp ig and cs tmp ig
    rule: unmarshal_unmarshal_list_unmarshal_value_unmarshal_pairs.induct)
  case (1 k tag val line h f a cs ig)
  have "ignoreCommentsYAML (YNode k tag val line h f a cs) ig = Some ig"
    using "1.prems"(2) by (rule uncommented_ignore)
  with 1 show ?case by (cases k) (auto simp: unmarshal.simps)
next
  case (3 c cs ig)
  then obtain v where v: "unmarshal c ig = Some (v, ig)" by auto
  have "\<exists>vs. unmarshal_list cs ig = Some (vs, ig)"
    by (rule "3.IH"(2) [OF v refl]) (use "3.prems" in simp_all)
  with v show ?case by auto
next
  case (4 key k tag val line h f a entries tmp ig)
  let ?v = "YNode k tag val line h f a entries"
  obtain lines where lines: "getLines ?v (yn_Line key) = Some lines"
    using getLines_total(1) [OF "4.prems"(1), of "yn_Line key"] by blast
  show ?case
  proof (cases k)
    case AliasNode
    then obtain target where t: "a = Some target" "well_formed target" "uncommented target"
      using "4.prems" by (cases a) auto
    then obtain x where x: "unmarshal target ig = Some (x, ig)"
      using "4.IH"(3) [OF AliasNode] by blast
    then show ?thesis using AliasNode t lines by (cases x) auto
  qed (use 4 lines in auto)
next
  case (7 key v cs tmp ig)
  then show ?case by (cases "yn_Kind key = ScalarNode") auto
qed auto

lemma unmarshal_object:
  "unmarshal n ig = Some (v, ig') \<Longrightarrow> yn_Kind n \<noteq> ScalarNode \<Longrightarrow> \<exists>m. v = JObj m"
  by (cases n) (auto simp: unmarshal.simps bind_eq_Some_conv split: if_splits)

text \<open>\<open>denotes key v x\<close>: \<open>x\<close> is what the value \<open>v\<close> of \<open>key\<close> becomes.\<close>

definition denotes :: "ynode \<Rightarrow> ynode \<Rightarrow> jval \<Rightarrow> bool" where
  "denotes key v x \<longleftrightarrow>
     (yn_Kind v = ScalarNode \<and> x = scalarNodeResolver v) \<or>
     (yn_Kind v = MappingNode \<and>
       (\<exists>ig ig' m lines. unmarshal v ig = Some (JObj m, ig') \<and> getLines v (yn_Line key) = Some lines \<and>
          x = JObj (gomap_put ''_kics_lines'' (lines_value lines) m))) \<or>
     (yn_Kind v = SequenceNode \<and>
       (\<exists>ig ig' vs. unmarshal_list (yn_Content v) ig = Some (vs, ig') \<and> x = JList vs))"

lemma unmarshal_value_denotes:
  assumes "unmarshal_value key v tmp ig = Some (tmp', ig1)"
    and "yn_Kind v \<in> {ScalarNode, MappingNode, SequenceNode}"
  shows "\<exists>x. denotes key v x \<and> tmp' = gomap_put (yn_Value key) x tmp"
proof -
  obtain k tag val line h f a es where v: "v = YNode k tag val line h f a es" by (cases v)
  show ?thesis
  proof (cases k)
    case SequenceNode
    then show ?thesis using assms unfolding v denotes_def by (auto simp: bind_eq_Some_conv)
  next
    case MappingNode
    let ?v = "YNode MappingNode tag val line h f a es"
    obtain tt ig2 where t: "unmarshal ?v ig = Some (tt, ig2)"
      using assms(1) MappingNode v by (cases "unmarshal ?v ig") auto
    obtain lines where l: "getLines ?v (yn_Line key) = Some lines"
      using assms(1) MappingNode v t
      by (cases "getLines ?v (yn_Line key)") (auto simp del: getLines.simps)
    have c: "(case tt of JObj m \<Rightarrow> Some (gomap_put (yn_Value key)
         (JObj (gomap_put ''_kics_lines'' (lines_value lines) m)) tmp, ig2) | _ \<Rightarrow> None) = Some (tmp', ig1)"
      using assms(1) MappingNode v t l by (simp del: getLines.simps)
    from c obtain m where m: "tt = JObj m" by (cases tt) auto
    then have "tmp' = gomap_put (yn_Value key) (JObj (gomap_put ''_kics_lines'' (lines_value lines) m)) tmp"
      using c by simp
    with t l m show ?thesis using MappingNode unfolding denotes_def v by (auto simp del: getLines.simps)
  qed (use assms in \<open>auto simp: v denotes_def\<close>)
qed

lemma unmarshal_pairs_step:
  assumes "unmarshal_pairs (key # v # cs) tmp ig = Some (m', ig')" and "yn_Kind key = ScalarNode"
    and "yn_Kind v \<in> {ScalarNode, MappingNode, SequenceNode}"
  shows "\<exists>x ig1. denotes key v x \<and>
    unmarshal_pairs cs (gomap_put (yn_Value key) x tmp) ig1 = Some (m', ig')"
proof -
  from assms(1,2) obtain tmp' ig1 where "unmarshal_value key v tmp ig = Some (tmp', ig1)"
      "unmarshal_pairs cs tmp' ig1 = Some (m', ig')"
    by (auto simp: bind_eq_Some_conv)
  then show ?thesis using unmarshal_value_denotes [OF _ assms(3)] by blast
qed

lemma unmarshal_pairs_other:
  "unmarshal_pairs cs tmp ig = Some (m', ig') \<Longrightarrow>
   \<forall>(k, v) \<in> set (pairs_of cs). yn_Kind k = ScalarNode \<and> yn_Kind v \<in> {ScalarNode, MappingNode, SequenceNode} \<Longrightarrow>
   x \<notin> yn_Value ` set (keys_of cs) \<Longrightarrow> even (length cs) \<Longrightarrow> map_of m' x = map_of tmp x"
proof (induction cs arbitrary: tmp ig rule: pairs_of.induct)
  case (1 key v cs)
  from unmarshal_pairs_step [OF "1.prems"(1)] "1.prems"(2) obtain y ig1 where
      s: "unmarshal_pairs cs (gomap_put (yn_Value key) y tmp) ig1 = Some (m', ig')" by auto
  from "1.IH" [OF s] "1.prems" show ?case by auto
qed auto

lemma unmarshal_pairs_key:
  "unmarshal_pairs cs tmp ig = Some (m', ig') \<Longrightarrow>
   \<forall>(k, v) \<in> set (pairs_of cs). yn_Kind k = ScalarNode \<and> yn_Kind v \<in> {ScalarNode, MappingNode, SequenceNode} \<Longrightarrow>
   distinct (map yn_Value (keys_of cs)) \<Longrightarrow> even (length cs) \<Longrightarrow> (key, v) \<in> set (pairs_of cs) \<Longrightarrow>
   \<exists>x. denotes key v x \<and> map_of m' (yn_Value key) = Some x"
proof (induction cs arbitrary: tmp ig rule: pairs_of.induct)
  case (1 key' v' cs)
  from unmarshal_pairs_step [OF "1.prems"(1)] "1.prems"(2) obtain y ig1 where d: "denotes key' v' y" and
      s: "unmarshal_pairs cs (gomap_put (yn_Value key') y tmp) ig1 = Some (m', ig')" by auto
  show ?case
  proof (cases "(key, v) \<in> set (pairs_of cs)")
    case True
    then show ?thesis using "1.IH" [OF s] "1.prems" by auto
  next
    case False
    then have e: "key = key'" "v = v'" using "1.prems"(5) by auto
    have "yn_Value key' \<notin> yn_Value ` set (keys_of cs)" using "1.prems"(3) by auto
    then have "map_of m' (yn_Value key') = Some y"
      using unmarshal_pairs_other [OF s] "1.prems"(2,4) by auto
    then show ?thesis using d e by blast
  qed
qed auto

section \<open>Properties\<close>

definition scalar_node :: "string \<Rightarrow> int \<Rightarrow> ynode" where
  "scalar_node val line = YNode ScalarNode ''!!str'' val line [] [] None []"

definition mapping_node :: "int \<Rightarrow> ynode list \<Rightarrow> ynode" where
  "mapping_node line cs = YNode MappingNode ''!!map'' [] line [] [] None cs"

definition example_yaml :: ynode where
  "example_yaml = mapping_node 1 [scalar_node ''kind'' 1, scalar_node ''Pod'' 1,
     scalar_node ''spec'' 2, mapping_node 3 [scalar_node ''host'' 3, scalar_node ''x'' 3]]"

lemmas example_yaml_defs = scalar_node_def mapping_node_def example_yaml_def

text \<open>The line information of a mapping with different keys is complete: every key has an
  entry with its own line, the default entry has the given line unless a key is named
  \<open>_default\<close>, and there is no other entry.\<close>

lemma mapping_lines_recorded:
  assumes "well_formed n" and "yn_Kind n = MappingNode" and "distinct (map yn_Value (keys_of (yn_Content n)))"
  shows "\<exists>m. getLines n def0 = Some m \<and>
    (\<forall>key \<in> set (keys_of (yn_Content n)).
       \<exists>arr. map_of m (''_kics_'' @ yn_Value key) = Some (LineObject (yn_Line key) arr)) \<and>
    (''_default'' \<notin> yn_Value ` set (keys_of (yn_Content n)) \<longrightarrow>
       map_of m ''_kics__default'' = Some (LineObject def0 [])) \<and>
    fst ` set m = insert ''_kics__default''
      ((\<lambda>key. ''_kics_'' @ yn_Value key) ` set (keys_of (yn_Content n)))"
proof -
  obtain m where m: "getLines n def0 = Some m" using getLines_total(1) [OF assms(1)] by blast
  then have p: "get_pairs (yn_Content n) [(''_kics__default'', LineObject def0 [])] = Some m"
    using assms(2) by (cases n) auto
  have k: "kics_key = (\<lambda>key. ''_kics_'' @ yn_Value key)" by (simp add: kics_key_def fun_eq_iff)
  have d: "map_of m ''_kics__default'' = Some (LineObject def0 [])"
    if "''_default'' \<notin> yn_Value ` set (keys_of (yn_Content n))"
  proof -
    have "''_kics__default'' \<notin> kics_key ` set (keys_of (yn_Content n))"
      using that by (auto simp: kics_key_def)
    from get_pairs_other [OF p this] show ?thesis by simp
  qed
  have "fst ` set m = insert ''_kics__default'' (kics_key ` set (keys_of (yn_Content n)))"
    using get_pairs_keys [OF p] by simp
  with m d get_pairs_key [OF p assms(3)] show ?thesis unfolding k by blast
qed



text \<open>The last line of a node is the greatest line at which one of its descendants ends, where
  a node without children ends as many lines below its own as its value has line breaks.\<close>

lemma last_line_of_descendants:
  "getNodeLastLine n = Max (end_line ` set (descendants n))"
  using last_line_bounds [of n] by (intro Max_eqI [symmetric]) auto

text \<open>An \<open>ignore-block\<close> comment above a scalar entry of a sequence ends in a panic: the block
  of a node without children is looked for at its first child.\<close>

lemma ignore_block_on_scalar_panics:
  assumes "yn_Kind n = ScalarNode" and "yn_Content n = []" and "yn_HeadComment n \<noteq> []"
    and "comment_value (yn_HeadComment n) = Some IgnoreBlock" and "n \<in> set entries"
  shows "unmarshal_list entries ig = None"
proof -
  have "ignoreCommentsYAML n ig = None" for ig
    using assms(1-4) by (auto simp: ignoreCommentsYAML_def processCommentYAML_def processBlock_def
        IgnoreBlock_def IgnoreLine_def at_def)
  then have "unmarshal n ig = None" for ig by (cases n) (simp add: unmarshal.simps)
  then show ?thesis
    using assms(5) by (induction entries arbitrary: ig) (auto simp: bind_eq_None_conv)
qed

end
