(* ===== verification/Helpers.thy ===== *)
theory Helpers
  imports Similarity "HOL-Library.Word"
begin

text \<open>
  The small helpers of \<open>pkg/utils\<close>: membership in slices (\<open>contains.go\<close>), the lines of a file
  (\<open>line_counter.go\<close>), the names of temporary directories (\<open>random.go\<close>, on 32-bit words) and the
  shape of a UUID (\<open>validations.go\<close>).
\<close>

section \<open>Membership\<close>

definition Contains :: "'a \<Rightarrow> 'a list \<Rightarrow> bool" where
  "Contains target xs = list_ex (\<lambda>x. x = target) xs"

definition ContainsInString :: "string \<Rightarrow> string list \<Rightarrow> bool" where
  "ContainsInString target xs = list_ex (\<lambda>x. contains x target) xs"

lemma Contains_iff [simp]: "Contains x xs \<longleftrightarrow> x \<in> set xs"
  by (auto simp: Contains_def list_ex_iff)

section \<open>Lines of a file\<close>

text \<open>
  \<open>bufio.Scanner\<close> with its default buffer: a line ends at a line feed or at the end of the file,
  an empty last line does not count, and a line that does not fit in 64 KB with its line feed
  ends the scan with an error.
\<close>

definition MaxScanTokenSize :: int where "MaxScanTokenSize = 65536"

fun scan_lines :: "int \<Rightarrow> string \<Rightarrow> nat \<Rightarrow> int \<Rightarrow> string + int" where
  "scan_lines limit [] cur n = (if limit \<le> int cur then Inl ''bufio.Scanner: token too long''
                                else if cur = 0 then Inr n else Inr (n + 1))"
| "scan_lines limit (c # cs) cur n =
     (if limit \<le> int cur then Inl ''bufio.Scanner: token too long''
      else if c = CHR 0x0A then scan_lines limit cs 0 (n + 1)
      else scan_lines limit cs (Suc cur) n)"

definition LineCounter :: "(string \<Rightarrow> string + string) \<Rightarrow> string \<Rightarrow> int \<times> string option" where
  "LineCounter open_file path =
     (case open_file (Clean path) of
        Inl err \<Rightarrow> (0, Some err)
      | Inr bytes \<Rightarrow>
          (case scan_lines MaxScanTokenSize bytes 0 0 of
             Inl err \<Rightarrow> (0, Some err) | Inr n \<Rightarrow> (n, None)))"

text \<open>The lines a text has, as \<open>wc\<close> counts them with a last line that is not ended.\<close>

definition line_count :: "string \<Rightarrow> nat" where
  "line_count s =
     length (split_on s [CHR 0x0A]) - (if last (split_on s [CHR 0x0A]) = [] then 1 else 0)"

subsection \<open>Lemmas on lines\<close>

lemma scan_lines_split:
  "scan_lines limit s cur n =
     (case split_on s [CHR 0x0A] of
        l # ls \<Rightarrow>
          (if limit \<le> int (cur + length l) \<or> (\<exists>x \<in> set ls. limit \<le> int (length x))
           then Inl ''bufio.Scanner: token too long''
           else if ls = [] then Inr (n + (if cur + length l = 0 then 0 else 1))
           else Inr (n + 1 + int (length ls) - (if last ls = [] then 1 else 0)))
      | [] \<Rightarrow> Inr 0)"
proof (induction s arbitrary: cur n)
  case Nil
  then show ?case by (subst split_on.simps) simp
next
  case (Cons c s)
  obtain l ls where s: "split_on s [CHR 0x0A] = l # ls"
    by (metis split_on_nonempty neq_Nil_conv)
  show ?case
  proof (cases "c = CHR 0x0A")
    case True
    show ?thesis using Cons.IH [of 0 "n + 1"] True
      by (auto simp: split_on_single_Cons s)
  next
    case False
    show ?thesis using Cons.IH [of "Suc cur" n] False
      by (auto simp: split_on_single_Cons s)
  qed
qed

lemma line_counter_counts:
  assumes "open_file (Clean path) = Inr bytes"
  shows "LineCounter open_file path =
    (if \<exists>l \<in> set (split_on bytes [CHR 0x0A]). MaxScanTokenSize \<le> int (length l)
     then (0, Some ''bufio.Scanner: token too long'') else (int (line_count bytes), None))"
proof -
  obtain l ls where "split_on bytes [CHR 0x0A] = l # ls"
    by (metis split_on_nonempty neq_Nil_conv)
  then show ?thesis
    using assms by (auto simp: LineCounter_def scan_lines_split line_count_def of_nat_diff)
qed

section \<open>Names of temporary files\<close>

definition tempDirFormat :: "32 word" where "tempDirFormat = 1000000000"

definition reseed :: "int \<Rightarrow> int \<Rightarrow> 32 word" where
  "reseed nanos pid = word_of_int (nanos + pid)"

definition NextRandom :: "int \<Rightarrow> int \<Rightarrow> 32 word \<Rightarrow> string \<times> 32 word" where
  "NextRandom nanos pid rand0 =
     (let r = (if rand0 = 0 then reseed nanos pid else rand0);
          r' = r * 1664525 + 1013904223
      in (drop 1 (itoa (uint (tempDirFormat + r' mod tempDirFormat))), r'))"

text \<open>The state wraps around; the name has nine digits, those of the state modulo \<open>10 ^ 9\<close>.\<close>

lemma show_nat_length: "10 ^ k \<le> m \<Longrightarrow> m < 10 ^ Suc k \<Longrightarrow> length (show_nat m) = Suc k"
proof (induction k arbitrary: m)
  case 0
  then have "m < 10" by simp
  then show ?case by (subst show_nat.simps) simp
next
  case (Suc k)
  have "10 ^ k \<le> m div 10" "m div 10 < 10 ^ Suc k" using Suc.prems by auto
  then have "length (show_nat (m div 10)) = Suc k" by (rule Suc.IH)
  moreover have "(1::nat) \<le> 10 ^ k" by simp
  then have "\<not> m < 10" using Suc.prems(1) by (simp only: power_Suc)
  ultimately show ?case by (subst show_nat.simps) simp
qed

lemma show_nat_steps:
  "n < 10 \<Longrightarrow> show_nat n = [digit_char n]"
  "10 \<le> n \<Longrightarrow> show_nat n = show_nat (n div 10) @ [digit_char (n mod 10)]"
  by (subst show_nat.simps, simp)+

lemma NextRandom_value:
  "fst (NextRandom nanos pid rand0) = drop 1 (show_nat (10 ^ 9 + unat (snd (NextRandom nanos pid rand0)) mod 10 ^ 9))"
proof -
  let ?r = "snd (NextRandom nanos pid rand0)"
  have t: "unat tempDirFormat = 10 ^ 9" by (simp add: tempDirFormat_def)
  have m: "unat (?r mod tempDirFormat) = unat ?r mod 10 ^ 9"
    by (simp only: unat_mod t)
  have "unat tempDirFormat + unat (?r mod tempDirFormat) < 2 ^ 32"
  proof -
    have "unat ?r mod 10 ^ 9 < 10 ^ 9" by simp
    then show ?thesis unfolding m t by simp
  qed
  then have "unat (tempDirFormat + ?r mod tempDirFormat) = 10 ^ 9 + unat ?r mod 10 ^ 9"
    using unat_add_lem [of "tempDirFormat" "?r mod tempDirFormat"] m t by simp
  then show ?thesis
    by (simp add: NextRandom_def Let_def itoa_def)
qed

lemma next_random_digits:
  "length (fst (NextRandom nanos pid rand0)) = 9 \<and>
     list_all (\<lambda>c. \<exists>d < 10. c = digit_char d) (fst (NextRandom nanos pid rand0))"
proof -
  let ?m = "10 ^ 9 + unat (snd (NextRandom nanos pid rand0)) mod 10 ^ 9"
  have "unat (snd (NextRandom nanos pid rand0)) mod 10 ^ 9 < 10 ^ 9" by simp
  then have "length (show_nat ?m) = Suc 9" by (intro show_nat_length) simp_all
  then show ?thesis
    unfolding NextRandom_value using show_nat_digits [of _ ?m]
    by (auto simp: list_all_iff dest: in_set_dropD)
qed

section \<open>UUIDs\<close>

definition hex_char :: "char \<Rightarrow> bool" where
  "hex_char c \<longleftrightarrow>
     (let n = of_char c :: nat in
      48 \<le> n \<and> n \<le> 57 \<or> 97 \<le> n \<and> n \<le> 102 \<or> 65 \<le> n \<and> n \<le> 70)"

text \<open>Between a hexadecimal digit and a dash there is always a word boundary.\<close>

definition ValidateUUID :: "string \<Rightarrow> bool" where
  "ValidateUUID s \<longleftrightarrow>
     (let parts = split_on s ''-''
      in map length parts = [8, 4, 4, 4, 12] \<and> list_all (list_all hex_char) parts)"

end
