(* ===== verification/Remediation.thy ===== *)
theory Remediation
  imports Service Helpers
begin

text \<open>
  \<open>pkg/remediation\<close>: the fixes a report proposes, collected for each file, written into the
  file one by one, each after a scan of the fixed text has found that the result is gone. The
  environment holds the file system with its operations, the parsers, OPA (in \<open>re_engine\<close>) and
  the JSON of a replacement; an operation on the file system returns an error or none.
\<close>

section \<open>The records\<close>

record ReportFile =
  rl_FilePath :: string
  rl_Line :: int
  rl_Remediation :: string
  rl_RemediationType :: string
  rl_SimilarityID :: string
  rl_SearchKey :: string
  rl_ExpectedValue :: string
  rl_ActualValue :: string

record ReportQuery =
  rq_Files :: "ReportFile list"
  rq_QueryID :: string

record Report =
  rp_Queries :: "ReportQuery list"

record Remediation =
  rm_Line :: int
  rm_Remediation :: string
  rm_SimilarityID :: string
  rm_QueryID :: string
  rm_SearchKey :: string
  rm_ExpectedValue :: string
  rm_ActualValue :: string

record RemediationSet =
  rset_Replacement :: "Remediation list"
  rset_Addition :: "Remediation list"

definition empty_set :: RemediationSet where
  "empty_set = \<lparr>rset_Replacement = [], rset_Addition = []\<rparr>"

record ReplacementInfo =
  ri_Before :: string
  ri_After :: string

section \<open>Which fixes\<close>

text \<open>Without a selection \<open>include[0]\<close> panics, once there is a fix to select.\<close>

definition shouldRemediate :: "ReportFile \<Rightarrow> string list \<Rightarrow> bool option" where
  "shouldRemediate file' includes =
     (if rl_Remediation file' \<noteq> [] \<and> rl_RemediationType file' \<noteq> [] then do {
        i0 \<leftarrow> at includes 0;
        Some ((i0 = ''all'' \<or> Contains (rl_SimilarityID file') includes) \<and>
              path_ext (rl_FilePath file') = ''.tf'')
      } else Some False)"

definition file_of_vuln :: "Vulnerability \<Rightarrow> ReportFile" where
  "file_of_vuln vuln =
     \<lparr>rl_FilePath = v_FileName vuln, rl_Line = v_Line vuln, rl_Remediation = v_Remediation vuln,
      rl_RemediationType = v_RemediationType vuln, rl_SimilarityID = v_SimilarityID vuln,
      rl_SearchKey = [], rl_ExpectedValue = [], rl_ActualValue = []\<rparr>"

definition remediation_of :: "Vulnerability \<Rightarrow> Remediation" where
  "remediation_of vuln =
     \<lparr>rm_Line = v_Line vuln, rm_Remediation = v_Remediation vuln,
      rm_SimilarityID = v_SimilarityID vuln, rm_QueryID = v_QueryID vuln,
      rm_SearchKey = v_SearchKey vuln, rm_ExpectedValue = v_KeyExpectedValue vuln,
      rm_ActualValue = v_KeyActualValue vuln\<rparr>"

definition set_of_vuln :: "Vulnerability \<Rightarrow> RemediationSet" where
  "set_of_vuln vuln =
     \<lparr>rset_Replacement = (if v_RemediationType vuln = ''replacement'' then [remediation_of vuln] else []),
      rset_Addition = (if v_RemediationType vuln = ''addition'' then [remediation_of vuln] else [])\<rparr>"

definition add_to_sets ::
  "Vulnerability \<Rightarrow> (string, RemediationSet) gomap \<Rightarrow> (string, RemediationSet) gomap" where
  "add_to_sets vuln sets =
     (case map_of sets (v_FileName vuln) of
        None \<Rightarrow> gomap_put (v_FileName vuln) (set_of_vuln vuln) sets
      | Some updated \<Rightarrow>
          gomap_put (v_FileName vuln)
            \<lparr>rset_Replacement = rset_Replacement updated @ rset_Replacement (set_of_vuln vuln),
             rset_Addition = rset_Addition updated @ rset_Addition (set_of_vuln vuln)\<rparr> sets)"

text \<open>The number is \<open>SelectedRemediationNumber\<close>.\<close>

fun sets_from_vulns ::
  "Vulnerability list \<Rightarrow> string list \<Rightarrow> (string, RemediationSet) gomap \<Rightarrow> int \<Rightarrow>
     ((string, RemediationSet) gomap \<times> int) option" where
  "sets_from_vulns [] includes sets n = Some (sets, n)"
| "sets_from_vulns (vuln # vulns) includes sets n = do {
     selected \<leftarrow> shouldRemediate (file_of_vuln vuln) includes;
     if selected then sets_from_vulns vulns includes (add_to_sets vuln sets) (n + 1)
     else sets_from_vulns vulns includes sets n
   }"

definition GetRemediationSetsFromVulns ::
  "Vulnerability list \<Rightarrow> string list \<Rightarrow> int \<Rightarrow> ((string, RemediationSet) gomap \<times> int) option" where
  "GetRemediationSetsFromVulns vulns includes n = sets_from_vulns vulns includes [] n"

definition getVulns :: "Report \<Rightarrow> Vulnerability list" where
  "getVulns results =
     concat (map (\<lambda>query. map (\<lambda>file'.
        zero_vulnerability\<lparr>v_FileName := rl_FilePath file', v_Line := rl_Line file',
          v_Remediation := rl_Remediation file', v_RemediationType := rl_RemediationType file',
          v_SimilarityID := rl_SimilarityID file', v_QueryID := rq_QueryID query,
          v_SearchKey := rl_SearchKey file', v_KeyExpectedValue := rl_ExpectedValue file',
          v_KeyActualValue := rl_ActualValue file'\<rparr>) (rq_Files query)) (rp_Queries results))"

definition GetRemediationSets ::
  "Report \<Rightarrow> string list \<Rightarrow> int \<Rightarrow> ((string, RemediationSet) gomap \<times> int) option" where
  "GetRemediationSets results includes n =
     (let vulns = getVulns results
      in if length vulns > 0 then GetRemediationSetsFromVulns vulns includes n else Some ([], n))"

section \<open>Fixing the lines\<close>

text \<open>\<open>strings.Replace\<close> with one replacement: an empty text is found at the beginning.\<close>

definition replace_first :: "string \<Rightarrow> string \<Rightarrow> string \<Rightarrow> string" where
  "replace_first s old new = (if old = [] then new @ s else go_replace s old new 1)"

text \<open>
  \<open>replacement\<close> writes into the slice it is given: the result is the remediated lines (none, when
  there is nothing to do) and the lines of the caller after the call.
\<close>

definition replacement ::
  "(string \<Rightarrow> string + ReplacementInfo) \<Rightarrow> Remediation \<Rightarrow> string list \<Rightarrow> (string list \<times> string list) option" where
  "replacement unmarshal r lines0 = do {
     originalLine \<leftarrow> at lines0 (rm_Line r - 1);
     case unmarshal (rm_Remediation r) of
       Inl err \<Rightarrow> Some ([], lines0)
     | Inr info \<Rightarrow>
         (if info = \<lparr>ri_Before = [], ri_After = []\<rparr> then Some ([], lines0)
          else
            (let remediated = replace_first originalLine (ri_Before info) (ri_After info) in
             if originalLine = remediated then Some ([], lines0)
             else
               (let lines1 = lines0[nat (rm_Line r - 1) := remediated] in Some (lines1, lines1))))
   }"

text \<open>The expression \<open>^[\s-]*\<close>, which always matches\<close>

definition getBefore :: "string \<Rightarrow> string" where
  "getBefore line = takeWhile (\<lambda>c. re_space c \<or> c = CHR ''-'') line"

definition addition :: "Remediation \<Rightarrow> string list \<Rightarrow> string list option" where
  "addition r lines0 =
     (let fatherNumberLine = rm_Line r - 1 in
      if int (length lines0) \<le> fatherNumberLine + 1 then Some []
      else do {
        nextLine \<leftarrow> at lines0 (fatherNumberLine + 1);
        let firstLine = hd (split_on (rm_Remediation r) [CHR 0x0A]);
        if trim_space nextLine = trim_space firstLine then Some []
        else do {
          begin' \<leftarrow> Prelude.slice lines0 0 (fatherNumberLine + 1);
          end' \<leftarrow> slice_from lines0 (fatherNumberLine + 1);
          Some (begin' @ [getBefore nextLine @ rm_Remediation r] @ end')
        }
      })"

section \<open>Scanning a fixed file\<close>

record ('s, 'p, 'q, 'd) remediation_env =
  re_fs :: "'d \<Rightarrow> filesys"
  re_write_file :: "string \<Rightarrow> string \<Rightarrow> 'd \<Rightarrow> string option \<times> 'd"
  re_open_temp :: "string \<Rightarrow> 'd \<Rightarrow> string option \<times> 'd"
  re_write_temp :: "string \<Rightarrow> string \<Rightarrow> 'd \<Rightarrow> string option \<times> 'd"
  re_remove :: "string \<Rightarrow> 'd \<Rightarrow> string option \<times> 'd"
  re_temp_dir :: string
  re_nanos :: int
  re_pid :: int
  re_replacement_info :: "string \<Rightarrow> string + ReplacementInfo"
  re_sort :: "Remediation list \<Rightarrow> Remediation list"
  re_service :: "('s, CITracker, 'p) service_env"
  re_types_order :: "(string, bool) gomap \<Rightarrow> (string, bool) gomap"
  re_parser_state :: 'p
  re_terraform :: "'p kindParser"
  re_proto :: "'p kindParser"
  re_yaml :: "'p kindParser"
  re_json :: "'p kindParser"
  re_buildah :: "'p kindParser"
  re_query_path :: "string + string"
  re_assets :: assets_fs
  re_engine :: "(CITracker, 'q) engine_env"
  re_detectors :: "int \<Rightarrow> DetectLine"
  re_platform_order :: "(string, unit) gomap \<Rightarrow> (string, unit) gomap"
  re_maxprocs :: int
  re_payload :: "doc list \<Rightarrow> jval"

text \<open>The parser of a file by its extension\<close>

definition payload_parsers ::
  "('s, 'p, 'q, 'd) remediation_env \<Rightarrow> string \<Rightarrow> 'p Parser list option" where
  "payload_parsers env ext =
     (let build = (\<lambda>p. Build (re_types_order env) (Builder_Add [] p) [[]]) in
      if ext = ''.tf'' then build (re_terraform env)
      else if ext = ''.proto'' then build (re_proto env)
      else if ext = ''.yaml'' \<or> ext = ''.yml'' then build (re_yaml env)
      else if ext = ''.json'' then build (re_json env)
      else if ext = ''.sh'' then build (re_buildah env)
      else Some [])"

text \<open>The records have no id, so that \<open>ToMap\<close> keeps the last one of them.\<close>

definition payload_file ::
  "('s, 'p, 'q, 'd) remediation_env \<Rightarrow> filesys \<Rightarrow> 'p Parser \<Rightarrow> string \<Rightarrow> string \<Rightarrow> ParsedDocument \<Rightarrow>
     doc \<Rightarrow> FileMetadata" where
  "payload_file env fs p filePath bytes documents document =
     zero_file\<lparr>f_FilePath := filePath,
       f_Document := PrepareScanDocument (re_service env) document (pd_Kind documents),
       f_LineInfoDocument := Some document, f_Commands := CommentsCommands fs p filePath bytes,
       f_OriginalData := bytes, f_LinesOriginalData := SplitLines bytes,
       f_IsMinified := pd_IsMinified documents\<rparr>"

definition getPayload ::
  "('s, 'p, 'q, 'd) remediation_env \<Rightarrow> filesys \<Rightarrow> string \<Rightarrow> string \<Rightarrow> bool \<Rightarrow> int \<Rightarrow>
     (string + FileMetadata list) option" where
  "getPayload env fs filePath bytes openAPI depth = do {
     ps \<leftarrow> payload_parsers env (fst (GetExtension fs filePath));
     case ps of
       [] \<Rightarrow> Some (Inl ''failed to get parser'')
     | p # _ \<Rightarrow>
         (case Parse fs p (se_vault_secret (re_service env)) filePath bytes openAPI
                 (IsMinified filePath bytes) depth (re_parser_state env) of
            ((documents, Some err), _) \<Rightarrow> Some (Inl err)
          | ((documents, None), _) \<Rightarrow>
              Some (Inr (map (payload_file env fs p filePath bytes documents)
                (filter (\<lambda>d. \<not> isl (se_marshal (re_service env) d)) (pd_Docs documents)))))
   }"

definition initScan ::
  "('s, 'p, 'q, 'd) remediation_env \<Rightarrow> string \<Rightarrow>
     (string + Inspector \<times> CITracker InspectorState) option" where
  "initScan env queryID =
     (case re_query_path env of
        Inl err \<Rightarrow> Some (Inl (''unable to find queries: '' @ err))
      | Inr queriesPath \<Rightarrow>
          (let queriesSource = NewFilesystemSource [queriesPath] [[]] [[]] ''./assets/libraries'' False;
               queryFilter =
                 \<lparr>qp_IncludeQueries = \<lparr>in_ByIDs = [queryID]\<rparr>,
                  qp_ExcludeQueries = \<lparr>ex_ByIDs = [], ex_ByCategories = [], ex_BySeverities = []\<rparr>,
                  qp_ExperimentalQueries = False, qp_InputDataPath = [], qp_BomQueries = False\<rparr>
           in case NewTracker 3 of
             Inl err \<Rightarrow> Some (Inl err)
           | Inr t \<Rightarrow>
               NewInspector (re_engine env)
                 \<lparr>qs_GetQueries = GetQueries (re_assets env) queriesSource,
                  qs_GetQueryLibrary = GetQueryLibrary (re_assets env) queriesSource\<rparr>
                 (re_detectors env) (re_platform_order env) (re_maxprocs env) queryFilter [] False 0 False t))"

definition loadQuery ::
  "('s, 'p, 'q, 'd) remediation_env \<Rightarrow> Inspector \<Rightarrow> string \<Rightarrow> (string + QueryMetadata \<times> 'q) option" where
  "loadQuery env c queryID =
     (case QueriesMetadata (i_QueryLoader c) of
        [metadata] \<Rightarrow> do {
          res \<leftarrow> LoadQuery (re_engine env) (i_QueryLoader c) metadata;
          Some (case res of Inl err \<Rightarrow> Inl err | Inr q \<Rightarrow> Inr (metadata, q))
        }
      | _ \<Rightarrow> Some (Inl (''unable to load query'' @ queryID)))"

text \<open>
  \<open>runQuery\<close> logs an error of the evaluation or of the decoding and goes on with what it has;
  it does not recover from a panic.
\<close>

definition runQuery ::
  "('s, 'p, 'q, 'd) remediation_env \<Rightarrow> Inspector \<Rightarrow> CITracker InspectorState \<Rightarrow> QueryMetadata \<Rightarrow> 'q \<Rightarrow>
     jval \<Rightarrow> string \<Rightarrow> FileMetadata list \<Rightarrow> Vulnerability list option" where
  "runQuery env c s metadata q payload tmpFile files = do {
     let results = (case en_eval (re_engine env) q payload of Inl err \<Rightarrow> [] | Inr rs \<Rightarrow> rs);
     let ctx = \<lparr>scanID = [], Files = ToMap files, Query = metadata, BaseScanPaths = [tmpFile]\<rparr>;
     decoded \<leftarrow> fst (DecodeQueryResults (re_engine env) c ctx results s);
     Some (case decoded of Inl err \<Rightarrow> [] | Inr vs \<Rightarrow> vs)
   }"

definition scanTmpFile ::
  "('s, 'p, 'q, 'd) remediation_env \<Rightarrow> filesys \<Rightarrow> string \<Rightarrow> string \<Rightarrow> string \<Rightarrow> bool \<Rightarrow> int \<Rightarrow>
     (string + Vulnerability list) option" where
  "scanTmpFile env fs tmpFile queryID remediated openAPI depth = do {
     payload \<leftarrow> getPayload env fs tmpFile remediated openAPI depth;
     case payload of
       Inl err \<Rightarrow> Some (Inl err)
     | Inr files \<Rightarrow>
         (if length files = 0 then Some (Inl ''failed to get payload'')
          else do {
            (documents, files') \<leftarrow> Combine False files;
            init \<leftarrow> initScan env queryID;
            case init of
              Inl err \<Rightarrow> Some (Inl err)
            | Inr (c, s) \<Rightarrow> do {
                loaded \<leftarrow> loadQuery env c queryID;
                case loaded of
                  Inl err \<Rightarrow> Some (Inl err)
                | Inr (metadata, q) \<Rightarrow>
                    map_option Inr (runQuery env c s metadata q (re_payload env documents) tmpFile files')
              }
          })
   }"

section \<open>Writing the fixes\<close>

record 'd RemediationState =
  rs_disk :: 'd
  rs_rand :: "32 word"
  rs_ActualRemediationDoneNumber :: int

fun removedResult :: "Vulnerability list \<Rightarrow> Remediation \<Rightarrow> bool" where
  "removedResult [] r = True"
| "removedResult (result # results) r =
     (if v_SearchKey result = rm_SearchKey r \<and> v_KeyActualValue result = rm_ActualValue r \<and>
         v_KeyExpectedValue result = rm_ExpectedValue r
      then False else removedResult results r)"

text \<open>
  \<open>willRemediate\<close> writes the fixed text to a temporary file, scans it, and removes the file, unless
  the scan has ended with an error.
\<close>

definition willRemediate ::
  "('s, 'p, 'q, 'd) remediation_env \<Rightarrow> string list \<Rightarrow> string \<Rightarrow> Remediation \<Rightarrow> bool \<Rightarrow> int \<Rightarrow>
     'd RemediationState \<Rightarrow> (bool \<times> 'd RemediationState) option" where
  "willRemediate env remediated originalFileName r openAPI depth s =
     (let (random, rand') = NextRandom (re_nanos env) (re_pid env) (rs_rand s);
          tmpFile = path_join (re_temp_dir env)
            (''temporary-remediation-'' @ random @ ''-'' @ Base originalFileName);
          s0 = s\<lparr>rs_rand := rand'\<rparr>
      in case re_open_temp env tmpFile (rs_disk s0) of
        (Some err, d) \<Rightarrow> Some (False, s0\<lparr>rs_disk := d\<rparr>)
      | (None, d) \<Rightarrow>
          (let bytes = join remediated [CHR 0x0A] in
           case re_write_temp env tmpFile bytes d of
             (Some err, d') \<Rightarrow> Some (False, s0\<lparr>rs_disk := d'\<rparr>)
           | (None, d') \<Rightarrow> do {
               results \<leftarrow> scanTmpFile env (re_fs env d') tmpFile (rm_QueryID r) bytes openAPI depth;
               Some (case results of
                 Inl err \<Rightarrow> (False, s0\<lparr>rs_disk := d'\<rparr>)
               | Inr vulns \<Rightarrow> (removedResult vulns r, s0\<lparr>rs_disk := snd (re_remove env tmpFile d')\<rparr>))
             }))"

definition writeRemediation ::
  "('s, 'p, 'q, 'd) remediation_env \<Rightarrow> string list \<Rightarrow> string list \<Rightarrow> string \<Rightarrow> 'd RemediationState \<Rightarrow>
     string list \<times> 'd RemediationState" where
  "writeRemediation env remediatedLines lines0 filePath s =
     (case re_write_file env filePath (join remediatedLines [CHR 0x0A]) (rs_disk s) of
        (Some err, d) \<Rightarrow> (lines0, s\<lparr>rs_disk := d\<rparr>)
      | (None, d) \<Rightarrow>
          (remediatedLines,
           s\<lparr>rs_disk := d, rs_ActualRemediationDoneNumber := rs_ActualRemediationDoneNumber s + 1\<rparr>))"

text \<open>
  One turn of either loop of \<open>RemediateFile\<close>, for what its fix made of the lines: the remediated
  lines and the caller's. Go evaluates the length before it calls \<open>willRemediate\<close>.
\<close>

definition apply_fix ::
  "('s, 'p, 'q, 'd) remediation_env \<Rightarrow> string \<Rightarrow> bool \<Rightarrow> int \<Rightarrow> Remediation \<Rightarrow> string list \<times> string list \<Rightarrow>
     'd RemediationState \<Rightarrow> (string list \<times> 'd RemediationState) option" where
  "apply_fix env filePath openAPI depth r fixed s =
     (let (remediatedLines, lines1) = fixed in
      if length remediatedLines > 0 then do {
        (verdict, s1) \<leftarrow> willRemediate env remediatedLines filePath r openAPI depth s;
        Some (if verdict then writeRemediation env remediatedLines lines1 filePath s1 else (lines1, s1))
      } else Some (lines1, s))"

fun apply_fixes ::
  "('s, 'p, 'q, 'd) remediation_env \<Rightarrow> string \<Rightarrow> bool \<Rightarrow> int \<Rightarrow>
     (Remediation \<Rightarrow> string list \<Rightarrow> (string list \<times> string list) option) \<Rightarrow> Remediation list \<Rightarrow>
     string list \<Rightarrow> 'd RemediationState \<Rightarrow> (string list \<times> 'd RemediationState) option" where
  "apply_fixes env filePath openAPI depth f [] lines0 s = Some (lines0, s)"
| "apply_fixes env filePath openAPI depth f (r # rs) lines0 s = do {
     fixed \<leftarrow> f r lines0;
     (lines1, s1) \<leftarrow> apply_fix env filePath openAPI depth r fixed s;
     apply_fixes env filePath openAPI depth f rs lines1 s1
   }"

definition RemediateFile ::
  "('s, 'p, 'q, 'd) remediation_env \<Rightarrow> string \<Rightarrow> RemediationSet \<Rightarrow> bool \<Rightarrow> int \<Rightarrow> 'd RemediationState \<Rightarrow>
     (string option \<times> 'd RemediationState) option" where
  "RemediateFile env filePath remediationSet openAPI depth s =
     (case fs_read (re_fs env (rs_disk s)) filePath of
        Inl err \<Rightarrow> Some (Some err, s)
      | Inr bytes \<Rightarrow> do {
          (lines1, s1) \<leftarrow> apply_fixes env filePath openAPI depth (replacement (re_replacement_info env))
            (rset_Replacement remediationSet) (split_on bytes [CHR 0x0A]) s;
          (lines2, s2) \<leftarrow> apply_fixes env filePath openAPI depth
            (\<lambda>r ls. map_option (\<lambda>fixed. (fixed, ls)) (addition r ls))
            (re_sort env (rset_Addition remediationSet)) lines1 s1;
          Some (None, s2)
        })"

text \<open>
  \<open>CreateTempFile\<close>: the temporary file is opened before the other one is read. The result is its
  path, or empty.
\<close>

definition CreateTempFile ::
  "('s, 'p, 'q, 'd) remediation_env \<Rightarrow> string \<Rightarrow> string \<Rightarrow> 'd \<Rightarrow> string \<times> 'd" where
  "CreateTempFile env filePathCopyFrom tmpFilePath d =
     (case re_open_temp env tmpFilePath d of
        (Some err, d1) \<Rightarrow> ([], d1)
      | (None, d1) \<Rightarrow>
          (case fs_read (re_fs env d1) filePathCopyFrom of
             Inl err \<Rightarrow> ([], d1)
           | Inr bytes \<Rightarrow>
               (case re_write_temp env tmpFilePath bytes d1 of
                  (Some err, d2) \<Rightarrow> ([], d2)
                | (None, d2) \<Rightarrow> (tmpFilePath, d2))))"

section \<open>Lemmas\<close>

lemma removedResult_iff:
  "removedResult results r \<longleftrightarrow>
     (\<forall>v \<in> set results. \<not> (v_SearchKey v = rm_SearchKey r \<and> v_KeyActualValue v = rm_ActualValue r \<and>
        v_KeyExpectedValue v = rm_ExpectedValue r))"
  by (induction results) auto

text \<open>What the operations on files promise\<close>

definition temp_name :: "('s, 'p, 'q, 'd) remediation_env \<Rightarrow> string \<Rightarrow> string \<Rightarrow> string" where
  "temp_name env filePath random =
     path_join (re_temp_dir env) (''temporary-remediation-'' @ random @ ''-'' @ Base filePath)"

definition reads :: "('s, 'p, 'q, 'd) remediation_env \<Rightarrow> string \<Rightarrow> 'd \<Rightarrow> string + string" where
  "reads env p d = fs_read (re_fs env d) p"

definition disk_ok :: "('s, 'p, 'q, 'd) remediation_env \<Rightarrow> string \<Rightarrow> bool" where
  "disk_ok env filePath \<longleftrightarrow>
     (\<forall>c d. fst (re_write_file env filePath c d) = None \<and>
        reads env filePath (snd (re_write_file env filePath c d)) = Inr c) \<and>
     (\<forall>p c d. p \<noteq> filePath \<longrightarrow>
        reads env filePath (snd (re_open_temp env p d)) = reads env filePath d \<and>
        reads env filePath (snd (re_write_temp env p c d)) = reads env filePath d \<and>
        reads env filePath (snd (re_remove env p d)) = reads env filePath d) \<and>
     (\<forall>random. temp_name env filePath random \<noteq> filePath)"

text \<open>A text that a scan has found to be free of the result a fix is for\<close>

definition verified :: "('s, 'p, 'q, 'd) remediation_env \<Rightarrow> bool \<Rightarrow> int \<Rightarrow> Remediation \<Rightarrow> string \<Rightarrow> bool" where
  "verified env openAPI depth r text0 \<longleftrightarrow>
     (\<exists>fs tmpFile vulns. scanTmpFile env fs tmpFile (rm_QueryID r) text0 openAPI depth = Some (Inr vulns) \<and>
        (\<forall>v \<in> set vulns. \<not> (v_SearchKey v = rm_SearchKey r \<and> v_KeyActualValue v = rm_ActualValue r \<and>
           v_KeyExpectedValue v = rm_ExpectedValue r)))"

lemma willRemediate_frame:
  assumes "willRemediate env ls filePath r openAPI depth s = Some (verdict, s')" and "disk_ok env filePath"
  shows "reads env filePath (rs_disk s') = reads env filePath (rs_disk s)"
    and "rs_ActualRemediationDoneNumber s' = rs_ActualRemediationDoneNumber s"
    and "verdict \<Longrightarrow> verified env openAPI depth r (join ls [CHR 0x0A])"
proof -
  obtain random rand' where n: "NextRandom (re_nanos env) (re_pid env) (rs_rand s) = (random, rand')"
    by (cases "NextRandom (re_nanos env) (re_pid env) (rs_rand s)")
  define tmp where "tmp = temp_name env filePath random"
  have t: "tmp \<noteq> filePath" using assms(2) by (simp add: tmp_def disk_ok_def)
  have tmp: "path_join (re_temp_dir env) (''temporary-remediation-'' @ random @ ''-'' @ Base filePath) = tmp"
    by (simp add: tmp_def temp_name_def)
  obtain e1 d1 where o: "re_open_temp env tmp (rs_disk s) = (e1, d1)"
    by (cases "re_open_temp env tmp (rs_disk s)")
  obtain e2 d2 where w: "re_write_temp env tmp (join ls [CHR 0x0A]) d1 = (e2, d2)"
    by (cases "re_write_temp env tmp (join ls [CHR 0x0A]) d1")
  have r1: "reads env filePath d1 = reads env filePath (rs_disk s)"
    using assms(2) t o by (metis disk_ok_def snd_conv)
  have r2: "reads env filePath d2 = reads env filePath d1"
    using assms(2) t w by (metis disk_ok_def snd_conv)
  have r3: "reads env filePath (snd (re_remove env tmp d2)) = reads env filePath d2"
    using assms(2) t by (metis disk_ok_def)
  have res: "(case e1 of Some err \<Rightarrow> Some (False, s\<lparr>rs_rand := rand', rs_disk := d1\<rparr>)
      | None \<Rightarrow> (case e2 of Some err \<Rightarrow> Some (False, s\<lparr>rs_rand := rand', rs_disk := d2\<rparr>)
        | None \<Rightarrow>
          (case scanTmpFile env (re_fs env d2) tmp (rm_QueryID r) (join ls [CHR 0x0A]) openAPI depth of
             None \<Rightarrow> None
           | Some (Inl err) \<Rightarrow> Some (False, s\<lparr>rs_rand := rand', rs_disk := d2\<rparr>)
           | Some (Inr vulns) \<Rightarrow> Some (removedResult vulns r,
                s\<lparr>rs_rand := rand', rs_disk := snd (re_remove env tmp d2)\<rparr>))))
    = Some (verdict, s')"
    using assms(1) unfolding willRemediate_def n Let_def prod.case tmp
    by (cases "scanTmpFile env (re_fs env d2) tmp (rm_QueryID r) (join ls [CHR 0x0A]) openAPI depth";
        cases e1; cases e2) (auto simp: o w split: sum.splits)
  show "reads env filePath (rs_disk s') = reads env filePath (rs_disk s)"
    using res r1 r2 r3 by (auto split: option.splits sum.splits)
  show "rs_ActualRemediationDoneNumber s' = rs_ActualRemediationDoneNumber s"
    using res by (auto split: option.splits sum.splits)
  show "verified env openAPI depth r (join ls [CHR 0x0A])" if verdict
    using res that by (auto simp: verified_def removedResult_iff split: option.splits sum.splits)
qed

text \<open>
  The loops keep this: with the number of fixes written, what the file holds, and the last
  fix written.
\<close>

definition written ::
  "('s, 'p, 'q, 'd) remediation_env \<Rightarrow> string \<Rightarrow> bool \<Rightarrow> int \<Rightarrow> Remediation set \<Rightarrow>
     'd RemediationState \<Rightarrow> 'd RemediationState \<Rightarrow> bool" where
  "written env filePath openAPI depth fixes s s' \<longleftrightarrow>
     rs_ActualRemediationDoneNumber s \<le> rs_ActualRemediationDoneNumber s' \<and>
     (if rs_ActualRemediationDoneNumber s' = rs_ActualRemediationDoneNumber s
      then reads env filePath (rs_disk s') = reads env filePath (rs_disk s)
      else \<exists>r \<in> fixes. \<exists>text0. reads env filePath (rs_disk s') = Inr text0 \<and>
        verified env openAPI depth r text0)"

lemma written_refl: "written env filePath openAPI depth fixes s s"
  by (simp add: written_def)

lemma written_trans:
  "written env filePath openAPI depth F s s' \<Longrightarrow> written env filePath openAPI depth G s' s'' \<Longrightarrow>
     written env filePath openAPI depth (F \<union> G) s s''"
  by (auto simp: written_def split: if_splits)

lemma apply_fix_written:
  assumes "apply_fix env filePath openAPI depth r fixed s = Some (ls, s')" and "disk_ok env filePath"
  shows "written env filePath openAPI depth {r} s s'"
proof -
  obtain ls0 l1 where fixed: "fixed = (ls0, l1)" by (cases fixed)
  show ?thesis
  proof (cases "length ls0 > 0")
    case False
    then show ?thesis using assms(1) by (simp add: apply_fix_def written_refl fixed)
  next
    case True
    then obtain verdict s1 where
      w: "willRemediate env ls0 filePath r openAPI depth s = Some (verdict, s1)"
      and res: "(if verdict then writeRemediation env ls0 l1 filePath s1 else (l1, s1)) = (ls, s')"
      using assms(1) by (auto simp: apply_fix_def bind_eq_Some_conv fixed)
    note f = willRemediate_frame [OF w assms(2)]
    obtain e d where e: "re_write_file env filePath (join ls0 [CHR 0x0A]) (rs_disk s1) = (e, d)"
      by (cases "re_write_file env filePath (join ls0 [CHR 0x0A]) (rs_disk s1)")
    have ok: "e = None" "reads env filePath d = Inr (join ls0 [CHR 0x0A])"
      using assms(2) e unfolding disk_ok_def by (metis fst_conv, metis snd_conv)
    show ?thesis
      using res f ok by (auto simp: written_def writeRemediation_def e split: if_splits)
  qed
qed

lemma apply_fixes_written:
  assumes "disk_ok env filePath"
  shows "apply_fixes env filePath openAPI depth f rs lines0 s = Some (ls, s') \<Longrightarrow>
     written env filePath openAPI depth (set rs) s s'"
proof (induction rs arbitrary: lines0 s)
  case (Cons r rs)
  then obtain fixed lines1 s1 where
    "apply_fix env filePath openAPI depth r fixed s = Some (lines1, s1)"
    "apply_fixes env filePath openAPI depth f rs lines1 s1 = Some (ls, s')"
    by (auto simp: bind_eq_Some_conv)
  then have "written env filePath openAPI depth ({r} \<union> set rs) s s'"
    using written_trans [OF apply_fix_written [OF _ assms]] Cons.IH by blast
  then show ?case by simp
qed (simp add: written_refl)

lemma RemediateFile_written:
  assumes "RemediateFile env filePath sets openAPI depth s = Some (err, s')" and "disk_ok env filePath"
    and "sorts_by (\<lambda>x y. rm_Line x > rm_Line y) (re_sort env)"
  shows "written env filePath openAPI depth (set (rset_Replacement sets) \<union> set (rset_Addition sets)) s s'"
proof (cases "fs_read (re_fs env (rs_disk s)) filePath")
  case (Inl e)
  then show ?thesis using assms(1) by (simp add: RemediateFile_def written_refl)
next
  case (Inr bytes)
  then obtain l1 s1 l2 where
    "apply_fixes env filePath openAPI depth (replacement (re_replacement_info env))
       (rset_Replacement sets) (split_on bytes [CHR 0x0A]) s = Some (l1, s1)"
    "apply_fixes env filePath openAPI depth
       (\<lambda>r ls. map_option (\<lambda>fixed. (fixed, ls)) (addition r ls))
       (re_sort env (rset_Addition sets)) l1 s1 = Some (l2, s')"
    using assms(1) by (auto simp: RemediateFile_def bind_eq_Some_conv)
  then have "written env filePath openAPI depth
      (set (rset_Replacement sets) \<union> set (re_sort env (rset_Addition sets))) s s'"
    by (rule written_trans [OF apply_fixes_written [OF assms(2)] apply_fixes_written [OF assms(2)]])
  moreover have "set (re_sort env (rset_Addition sets)) = set (rset_Addition sets)"
    using assms(3) unfolding sorts_by_def by (metis set_mset_mset)
  ultimately show ?thesis by simp
qed

lemma join_append: "xs \<noteq> [] \<Longrightarrow> ys \<noteq> [] \<Longrightarrow> join (xs @ ys) sep = join xs sep @ sep @ join ys sep"
  by (induction xs rule: induct_list012) (auto simp: join_Cons)

lemma join_nest:
  assumes "ys \<noteq> []"
  shows "join (a @ [join ys sep] @ b) sep = join (a @ ys @ b) sep"
proof -
  have "join ([join ys sep] @ b) sep = join (ys @ b) sep"
    using assms by (cases "b = []") (simp_all add: join_append join_Cons)
  then show ?thesis using assms by (cases "a = []") (simp_all add: join_append)
qed

lemma split_on_nest:
  assumes "\<forall>l \<in> set a \<union> set b. c \<notin> set l"
  shows "split_on (join (a @ [x] @ b) [c]) [c] = a @ split_on x [c] @ b"
proof -
  have "join (a @ [x] @ b) [c] = join (a @ split_on x [c] @ b) [c]"
    using join_nest [of "split_on x [c]" a "[c]" b] by (simp add: join_split_on)
  moreover have "\<forall>l \<in> set (a @ split_on x [c] @ b). c \<notin> set l"
    using assms split_on_pieces by (metis UnE UnI1 UnI2 set_append)
  ultimately show ?thesis by (simp add: split_on_join)
qed

lemma trim_space_leading:
  assumes "list_all re_space a"
  shows "trim_space (a @ s) = trim_space s"
proof -
  have "strip_words space_bytes (c # s) = strip_words space_bytes s" if "re_space c" for c s
  proof -
    have "find (\<lambda>w. w \<noteq> [] \<and> prefix w (c # s)) space_bytes = Some [c]"
      using that unfolding re_space_def by (elim insertE) (simp_all add: space_bytes_def)
    then show ?thesis by (subst strip_words.simps) simp
  qed
  then have "strip_words space_bytes (a @ s) = strip_words space_bytes s"
    using assms by (induction a) simp_all
  then show ?thesis by (simp add: trim_space_def)
qed

lemma addition_inserts:
  assumes "addition r ls = Some ls'" and "ls' \<noteq> []"
  shows "0 \<le> rm_Line r" and "nat (rm_Line r) < length ls"
    and "ls' = take (nat (rm_Line r)) ls @ [getBefore (ls ! nat (rm_Line r)) @ rm_Remediation r] @
           drop (nat (rm_Line r)) ls"
    and "trim_space (ls ! nat (rm_Line r)) \<noteq> trim_space (hd (split_on (rm_Remediation r) [CHR 0x0A]))"
proof -
  have len: "rm_Line r < int (length ls)"
    using assms by (auto simp: addition_def Let_def split: if_splits)
  then obtain l where l: "at ls (rm_Line r) = Some l"
    using assms by (auto simp: addition_def Let_def bind_eq_Some_conv)
  then show pos: "0 \<le> rm_Line r" by (simp add: at_Some_iff)
  with len show "nat (rm_Line r) < length ls" by simp
  have nth: "l = ls ! nat (rm_Line r)" using l by (simp add: at_Some_iff)
  have s: "Prelude.slice ls 0 (rm_Line r) = Some (take (nat (rm_Line r)) ls)"
      "slice_from ls (rm_Line r) = Some (drop (nat (rm_Line r)) ls)"
    using pos len by (simp_all add: slice_iffs)
  have eq: "addition r ls = (if trim_space l = trim_space (hd (split_on (rm_Remediation r) [CHR 0x0A])) then Some []
      else Some (take (nat (rm_Line r)) ls @ [getBefore l @ rm_Remediation r] @ drop (nat (rm_Line r)) ls))"
    using len by (simp add: addition_def l s Let_def)
  then show "ls' = take (nat (rm_Line r)) ls @ [getBefore (ls ! nat (rm_Line r)) @ rm_Remediation r] @
           drop (nat (rm_Line r)) ls"
    "trim_space (ls ! nat (rm_Line r)) \<noteq> trim_space (hd (split_on (rm_Remediation r) [CHR 0x0A]))"
    using assms nth by (auto split: if_splits)
qed

lemma getBefore_prefix:
  "getBefore line @ dropWhile (\<lambda>c. re_space c \<or> c = CHR ''-'') line = line"
  "c \<in> set (getBefore line) \<Longrightarrow> re_space c \<or> c = CHR ''-''"
  unfolding getBefore_def by (simp, drule set_takeWhileD, simp)

lemma addition_again:
  assumes "addition r ls = Some ls'" and "ls' \<noteq> []" and "\<forall>l \<in> set ls. CHR 0x0A \<notin> set l"
    and "CHR ''-'' \<notin> set (getBefore (ls ! nat (rm_Line r)))"
  shows "addition r (split_on (join ls' [CHR 0x0A]) [CHR 0x0A]) = Some []"
proof -
  define n where "n = nat (rm_Line r)"
  define ind where "ind = getBefore (ls ! n)"
  note i = addition_inserts [OF assms(1,2), folded n_def, folded ind_def]
  have n: "n < length ls" "rm_Line r = int n" using i(1,2) by (auto simp: n_def)
  have sp: "list_all re_space ind"
    using getBefore_prefix(2) [of _ "ls ! n"] assms(4) by (auto simp: ind_def n_def list_all_iff)
  have nl: "CHR 0x0A \<notin> set ind"
  proof -
    have "set ind \<subseteq> set (ls ! n)" unfolding ind_def getBefore_def by (auto dest: set_takeWhileD)
    then show ?thesis using assms(3) nth_mem [OF n(1)] by blast
  qed
  have lines2: "split_on (join ls' [CHR 0x0A]) [CHR 0x0A] =
      take n ls @ split_on (ind @ rm_Remediation r) [CHR 0x0A] @ drop n ls"
    unfolding i(3) by (rule split_on_nest) (use assms(3) in \<open>auto dest: in_set_takeD in_set_dropD\<close>)
  obtain f fs where f: "split_on (rm_Remediation r) [CHR 0x0A] = f # fs"
    by (metis split_on_nonempty neq_Nil_conv)
  have "join (f # fs) [CHR 0x0A] = rm_Remediation r" using join_split_on f by metis
  then have "ind @ rm_Remediation r = join ((ind @ f) # fs) [CHR 0x0A]" by (cases fs) auto
  moreover have "\<forall>l \<in> set ((ind @ f) # fs). CHR 0x0A \<notin> set l"
    using nl split_on_pieces [of _ "rm_Remediation r" "CHR 0x0A"] f by auto
  ultimately have s: "split_on (ind @ rm_Remediation r) [CHR 0x0A] = (ind @ f) # fs"
    using split_on_join [of "(ind @ f) # fs" "CHR 0x0A"] by simp
  have "trim_space (ind @ f) = trim_space f" using sp by (rule trim_space_leading)
  then show ?thesis
    using n by (simp add: lines2 s addition_def Let_def at_def nth_append f)
qed

text \<open>The fixes that a selection takes\<close>

definition selects :: "string list \<Rightarrow> Vulnerability \<Rightarrow> bool" where
  "selects includes v \<longleftrightarrow>
     v_Remediation v \<noteq> [] \<and> v_RemediationType v \<noteq> [] \<and>
     (hd includes = ''all'' \<or> v_SimilarityID v \<in> set includes) \<and> path_ext (v_FileName v) = ''.tf''"

definition fixes_for :: "string \<Rightarrow> Vulnerability list \<Rightarrow> RemediationSet" where
  "fixes_for p vs =
     \<lparr>rset_Replacement = map remediation_of
        (filter (\<lambda>v. v_FileName v = p \<and> v_RemediationType v = ''replacement'') vs),
      rset_Addition = map remediation_of
        (filter (\<lambda>v. v_FileName v = p \<and> v_RemediationType v = ''addition'') vs)\<rparr>"

lemma shouldRemediate_selects:
  "includes \<noteq> [] \<Longrightarrow> shouldRemediate (file_of_vuln v) includes = Some (selects includes v)"
  by (cases "includes") (auto simp: shouldRemediate_def file_of_vuln_def selects_def at_def)

definition sets_of :: "Vulnerability list \<Rightarrow> string \<rightharpoonup> RemediationSet" where
  "sets_of vs p = (if p \<in> v_FileName ` set vs then Some (fixes_for p vs) else None)"

lemma add_to_sets_get:
  "map_of sets = sets_of vs \<Longrightarrow> map_of (add_to_sets v sets) = sets_of (vs @ [v])"
  by (rule ext) (auto simp: add_to_sets_def sets_of_def fixes_for_def set_of_vuln_def filter_empty_conv image_iff)

lemma add_to_sets_ok: "gomap_ok sets \<Longrightarrow> gomap_ok (add_to_sets v sets)"
  by (auto simp: add_to_sets_def split: option.splits intro: gomap_put_ok)

lemma sets_from_vulns_sets:
  assumes "includes \<noteq> []"
  shows "gomap_ok sets \<Longrightarrow> map_of sets = sets_of done0 \<Longrightarrow>
     \<exists>sets'. sets_from_vulns vs includes sets n =
         Some (sets', n + int (length (filter (selects includes) vs))) \<and>
       gomap_ok sets' \<and> map_of sets' = sets_of (done0 @ filter (selects includes) vs)"
proof (induction vs arbitrary: sets done0 n)
  case (Cons v vs)
  show ?case
  proof (cases "selects includes v")
    case True
    then show ?thesis
      using Cons.IH [OF add_to_sets_ok add_to_sets_get, of sets done0 v "n + 1"] Cons.prems
      by (simp add: shouldRemediate_selects [OF assms] add.assoc)
  next
    case False
    then show ?thesis using Cons by (simp add: shouldRemediate_selects [OF assms])
  qed
qed simp

lemma failing_query_no_results:
  assumes "\<forall>q p. \<exists>err. en_eval (re_engine env) q p = Inl err"
    and "scanTmpFile env fs tmpFile queryID text0 openAPI depth = Some (Inr vulns)"
  shows "vulns = []"
proof -
  have run: "runQuery env c s metadata q payload tmpFile files = Some []" for c s metadata q payload files
    using assms(1) [rule_format, of q payload] by (auto simp: runQuery_def DecodeQueryResults_def)
  show ?thesis
    using assms(2) by (auto simp: scanTmpFile_def run split: Option.bind_split_asm sum.split_asm if_splits prod.split_asm)
qed

lemma replacement_changes:
  assumes "replacement unmarshal r ls = Some (l1, l1)" and "l1 \<noteq> []"
  shows "1 \<le> rm_Line r \<and> l1 ! nat (rm_Line r - 1) \<noteq> ls ! nat (rm_Line r - 1) \<and>
    (\<forall>j. j \<noteq> nat (rm_Line r - 1) \<longrightarrow> l1 ! j = ls ! j)"
  using assms
  by (auto simp: replacement_def Let_def at_Some_iff split: Option.bind_split_asm sum.split_asm if_splits)

lemma willRemediate_by_scan:
  assumes "NextRandom (re_nanos env) (re_pid env) (rs_rand s) = (random, rand')"
    and "temp_name env filePath random = tmp"
    and "re_open_temp env tmp (rs_disk s) = (None, d1)"
    and "re_write_temp env tmp (join ls [CHR 0x0A]) d1 = (None, d2)"
    and "scanTmpFile env (re_fs env d2) tmp (rm_QueryID r) (join ls [CHR 0x0A]) openAPI depth = Some res"
  shows "willRemediate env ls filePath r openAPI depth s = Some (case res of
      Inl err \<Rightarrow> (False, s\<lparr>rs_rand := rand', rs_disk := d2\<rparr>)
    | Inr vulns \<Rightarrow> (removedResult vulns r, s\<lparr>rs_rand := rand', rs_disk := snd (re_remove env tmp d2)\<rparr>))"
  unfolding willRemediate_def assms(1) Let_def prod.case assms(2) [unfolded temp_name_def]
  by (simp add: assms(3,4,5) split: sum.splits)

section \<open>An example\<close>

definition example_disk_fs :: "(string, string) gomap \<Rightarrow> filesys" where
  "example_disk_fs d =
     \<lparr>fs_stat = (\<lambda>p. case map_of d p of None \<Rightarrow> Inl ''no such file'' | Some _ \<Rightarrow> Inr False),
      fs_read = (\<lambda>p. case map_of d p of None \<Rightarrow> Inl ''no such file'' | Some c \<Rightarrow> Inr c),
      fs_is_text = (\<lambda>c. True)\<rparr>"

definition example_remediation_env ::
  "(jval \<Rightarrow> (bool \<times> string) + doc list) \<Rightarrow>
     (MemoryStorage, unit, unit, (string, string) gomap) remediation_env" where
  "example_remediation_env eval =
     \<lparr>re_fs = example_disk_fs, re_write_file = (\<lambda>p c d. (None, gomap_put p c d)),
      re_open_temp = (\<lambda>p d. (None, gomap_put p [] d)), re_write_temp = (\<lambda>p c d. (None, gomap_put p c d)),
      re_remove = (\<lambda>p d. (None, AList.delete p d)), re_temp_dir = ''/tmp'', re_nanos = 0, re_pid = 1,
      re_replacement_info = (\<lambda>t. Inr \<lparr>ri_Before = ''1'', ri_After = t\<rparr>),
      re_sort = sort_key (\<lambda>r. - rm_Line r), re_service = example_service_env, re_types_order = id,
      re_parser_state = (), re_terraform = p_parsers example_parser, re_proto = p_parsers example_parser,
      re_yaml = p_parsers example_parser, re_json = p_parsers example_parser,
      re_buildah = p_parsers example_parser, re_query_path = Inr ''q'',
      re_assets = example_assets\<lparr>as_library := (\<lambda>p. Inr [])\<rparr>,
      re_engine = example_engine\<lparr>en_eval := (\<lambda>q. eval)\<rparr>,
      re_detectors = NewDetectLine (\<lambda>a b. 0) rev, re_platform_order = id, re_maxprocs = 2,
      re_payload = (\<lambda>ds. JNull)\<rparr>"

definition example_fix :: Remediation where
  "example_fix = \<lparr>rm_Line = 1, rm_Remediation = ''2'', rm_SimilarityID = ''s'', rm_QueryID = ''1'',
     rm_SearchKey = ''x'', rm_ExpectedValue = ''e'', rm_ActualValue = ''a''\<rparr>"

definition example_remediation_state :: "(string, string) gomap RemediationState" where
  "example_remediation_state =
     \<lparr>rs_disk = [(''a.tf'', ''x = 1'')], rs_rand = 1, rs_ActualRemediationDoneNumber = 0\<rparr>"

abbreviation good_eval :: "jval \<Rightarrow> (bool \<times> string) + doc list" where
  "good_eval \<equiv> \<lambda>p. Inr [[(''result'', JList [])]]"

abbreviation failing_eval :: "jval \<Rightarrow> (bool \<times> string) + doc list" where
  "failing_eval \<equiv> \<lambda>p. Inl (True, ''timeout'')"

definition example_temp :: string where
  "example_temp = ''/tmp/temporary-remediation-015568748-a.tf''"

lemma example_scan:
  "scanTmpFile (example_remediation_env good_eval)
     (example_disk_fs [(''a.tf'', ''x = 1''), (example_temp, ''x = 2'')])
     example_temp ''1'' ''x = 2'' False 15 = Some (Inr [])"
  by code_simp

lemma example_scan_failing:
  "scanTmpFile (example_remediation_env failing_eval)
     (example_disk_fs [(''a.tf'', ''x = 1''), (example_temp, ''x = 2'')])
     example_temp ''1'' ''x = 2'' False 15 = Some (Inr [])"
  by code_simp

lemma example_random: "NextRandom 0 1 1 = (''015568748'', 1015568748)"
  by (simp add: NextRandom_def tempDirFormat_def Let_def itoa_def show_nat_steps digit_char_def) code_simp

lemma example_temp_name:
  "path_join ''/tmp'' (''temporary-remediation-'' @ ''015568748'' @ ''-'' @ Base ''a.tf'') = example_temp"
  by code_simp

lemma path_join_rooted: "has_prefix dir slash \<Longrightarrow> has_prefix (path_join dir name) slash"
  by (cases dir) (auto simp: path_join_def Clean_def slash_def)

lemma example_disk_ok: "disk_ok (example_remediation_env eval) ''a.tf''"
proof -
  have "temp_name (example_remediation_env eval) ''a.tf'' random \<noteq> ''a.tf''" for random
    using path_join_rooted [of "''/tmp''" "''temporary-remediation-'' @ random @ ''-'' @ Base ''a.tf''"]
    by (auto simp: temp_name_def example_remediation_env_def slash_def)
  then show ?thesis
    by (simp add: disk_ok_def reads_def example_remediation_env_def example_disk_fs_def delete_conv)
qed

lemma example_sorts: "sorts_by (\<lambda>x y. rm_Line x > rm_Line y) (re_sort (example_remediation_env eval))"
proof -
  have "sorted_wrt (\<lambda>x y. - rm_Line x \<le> - rm_Line y) (sort_key (\<lambda>r. - rm_Line r) xs)" for xs :: "Remediation list"
    using sorted_sort_key [of "\<lambda>r. - rm_Line r" xs] by (simp add: sorted_map)
  then have "sorted_wrt (\<lambda>x y. rm_Line y \<le> rm_Line x) (sort_key (\<lambda>r. - rm_Line r) xs)" for xs :: "Remediation list" by simp
  then show ?thesis unfolding sorts_by_def example_remediation_env_def not_less by simp
qed

lemma example_will:
  "willRemediate (example_remediation_env good_eval) [''x = 2''] ''a.tf'' example_fix False 15
     example_remediation_state =
     Some (True, example_remediation_state\<lparr>rs_rand := 1015568748\<rparr>)"
proof -
  let ?env = "example_remediation_env good_eval" and ?s = "example_remediation_state"
  let ?d1 = "[(''a.tf'', ''x = 1''), (example_temp, [])]"
  let ?d2 = "[(''a.tf'', ''x = 1''), (example_temp, ''x = 2'')]"
  have n: "NextRandom (re_nanos ?env) (re_pid ?env) (rs_rand ?s) = (''015568748'', 1015568748)"
    using example_random by (simp add: example_remediation_env_def example_remediation_state_def)
  have t: "path_join (re_temp_dir ?env) (''temporary-remediation-'' @ ''015568748'' @ ''-'' @ Base ''a.tf'') = example_temp"
    using example_temp_name by (simp only: example_remediation_env_def remediation_env.simps)
  have o: "re_open_temp ?env example_temp (rs_disk (?s\<lparr>rs_rand := 1015568748\<rparr>)) = (None, ?d1)"
    by (simp add: example_remediation_env_def example_remediation_state_def example_temp_def)
  have w: "re_write_temp ?env example_temp (join [''x = 2''] [CHR 0x0A]) ?d1 = (None, ?d2)"
    by (simp add: example_remediation_env_def example_temp_def)
  have rem: "snd (re_remove ?env example_temp ?d2) = [(''a.tf'', ''x = 1'')]"
    by (simp add: example_remediation_env_def example_temp_def AList.delete_eq)
  have scan: "scanTmpFile ?env (re_fs ?env ?d2) example_temp (rm_QueryID example_fix)
      (join [''x = 2''] [CHR 0x0A]) False 15 = Some (Inr [])"
    using example_scan by (simp add: example_fix_def example_remediation_env_def)
  show ?thesis
    unfolding willRemediate_def n Let_def prod.case t o w option.case scan bind.bind_lunit sum.case rem
    by (simp add: example_remediation_state_def)
qed

lemma example_remediated:
  "RemediateFile (example_remediation_env good_eval) ''a.tf''
     \<lparr>rset_Replacement = [example_fix], rset_Addition = []\<rparr> False 15 example_remediation_state =
   Some (None, example_remediation_state\<lparr>rs_rand := 1015568748, rs_disk := [(''a.tf'', ''x = 2'')],
     rs_ActualRemediationDoneNumber := 1\<rparr>)"
proof -
  let ?env = "example_remediation_env good_eval"
  have "fs_read (re_fs ?env (rs_disk example_remediation_state)) ''a.tf'' = Inr ''x = 1''"
    by (simp add: example_remediation_env_def example_remediation_state_def example_disk_fs_def)
  moreover have "split_on ''x = 1'' [CHR 0x0A] = [''x = 1'']" by code_simp
  moreover have "replacement (re_replacement_info ?env) example_fix [''x = 1''] =
      Some ([''x = 2''], [''x = 2''])"
  proof -
    have "replace_first ''x = 1'' ''1'' ''2'' = ''x = 2''" by code_simp
    then show ?thesis
      by (simp add: replacement_def example_fix_def example_remediation_env_def at_def Let_def)
  qed
  moreover have "writeRemediation ?env [''x = 2''] [''x = 2''] ''a.tf''
      (example_remediation_state\<lparr>rs_rand := 1015568748\<rparr>) = ([''x = 2''],
      example_remediation_state\<lparr>rs_rand := 1015568748, rs_disk := [(''a.tf'', ''x = 2'')],
        rs_ActualRemediationDoneNumber := 1\<rparr>)"
    by (simp add: writeRemediation_def example_remediation_env_def example_remediation_state_def)
  moreover have "re_sort ?env [] = []" by (simp add: example_remediation_env_def)
  ultimately show ?thesis
    using example_will by (simp add: RemediateFile_def apply_fix_def)
qed

section \<open>An example with two fixes\<close>

text \<open>The parser rejects the file between the two fixes.\<close>

definition two_fixes_env :: "(MemoryStorage, unit, unit, (string, string) gomap) remediation_env" where
  "two_fixes_env = (example_remediation_env good_eval)
     \<lparr>re_terraform := (p_parsers example_parser)
        \<lparr>kp_Parse := (\<lambda>p c s. (if count_list c (CHR ''2'') = 1 then Inl ''syntax''
           else Inr ([[(''resource'', JNull)]], []), s))\<rparr>\<rparr>"

abbreviation two_lines :: "string list \<Rightarrow> string" where
  "two_lines ls \<equiv> join ls [CHR 0x0A]"

definition two_fixes_state :: "(string, string) gomap RemediationState" where
  "two_fixes_state = \<lparr>rs_disk = [(''a.tf'', two_lines [''x = 1'', ''y = 1''])], rs_rand = 1,
     rs_ActualRemediationDoneNumber = 0\<rparr>"

definition other_temp :: string where
  "other_temp = ''/tmp/temporary-remediation-586005467-a.tf''"

lemma two_scans:
  "scanTmpFile two_fixes_env (example_disk_fs [(''a.tf'', two_lines [''x = 1'', ''y = 1'']),
      (example_temp, two_lines [''x = 2'', ''y = 1''])])
      example_temp ''1'' (two_lines [''x = 2'', ''y = 1'']) False 15 = Some (Inl ''syntax'')"
  "scanTmpFile two_fixes_env (example_disk_fs [(''a.tf'', two_lines [''x = 1'', ''y = 1'']),
      (example_temp, two_lines [''x = 2'', ''y = 1'']), (other_temp, two_lines [''x = 2'', ''y = 2''])])
      other_temp ''1'' (two_lines [''x = 2'', ''y = 2'']) False 15 = Some (Inr [])"
  by code_simp+

definition two_disk :: "(string, string) gomap" where
  "two_disk = [(''a.tf'', two_lines [''x = 1'', ''y = 1'']), (example_temp, two_lines [''x = 2'', ''y = 1''])]"

lemma two_wills:
  "willRemediate two_fixes_env [''x = 2'', ''y = 1''] ''a.tf'' example_fix False 15 two_fixes_state =
     Some (False, two_fixes_state\<lparr>rs_rand := 1015568748, rs_disk := two_disk\<rparr>)"
  "willRemediate two_fixes_env [''x = 2'', ''y = 2''] ''a.tf'' (example_fix\<lparr>rm_Line := 2\<rparr>) False 15
     (two_fixes_state\<lparr>rs_rand := 1015568748, rs_disk := two_disk\<rparr>) =
     Some (True, two_fixes_state\<lparr>rs_rand := 1586005467, rs_disk := two_disk\<rparr>)"
proof -
  let ?d1 = "[(''a.tf'', two_lines [''x = 1'', ''y = 1'']), (example_temp, [])]"
  let ?d3 = "two_disk @ [(other_temp, two_lines [''x = 2'', ''y = 2''])]"
  have n1: "NextRandom (re_nanos two_fixes_env) (re_pid two_fixes_env) (rs_rand two_fixes_state) =
      (''015568748'', 1015568748)"
    using example_random
    by (simp add: two_fixes_env_def example_remediation_env_def two_fixes_state_def)
  have t1: "temp_name two_fixes_env ''a.tf'' ''015568748'' = example_temp"
    using example_temp_name
    by (simp only: temp_name_def two_fixes_env_def example_remediation_env_def remediation_env.simps)
  have o1: "re_open_temp two_fixes_env example_temp (rs_disk two_fixes_state) = (None, ?d1)"
    by (simp add: two_fixes_env_def example_remediation_env_def two_fixes_state_def example_temp_def)
  have w1: "re_write_temp two_fixes_env example_temp (two_lines [''x = 2'', ''y = 1'']) ?d1 = (None, two_disk)"
    by (simp add: two_fixes_env_def example_remediation_env_def two_disk_def example_temp_def)
  have s1: "scanTmpFile two_fixes_env (re_fs two_fixes_env two_disk) example_temp (rm_QueryID example_fix)
      (two_lines [''x = 2'', ''y = 1'']) False 15 = Some (Inl ''syntax'')"
    using two_scans(1) by (simp add: two_fixes_env_def example_remediation_env_def two_disk_def example_fix_def)
  show "willRemediate two_fixes_env [''x = 2'', ''y = 1''] ''a.tf'' example_fix False 15 two_fixes_state =
     Some (False, two_fixes_state\<lparr>rs_rand := 1015568748, rs_disk := two_disk\<rparr>)"
    by (simp only: willRemediate_by_scan [OF n1 t1 o1 w1 s1] sum.case)
  let ?s = "two_fixes_state\<lparr>rs_rand := 1015568748, rs_disk := two_disk\<rparr>"
  have "NextRandom 0 1 1015568748 = (''586005467'', 1586005467)"
    by (simp add: NextRandom_def tempDirFormat_def Let_def itoa_def show_nat_steps digit_char_def) code_simp
  then have n2: "NextRandom (re_nanos two_fixes_env) (re_pid two_fixes_env) (rs_rand ?s) =
      (''586005467'', 1586005467)"
    by (simp add: two_fixes_env_def example_remediation_env_def)
  have t2: "temp_name two_fixes_env ''a.tf'' ''586005467'' = other_temp" by code_simp
  have o2: "re_open_temp two_fixes_env other_temp (rs_disk ?s) = (None, two_disk @ [(other_temp, [])])"
    by (simp add: two_fixes_env_def example_remediation_env_def two_disk_def example_temp_def other_temp_def)
  have w2: "re_write_temp two_fixes_env other_temp (two_lines [''x = 2'', ''y = 2'']) (two_disk @ [(other_temp, [])]) =
      (None, ?d3)"
    by (simp add: two_fixes_env_def example_remediation_env_def two_disk_def example_temp_def other_temp_def)
  have s2: "scanTmpFile two_fixes_env (re_fs two_fixes_env ?d3) other_temp
      (rm_QueryID (example_fix\<lparr>rm_Line := 2\<rparr>)) (two_lines [''x = 2'', ''y = 2'']) False 15 = Some (Inr [])"
    using two_scans(2) by (simp add: two_fixes_env_def example_remediation_env_def two_disk_def example_fix_def)
  have r2: "snd (re_remove two_fixes_env other_temp ?d3) = two_disk"
    by (simp add: two_fixes_env_def example_remediation_env_def two_disk_def example_temp_def other_temp_def
        AList.delete_eq)
  show "willRemediate two_fixes_env [''x = 2'', ''y = 2''] ''a.tf'' (example_fix\<lparr>rm_Line := 2\<rparr>) False 15 ?s =
     Some (True, two_fixes_state\<lparr>rs_rand := 1586005467, rs_disk := two_disk\<rparr>)"
    by (simp only: willRemediate_by_scan [OF n2 t2 o2 w2 s2] sum.case r2) simp
qed

lemma two_replacements:
  "replacement (re_replacement_info two_fixes_env) example_fix [''x = 1'', ''y = 1''] =
     Some ([''x = 2'', ''y = 1''], [''x = 2'', ''y = 1''])"
  "replacement (re_replacement_info two_fixes_env) (example_fix\<lparr>rm_Line := 2\<rparr>) [''x = 2'', ''y = 1''] =
     Some ([''x = 2'', ''y = 2''], [''x = 2'', ''y = 2''])"
proof -
  have "replace_first ''x = 1'' ''1'' ''2'' = ''x = 2''" "replace_first ''y = 1'' ''1'' ''2'' = ''y = 2''"
    by code_simp+
  then show "replacement (re_replacement_info two_fixes_env) example_fix [''x = 1'', ''y = 1''] =
     Some ([''x = 2'', ''y = 1''], [''x = 2'', ''y = 1''])"
    "replacement (re_replacement_info two_fixes_env) (example_fix\<lparr>rm_Line := 2\<rparr>) [''x = 2'', ''y = 1''] =
     Some ([''x = 2'', ''y = 2''], [''x = 2'', ''y = 2''])"
    by (simp_all add: replacement_def example_fix_def two_fixes_env_def example_remediation_env_def at_def Let_def)
qed

section \<open>Properties\<close>



text \<open>The fixes of a report are collected for each file in its order: a file has a set exactly
  when a fix of it is selected, and the set holds all its selected fixes, by their kind.\<close>

lemma remediation_sets_complete:
  assumes "includes \<noteq> []"
  shows "\<exists>sets. GetRemediationSets results includes n =
      Some (sets, n + int (length (filter (selects includes) (getVulns results)))) \<and> gomap_ok sets \<and>
    (\<forall>p. map_of sets p =
       (if \<exists>v \<in> set (getVulns results). selects includes v \<and> v_FileName v = p
        then Some (fixes_for p (filter (selects includes) (getVulns results))) else None))"
proof (cases "getVulns results = []")
  case True
  then show ?thesis by (simp add: GetRemediationSets_def)
next
  case False
  have "map_of [] = sets_of []" by (rule ext) (simp add: sets_of_def)
  then have "\<exists>sets. sets_from_vulns (getVulns results) includes [] n =
       Some (sets, n + int (length (filter (selects includes) (getVulns results)))) \<and> gomap_ok sets \<and>
       map_of sets = sets_of (filter (selects includes) (getVulns results))"
    using sets_from_vulns_sets [OF assms, of "[]" "[]"] by simp
  then show ?thesis
    using False by (fastforce simp: GetRemediationSets_def GetRemediationSetsFromVulns_def sets_of_def)
qed

text \<open>An addition is inserted under its line, with the indentation of the line it goes before, and
  changes no other line; on the file it gives, it is not made again, unless that line began with a
  dash.\<close>

lemma addition_inserts_once:
  assumes "addition r ls = Some ls'" and "ls' \<noteq> []" and "\<forall>l \<in> set ls. CHR 0x0A \<notin> set l"
  shows "0 \<le> rm_Line r \<and> nat (rm_Line r) < length ls \<and>
    ls' = take (nat (rm_Line r)) ls @ [getBefore (ls ! nat (rm_Line r)) @ rm_Remediation r] @
      drop (nat (rm_Line r)) ls \<and>
    (CHR ''-'' \<notin> set (getBefore (ls ! nat (rm_Line r))) \<longrightarrow>
       addition r (split_on (join ls' [CHR 0x0A]) [CHR 0x0A]) = Some [])"
  using addition_inserts [OF assms(1,2)] addition_again [OF assms] by blast

text \<open>A query that cannot be evaluated on the fixed file, because it fails or takes too long, has
  no results there, so that its fix passes the check.\<close>

lemma failed_evaluation_passes:
  assumes "\<forall>q p. \<exists>err. en_eval (re_engine env) q p = Inl err"
    and "scanTmpFile env fs tmpFile (rm_QueryID r) text0 openAPI depth = Some (Inr vulns)"
  shows "removedResult vulns r"
  using failing_query_no_results [OF assms] by simp

text \<open>A replacement that the scan rejects stays in the lines, and is written with the next
  replacement that the scan accepts.\<close>

lemma rejected_replacement_written:
  assumes "fs_read (re_fs env (rs_disk s)) filePath = Inr bytes"
    and "replacement (re_replacement_info env) r1 (split_on bytes [CHR 0x0A]) = Some (l1, l1)" and "l1 \<noteq> []"
    and "willRemediate env l1 filePath r1 openAPI depth s = Some (False, s1)"
    and "replacement (re_replacement_info env) r2 l1 = Some (l2, l2)" and "l2 \<noteq> []"
    and "willRemediate env l2 filePath r2 openAPI depth s1 = Some (True, s2)"
    and "re_write_file env filePath (join l2 [CHR 0x0A]) (rs_disk s2) = (None, d)"
    and "rm_Line r1 \<noteq> rm_Line r2" and "re_sort env [] = []"
  shows "RemediateFile env filePath \<lparr>rset_Replacement = [r1, r2], rset_Addition = []\<rparr> openAPI depth s =
      Some (None, s2\<lparr>rs_disk := d,
        rs_ActualRemediationDoneNumber := rs_ActualRemediationDoneNumber s2 + 1\<rparr>) \<and>
    l2 ! nat (rm_Line r1 - 1) = l1 ! nat (rm_Line r1 - 1) \<and>
    l1 ! nat (rm_Line r1 - 1) \<noteq> split_on bytes [CHR 0x0A] ! nat (rm_Line r1 - 1)"
proof -
  have kept: "l2 ! nat (rm_Line r1 - 1) = l1 ! nat (rm_Line r1 - 1) \<and>
      l1 ! nat (rm_Line r1 - 1) \<noteq> split_on bytes [CHR 0x0A] ! nat (rm_Line r1 - 1)"
    using replacement_changes [OF assms(2,3)] replacement_changes [OF assms(5,6)] assms(9)
    by (auto simp: nth_list_update)
  show ?thesis
    using assms kept by (simp add: RemediateFile_def apply_fix_def writeRemediation_def)
qed

end
