(* ===== verification/Provider.thy ===== *)
theory Provider
  imports Service
begin

text \<open>
  \<open>pkg/engine/provider\<close>: the walk over the paths of a scan that offers the files to \<open>sink\<close> and the
  directories with a chart to \<open>resolverSink\<close>. What \<open>filepath.Walk\<close> finds is a tree, and the run
  of a provider is a \<open>walk\<close> of the service.
\<close>

section \<open>\<open>filepath.Walk\<close>\<close>

text \<open>\<open>fi_Id\<close> is what \<open>os.SameFile\<close> compares.\<close>

record FileInfo =
  fi_Name :: string
  fi_Size :: int
  fi_Id :: nat

text \<open>
  What a path leads to: a file, a directory with its entries (which perhaps cannot be read), or
  something that \<open>os.Lstat\<close> fails on.
\<close>

datatype fs_tree =
    FsFile string FileInfo
  | FsDir string FileInfo "string option" "fs_tree list"
  | FsBad string string

datatype walk_error = SkipDir | WalkError string

definition no_info :: FileInfo where
  "no_info = \<lparr>fi_Name = [], fi_Size = 0, fi_Id = 0\<rparr>"

text \<open>
  The function that is called for each path gets whether it is a directory, its information and
  perhaps an error, and goes on with the continuation.
\<close>

type_synonym ('st, 'r) walk_fn =
  "string \<Rightarrow> bool \<Rightarrow> FileInfo \<Rightarrow> string option \<Rightarrow> 'st \<Rightarrow> (walk_error option \<Rightarrow> 'st \<Rightarrow> 'r) \<Rightarrow> 'r"

fun is_file :: "fs_tree \<Rightarrow> bool" where
  "is_file (FsFile p i) = True"
| "is_file t = False"

fun Walk_node :: "('st, 'r) walk_fn \<Rightarrow> fs_tree \<Rightarrow> 'st \<Rightarrow> (walk_error option \<Rightarrow> 'st \<Rightarrow> 'r) \<Rightarrow> 'r"
  and Walk_nodes :: "('st, 'r) walk_fn \<Rightarrow> fs_tree list \<Rightarrow> 'st \<Rightarrow> (walk_error option \<Rightarrow> 'st \<Rightarrow> 'r) \<Rightarrow> 'r" where
  "Walk_node fn (FsFile p i) st k = fn p False i None st k"
| "Walk_node fn (FsDir p i err cs) st k =
     fn p True i err st (\<lambda>e st'.
       if e \<noteq> None \<or> err \<noteq> None then k e st' else Walk_nodes fn cs st' k)"
| "Walk_node fn (FsBad p err) st k = fn p False no_info (Some err) st k"
| "Walk_nodes fn [] st k = k None st"
| "Walk_nodes fn (c # cs) st k =
     Walk_node fn c st (\<lambda>e st'.
       if e = None \<or> e = Some SkipDir \<and> \<not> is_file c then Walk_nodes fn cs st' k else k e st')"

definition Walk :: "('st, 'r) walk_fn \<Rightarrow> fs_tree \<Rightarrow> 'st \<Rightarrow> (walk_error option \<Rightarrow> 'st \<Rightarrow> 'r) \<Rightarrow> 'r" where
  "Walk fn t st k = Walk_node fn t st (\<lambda>e. k (if e = Some SkipDir then None else e))"

section \<open>The provider\<close>

datatype stat_error = NotExist | PathError string | StatError string

record provider_env =
  pv_stat :: "string \<Rightarrow> stat_error + bool \<times> FileInfo"
  pv_glob :: "string \<Rightarrow> string + string list"
  pv_tree :: "string \<Rightarrow> fs_tree"
  pv_open :: "string \<Rightarrow> string + reader"
  pv_symlink :: "string \<Rightarrow> bool"
  pv_fs :: filesys

type_synonym excludes = "(string, FileInfo list) gomap"

record FileSystemSourceProvider =
  fp_paths :: "string list"
  fp_excludes :: excludes

definition GetExcludePaths :: "provider_env \<Rightarrow> string \<Rightarrow> string list" where
  "GetExcludePaths env pathExpressions =
     (if list_ex (\<lambda>c. c \<in> {CHR ''*'', CHR ''?'', CHR ''[''}) pathExpressions
      then (case pv_glob env pathExpressions of Inl err \<Rightarrow> [pathExpressions] | Inr info \<Rightarrow> info)
      else [pathExpressions])"

text \<open>
  \<open>AddExcluded\<close> takes the lock for each path it adds: a caller that holds it (\<open>held\<close>) waits for
  itself, and the call does not return (\<open>None\<close>).
\<close>

fun AddExcluded :: "provider_env \<Rightarrow> bool \<Rightarrow> string list \<Rightarrow> excludes \<Rightarrow> (string option \<times> excludes) option" where
  "AddExcluded env held [] ex = Some (None, ex)"
| "AddExcluded env held (excludePath # paths) ex =
     (case pv_stat env excludePath of
        Inl NotExist \<Rightarrow> AddExcluded env held paths ex
      | Inl (PathError err) \<Rightarrow> AddExcluded env held paths ex
      | Inl (StatError err) \<Rightarrow> Some (Some (''failed to open excluded file: '' @ err), ex)
      | Inr (isDir, info) \<Rightarrow>
          (if held then None
           else AddExcluded env held paths
             (gomap_put (fi_Name info)
               ((case map_of ex (fi_Name info) of None \<Rightarrow> [] | Some fs \<Rightarrow> fs) @ [info]) ex)))"

fun add_all_excluded :: "provider_env \<Rightarrow> string list \<Rightarrow> excludes \<Rightarrow> (string + excludes) option" where
  "add_all_excluded env [] ex = Some (Inr ex)"
| "add_all_excluded env (exclude # excludes) ex = do {
     (err, ex') \<leftarrow> AddExcluded env False (GetExcludePaths env exclude) ex;
     case err of Some e \<Rightarrow> Some (Inl e) | None \<Rightarrow> add_all_excluded env excludes ex'
   }"

text \<open>\<open>filepath.FromSlash\<close> changes nothing where \<open>/\<close> is the separator.\<close>

definition NewFileSystemSourceProvider ::
  "provider_env \<Rightarrow> string list \<Rightarrow> string list \<Rightarrow> (string + FileSystemSourceProvider) option" where
  "NewFileSystemSourceProvider env paths excludes =
     map_option (\<lambda>res. case res of Inl err \<Rightarrow> Inl err
         | Inr ex \<Rightarrow> Inr \<lparr>fp_paths = paths, fp_excludes = ex\<rparr>)
       (add_all_excluded env excludes [])"

definition GetBasePaths :: "FileSystemSourceProvider \<Rightarrow> string list" where
  "GetBasePaths s = fp_paths s"

definition ignoreDamagedFiles :: "provider_env \<Rightarrow> string \<Rightarrow> bool" where
  "ignoreDamagedFiles env path = pv_symlink env path"

definition containsFile :: "FileInfo list \<Rightarrow> FileInfo \<Rightarrow> bool" where
  "containsFile fileList target = list_ex (\<lambda>f. fi_Id f = fi_Id target) fileList"

definition excluded :: "excludes \<Rightarrow> FileInfo \<Rightarrow> bool" where
  "excluded ex info \<longleftrightarrow>
     (case map_of ex (fi_Name info) of None \<Rightarrow> False | Some fs \<Rightarrow> containsFile fs info)"

text \<open>
  The expression \<open>^(.*?/)?\.terra.*\<close>; a dot does not match a line feed.
\<close>

definition terra_cache :: "string \<Rightarrow> bool" where
  "terra_cache path \<longleftrightarrow>
     has_prefix path ''.terra'' \<or> contains (takeWhile (\<lambda>c. c \<noteq> CHR 0x0A) path) ''/.terra''"

text \<open>\<open>checkConditions\<close> holds the lock while it calls \<open>AddExcluded\<close>.\<close>

definition checkConditions ::
  "provider_env \<Rightarrow> Extensions \<Rightarrow> string \<Rightarrow> bool \<Rightarrow> FileInfo \<Rightarrow> bool \<Rightarrow> excludes \<Rightarrow>
     ((bool \<times> walk_error option) \<times> excludes) option" where
  "checkConditions env extensions path isDir info resolved ex =
     (if isDir then
        (if terra_cache path then
           (case AddExcluded env True [fi_Name info] ex of
              None \<Rightarrow> None
            | Some (Some err, ex') \<Rightarrow> Some ((True, Some (WalkError err)), ex')
            | Some (None, ex') \<Rightarrow> Some ((True, Some SkipDir), ex'))
         else if excluded ex info then Some ((True, Some SkipDir), ex)
         else if isl (pv_stat env (path_join path ''Chart.yaml'')) \<or> resolved then Some ((True, None), ex)
         else Some ((False, None), ex))
      else if excluded ex info then Some ((True, None), ex)
      else if \<not> Include extensions (fst (GetExtension (pv_fs env) path)) then Some ((True, None), ex)
      else Some ((False, None), ex))"

definition slashes :: "string \<Rightarrow> string" where
  "slashes path = map (\<lambda>c. if c = CHR 0x5C then CHR ''/'' else c) path"

text \<open>
  The function of \<open>walkDir\<close>: its state is the excluded files, and whether a chart has been resolved.
  An error of \<open>sink\<close> is dropped.
\<close>

definition visit :: "provider_env \<Rightarrow> Extensions \<Rightarrow> (excludes \<times> bool, walk) walk_fn" where
  "visit env extensions path isDir info err st k =
     (let (ex, resolved) = st in
      case err of
        Some e \<Rightarrow> k (Some (WalkError e)) (ex, resolved)
      | None \<Rightarrow>
          (case checkConditions env extensions path isDir info resolved ex of
             None \<Rightarrow> WalkBlocked
           | Some ((True, skipFolder), ex') \<Rightarrow> k skipFolder (ex', resolved)
           | Some ((False, _), ex') \<Rightarrow>
               (if isDir then
                  WalkDir (slashes path) (\<lambda>(excludedFiles, errRes).
                    case errRes of
                      Some e \<Rightarrow> k None (ex', resolved)
                    | None \<Rightarrow>
                        (case AddExcluded env False excludedFiles ex' of
                           None \<Rightarrow> WalkBlocked
                         | Some (_, ex'') \<Rightarrow> k None (ex'', True)))
                else
                  (case pv_open env (Clean path) of
                     Inl e \<Rightarrow>
                       (if ignoreDamagedFiles env (Clean path) then k None (ex', resolved)
                        else k (Some (WalkError (''failed to open file: '' @ e))) (ex', resolved))
                   | Inr rc \<Rightarrow> WalkFile (slashes path) rc (\<lambda>err. k None (ex', resolved))))))"

definition walkDir ::
  "provider_env \<Rightarrow> Extensions \<Rightarrow> string \<Rightarrow> excludes \<Rightarrow> (string option \<Rightarrow> excludes \<Rightarrow> walk) \<Rightarrow> walk" where
  "walkDir env extensions scanPath ex k =
     Walk (visit env extensions) (pv_tree env scanPath) (ex, False) (\<lambda>e (ex', resolved).
       k (case e of None \<Rightarrow> None | Some SkipDir \<Rightarrow> None | Some (WalkError err) \<Rightarrow> Some err) ex')"

datatype open_error = NotSupportedFile | OpenFailed string

definition openScanFile :: "provider_env \<Rightarrow> string \<Rightarrow> Extensions \<Rightarrow> open_error + reader" where
  "openScanFile env scanPath extensions =
     (if \<not> Include extensions (fst (GetExtension (pv_fs env) scanPath)) then Inl NotSupportedFile
      else case pv_open env scanPath of
        Inl err \<Rightarrow> Inl (OpenFailed (''failed to open path: '' @ err))
      | Inr c \<Rightarrow> Inr c)"

definition stat_text :: "stat_error \<Rightarrow> string" where
  "stat_text e = (case e of NotExist \<Rightarrow> ''file does not exist'' | PathError t \<Rightarrow> t | StatError t \<Rightarrow> t)"

fun sources_of :: "provider_env \<Rightarrow> Extensions \<Rightarrow> string list \<Rightarrow> excludes \<Rightarrow> walk" where
  "sources_of env extensions [] ex = WalkDone None"
| "sources_of env extensions (scanPath # paths) ex =
     (case pv_stat env scanPath of
        Inl err \<Rightarrow> WalkDone (Some (''failed to open path: '' @ stat_text err))
      | Inr (False, info) \<Rightarrow>
          (case openScanFile env scanPath extensions of
             Inl openFileErr \<Rightarrow>
               (if openFileErr = NotSupportedFile \<or> ignoreDamagedFiles env scanPath
                then sources_of env extensions paths ex
                else WalkDone (Some (case openFileErr of NotSupportedFile \<Rightarrow> [] | OpenFailed t \<Rightarrow> t)))
           | Inr c \<Rightarrow>
               WalkFile scanPath c (\<lambda>sinkErr. case sinkErr of
                 Some e \<Rightarrow> WalkDone (Some e)
               | None \<Rightarrow> sources_of env extensions paths ex))
      | Inr (True, info) \<Rightarrow>
          walkDir env extensions scanPath ex (\<lambda>err ex'. case err of
            Some e \<Rightarrow> WalkDone (Some (''failed to walk directory: '' @ e))
          | None \<Rightarrow> sources_of env extensions paths ex'))"

definition GetSources :: "provider_env \<Rightarrow> FileSystemSourceProvider \<Rightarrow> Extensions \<Rightarrow> walk" where
  "GetSources env s extensions = sources_of env extensions (fp_paths s) (fp_excludes s)"

text \<open>The provider as the service sees it\<close>

definition filesystem_provider :: "provider_env \<Rightarrow> FileSystemSourceProvider \<Rightarrow> SourceProvider" where
  "filesystem_provider env s = \<lparr>sp_GetSources = GetSources env s, sp_GetBasePaths = GetBasePaths s\<rparr>"

section \<open>What a provider offers\<close>

text \<open>The paths that a run may give to \<open>sink\<close>, for any answers of the sinks\<close>

inductive offers :: "walk \<Rightarrow> string \<Rightarrow> bool" where
  offered: "offers (WalkFile p rc k) p"
| offered_later: "offers (k err) q \<Longrightarrow> offers (WalkFile p rc k) q"
| offered_after_dir: "offers (k res) q \<Longrightarrow> offers (WalkDir p k) q"

inductive_simps offers_simps [simp]:
  "offers (WalkDone err) q" "offers WalkBlocked q" "offers (WalkFile p rc k) q" "offers (WalkDir p k) q"

text \<open>The files that a walk may come to, when \<open>ex\<close> is excluded\<close>

fun visited :: "excludes \<Rightarrow> fs_tree \<Rightarrow> (string \<times> FileInfo) list" where
  "visited ex (FsFile p i) = (if excluded ex i then [] else [(p, i)])"
| "visited ex (FsDir p i err cs) =
     (if terra_cache p \<or> excluded ex i \<or> err \<noteq> None then [] else concat (map (visited ex) cs))"
| "visited ex (FsBad p err) = []"

definition more_excluded :: "excludes \<Rightarrow> excludes \<Rightarrow> bool" where
  "more_excluded ex ex' \<longleftrightarrow> (\<forall>i. excluded ex i \<longrightarrow> excluded ex' i)"

lemma more_excluded_refl [simp]: "more_excluded ex ex"
  by (simp add: more_excluded_def)

lemma more_excluded_trans [trans]:
  "more_excluded a b \<Longrightarrow> more_excluded b c \<Longrightarrow> more_excluded a c"
  by (simp add: more_excluded_def)

lemma AddExcluded_more: "AddExcluded env held ps ex = Some (e, ex') \<Longrightarrow> more_excluded ex ex'"
proof (induction env held ps ex arbitrary: e rule: AddExcluded.induct)
  case (2 env held p ps ex)
  show ?case
  proof (cases "pv_stat env p")
    case (Inl err)
    then show ?thesis using 2 by (cases err) (auto simp: more_excluded_def)
  next
    case (Inr r)
    obtain isDir info where r: "r = (isDir, info)" by (cases r)
    let ?ex = "gomap_put (fi_Name info)
       ((case map_of ex (fi_Name info) of None \<Rightarrow> [] | Some fs \<Rightarrow> fs) @ [info]) ex"
    have held: "\<not> held" "AddExcluded env held ps ?ex = Some (e, ex')"
      using 2(4) Inr r by (auto split: if_splits)
    have "more_excluded ex ?ex"
      by (auto simp: more_excluded_def excluded_def containsFile_def split: option.splits)
    also have "more_excluded ?ex ex'" using 2(3) [OF Inr r [symmetric] held] .
    finally show ?thesis .
  qed
qed (simp add: more_excluded_def)

lemma checkConditions_more:
  "checkConditions env exts p d i r ex = Some (res, ex') \<Longrightarrow> more_excluded ex ex'"
  by (auto simp: checkConditions_def simp del: AddExcluded.simps split: if_splits option.splits
      dest: AddExcluded_more)

text \<open>Where a path that a walk of directories offers comes from\<close>

definition from_tree :: "provider_env \<Rightarrow> Extensions \<Rightarrow> excludes \<Rightarrow> (string \<times> FileInfo) list \<Rightarrow> string \<Rightarrow> bool" where
  "from_tree env exts ex fs q \<longleftrightarrow>
     (\<exists>path info. (path, info) \<in> set fs \<and> q = slashes path \<and> \<not> excluded ex info \<and>
        Include exts (fst (GetExtension (pv_fs env) path)))"

definition goes_on :: "excludes \<Rightarrow> (walk_error option \<Rightarrow> excludes \<times> bool \<Rightarrow> walk) \<Rightarrow> string \<Rightarrow> bool" where
  "goes_on ex k q \<longleftrightarrow> (\<exists>e ex' r'. more_excluded ex ex' \<and> offers (k e (ex', r')) q)"

lemma goes_on_more: "more_excluded ex ex' \<Longrightarrow> goes_on ex' k q \<Longrightarrow> goes_on ex k q"
  by (auto simp: goes_on_def intro: more_excluded_trans)

lemma visit_offers:
  assumes "offers (visit env exts p d i err (ex, r) k) q"
  shows "(\<not> d \<and> err = None \<and> \<not> excluded ex i \<and> Include exts (fst (GetExtension (pv_fs env) p)) \<and> q = slashes p) \<or>
    (\<exists>e ex' r'. more_excluded ex ex' \<and> offers (k e (ex', r')) q \<and>
       (d \<and> e = None \<longrightarrow> err = None \<and> \<not> terra_cache p \<and> \<not> excluded ex i))"
proof (cases err)
  case (Some e)
  then show ?thesis using assms by (auto simp: visit_def intro: more_excluded_refl)
next
  case None
  show ?thesis
  proof (cases "checkConditions env exts p d i r ex")
    case n: None
    then show ?thesis using assms None by (simp add: visit_def)
  next
    case (Some res)
    obtain skip folder ex' where res: "res = ((skip, folder), ex')" by (metis surj_pair)
    have more: "more_excluded ex ex'" using checkConditions_more Some res by blast
    have dirs: "d \<and> (skip \<longrightarrow> folder = None) \<longrightarrow> \<not> terra_cache p \<and> \<not> excluded ex i"
      using Some res by (auto simp: checkConditions_def simp del: AddExcluded.simps split: if_splits option.splits)
    have files: "\<not> d \<and> \<not> skip \<longrightarrow> \<not> excluded ex i \<and> Include exts (fst (GetExtension (pv_fs env) p))"
      using Some res by (auto simp: checkConditions_def simp del: AddExcluded.simps split: if_splits option.splits)
    show ?thesis
    proof (cases skip)
      case True
      then show ?thesis using assms None Some res more dirs by (auto simp: visit_def)
    next
      case False
      show ?thesis
      proof (cases d)
        case True
        have "\<exists>fs (errRes :: string option). offers (case errRes of Some e \<Rightarrow> k None (ex', r)
            | None \<Rightarrow> (case AddExcluded env False fs ex' of None \<Rightarrow> WalkBlocked
                | Some (x, ex'') \<Rightarrow> k None (ex'', True))) q"
          using assms None Some res False True by (auto simp: visit_def)
        then have "\<exists>ex'' r'. more_excluded ex ex'' \<and> offers (k None (ex'', r')) q"
        proof (elim exE)
          fix fs and errRes :: "string option"
          assume o: "offers (case errRes of Some e \<Rightarrow> k None (ex', r)
            | None \<Rightarrow> (case AddExcluded env False fs ex' of None \<Rightarrow> WalkBlocked
                | Some (x, ex'') \<Rightarrow> k None (ex'', True))) q"
          show ?thesis
          proof (cases errRes)
            case None
            with o obtain x ex'' where "AddExcluded env False fs ex' = Some (x, ex'')" "offers (k None (ex'', True)) q"
              by (auto split: option.splits)
            then show ?thesis using more AddExcluded_more more_excluded_trans by blast
          qed (use o more in auto)
        qed
        then show ?thesis using None dirs False by blast
      next
        case d: False
        then show ?thesis
          using assms None Some res more files False
          by (auto simp: visit_def split: sum.splits if_splits)
      qed
    qed
  qed
qed

lemma Walk_node_offers:
  "offers (Walk_node (visit env exts) t (ex, r) k) q \<Longrightarrow>
     more_excluded ex0 ex \<Longrightarrow> from_tree env exts ex0 (visited ex0 t) q \<or> goes_on ex0 k q"
  "offers (Walk_nodes (visit env exts) ts (ex, r) k) q \<Longrightarrow>
     more_excluded ex0 ex \<Longrightarrow>
     from_tree env exts ex0 (concat (map (visited ex0) ts)) q \<or> goes_on ex0 k q"
proof (induction "visit env exts" t "(ex, r)" k and "visit env exts" ts "(ex, r)" k
    arbitrary: ex r and ex r rule: Walk_node_Walk_nodes.induct)
  case (1 p i k)
  have ex: "\<not> excluded ex i \<Longrightarrow> \<not> excluded ex0 i" using 1(2) by (auto simp: more_excluded_def)
  from visit_offers [OF 1(1) [unfolded Walk_node.simps]] show ?case
    using 1(2) ex by (auto simp: from_tree_def goes_on_def intro: more_excluded_trans)
next
  case (2 p i err cs k)
  have ex: "\<not> excluded ex i \<Longrightarrow> \<not> excluded ex0 i" using 2(3) by (auto simp: more_excluded_def)
  obtain e ex' r' where v: "more_excluded ex ex'"
      "offers (if e \<noteq> None \<or> err \<noteq> None then k e (ex', r') else Walk_nodes (visit env exts) cs (ex', r') k) q"
      "e = None \<longrightarrow> err = None \<and> \<not> terra_cache p \<and> \<not> excluded ex i"
    using visit_offers [OF 2(2) [unfolded Walk_node.simps]] by auto
  have m: "more_excluded ex0 ex'" using 2(3) v(1) by (rule more_excluded_trans)
  show ?case
  proof (cases "e \<noteq> None \<or> err \<noteq> None")
    case True
    then show ?thesis using v(2) m by (auto simp: goes_on_def)
  next
    case False
    then have "from_tree env exts ex0 (concat (map (visited ex0) cs)) q \<or> goes_on ex0 k q"
      using 2(1) [of e ex' r'] v(2) m by auto
    then show ?thesis using False v(3) ex by auto
  qed
next
  case (3 p err k)
  then show ?case by (auto simp: visit_def goes_on_def)
next
  case (4 k)
  then show ?case by (auto simp: goes_on_def)
next
  case (5 c cs k)
  have mono: "from_tree env exts ex0 fs q \<Longrightarrow> set fs \<subseteq> set fs' \<Longrightarrow> from_tree env exts ex0 fs' q" for fs fs'
    by (auto simp: from_tree_def)
  from 5(2) [OF 5(3) [unfolded Walk_nodes.simps] 5(4)] show ?case
  proof
    assume "goes_on ex0 (\<lambda>e st'. if e = None \<or> e = Some SkipDir \<and> \<not> is_file c
        then Walk_nodes (visit env exts) cs st' k else k e st') q"
    then obtain e ex' r' where m: "more_excluded ex0 ex'"
      and o: "offers (if e = None \<or> e = Some SkipDir \<and> \<not> is_file c
        then Walk_nodes (visit env exts) cs (ex', r') k else k e (ex', r')) q"
      by (auto simp: goes_on_def)
    show ?thesis
    proof (cases "e = None \<or> e = Some SkipDir \<and> \<not> is_file c")
      case True
      then show ?thesis
        using 5(1) [OF True, of ex' r'] o m mono [of _ "concat (map (visited ex0) (c # cs))"] by auto
    next
      case False
      then have "offers (k e (ex', r')) q" using o by (simp only: if_False)
      then show ?thesis using m unfolding goes_on_def by blast
    qed
  qed (auto intro: mono)
qed

lemma sources_of_offers:
  "offers (sources_of env exts paths ex) q \<Longrightarrow> more_excluded ex0 ex \<Longrightarrow>
     (q \<in> set paths \<and> (\<exists>i. pv_stat env q = Inr (False, i)) \<and>
        Include exts (fst (GetExtension (pv_fs env) q))) \<or>
     (\<exists>root \<in> set paths. from_tree env exts ex0 (visited ex0 (pv_tree env root)) q)"
proof (induction paths arbitrary: ex)
  case (Cons p ps)
  show ?case
  proof (cases "pv_stat env p")
    case (Inl err)
    then show ?thesis using Cons.prems by simp
  next
    case (Inr r)
    obtain isDir info where r: "r = (isDir, info)" by (cases r)
    show ?thesis
    proof (cases isDir)
      case True
      let ?k = "\<lambda>e st. case (case e of None \<Rightarrow> None | Some SkipDir \<Rightarrow> None
            | Some (WalkError err) \<Rightarrow> Some err) of
          Some e \<Rightarrow> WalkDone (Some (''failed to walk directory: '' @ e))
        | None \<Rightarrow> sources_of env exts ps (fst st)"
      let ?k' = "\<lambda>e. ?k (if e = Some SkipDir then None else e)"
      have "offers (Walk_node (visit env exts) (pv_tree env p) (ex, False) ?k') q"
        using Cons.prems(1) Inr r True by (simp add: walkDir_def Walk_def split_def)
      from Walk_node_offers(1) [OF this Cons.prems(2)] show ?thesis
      proof
        assume "goes_on ex0 ?k' q"
        then obtain e ex' and r' :: bool where m: "more_excluded ex0 ex'" and o: "offers (?k' e (ex', r')) q"
          unfolding goes_on_def by blast
        have "offers (sources_of env exts ps ex') q"
        proof (cases e)
          case (Some w)
          then show ?thesis using o by (cases w) auto
        qed (use o in simp)
        then show ?thesis using Cons.IH [OF _ m] by fastforce
      qed auto
    next
      case False
      then show ?thesis
        using Cons.prems Cons.IH [OF _ Cons.prems(2)] Inr r
        by (auto simp: openScanFile_def split: if_splits sum.splits option.splits)
    qed
  qed
qed simp

section \<open>When a provider ends\<close>

primrec ends :: "walk \<Rightarrow> bool" where
  "ends (WalkDone err) = True"
| "ends WalkBlocked = False"
| "ends (WalkFile p rc k) = (\<forall>err. ends (k err))"
| "ends (WalkDir p k) = (\<forall>res. ends (k res))"

lemma run_walk_ends: "ends w \<Longrightarrow> run_walk on_file on_dir w s \<noteq> None"
proof (induction w arbitrary: s)
  case (WalkFile p rc k)
  then show ?case using WalkFile.IH [OF rangeI] by (auto simp: Let_def split_beta)
next
  case (WalkDir p k)
  have "ends (k (fst (on_dir p s)))" using WalkDir.prems by (simp del: split_paired_All)
  then show ?case using WalkDir.IH [OF rangeI] by (simp add: Let_def split_beta)
qed auto

text \<open>
  No cache directory of Terraform whose bare name \<open>os.Stat\<close> finds, in the directory the scan runs in
\<close>

fun no_stray_cache :: "provider_env \<Rightarrow> fs_tree \<Rightarrow> bool" where
  "no_stray_cache env (FsFile p i) = True"
| "no_stray_cache env (FsDir p i err cs) =
     ((terra_cache p \<longrightarrow> isl (pv_stat env (fi_Name i))) \<and> list_all (no_stray_cache env) cs)"
| "no_stray_cache env (FsBad p err) = True"

lemma AddExcluded_free [simp]: "AddExcluded env False ps ex = None \<longleftrightarrow> False"
  by (induction env False ps ex rule: AddExcluded.induct) (auto split: sum.splits stat_error.splits)

lemma AddExcluded_held: "AddExcluded env True [p] ex = None \<longleftrightarrow> \<not> isl (pv_stat env p)"
  by (auto split: sum.splits stat_error.splits)

lemma visit_ends:
  assumes "\<And>e st. ends (k e st)" and "d \<and> terra_cache p \<longrightarrow> isl (pv_stat env (fi_Name i))"
  shows "ends (visit env exts p d i err st k)"
proof -
  have c: "checkConditions env exts p d i r ex = None \<longleftrightarrow> False" for r ex
    using assms(2) AddExcluded_held [of env "fi_Name i" ex]
    by (auto simp: checkConditions_def simp del: AddExcluded.simps split: option.splits)
  then show ?thesis
    using assms(1)
    by (auto simp: visit_def c simp del: AddExcluded.simps split: option.split prod.split bool.split sum.split)
qed

lemma Walk_node_ends:
  "(\<And>e st. ends (k e st)) \<Longrightarrow> no_stray_cache env t \<Longrightarrow> ends (Walk_node (visit env exts) t st k)"
  "(\<And>e st. ends (k e st)) \<Longrightarrow> list_all (no_stray_cache env) ts \<Longrightarrow>
     ends (Walk_nodes (visit env exts) ts st k)"
proof (induction "visit env exts" t st k and "visit env exts" ts st k
    rule: Walk_node_Walk_nodes.induct)
  case (2 p i err cs st k)
  then show ?case by (auto intro!: visit_ends)
next
  case (5 c cs st k)
  then show ?case by auto
qed (auto intro!: visit_ends)

lemma sources_of_ends:
  "\<forall>p \<in> set paths. no_stray_cache env (pv_tree env p) \<Longrightarrow> ends (sources_of env exts paths ex)"
proof (induction paths arbitrary: ex)
  case (Cons p ps)
  then have "ends (walkDir env exts p ex (\<lambda>err ex'. case err of
      Some e \<Rightarrow> WalkDone (Some (''failed to walk directory: '' @ e)) | None \<Rightarrow> sources_of env exts ps ex'))"
    by (auto simp: walkDir_def Walk_def split: option.split walk_error.split intro!: Walk_node_ends(1))
  then show ?case using Cons by (auto split: sum.split option.split bool.split)
qed simp

section \<open>Properties\<close>

definition example_tree :: fs_tree where
  "example_tree = FsDir ''.'' \<lparr>fi_Name = ''.'', fi_Size = 0, fi_Id = 1\<rparr> None
     [FsDir ''.terraform'' \<lparr>fi_Name = ''.terraform'', fi_Size = 0, fi_Id = 2\<rparr> None [],
      FsFile ''a.tf'' \<lparr>fi_Name = ''a.tf'', fi_Size = 5, fi_Id = 3\<rparr>]"

text \<open>\<open>names\<close> are the paths that \<open>os.Stat\<close> finds.\<close>

definition example_provider_env :: "string list \<Rightarrow> provider_env" where
  "example_provider_env names =
     \<lparr>pv_stat = (\<lambda>p. if p \<in> set names
        then Inr (p \<noteq> ''a.tf'', \<lparr>fi_Name = p, fi_Size = 0, fi_Id = 1\<rparr>) else Inl NotExist),
      pv_glob = (\<lambda>e. Inr []), pv_tree = (\<lambda>p. example_tree), pv_open = (\<lambda>p. Inr (chunks [''x = 1''])),
      pv_symlink = (\<lambda>p. False), pv_fs = example_fs\<rparr>"

definition example_sources :: FileSystemSourceProvider where
  "example_sources = \<lparr>fp_paths = [''.''], fp_excludes = []\<rparr>"



text \<open>The preparation of the sources ends, with an error or without, whatever the files are, unless
  a directory on the way is a cache of Terraform whose bare name is found in the directory the
  scan runs in.\<close>

lemma sources_end:
  assumes "\<forall>p \<in> set (fp_paths s). no_stray_cache env (pv_tree env p)"
  shows "\<exists>errs sv'. PrepareSources senv (filesystem_provider env s) scan openAPI depth sv = Some (errs, sv')"
proof -
  have "ends (GetSources env s exts)" for exts
    using sources_of_ends [OF assms] by (simp add: GetSources_def)
  then show ?thesis
    using run_walk_ends by (fastforce simp: PrepareSources_def filesystem_provider_def)
qed

text \<open>A walk that comes to a cache of Terraform whose bare name \<open>os.Stat\<close> finds, as it does when the
  scan runs in the directory above, waits for the lock it holds, and the scan does not end.\<close>

lemma terraform_cache_blocks:
  assumes "fp_paths s = [p]" and "pv_stat env p = Inr (True, i0)"
    and "pv_tree env p = FsDir p i None (FsDir c ci None cs # rest)"
    and "\<not> terra_cache p" and "\<not> excluded (fp_excludes s) i"
    and "isl (pv_stat env (path_join p ''Chart.yaml''))"
    and "terra_cache c" and "\<not> isl (pv_stat env (fi_Name ci))"
  shows "PrepareSources senv (filesystem_provider env s) scan openAPI depth sv = None"
proof -
  have "checkConditions env exts c True ci r ex = None" for exts r ex
    using assms(7,8) AddExcluded_held [of env "fi_Name ci" ex]
    by (simp add: checkConditions_def del: AddExcluded.simps)
  then have "GetSources env s exts = WalkBlocked" for exts
    using assms by (simp add: GetSources_def walkDir_def Walk_def visit_def checkConditions_def
        del: AddExcluded.simps)
  then show ?thesis by (simp add: PrepareSources_def filesystem_provider_def)
qed

end
