(* ===== verification/Analyzer.thy ===== *)
theory Analyzer
  imports Provider Helpers
begin

text \<open>
  \<open>pkg/analyzer/analyzer.go\<close>: which platforms the files of a scan belong to, and which files no
  parser should see. The regular expressions are matched by \<open>regex_match\<close>; the environment holds
  the file system, the parser of YAML and the matcher of \<open>.gitignore\<close>; the workers and the loop
  that reads their channels are a step relation.
\<close>

section \<open>Regular expressions\<close>

datatype regex =
    Lit string
  | Cls "char \<Rightarrow> bool"
  | Seq regex regex
  | Alt regex regex
  | Star regex

text \<open>What is left of a text after each way to match a prefix of it\<close>

function rests :: "regex \<Rightarrow> string \<Rightarrow> string list" where
  "rests (Lit w) s = (if prefix w s then [drop (length w) s] else [])"
| "rests (Cls p) s = (case s of [] \<Rightarrow> [] | c # s' \<Rightarrow> if p c then [s'] else [])"
| "rests (Seq a b) s = concat (map (rests b) (rests a s))"
| "rests (Alt a b) s = rests a s @ rests b s"
| "rests (Star a) s =
     s # concat (map (rests (Star a)) (filter (\<lambda>t. length t < length s) (rests a s)))"
  by pat_completeness auto
termination
  by (relation "measures [\<lambda>(r, s). size r, \<lambda>(r, s). length s]") auto

declare rests.simps(5) [simp del]

text \<open>\<open>MatchString\<close>: a match anywhere in the text\<close>

fun regex_match :: "regex \<Rightarrow> string \<Rightarrow> bool" where
  "regex_match r s \<longleftrightarrow> rests r s \<noteq> [] \<or> (case s of [] \<Rightarrow> False | c # s' \<Rightarrow> regex_match r s')"

declare regex_match.simps [simp del]

abbreviation spaces :: regex where "spaces \<equiv> Star (Cls re_space)"
abbreviation word :: regex where "word \<equiv> Seq (Cls word_char) (Star (Cls word_char))"
abbreviation opt :: "regex \<Rightarrow> regex" where "opt r \<equiv> Alt r (Lit [])"

definition colon :: "regex \<Rightarrow> regex" where
  "colon r = Seq r (Seq spaces (Lit '':''))"

text \<open>\<open>"key"\s*:\<close>, \<open>key\s*:\<close>, and \<open>("key"|key)\s*:\<close>\<close>

definition quoted :: "string \<Rightarrow> string" where
  "quoted w = [CHR 0x22] @ w @ [CHR 0x22]"

definition json_key :: "string \<Rightarrow> regex" where "json_key w = colon (Lit (quoted w))"
definition plain_key :: "string \<Rightarrow> regex" where "plain_key w = colon (Lit w)"
definition yaml_key :: "string \<Rightarrow> regex" where "yaml_key w = colon (Alt (Lit (quoted w)) (Lit w))"

fun alts :: "string list \<Rightarrow> regex" where
  "alts [] = Alt (Cls (\<lambda>c. False)) (Cls (\<lambda>c. False))"
| "alts [w] = Lit w"
| "alts (w # ws) = Alt (Lit w) (alts ws)"

definition any_yaml_key :: "string list \<Rightarrow> regex" where
  "any_yaml_key ws = colon (Alt (alts (map quoted ws)) (alts ws))"

text \<open>\<open>"?apiVersion"?\s*:\s*(\w+\.)+host/v\w+\s*\<close>\<close>

definition api_of :: "string \<Rightarrow> regex" where
  "api_of host =
     Seq (opt (Lit [CHR 0x22])) (Seq (Lit ''apiVersion'') (Seq (opt (Lit [CHR 0x22]))
       (Seq spaces (Seq (Lit '':'') (Seq spaces
         (Seq (Seq word (Lit ''.'')) (Seq (Star (Seq word (Lit ''.'')))
           (Seq (Lit (host @ ''/v'')) (Seq word spaces)))))))))"

definition OpenAPIRegex :: "string \<Rightarrow> bool" where
  "OpenAPIRegex = regex_match (any_yaml_key [''openapi'', ''swagger''])"
definition OpenAPIRegexInfo :: "string \<Rightarrow> bool" where
  "OpenAPIRegexInfo = regex_match (yaml_key ''info'')"
definition OpenAPIRegexPath :: "string \<Rightarrow> bool" where
  "OpenAPIRegexPath = regex_match (any_yaml_key [''paths'', ''components'', ''webhooks''])"
definition buildahRegex :: "string \<Rightarrow> bool" where
  "buildahRegex = regex_match
     (Seq (Lit ''buildah'') (Seq spaces (Seq (Lit ''from'') (Seq spaces word))))"
definition crossPlaneRegex :: "string \<Rightarrow> bool" where
  "crossPlaneRegex = regex_match (api_of ''crossplane.io'')"
definition knativeRegex :: "string \<Rightarrow> bool" where
  "knativeRegex = regex_match (api_of ''knative.dev'')"

text \<open>\<open>(^|\n)provider\s*:\<close>: the beginning of the text counts as a line feed before it.\<close>

definition serverlessProviderRegex :: "string \<Rightarrow> bool" where
  "serverlessProviderRegex s =
     regex_match (Seq (Lit [CHR 0x0A]) (plain_key ''provider'')) (CHR 0x0A # s)"

definition cicd_key :: "string \<Rightarrow> string \<Rightarrow> bool" where
  "cicd_key w = regex_match (Seq spaces (Seq (Lit w) spaces))"

text \<open>
  \<open>^.*?/(?:group|host)_vars/.*$\<close>: a dot does not match a line feed, and the expression has to match
  the whole text.
\<close>

definition queryRegexPathsAnsible :: "string \<Rightarrow> bool" where
  "queryRegexPathsAnsible path \<longleftrightarrow>
     CHR 0x0A \<notin> set path \<and> (contains path ''/group_vars/'' \<or> contains path ''/host_vars/'')"

section \<open>Tables\<close>

definition arm :: string where "arm = ''azureresourcemanager''"

definition armRegexTypes :: "string list" where
  "armRegexTypes = [''blueprint'', ''templateArtifact'', ''roleAssignmentArtifact'', ''policyAssignmentArtifact'']"

definition possibleFileTypes :: "string list" where
  "possibleFileTypes =
     [''.yml'', ''.yaml'', ''.json'', ''.debian'', ''.ubi8'', ''.tf'', ''tfvars'', ''.proto'', ''.sh'',
      ''.cfg'', ''.conf'', ''.ini'', ''.bicep'']"

definition supportedRegexes :: "(string, string list) gomap" where
  "supportedRegexes =
     [(''azureresourcemanager'', armRegexTypes @ [arm]), (''buildah'', [''buildah'']), (''cicd'', [''cicd'']),
      (''cloudformation'', [''cloudformation'']), (''crossplane'', [''crossplane'']),
      (''knative'', [''knative'']), (''kubernetes'', [''kubernetes'']), (''openapi'', [''openapi'']),
      (''terraform'', [''terraform'', ''cdkTf'']), (''pulumi'', [''pulumi'']),
      (''serverlessfw'', [''serverlessfw''])]"

definition types :: "(string, (string \<Rightarrow> bool) list) gomap" where
  "types =
     [(''openapi'', [OpenAPIRegex, OpenAPIRegexInfo, OpenAPIRegexPath]),
      (''kubernetes'', map (regex_match \<circ> yaml_key) [''apiVersion'', ''kind'']),
      (''crossplane'', [crossPlaneRegex, regex_match (yaml_key ''kind'')]),
      (''knative'', [knativeRegex, regex_match (yaml_key ''kind'')]),
      (''cloudformation'', [regex_match (yaml_key ''Resources'')]),
      (''azureresourcemanager'', map (regex_match \<circ> json_key) [''contentVersion'', ''resources'']),
      (''terraform'', map (regex_match \<circ> json_key)
         [''configuration'', ''planned_values'', ''resource_changes'', ''terraform_version'']),
      (''cdkTf'', map (regex_match \<circ> json_key) [''metadata'', ''stackName'', ''terraform'']),
      (''policyAssignmentArtifact'', map (regex_match \<circ> yaml_key)
         [''kind'', ''properties'', ''parameters'', ''policyDefinitionId'']),
      (''roleAssignmentArtifact'', map (regex_match \<circ> yaml_key)
         [''kind'', ''properties'', ''principalIds'', ''roleDefinitionId'']),
      (''templateArtifact'', map (regex_match \<circ> yaml_key) [''kind'', ''properties'', ''parameters'', ''template'']),
      (''blueprint'', map (regex_match \<circ> yaml_key) [''targetScope'', ''properties'']),
      (''buildah'', [buildahRegex]),
      (''pulumi'', map (regex_match \<circ> plain_key) [''name'', ''runtime'', ''resources'']),
      (''serverlessfw'', [regex_match (plain_key ''service''), serverlessProviderRegex]),
      (''cicd'', map cicd_key [''on:'', ''jobs:'', ''steps:''])]"

definition listKeywordsAnsible :: "string list" where
  "listKeywordsAnsible =
     [''name'', ''gather_facts'', ''hosts'', ''tasks'', ''become'', ''with_items'', ''with_dict'', ''when'',
      ''become_pass'', ''become_exe'', ''become_flags'']"

definition ansibleHost :: "string list" where "ansibleHost = [''all'', ''ungrouped'']"
definition listKeywordsAnsibleHots :: "string list" where "listKeywordsAnsibleHots = [''hosts'', ''children'']"
definition listKeywordsGoogleDeployment :: "string list" where
  "listKeywordsGoogleDeployment = [''resources'']"
definition defaultConfigFiles :: "string list" where "defaultConfigFiles = [''pnpm-lock.yaml'']"
definition sizeMb :: int where "sizeMb = 1048576"

section \<open>The type of a file\<close>

record analyzer_env =
  an_pv :: provider_env
  an_yaml :: "string \<Rightarrow> doc"
  an_gitignore :: "string \<Rightarrow> (string \<Rightarrow> bool) option"
  an_vault_secret :: string

text \<open>\<open>filepath.Dir\<close>\<close>

definition Dir :: "string \<Rightarrow> string" where
  "Dir path = Clean (rev (dropWhile (\<lambda>c. c \<noteq> CHR ''/'') (rev path)))"

definition needsOverride :: "bool \<Rightarrow> string \<Rightarrow> string \<Rightarrow> string \<Rightarrow> bool" where
  "needsOverride check returnType key ext \<longleftrightarrow>
     check \<and> returnType = ''kubernetes'' \<and> key = arm \<and> ext = ''.json'' \<or>
     check \<and> returnType = ''kubernetes'' \<and> (key = ''knative'' \<or> key = ''crossplane'') \<and>
       (ext = ''.yaml'' \<or> ext = ''.yml'')"

definition getKeysFromTypesFlag :: "string list \<Rightarrow> string list" where
  "getKeysFromTypesFlag typesFlag =
     concat (map (\<lambda>t. case map_of supportedRegexes t of Some regexes \<Rightarrow> regexes | None \<Rightarrow> []) typesFlag)"

text \<open>The keys are sorted after, so that the order of the \<open>range\<close> over the table has no effect.\<close>

definition getKeysFromExcludeTypesFlag :: "string list \<Rightarrow> string list" where
  "getKeysFromExcludeTypesFlag excludeTypesFlag =
     concat (map (\<lambda>(k, regexes). if Contains k excludeTypesFlag then [] else regexes) supportedRegexes)"

definition content_keys :: "string list \<Rightarrow> string list \<Rightarrow> string list option" where
  "content_keys typesFlag excludeTypesFlag = do {
     t0 \<leftarrow> at typesFlag 0;
     keys \<leftarrow>
       (if t0 \<noteq> [] then Some (getKeysFromTypesFlag typesFlag)
        else do {
          e0 \<leftarrow> at excludeTypesFlag 0;
          Some (if e0 \<noteq> [] then getKeysFromExcludeTypesFlag excludeTypesFlag else map fst types)
        });
     Some (rev (sort keys))
   }"

definition all_match :: "string \<Rightarrow> string \<Rightarrow> bool" where
  "all_match content0 key =
     list_all (\<lambda>typeRegex. typeRegex content0)
       (case map_of types key of Some regexes \<Rightarrow> regexes | None \<Rightarrow> [])"

fun choose_type :: "string \<Rightarrow> string \<Rightarrow> string list \<Rightarrow> string \<Rightarrow> string" where
  "choose_type content0 ext [] returnType = returnType"
| "choose_type content0 ext (key # keys) returnType =
     (let check = all_match content0 key in
      if check \<and> returnType = [] then choose_type content0 ext keys key
      else if needsOverride check returnType key ext then choose_type content0 ext keys key
      else choose_type content0 ext keys returnType)"

text \<open>An error other than that there is no chart is logged, and there is a chart.\<close>

definition checkHelm :: "analyzer_env \<Rightarrow> string \<Rightarrow> bool" where
  "checkHelm env path = (pv_stat (an_pv env) (path_join (Dir path) ''Chart.yaml'') \<noteq> Inl NotExist)"

definition checkForAnsible :: "doc \<Rightarrow> bool" where
  "checkForAnsible yamlContent =
     (case map_of yamlContent ''playbooks'' of
        Some (JList listOfPlayBooks) \<Rightarrow>
          list_ex (\<lambda>v. case v of
              JObj castingValue \<Rightarrow> list_ex (\<lambda>keyword. map_of castingValue keyword \<noteq> None) listKeywordsAnsible
            | _ \<Rightarrow> False) listOfPlayBooks
      | _ \<Rightarrow> False)"

definition checkForAnsibleHost :: "doc \<Rightarrow> bool" where
  "checkForAnsibleHost yamlContent =
     list_ex (\<lambda>ansibleDefault. case map_of yamlContent ansibleDefault of
         Some (JObj listHosts) \<Rightarrow> list_ex (\<lambda>v. \<not> is_nil (map_of listHosts v)) listKeywordsAnsibleHots
       | _ \<Rightarrow> False) ansibleHost"

definition checkForAnsibleByPaths :: "string \<Rightarrow> bool" where
  "checkForAnsibleByPaths path = queryRegexPathsAnsible path"

definition checkYamlPlatform :: "analyzer_env \<Rightarrow> string \<Rightarrow> string \<Rightarrow> string" where
  "checkYamlPlatform env content0 path =
     (let yamlContent = an_yaml env (DecryptAnsibleVault content0 (an_vault_secret env)) in
      if list_ex (\<lambda>keyword. map_of yamlContent keyword \<noteq> None) listKeywordsGoogleDeployment
      then ''googledeploymentmanager''
      else if checkForAnsible yamlContent then ''ansible''
      else if checkForAnsibleHost yamlContent then ''ansible''
      else if checkForAnsibleByPaths path then ''ansible''
      else [])"

definition checkReturnType :: "analyzer_env \<Rightarrow> string \<Rightarrow> string \<Rightarrow> string \<Rightarrow> string \<Rightarrow> string" where
  "checkReturnType env path returnType ext content0 =
     (if returnType \<noteq> [] then
        (if returnType = ''cdkTf'' then ''terraform''
         else if Contains returnType armRegexTypes then arm
         else returnType)
      else if ext = ''.yaml'' \<or> ext = ''.yml'' then
        (if checkHelm env path then ''kubernetes'' else checkYamlPlatform env content0 path)
      else returnType)"

section \<open>A worker\<close>

record analyzerInfo =
  ai_typesFlag :: "string list"
  ai_excludeTypesFlag :: "string list"
  ai_filePath :: string

definition isAvailableType :: "analyzerInfo \<Rightarrow> string \<Rightarrow> bool option" where
  "isAvailableType a typeName =
     (let tf = ai_typesFlag a; ef = ai_excludeTypesFlag a in
      if tf = [[]] \<and> ef = [[]] then Some True
      else do {
        t0 \<leftarrow> at tf 0;
        if length tf > 1 \<or> t0 \<noteq> [] then Some (Contains typeName tf)
        else do {
          e0 \<leftarrow> at ef 0;
          Some ((length ef > 1 \<or> e0 \<noteq> []) \<and> \<not> Contains typeName ef)
        }
      })"

text \<open>What a worker sends, in this order, on the channels \<open>results\<close>, \<open>locCount\<close> and \<open>unwanted\<close>\<close>

datatype send = SendType string | SendCount int | SendUnwanted string

definition send_if_available :: "analyzerInfo \<Rightarrow> string \<Rightarrow> int \<Rightarrow> send list option" where
  "send_if_available a typeName linesCount =
     map_option (\<lambda>available. if available then [SendType typeName, SendCount linesCount] else [])
       (isAvailableType a typeName)"

definition checkContent :: "analyzer_env \<Rightarrow> analyzerInfo \<Rightarrow> int \<Rightarrow> string \<Rightarrow> send list option" where
  "checkContent env a linesCount ext =
     (case fs_read (pv_fs (an_pv env)) (ai_filePath a) of
        Inl err \<Rightarrow> Some []
      | Inr content0 \<Rightarrow> do {
          keys \<leftarrow> content_keys (ai_typesFlag a) (ai_excludeTypesFlag a);
          let returnType =
            checkReturnType env (ai_filePath a) (choose_type content0 ext keys []) ext content0;
          sends \<leftarrow> (if returnType \<noteq> [] then send_if_available a returnType linesCount else Some []);
          Some (if sends = [] then [SendUnwanted (ai_filePath a)] else sends)
        })"

definition worker :: "analyzer_env \<Rightarrow> analyzerInfo \<Rightarrow> send list option" where
  "worker env a =
     (case GetExtension (pv_fs (an_pv env)) (ai_filePath a) of
        (ext, Some errExt) \<Rightarrow> Some []
      | (ext, None) \<Rightarrow>
          (let linesCount = fst (LineCounter (fs_read (pv_fs (an_pv env))) (ai_filePath a)) in
           if ext \<in> {''.tf'', ''tfvars''} then send_if_available a ''terraform'' linesCount
           else if ext = ''.bicep'' then send_if_available a ''bicep'' linesCount
           else if ext = ''.proto'' then send_if_available a ''grpc'' linesCount
           else if ext \<in> {''.cfg'', ''.conf'', ''.ini''} then send_if_available a ''ansible'' linesCount
           else if ext \<in> {''.yaml'', ''.yml'', ''.json'', ''.sh''} then checkContent env a linesCount ext
           else Some []))"

section \<open>The channels\<close>

text \<open>
  The workers that have something to send, and the loop of \<open>computeValues\<close>. \<open>results\<close> and
  \<open>locCount\<close> hand a value over; \<open>unwanted\<close> holds one for each file, so that sending on it never
  waits. When every worker has ended, \<open>done\<close> is ready, and \<open>select\<close> takes any channel that is.
\<close>

record analysis =
  ws_sends :: "send list list"
  ws_buffer :: "string list"
  ws_types :: "string list"
  ws_unwanted :: "string list"
  ws_loc :: int
  ws_done :: bool

definition add_new :: "string \<Rightarrow> string list \<Rightarrow> string list" where
  "add_new x xs = (if Contains x xs then xs else xs @ [x])"

inductive analysis_step :: "analysis \<Rightarrow> analysis \<Rightarrow> bool" where
  recv_type: "\<not> ws_done s \<Longrightarrow> i < length (ws_sends s) \<Longrightarrow> ws_sends s ! i = SendType t # rest \<Longrightarrow>
    analysis_step s (s\<lparr>ws_sends := (ws_sends s)[i := rest], ws_types := add_new t (ws_types s)\<rparr>)"
| recv_count: "\<not> ws_done s \<Longrightarrow> i < length (ws_sends s) \<Longrightarrow> ws_sends s ! i = SendCount n # rest \<Longrightarrow>
    analysis_step s (s\<lparr>ws_sends := (ws_sends s)[i := rest], ws_loc := ws_loc s + n\<rparr>)"
| send_unwanted: "\<not> ws_done s \<Longrightarrow> i < length (ws_sends s) \<Longrightarrow> ws_sends s ! i = SendUnwanted p # rest \<Longrightarrow>
    analysis_step s (s\<lparr>ws_sends := (ws_sends s)[i := rest], ws_buffer := ws_buffer s @ [p]\<rparr>)"
| recv_unwanted: "\<not> ws_done s \<Longrightarrow> ws_buffer s = p # ps \<Longrightarrow>
    analysis_step s (s\<lparr>ws_buffer := ps, ws_unwanted := add_new p (ws_unwanted s)\<rparr>)"
| recv_done: "\<not> ws_done s \<Longrightarrow> list_all (\<lambda>w. w = []) (ws_sends s) \<Longrightarrow>
    analysis_step s (s\<lparr>ws_done := True\<rparr>)"

definition start_analysis :: "send list list \<Rightarrow> analysis" where
  "start_analysis sends =
     \<lparr>ws_sends = sends, ws_buffer = [], ws_types = [], ws_unwanted = [], ws_loc = 0, ws_done = False\<rparr>"

section \<open>\<open>Analyze\<close>\<close>

record Analyzer =
  az_Paths :: "string list"
  az_Types :: "string list"
  az_ExcludeTypes :: "string list"
  az_Exc :: "string list"
  az_GitIgnoreFileName :: string
  az_ExcludeGitIgnore :: bool
  az_MaxFileSize :: int

record AnalyzedPaths =
  ap_Types :: "string list"
  ap_Exc :: "string list"
  ap_ExpectedLOC :: int

definition isExcludedFile :: "analyzer_env \<Rightarrow> string \<Rightarrow> string list \<Rightarrow> bool" where
  "isExcludedFile env path exc =
     list_ex (\<lambda>e. list_ex (\<lambda>x. x = path) (GetExcludePaths (an_pv env) e)) exc"

definition isDeadSymlink :: "analyzer_env \<Rightarrow> string \<Rightarrow> bool" where
  "isDeadSymlink env path = isl (pv_stat (an_pv env) path)"

definition is_dir :: "analyzer_env \<Rightarrow> string \<Rightarrow> bool" where
  "is_dir env path = (case pv_stat (an_pv env) path of Inl err \<Rightarrow> False | Inr (isDir, info) \<Rightarrow> isDir)"

definition isConfigFile :: "analyzer_env \<Rightarrow> string \<Rightarrow> string list \<Rightarrow> bool" where
  "isConfigFile env path exc =
     list_ex (\<lambda>e. list_ex (\<lambda>x. \<not> is_dir env path \<and> length x < length path \<and> has_suffix path x \<and> x \<noteq> [])
       (GetExcludePaths (an_pv env) e)) exc"

definition shouldConsiderGitIgnoreFile ::
  "analyzer_env \<Rightarrow> string \<Rightarrow> string \<Rightarrow> bool \<Rightarrow> (string \<Rightarrow> bool) option" where
  "shouldConsiderGitIgnoreFile env path gitIgnore excludeGitIgnoreFile =
     (let gitIgnorePath = path_join path gitIgnore in
      if \<not> excludeGitIgnoreFile \<and> \<not> isl (pv_stat (an_pv env) gitIgnorePath) \<and> gitIgnore \<noteq> []
      then an_gitignore env gitIgnorePath else None)"

text \<open>
  What the walk collects: the files to analyze, the ignored ones, and the configuration files; and
  the excluded paths, which grow with them. The comparison of the size in \<open>float64\<close> is exact below
  \<open>2 ^ 53\<close> bytes.
\<close>

record collected =
  co_files :: "string list"
  co_ignoreFiles :: "string list"
  co_projectConfigFiles :: "string list"
  co_Exc :: "string list"

definition checkIgnore ::
  "analyzer_env \<Rightarrow> Analyzer \<Rightarrow> int \<Rightarrow> (string \<Rightarrow> bool) option \<Rightarrow> string \<Rightarrow> string \<Rightarrow> collected \<Rightarrow> collected" where
  "checkIgnore env a fileSize gitIgnore fullPath trimmedPath c =
     (let exceededFileSize = az_MaxFileSize a \<ge> 0 \<and> fileSize > az_MaxFileSize a * sizeMb;
          matches = (case gitIgnore of None \<Rightarrow> False | Some matchesPath \<Rightarrow> matchesPath trimmedPath)
      in if matches \<or> isDeadSymlink env fullPath \<or> exceededFileSize
         then c\<lparr>co_ignoreFiles := co_ignoreFiles c @ [fullPath], co_Exc := co_Exc c @ [fullPath]\<rparr>
         else c)"

definition collect_file ::
  "analyzer_env \<Rightarrow> Analyzer \<Rightarrow> (string \<Rightarrow> bool) option \<Rightarrow> string \<Rightarrow> string \<Rightarrow> int \<Rightarrow> collected \<Rightarrow> collected" where
  "collect_file env a gitIgnore path0 path size0 c =
     (case GetExtension (pv_fs (an_pv env)) path of
        (ext, Some errExt) \<Rightarrow> c
      | (ext, None) \<Rightarrow>
          (let trimmedPath = replace_all path path0 (Base path0);
               c1 = checkIgnore env a size0 gitIgnore path trimmedPath c;
               c2 = (if isConfigFile env path defaultConfigFiles
                     then c1\<lparr>co_projectConfigFiles := co_projectConfigFiles c1 @ [path],
                              co_Exc := co_Exc c1 @ [path]\<rparr>
                     else c1)
           in if Contains ext possibleFileTypes \<and> \<not> isExcludedFile env path (co_Exc c2)
              then c2\<lparr>co_files := co_files c2 @ [path]\<rparr> else c2))"

text \<open>An error of the walk is logged, and what it has collected is kept.\<close>

definition collect_visit ::
  "analyzer_env \<Rightarrow> Analyzer \<Rightarrow> (string \<Rightarrow> bool) option \<Rightarrow> string \<Rightarrow> (collected, collected) walk_fn" where
  "collect_visit env a gitIgnore path0 p isDir info err st k = (case err of
       Some e \<Rightarrow> k (Some (WalkError e)) st
     | None \<Rightarrow> k None (collect_file env a gitIgnore path0 p (fi_Size info) st))"

definition collect_path ::
  "analyzer_env \<Rightarrow> Analyzer \<Rightarrow> (string \<Rightarrow> bool) option \<Rightarrow> string \<Rightarrow> string \<Rightarrow> collected \<Rightarrow> collected" where
  "collect_path env a gitIgnore path0 path c =
     Walk (collect_visit env a gitIgnore path0) (pv_tree (an_pv env) path) c (\<lambda>e st. st)"

fun collect_paths ::
  "analyzer_env \<Rightarrow> Analyzer \<Rightarrow> (string \<Rightarrow> bool) option \<Rightarrow> string \<Rightarrow> string list \<Rightarrow> collected \<Rightarrow>
     string + collected" where
  "collect_paths env a gitIgnore path0 [] c = Inr c"
| "collect_paths env a gitIgnore path0 (path # paths) c =
     (case pv_stat (an_pv env) path of
        Inl err \<Rightarrow> Inl (''failed to analyze path: '' @ stat_text err)
      | Inr _ \<Rightarrow> collect_paths env a gitIgnore path0 paths (collect_path env a gitIgnore path0 path c))"

definition typeLower :: "string list \<Rightarrow> string list \<Rightarrow> string list \<times> string list" where
  "typeLower ts exclTypes = (map to_lower ts, map to_lower exclTypes)"

definition multiPlatformTypeCheck :: "string list \<Rightarrow> string list" where
  "multiPlatformTypeCheck typesSelected =
     (let ts1 = (if Contains ''serverlessfw'' typesSelected \<and> \<not> Contains ''cloudformation'' typesSelected
                 then typesSelected @ [''cloudformation''] else typesSelected)
      in if Contains ''knative'' ts1 \<and> \<not> Contains ''kubernetes'' ts1 then ts1 @ [''kubernetes''] else ts1)"

text \<open>
  \<open>collect_analysis\<close> is \<open>Analyze\<close> up to the start of the workers: what they have to send, and what the
  walk has collected. Without a path \<open>a.Paths[0]\<close> panics.
\<close>

definition start_worker :: "analyzer_env \<Rightarrow> string list \<times> string list \<Rightarrow> string \<Rightarrow> send list option" where
  "start_worker env flags path =
     worker env \<lparr>ai_typesFlag = fst flags, ai_excludeTypesFlag = snd flags, ai_filePath = path\<rparr>"

definition collect_analysis ::
  "analyzer_env \<Rightarrow> Analyzer \<Rightarrow> (string + send list list \<times> collected) option" where
  "collect_analysis env a = do {
     path0 \<leftarrow> at (az_Paths a) 0;
     let gitIgnore = shouldConsiderGitIgnoreFile env path0 (az_GitIgnoreFileName a) (az_ExcludeGitIgnore a);
     case collect_paths env a gitIgnore path0 (az_Paths a)
            \<lparr>co_files = [], co_ignoreFiles = [], co_projectConfigFiles = [], co_Exc = az_Exc a\<rparr> of
       Inl err \<Rightarrow> Some (Inl err)
     | Inr c \<Rightarrow>
         do {
           sends \<leftarrow> those (map (start_worker env (typeLower (az_Types a) (az_ExcludeTypes a))) (co_files c));
           Some (Inr (sends, c))
         }
   }"

definition analyzed :: "collected \<Rightarrow> analysis \<Rightarrow> AnalyzedPaths" where
  "analyzed c s =
     \<lparr>ap_Types = multiPlatformTypeCheck (ws_types s),
      ap_Exc = ws_unwanted s @ co_ignoreFiles c @ co_projectConfigFiles c, ap_ExpectedLOC = ws_loc s\<rparr>"

text \<open>
  What \<open>Analyze\<close> may return, for some order of the channels; with the excluded paths that it leaves
  in the analyzer.
\<close>

inductive Analyze :: "analyzer_env \<Rightarrow> Analyzer \<Rightarrow> string + AnalyzedPaths \<times> string list \<Rightarrow> bool" where
  failed: "collect_analysis env a = Some (Inl err) \<Longrightarrow> Analyze env a (Inl err)"
| ended: "collect_analysis env a = Some (Inr (sends, c)) \<Longrightarrow>
    analysis_step\<^sup>*\<^sup>* (start_analysis sends) s \<Longrightarrow> ws_done s \<Longrightarrow> Analyze env a (Inr (analyzed c s, co_Exc c))"

section \<open>What the expressions match\<close>

inductive matches :: "regex \<Rightarrow> string \<Rightarrow> bool" where
  "matches (Lit w) w"
| "p c \<Longrightarrow> matches (Cls p) [c]"
| "matches a u \<Longrightarrow> matches b v \<Longrightarrow> matches (Seq a b) (u @ v)"
| "matches a u \<Longrightarrow> matches (Alt a b) u"
| "matches b u \<Longrightarrow> matches (Alt a b) u"
| "matches (Star a) []"
| "matches a u \<Longrightarrow> matches (Star a) v \<Longrightarrow> matches (Star a) (u @ v)"

inductive_simps matches_simps:
  "matches (Lit w) u" "matches (Cls p) u" "matches (Seq a b) u" "matches (Alt a b) u"

lemma matches_Star: 
  "matches (Star a) w \<longleftrightarrow> w = [] \<or>
     (\<exists>u v. u \<noteq> [] \<and> w = u @ v \<and> matches a u \<and> matches (Star a) v)"
proof
  have "matches r w \<Longrightarrow> r = Star a \<Longrightarrow> w = [] \<or>
     (\<exists>u v. u \<noteq> [] \<and> w = u @ v \<and> matches a u \<and> matches (Star a) v)" for r
  proof (induction rule: matches.induct)
    case (7 b u v)
    then show ?case by (cases "u = []") auto
  qed auto
  then show "matches (Star a) w \<Longrightarrow> w = [] \<or>
     (\<exists>u v. u \<noteq> [] \<and> w = u @ v \<and> matches a u \<and> matches (Star a) v)" by blast
qed (auto intro: matches.intros)

lemma rests_matches: "t \<in> set (rests r s) \<longleftrightarrow> (\<exists>w. s = w @ t \<and> matches r w)"
proof (induction r s arbitrary: t rule: rests.induct)
  case (1 w s)
  then show ?case by (auto simp: matches_simps prefix_def)
next
  case (2 p s)
  then show ?case by (auto simp: matches_simps split: list.splits)
next
  case (3 a b s)
  have "t \<in> set (rests (Seq a b) s) \<longleftrightarrow> (\<exists>u. u \<in> set (rests a s) \<and> t \<in> set (rests b u))" by auto
  also have "\<dots> \<longleftrightarrow> (\<exists>u v. s = u @ v @ t \<and> matches a u \<and> matches b v)"
    using 3 by (metis append_assoc)
  also have "\<dots> \<longleftrightarrow> (\<exists>w. s = w @ t \<and> matches (Seq a b) w)" by (fastforce simp: matches_simps)
  finally show ?case .
next
  case (4 a b s)
  then show ?case by (auto simp: matches_simps)
next
  case (5 a s)
  have "t \<in> set (rests (Star a) s) \<longleftrightarrow>
      t = s \<or> (\<exists>u. u \<in> set (rests a s) \<and> length u < length s \<and> t \<in> set (rests (Star a) u))"
    by (subst rests.simps) auto
  also have "\<dots> \<longleftrightarrow> t = s \<or> (\<exists>u v. u \<noteq> [] \<and> s = u @ v @ t \<and> matches a u \<and> matches (Star a) v)"
  proof -
    have "(u \<in> set (rests a s) \<and> length u < length s \<and> t \<in> set (rests (Star a) u)) \<longleftrightarrow>
        (\<exists>w v. w \<noteq> [] \<and> s = w @ u \<and> u = v @ t \<and> matches a w \<and> matches (Star a) v)" (is "?L \<longleftrightarrow> ?R") for u
    proof
      assume l: ?L
      then obtain w where w: "s = w @ u" "matches a w" using 5(1) by blast
      obtain v where "u = v @ t" "matches (Star a) v" using l 5(2) [of u t] by auto
      then show ?R using w l by (intro exI [of _ w] exI [of _ v]) auto
    next
      assume ?R
      then obtain w v where w: "w \<noteq> []" "s = w @ u" "u = v @ t" "matches a w" "matches (Star a) v" by blast
      then have u: "u \<in> set (rests a s)" "length u < length s" using 5(1) by auto
      then show ?L using 5(2) [of u t] w by auto
    qed
    then show ?thesis by auto
  qed
  also have "\<dots> \<longleftrightarrow> (\<exists>w. s = w @ t \<and> matches (Star a) w)"
  proof
    assume "t = s \<or> (\<exists>u v. u \<noteq> [] \<and> s = u @ v @ t \<and> matches a u \<and> matches (Star a) v)"
    then show "\<exists>w. s = w @ t \<and> matches (Star a) w"
      using matches.intros(6,7) by (metis append.left_neutral append.assoc)
  next
    assume "\<exists>w. s = w @ t \<and> matches (Star a) w"
    then obtain w where w: "s = w @ t" "matches (Star a) w" by blast
    from w(2) have "w = [] \<or> (\<exists>u v. u \<noteq> [] \<and> w = u @ v \<and> matches a u \<and> matches (Star a) v)"
      by (rule matches_Star [THEN iffD1])
    then show "t = s \<or> (\<exists>u v. u \<noteq> [] \<and> s = u @ v @ t \<and> matches a u \<and> matches (Star a) v)"
      using w(1) by auto
  qed
  finally show ?case .
qed

lemma regex_match_iff: "regex_match r s \<longleftrightarrow> (\<exists>a w b. s = a @ w @ b \<and> matches r w)"
proof (induction r s rule: regex_match.induct)
  case (1 r s)
  have "(\<exists>a w b. s = a @ w @ b \<and> matches r w) \<longleftrightarrow>
      (\<exists>w b. s = w @ b \<and> matches r w) \<or>
      (\<exists>c s'. s = c # s' \<and> (\<exists>a w b. s' = a @ w @ b \<and> matches r w))"
    (is "?L \<longleftrightarrow> ?R")
  proof
    assume ?L
    then obtain a w b where "s = a @ w @ b" "matches r w" by blast
    then show ?R by (cases a) auto
  next
    assume ?R
    then show ?L by (metis append_Cons append_Nil)
  qed
  moreover have "rests r s \<noteq> [] \<longleftrightarrow> (\<exists>w b. s = w @ b \<and> matches r w)"
    using rests_matches [of _ r s] by (metis empty_iff last_in_set list.set(1))
  ultimately show ?case
    using 1 by (subst regex_match.simps) (auto split: list.split)
qed

lemma matches_spaces: "matches spaces w \<longleftrightarrow> list_all re_space w"
proof (induction w)
  case (Cons c w)
  have "matches spaces (c # w) \<longleftrightarrow> re_space c \<and> matches spaces w"
  proof
    assume "re_space c \<and> matches spaces w"
    then have "matches (Cls re_space) [c]" "matches spaces w" by (auto intro: matches.intros)
    then show "matches spaces (c # w)" using matches.intros(7) [of "Cls re_space" "[c]" w] by simp
  next
    assume "matches spaces (c # w)"
    then show "re_space c \<and> matches spaces w"
      unfolding matches_Star [of _ "c # w"] by (auto simp: matches_simps)
  qed
  then show ?case using Cons by simp
qed (simp add: matches.intros(6))

lemma matches_colon:
  "matches (colon r) w \<longleftrightarrow> (\<exists>u sp. w = u @ sp @ '':'' \<and> matches r u \<and> list_all re_space sp)"
  by (auto simp: colon_def matches_simps matches_spaces)

section \<open>The type chosen\<close>

definition overriding :: "string \<Rightarrow> string \<Rightarrow> bool" where
  "overriding ext key \<longleftrightarrow> key = arm \<and> ext = ''.json'' \<or>
     (key = ''knative'' \<or> key = ''crossplane'') \<and> (ext = ''.yaml'' \<or> ext = ''.yml'')"

lemma choose_settled:
  "rt \<noteq> [] \<Longrightarrow> rt \<noteq> ''kubernetes'' \<Longrightarrow> choose_type content0 ext keys rt = rt"
  by (induction keys) (auto simp: needsOverride_def Let_def)

lemma choose_kubernetes:
  "choose_type content0 ext keys ''kubernetes'' =
     (case find (overriding ext) (filter (all_match content0) keys) of
        Some key \<Rightarrow> key | None \<Rightarrow> ''kubernetes'')"
proof (induction keys)
  case (Cons key keys)
  show ?case
  proof (cases "all_match content0 key \<and> overriding ext key")
    case True
    then have "key \<noteq> [] \<and> key \<noteq> ''kubernetes''" by (auto simp: overriding_def arm_def)
    then show ?thesis
      using True by (auto simp: needsOverride_def overriding_def Let_def choose_settled)
  next
    case False
    then have "\<not> needsOverride (all_match content0 key) ''kubernetes'' key ext"
      by (auto simp: needsOverride_def overriding_def)
    then show ?thesis using False Cons by (auto simp: Let_def)
  qed
qed simp

lemma choose_type_first:
  assumes "[] \<notin> set keys"
  shows "choose_type content0 ext keys [] =
     (case filter (all_match content0) keys of
        [] \<Rightarrow> []
      | key # rest \<Rightarrow>
          (if key = ''kubernetes'' then
             (case find (overriding ext) rest of Some k \<Rightarrow> k | None \<Rightarrow> key)
           else key))"
  using assms
  by (induction keys) (auto simp: Let_def needsOverride_def choose_kubernetes choose_settled)

lemma supported_nonempty:
  "map_of supportedRegexes t = Some ks \<Longrightarrow> [] \<notin> set ks" "[] \<notin> set (map fst types)"
  by (auto simp: supportedRegexes_def types_def armRegexTypes_def arm_def split: if_splits)

lemma content_keys_nonempty:
  assumes "content_keys tf ef = Some keys"
  shows "[] \<notin> set keys"
proof -
  have "[] \<notin> set (getKeysFromTypesFlag tf)"
    using supported_nonempty(1) by (auto simp: getKeysFromTypesFlag_def split: option.splits)
  moreover have "[] \<notin> set (getKeysFromExcludeTypesFlag ef)"
    by (auto simp: getKeysFromExcludeTypesFlag_def supportedRegexes_def armRegexTypes_def arm_def split: if_splits)
  ultimately show ?thesis
    using assms supported_nonempty(2) by (auto simp: content_keys_def bind_eq_Some_conv split: if_splits)
qed

section \<open>What the channels carry\<close>

definition sent_types :: "send list list \<Rightarrow> string set" where
  "sent_types sends = {t. \<exists>w \<in> set sends. SendType t \<in> set w}"

definition sent_unwanted :: "send list list \<Rightarrow> string set" where
  "sent_unwanted sends = {p. \<exists>w \<in> set sends. SendUnwanted p \<in> set w}"

definition count_of_send :: "send \<Rightarrow> int" where
  "count_of_send x = (case x of SendCount n \<Rightarrow> n | _ \<Rightarrow> 0)"

definition sent_count :: "send list list \<Rightarrow> int" where
  "sent_count sends = (\<Sum>w \<leftarrow> sends. \<Sum>x \<leftarrow> w. count_of_send x)"

lemma set_update_tail:
  assumes "i < length xs" and "xs ! i = y # rest"
  shows "(\<exists>w \<in> set xs. x \<in> set w) \<longleftrightarrow> x = y \<or> (\<exists>w \<in> set (xs[i := rest]). x \<in> set w)"
proof -
  have "set (concat xs) = insert y (set (concat (xs[i := rest])))"
    using assms by (subst id_take_nth_drop [OF assms(1)]) (auto simp: upd_conv_take_nth_drop)
  then show ?thesis by auto
qed

lemma sent_types_recv:
  "i < length xs \<Longrightarrow> xs ! i = SendType t # rest \<Longrightarrow> sent_types xs = insert t (sent_types (xs[i := rest]))"
  "i < length xs \<Longrightarrow> xs ! i = SendCount n # rest \<Longrightarrow> sent_types (xs[i := rest]) = sent_types xs"
  "i < length xs \<Longrightarrow> xs ! i = SendUnwanted p # rest \<Longrightarrow> sent_types (xs[i := rest]) = sent_types xs"
  by (auto simp: sent_types_def set_update_tail)

lemma sent_unwanted_recv:
  "i < length xs \<Longrightarrow> xs ! i = SendType t # rest \<Longrightarrow> sent_unwanted (xs[i := rest]) = sent_unwanted xs"
  "i < length xs \<Longrightarrow> xs ! i = SendCount n # rest \<Longrightarrow> sent_unwanted (xs[i := rest]) = sent_unwanted xs"
  "i < length xs \<Longrightarrow> xs ! i = SendUnwanted p # rest \<Longrightarrow>
     sent_unwanted xs = insert p (sent_unwanted (xs[i := rest]))"
  by (auto simp: sent_unwanted_def set_update_tail)

lemma sent_count_recv:
  assumes "i < length xs" and "xs ! i = y # rest"
  shows "sent_count xs = count_of_send y + sent_count (xs[i := rest])"
  using assms
  by (subst id_take_nth_drop [OF assms(1)]) (simp add: upd_conv_take_nth_drop sent_count_def)

lemma add_new_set: "set (add_new x xs) = insert x (set xs)" "distinct xs \<Longrightarrow> distinct (add_new x xs)"
  by (auto simp: add_new_def)

text \<open>The invariant of the channels: what has arrived and what is under way is what was sent.\<close>

definition analysis_inv :: "send list list \<Rightarrow> analysis \<Rightarrow> bool" where
  "analysis_inv sends s \<longleftrightarrow>
     distinct (ws_types s) \<and> set (ws_types s) \<union> sent_types (ws_sends s) = sent_types sends \<and>
     ws_loc s + sent_count (ws_sends s) = sent_count sends \<and> distinct (ws_unwanted s) \<and>
     set (ws_unwanted s) \<union> set (ws_buffer s) \<union> sent_unwanted (ws_sends s) = sent_unwanted sends \<and>
     (ws_done s \<longrightarrow> list_all (\<lambda>w. w = []) (ws_sends s))"

lemma analysis_start: "analysis_inv sends (start_analysis sends)"
  by (simp add: analysis_inv_def start_analysis_def)

lemma analysis_step_inv: "analysis_step s s' \<Longrightarrow> analysis_inv sends s \<Longrightarrow> analysis_inv sends s'"
proof (induction rule: analysis_step.induct)
  case (recv_type s i t rest)
  then show ?case
    using sent_types_recv(1) [OF recv_type(2,3)] sent_unwanted_recv(1) [OF recv_type(2,3)]
      sent_count_recv [OF recv_type(2,3)]
    by (auto simp: analysis_inv_def add_new_set count_of_send_def)
next
  case (recv_count s i n rest)
  then show ?case
    using sent_types_recv(2) [OF recv_count(2,3)] sent_unwanted_recv(2) [OF recv_count(2,3)]
      sent_count_recv [OF recv_count(2,3)]
    by (auto simp: analysis_inv_def count_of_send_def)
next
  case (send_unwanted s i p rest)
  then show ?case
    using sent_types_recv(3) [OF send_unwanted(2,3)] sent_unwanted_recv(3) [OF send_unwanted(2,3)]
      sent_count_recv [OF send_unwanted(2,3)]
    by (auto simp: analysis_inv_def count_of_send_def)
qed (auto simp: analysis_inv_def add_new_set)

lemma analysis_reach_inv:
  "analysis_step\<^sup>*\<^sup>* (start_analysis sends) s \<Longrightarrow> analysis_inv sends s"
  by (induction rule: rtranclp_induct) (auto simp: analysis_start intro: analysis_step_inv)

text \<open>The sends of the workers one after the other, without a receive on \<open>unwanted\<close>\<close>

definition sends_left :: "analysis \<Rightarrow> nat" where
  "sends_left s = (\<Sum>w \<leftarrow> ws_sends s. length w)"

lemma sends_run:
  "\<not> ws_done s \<Longrightarrow> \<exists>s'. analysis_step\<^sup>*\<^sup>* s s' \<and> \<not> ws_done s' \<and> list_all (\<lambda>w. w = []) (ws_sends s') \<and>
     ws_unwanted s' = ws_unwanted s"
proof (induction "sends_left s" arbitrary: s rule: less_induct)
  case less
  show ?case
  proof (cases "list_all (\<lambda>w. w = []) (ws_sends s)")
    case False
    then obtain i y rest where i: "i < length (ws_sends s)" "ws_sends s ! i = y # rest"
      by (auto simp: list_all_length neq_Nil_conv)
    have "sum_list (map length (ws_sends s)) = Suc (sum_list (map length ((ws_sends s)[i := rest])))"
      using i by (subst id_take_nth_drop [OF i(1)]) (simp add: upd_conv_take_nth_drop)
    then have left: "sends_left (s\<lparr>ws_sends := (ws_sends s)[i := rest]\<rparr>) < sends_left s"
      by (simp add: sends_left_def)
    obtain s1 where "analysis_step s s1" "sends_left s1 < sends_left s" "ws_unwanted s1 = ws_unwanted s"
      "\<not> ws_done s1"
    proof (cases y)
      case (SendType t)
      show ?thesis using that [OF analysis_step.recv_type [OF less.prems i [unfolded SendType]]] left less.prems
        by (simp add: sends_left_def)
    next
      case (SendCount n)
      show ?thesis using that [OF analysis_step.recv_count [OF less.prems i [unfolded SendCount]]] left less.prems
        by (simp add: sends_left_def)
    next
      case (SendUnwanted p)
      show ?thesis using that [OF analysis_step.send_unwanted [OF less.prems i [unfolded SendUnwanted]]] left less.prems
        by (simp add: sends_left_def)
    qed
    then show ?thesis using less.hyps [of s1] by (metis converse_rtranclp_into_rtranclp)
  qed (use less.prems in blast)
qed

lemma analysis_may_skip:
  assumes "collect_analysis env a = Some (Inr (sends, c))"
  shows "\<exists>s. analysis_step\<^sup>*\<^sup>* (start_analysis sends) s \<and> ws_done s \<and> ws_unwanted s = []"
proof -
  obtain s where s: "analysis_step\<^sup>*\<^sup>* (start_analysis sends) s" "\<not> ws_done s"
      "list_all (\<lambda>w. w = []) (ws_sends s)" "ws_unwanted s = []"
    using sends_run [of "start_analysis sends"] by (auto simp: start_analysis_def)
  have "analysis_step s (s\<lparr>ws_done := True\<rparr>)" using s(2,3) by (rule analysis_step.recv_done)
  then show ?thesis
    using s(1,4) by (intro exI [of _ "s\<lparr>ws_done := True\<rparr>"]) auto
qed

lemma sends_available:
  assumes "send_if_available a typeName n = Some ws" and "SendType t \<in> set ws"
  shows "t = typeName \<and> isAvailableType a t = Some True"
  using assms by (auto simp: send_if_available_def split: if_splits)

lemma worker_types:
  assumes "worker env a = Some ws" and "SendType t \<in> set ws"
  shows "isAvailableType a t = Some True"
proof -
  have c: "checkContent env a n ext = Some ws \<Longrightarrow> isAvailableType a t = Some True" for n ext
    using assms(2) sends_available
    by (auto simp: checkContent_def Let_def split: sum.splits if_splits Option.bind_split_asm)
  then show ?thesis
    using assms sends_available
    by (auto simp: worker_def Let_def split: prod.splits option.splits if_splits)
qed

lemma sent_types_available:
  assumes "collect_analysis env a = Some (Inr (sends, c))" and "t \<in> sent_types sends"
  shows "\<exists>path. isAvailableType
    \<lparr>ai_typesFlag = map to_lower (az_Types a), ai_excludeTypesFlag = map to_lower (az_ExcludeTypes a),
     ai_filePath = path\<rparr> t = Some True"
proof -
  obtain w where w: "w \<in> set sends" "SendType t \<in> set w" using assms(2) by (auto simp: sent_types_def)
  have "those (map (start_worker env (map to_lower (az_Types a), map to_lower (az_ExcludeTypes a)))
      (co_files c)) = Some sends"
    using assms(1)
    by (auto simp: collect_analysis_def typeLower_def Let_def split: sum.splits Option.bind_split_asm)
  from those_map_mem [OF this w(1)] show ?thesis
    using worker_types [OF _ w(2)] by (auto simp: start_worker_def)
qed

lemma multi_types: "set (multiPlatformTypeCheck ts) \<subseteq> set ts \<union> {''cloudformation'', ''kubernetes''}"
    "set ts \<subseteq> set (multiPlatformTypeCheck ts)"
  by (auto simp: multiPlatformTypeCheck_def Let_def)

text \<open>A key followed by a colon, in a text\<close>

definition has_key :: "string \<Rightarrow> string \<Rightarrow> bool" where
  "has_key w s \<longleftrightarrow> (\<exists>a sp b. s = a @ w @ sp @ '':'' @ b \<and> list_all re_space sp)"

lemma match_colon:
  "regex_match (colon r) s \<longleftrightarrow> (\<exists>a u sp b. s = a @ u @ sp @ '':'' @ b \<and> matches r u \<and> list_all re_space sp)"
  unfolding regex_match_iff matches_colon
  by (intro iffI; elim exE conjE) (auto, metis append.assoc append_Cons append_Nil)

lemma match_keys:
  "regex_match (json_key w) s \<longleftrightarrow> has_key (quoted w) s"
  "regex_match (plain_key w) s \<longleftrightarrow> has_key w s"
  "regex_match (yaml_key w) s \<longleftrightarrow> has_key (quoted w) s \<or> has_key w s"
  unfolding json_key_def plain_key_def yaml_key_def match_colon has_key_def matches_simps
  by (blast, blast, blast)

section \<open>Properties\<close>

definition example_analyzer_env :: analyzer_env where
  "example_analyzer_env =
     \<lparr>an_pv = (example_provider_env [''.'', ''a.tf''])\<lparr>pv_tree := (\<lambda>p.
        FsDir ''.'' \<lparr>fi_Name = ''.'', fi_Size = 0, fi_Id = 1\<rparr> None
          [FsFile ''a.tf'' \<lparr>fi_Name = ''a.tf'', fi_Size = 5, fi_Id = 3\<rparr>])\<rparr>,
      an_yaml = (\<lambda>t. []), an_gitignore = (\<lambda>p. None), an_vault_secret = []\<rparr>"

definition example_analyzer :: Analyzer where
  "example_analyzer =
     \<lparr>az_Paths = [''.''], az_Types = [[]], az_ExcludeTypes = [[]], az_Exc = [], az_GitIgnoreFileName = ''.gitignore'',
      az_ExcludeGitIgnore = True, az_MaxFileSize = 5\<rparr>"

lemma example_collected:
  "collect_analysis example_analyzer_env example_analyzer =
     Some (Inr ([[SendType ''terraform'', SendCount 0]],
       \<lparr>co_files = [''a.tf''], co_ignoreFiles = [], co_projectConfigFiles = [], co_Exc = []\<rparr>))"
  by code_simp

text \<open>Of the types whose expressions all match a file, the one that comes last in the alphabet is
  chosen; but for Kubernetes the first type after it that overrides it in such a file is.\<close>

lemma content_type_chosen:
  assumes "content_keys typesFlag excludeTypesFlag = Some keys"
  shows "choose_type content0 ext keys [] =
     (case filter (all_match content0) keys of
        [] \<Rightarrow> []
      | key # rest \<Rightarrow>
          (if key = ''kubernetes'' then
             (case find (overriding ext) rest of Some k \<Rightarrow> k | None \<Rightarrow> key)
           else key)) \<and>
     sorted_wrt (\<ge>) (filter (all_match content0) keys)"
proof -
  obtain ks where "keys = rev (sort ks)"
    using assms by (auto simp: content_keys_def bind_eq_Some_conv split: if_splits)
  then have "sorted_wrt (\<ge>) keys" by (simp add: sorted_wrt_rev)
  then show ?thesis
    using choose_type_first [OF content_keys_nonempty [OF assms]] by (simp add: sorted_wrt_filter)
qed

text \<open>A file is recognised by its keys: each is there, as the expression has it, with spaces and a
  colon after it.\<close>

lemma platforms_by_keys:
  "(all_match s ''kubernetes'' \<longleftrightarrow> (has_key ''apiVersion'' s \<or> has_key (quoted ''apiVersion'') s) \<and>
     (has_key ''kind'' s \<or> has_key (quoted ''kind'') s)) \<and>
   (all_match s ''cloudformation'' \<longleftrightarrow> has_key ''Resources'' s \<or> has_key (quoted ''Resources'') s) \<and>
   (all_match s ''azureresourcemanager'' \<longleftrightarrow>
     has_key (quoted ''contentVersion'') s \<and> has_key (quoted ''resources'') s) \<and>
   (all_match s ''cdkTf'' \<longleftrightarrow> has_key (quoted ''metadata'') s \<and> has_key (quoted ''stackName'') s \<and>
     has_key (quoted ''terraform'') s) \<and>
   (all_match s ''pulumi'' \<longleftrightarrow> has_key ''name'' s \<and> has_key ''runtime'' s \<and> has_key ''resources'' s)"
  by (simp add: all_match_def types_def match_keys) blast

lemma sent_count_none: "list_all (\<lambda>w. w = []) sends \<Longrightarrow> sent_count sends = 0"
  by (induction sends) (auto simp: sent_count_def)

text \<open>C11. Whatever the order of the channels, the types and the number of lines are those of all workers,
  each type once, and nothing is ignored but the unwanted, ignored and configuration files.\<close>

theorem analysis_order_independent:
  assumes "Analyze env a (Inr (res, exc))"
  shows "\<exists>sends c ts. collect_analysis env a = Some (Inr (sends, c)) \<and>
    ap_Types res = multiPlatformTypeCheck ts \<and> distinct ts \<and> set ts = sent_types sends \<and>
    ap_ExpectedLOC res = sent_count sends \<and>
    set (co_ignoreFiles c) \<union> set (co_projectConfigFiles c) \<subseteq> set (ap_Exc res) \<and>
    set (ap_Exc res) \<subseteq> sent_unwanted sends \<union> set (co_ignoreFiles c) \<union> set (co_projectConfigFiles c)"
  using assms
proof cases
  case (ended sends c s)
  have inv: "analysis_inv sends s" using ended(4) by (rule analysis_reach_inv)
  then have "list_all (\<lambda>w. w = []) (ws_sends s)" using ended(5) by (simp add: analysis_inv_def)
  then have empty: "\<forall>w \<in> set (ws_sends s). w = []" by (simp add: list_all_iff)
  then have "sent_types (ws_sends s) = {}" "sent_unwanted (ws_sends s) = {}"
    by (auto simp: sent_types_def sent_unwanted_def)
  moreover have "sent_count (ws_sends s) = 0"
    using \<open>list_all (\<lambda>w. w = []) (ws_sends s)\<close> by (rule sent_count_none)
  ultimately show ?thesis
    using inv ended by (intro exI [of _ sends] exI [of _ c] exI [of _ "ws_types s"])
      (auto simp: analysis_inv_def analyzed_def)
qed

theorem analysis_order_independent_witness:
  "\<exists>res exc. Analyze example_analyzer_env example_analyzer (Inr (res, exc)) \<and> ap_ExpectedLOC res = 0"
proof -
  obtain s where "analysis_step\<^sup>*\<^sup>* (start_analysis [[SendType ''terraform'', SendCount 0]]) s" "ws_done s"
    using analysis_may_skip [OF example_collected] by blast
  from Analyze.ended [OF example_collected this] obtain res exc where
    a: "Analyze example_analyzer_env example_analyzer (Inr (res, exc))" by blast
  from analysis_order_independent [OF a] show ?thesis
    using a example_collected by (auto simp: sent_count_def count_of_send_def)
qed

text \<open>Every type that is found is one the flags allow, but for the two that follow from others.\<close>

lemma analyzed_types_allowed:
  assumes "Analyze env a (Inr (res, exc))" and "t \<in> set (ap_Types res)"
    and "t \<noteq> ''cloudformation''" and "t \<noteq> ''kubernetes''"
  shows "(map to_lower (az_Types a) = [[]] \<and> map to_lower (az_ExcludeTypes a) = [[]]) \<or>
    t \<in> to_lower ` set (az_Types a) \<or> t \<notin> to_lower ` set (az_ExcludeTypes a)"
  using assms(1)
proof cases
  case (ended sends c s)
  have "t \<in> set (ws_types s)" using assms(2-4) multi_types(1) ended(1) by (auto simp: analyzed_def)
  moreover have "analysis_inv sends s" using ended(4) by (rule analysis_reach_inv)
  ultimately have "t \<in> sent_types sends" by (auto simp: analysis_inv_def)
  from sent_types_available [OF ended(3) this] show ?thesis
    by (auto simp: isAvailableType_def Let_def split: Option.bind_split_asm if_splits)
qed

text \<open>The files of no known type may be lost: however many there are, there is an order of the
  channels in which none of them is reported as one to ignore.\<close>

lemma unwanted_files_may_be_lost:
  assumes "collect_analysis env a = Some (Inr (sends, c))"
  shows "\<exists>res exc. Analyze env a (Inr (res, exc)) \<and> ap_Exc res = co_ignoreFiles c @ co_projectConfigFiles c"
proof -
  obtain s where s: "analysis_step\<^sup>*\<^sup>* (start_analysis sends) s" "ws_done s" "ws_unwanted s = []"
    using analysis_may_skip [OF assms] by blast
  show ?thesis
    using Analyze.ended [OF assms s(1,2)] s(3) by (intro exI conjI) (auto simp: analyzed_def)
qed

definition unknown_file_env :: analyzer_env where
  "unknown_file_env = example_analyzer_env
     \<lparr>an_pv := (an_pv example_analyzer_env)\<lparr>pv_stat := (\<lambda>p. if p = ''a.json'' then
          Inr (False, \<lparr>fi_Name = p, fi_Size = 0, fi_Id = 1\<rparr>) else if p = ''.'' then
          Inr (True, \<lparr>fi_Name = p, fi_Size = 0, fi_Id = 0\<rparr>) else Inl NotExist),
        pv_tree := (\<lambda>p. FsFile ''a.json'' \<lparr>fi_Name = ''a.json'', fi_Size = 5, fi_Id = 3\<rparr>)\<rparr>\<rparr>"

end
