(* ===== verification/Summary.thy ===== *)
theory Summary
  imports FileParser "HOL-Library.Product_Lexorder"
begin

text \<open>
  \<open>pkg/model/summary.go\<close>: the report of a scan. \<open>CreateSummary\<close> groups the vulnerabilities by
  query, counts them by severity and sorts the queries. Go's maps are ranged over in an order
  that is a parameter, and \<open>sort.Slice\<close>, which leaves the order of equal elements open, is a
  parameter with the hypothesis \<open>sorts_by\<close>.
\<close>

section \<open>The records\<close>

record SeveritySummary =
  ss_ScanID :: string
  ss_SeverityCounters :: "(Severity, int) gomap"
  ss_TotalCounter :: int
  ss_TotalBOMResources :: int

record VulnerableFile =
  vf_FileName :: string
  vf_SimilarityID :: string
  vf_OldSimilarityID :: string
  vf_Line :: int
  vf_ResourceLocation :: ResourceLocation
  vf_VulnLines :: "CodeLine list"
  vf_ResourceType :: string
  vf_ResourceName :: string
  vf_IssueType :: IssueType
  vf_SearchKey :: string
  vf_SearchLine :: int
  vf_SearchValue :: string
  vf_KeyExpectedValue :: string
  vf_KeyActualValue :: string
  vf_Value :: "string option"
  vf_Remediation :: string
  vf_RemediationType :: string
  vf_RemediationLocation :: ResourceLocation
  vf_LineWithVulnerability :: string
  vf_ResourceSource :: string
  vf_FileSource :: "string list"
  vf_BlockLocation :: ResourceLocation

text \<open>The fields for the benchmark texts, which no code of the repository sets, are those the reports read.\<close>

record QuerySummary =
  qs_QueryName :: string
  qs_QueryID :: string
  qs_QueryURI :: string
  qs_Severity :: Severity
  qs_Platform :: string
  qs_CWE :: string
  qs_CloudProvider :: string
  qs_Category :: string
  qs_Experimental :: bool
  qs_Description :: string
  qs_DescriptionID :: string
  qs_CISDescriptionIDFormatted :: string
  qs_CISDescriptionTitle :: string
  qs_CISDescriptionTextFormatted :: string
  qs_CISDescriptionID :: string
  qs_Files :: "VulnerableFile list"

record Counters =
  ct_ScannedFiles :: int
  ct_ScannedFilesLines :: int
  ct_ParsedFiles :: int
  ct_ParsedFilesLines :: int
  ct_IgnoredFilesLines :: int
  ct_FailedToScanFiles :: int
  ct_TotalQueries :: int
  ct_FailedToExecuteQueries :: int
  ct_FailedSimilarityID :: int
  ct_FoundResources :: int

record ExtractedPathObject =
  ep_Path :: string
  ep_LocalPath :: bool

record 'v Summary =
  sm_LatestVersion :: 'v
  sm_Counters :: Counters
  sm_SeveritySummary :: SeveritySummary
  sm_ScannedPaths :: "string list"
  sm_Queries :: "QuerySummary list"
  sm_Bom :: "QuerySummary list"
  sm_FilePaths :: "(string, string) gomap"

section \<open>Paths\<close>

definition getRelativePath :: "string \<Rightarrow> string \<Rightarrow> string" where
  "getRelativePath basePath filePath =
     (case Rel basePath filePath of Some relativePath \<Rightarrow> relativePath | None \<Rightarrow> filePath)"

text \<open>
  \<open>queryRegex\<close>, \<open>\?([\w-]+(=[\w-]*)?(&[\w-]+(=[\w-]*)?)*)?\<close>: each repetition takes all it can, and
  never has to give something back. The functions return the text after the match.
\<close>

definition query_char :: "char \<Rightarrow> bool" where
  "query_char c \<longleftrightarrow>
     (let n = of_char c :: nat in
      48 \<le> n \<and> n \<le> 57 \<or> 65 \<le> n \<and> n \<le> 90 \<or> 97 \<le> n \<and> n \<le> 122 \<or> n = 95 \<or> n = 45)"

definition match_param :: "string \<Rightarrow> string option" where
  "match_param s =
     (if takeWhile query_char s = [] then None
      else case dropWhile query_char s of
        c # s' \<Rightarrow> Some (if c = CHR ''='' then dropWhile query_char s' else c # s')
      | [] \<Rightarrow> Some [])"

lemma match_param_length:
  assumes "match_param s = Some t"
  shows "length t < length s"
proof -
  have "takeWhile query_char s \<noteq> []" using assms by (auto simp: match_param_def split: if_splits)
  then have d: "length (dropWhile query_char s) < length s"
    by (cases s) (auto simp: less_Suc_eq_le length_dropWhile_le split: if_splits)
  have "length t \<le> length (dropWhile query_char s)"
  proof (cases "dropWhile query_char s")
    case (Cons c s')
    then show ?thesis
      using assms length_dropWhile_le [of query_char s']
      by (auto simp: match_param_def dest: arg_cong [of _ _ length] split: if_splits)
  next
    case Nil
    show ?thesis using assms unfolding match_param_def Nil by (simp split: if_splits)
  qed
  with d show ?thesis by simp
qed

function match_params :: "string \<Rightarrow> string" where
  "match_params s =
     (case s of
        c # s' \<Rightarrow>
          (if c = CHR ''&'' then
             (case match_param s' of Some rest \<Rightarrow> match_params rest | None \<Rightarrow> s)
           else s)
      | [] \<Rightarrow> [])"
  by pat_completeness auto
termination
  by (relation "measure length") (auto dest: match_param_length)

declare match_params.simps [simp del]

definition match_query :: "string \<Rightarrow> string" where
  "match_query s = (case match_param s of Some rest \<Rightarrow> match_params rest | None \<Rightarrow> s)"

lemma match_params_length: "length (match_params s) \<le> length s"
proof (induction s rule: match_params.induct)
  case (1 s)
  then show ?case
    by (subst match_params.simps) (fastforce split: list.split option.split dest: match_param_length)
qed

lemma match_query_length: "length (match_query s) \<le> length s"
  using match_params_length match_param_length
  by (auto simp: match_query_def split: option.split) (meson less_imp_le order_trans)

function remove_query :: "string \<Rightarrow> string" where
  "remove_query s =
     (case s of
        [] \<Rightarrow> []
      | c # s' \<Rightarrow> if c = CHR ''?'' then remove_query (match_query s') else c # remove_query s')"
  by pat_completeness auto
termination
  by (relation "measure length") (auto simp: less_Suc_eq_le match_query_length)

declare remove_query.simps [simp del]

text \<open>
  \<open>urlAuthRegex\<close>, \<open>((ssh|https?)://)(\S+(:\S*)?@).*\<close>: its third group goes from the scheme to the
  last \<open>@\<close> of the text without spaces that follows, with something before it.
\<close>

definition after_scheme :: "string \<Rightarrow> string option" where
  "after_scheme s =
     map_option (\<lambda>p. drop (length p) s)
       (find (\<lambda>p. has_prefix s p) [''ssh://'', ''https://'', ''http://''])"

definition auth_group_at :: "string \<Rightarrow> string option" where
  "auth_group_at s = do {
     rest \<leftarrow> after_scheme s;
     let run = takeWhile (\<lambda>c. \<not> re_space c) rest;
     let grp = rev (dropWhile (\<lambda>c. c \<noteq> CHR ''@'') (rev run));
     if length grp > 1 then Some grp else None
   }"

fun find_auth_group :: "string \<Rightarrow> string option" where
  "find_auth_group [] = None"
| "find_auth_group (c # s) =
     (case auth_group_at (c # s) of Some grp \<Rightarrow> Some grp | None \<Rightarrow> find_auth_group s)"

definition removeURLCredentials :: "string \<Rightarrow> string" where
  "removeURLCredentials url =
     (let authGroup = (case find_auth_group url of Some grp \<Rightarrow> grp | None \<Rightarrow> [])
      in go_replace url authGroup [] 1)"

type_synonym path_order = "(string, ExtractedPathObject) gomap \<Rightarrow> (string, ExtractedPathObject) gomap"

definition removeAllURLCredentials ::
  "path_order \<Rightarrow> (string, ExtractedPathObject) gomap \<Rightarrow> string list" where
  "removeAllURLCredentials r pathExtractionMap =
     map (\<lambda>(key, val). if \<not> ep_LocalPath val then removeURLCredentials (ep_Path val) else ep_Path val)
       (r pathExtractionMap)"

text \<open>
  The loop of \<open>replaceIfTemporaryPath\<close> over the entries in their order; \<open>prettyPath\<close> is its
  variable. A path that contains a key splits in at least two, so that \<open>splittedPath[1]\<close> is there
  when the key is not empty. With \<open>/\<close> as separator \<open>FromSlash\<close> changes nothing.
\<close>

fun pretty_path ::
  "string \<Rightarrow> string \<Rightarrow> (string, ExtractedPathObject) gomap \<Rightarrow> string option" where
  "pretty_path filePath prettyPath [] = Some prettyPath"
| "pretty_path filePath prettyPath ((key, val) # m) =
     (if contains filePath key then do {
        after \<leftarrow> at (split_on filePath key) 1;
        if \<not> ep_LocalPath val
        then Some (remove_query (removeURLCredentials (ep_Path val)) @ after)
        else pretty_path filePath (Base (ep_Path val) @ after) m
      }
      else pretty_path filePath filePath m)"

definition replaceIfTemporaryPath ::
  "path_order \<Rightarrow> string \<Rightarrow> (string, ExtractedPathObject) gomap \<Rightarrow> string option" where
  "replaceIfTemporaryPath r filePath pathExtractionMap = pretty_path filePath filePath (r pathExtractionMap)"

definition resolvePath ::
  "path_order \<Rightarrow> string \<Rightarrow> (string, ExtractedPathObject) gomap \<Rightarrow> string \<Rightarrow> string option" where
  "resolvePath r filePath pathExtractionMap downloadDir =
     map_option (getRelativePath downloadDir) (replaceIfTemporaryPath r filePath pathExtractionMap)"

section \<open>Grouping\<close>

type_synonym query_map = "(string, QuerySummary) gomap"

definition query_summary :: "Vulnerability \<Rightarrow> QuerySummary" where
  "query_summary item =
     \<lparr>qs_QueryName = v_QueryName item, qs_QueryID = v_QueryID item, qs_QueryURI = v_QueryURI item,
      qs_Severity = v_Severity item, qs_Platform = v_Platform item, qs_CWE = v_CWE item,
      qs_CloudProvider = to_upper (v_CloudProvider item), qs_Category = v_Category item,
      qs_Experimental = v_Experimental item, qs_Description = v_Description item,
      qs_DescriptionID = v_DescriptionID item, qs_CISDescriptionIDFormatted = [], qs_CISDescriptionTitle = [],
      qs_CISDescriptionTextFormatted = [], qs_CISDescriptionID = [], qs_Files = []\<rparr>"

definition vulnerable_file :: "string \<Rightarrow> Vulnerability \<Rightarrow> VulnerableFile" where
  "vulnerable_file resolvedPath item =
     \<lparr>vf_FileName = resolvedPath, vf_SimilarityID = v_SimilarityID item,
      vf_OldSimilarityID = v_OldSimilarityID item, vf_Line = v_Line item,
      vf_ResourceLocation = v_VulnerabilityLocation item, vf_VulnLines = v_VulnLines item,
      vf_ResourceType = v_ResourceType item, vf_ResourceName = v_ResourceName item,
      vf_IssueType = v_IssueType item, vf_SearchKey = v_SearchKey item,
      vf_SearchLine = v_SearchLine item, vf_SearchValue = v_SearchValue item,
      vf_KeyExpectedValue = v_KeyExpectedValue item, vf_KeyActualValue = v_KeyActualValue item,
      vf_Value = v_Value item, vf_Remediation = v_Remediation item,
      vf_RemediationType = v_RemediationType item, vf_RemediationLocation = v_RemediationLocation item,
      vf_LineWithVulnerability = v_LineWithVulnerability item, vf_ResourceSource = v_ResourceSource item,
      vf_FileSource = v_FileSource item, vf_BlockLocation = v_BlockLocation item\<rparr>"

text \<open>One turn of the loop over the vulnerabilities; \<open>resolve\<close> is \<open>resolvePath\<close>.\<close>

definition add_item :: "string \<Rightarrow> Vulnerability \<Rightarrow> query_map \<Rightarrow> query_map" where
  "add_item resolvedPath item q =
     (let qItem = (case map_of q (v_QueryID item) of Some e \<Rightarrow> e | None \<Rightarrow> query_summary item)
      in gomap_put (v_QueryID item)
           (qItem\<lparr>qs_Files := qs_Files qItem @ [vulnerable_file resolvedPath item]\<rparr>) q)"

fun group_items ::
  "(string \<Rightarrow> string option) \<Rightarrow> Vulnerability list \<Rightarrow> query_map \<Rightarrow> (string, string) gomap \<Rightarrow>
     (query_map \<times> (string, string) gomap) option" where
  "group_items resolve [] q filePaths = Some (q, filePaths)"
| "group_items resolve (item # items) q filePaths = do {
     resolvedPath \<leftarrow> resolve (v_FileName item);
     group_items resolve items (add_item resolvedPath item q)
       (gomap_put resolvedPath (v_FileName item) filePaths)
   }"

section \<open>Counting and sorting\<close>

definition no_counts :: "(Severity, int) gomap" where
  "no_counts =
     [(SeverityTrace, 0), (SeverityInfo, 0), (SeverityLow, 0), (SeverityMedium, 0), (SeverityHigh, 0),
      (SeverityCritical, 0)]"

definition count_of :: "(Severity, int) gomap \<Rightarrow> Severity \<Rightarrow> int" where
  "count_of m s = (case map_of m s of Some n \<Rightarrow> n | None \<Rightarrow> 0)"

text \<open>The loop that counts: the counters, the queries but for those of severity \<open>TRACE\<close>, the total\<close>

fun count_queries ::
  "QuerySummary list \<Rightarrow> (Severity, int) gomap \<Rightarrow> QuerySummary list \<Rightarrow> int \<Rightarrow>
     (Severity, int) gomap \<times> QuerySummary list \<times> int" where
  "count_queries [] sevs queries totalCounter = (sevs, queries, totalCounter)"
| "count_queries (e # es) sevs queries totalCounter =
     (let n = int (length (qs_Files e));
          sevs' = gomap_put (qs_Severity e) (count_of sevs (qs_Severity e) + n) sevs
      in if qs_Severity e = SeverityTrace then count_queries es sevs' queries totalCounter
         else count_queries es sevs' (queries @ [e]) (totalCounter + n))"

definition severityOrder :: "(Severity, int) gomap" where
  "severityOrder =
     [(SeverityTrace, 5), (SeverityInfo, 4), (SeverityLow, 3), (SeverityMedium, 2), (SeverityHigh, 1),
      (SeverityCritical, 0)]"

definition query_before :: "QuerySummary \<Rightarrow> QuerySummary \<Rightarrow> bool" where
  "query_before x y =
     (if count_of severityOrder (qs_Severity x) = count_of severityOrder (qs_Severity y)
      then qs_QueryName x < qs_QueryName y
      else count_of severityOrder (qs_Severity x) < count_of severityOrder (qs_Severity y))"

record summary_env =
  su_paths :: path_order
  su_counting :: "query_map \<Rightarrow> query_map"
  su_materials :: "query_map \<Rightarrow> query_map"
  su_sort :: "QuerySummary list \<Rightarrow> QuerySummary list"

definition CreateSummary ::
  "summary_env \<Rightarrow> Counters \<Rightarrow> Vulnerability list \<Rightarrow> string \<Rightarrow> (string, ExtractedPathObject) gomap \<Rightarrow> 'v \<Rightarrow>
     string \<Rightarrow> 'v Summary option" where
  "CreateSummary env counters vulns scan pathExtractionMap version downloadDir = do {
     (q, filePaths) \<leftarrow> group_items (\<lambda>p. resolvePath (su_paths env) p pathExtractionMap downloadDir) vulns [] [];
     let (sevs, queries, totalCounter) = count_queries (map snd (su_counting env q)) no_counts [] 0;
     let materials = filter (\<lambda>e. qs_Severity e = SeverityTrace) (map snd (su_materials env q));
     Some \<lparr>sm_LatestVersion = version, sm_Counters = counters,
       sm_SeveritySummary = \<lparr>ss_ScanID = scan, ss_SeverityCounters = sevs, ss_TotalCounter = totalCounter,
         ss_TotalBOMResources = sum_list (map (\<lambda>e. int (length (qs_Files e))) materials)\<rparr>,
       sm_ScannedPaths = removeAllURLCredentials (su_paths env) pathExtractionMap,
       sm_Queries = su_sort env queries, sm_Bom = materials, sm_FilePaths = filePaths\<rparr>
   }"

section \<open>What grouping gives\<close>

definition of_query :: "string \<Rightarrow> Vulnerability list \<Rightarrow> Vulnerability list" where
  "of_query k vulns = filter (\<lambda>v. v_QueryID v = k) vulns"

text \<open>
  \<open>grouped path vulns q\<close>: \<open>q\<close> holds, for each query id of \<open>vulns\<close>, the files of its
  vulnerabilities in their order, under the severity of the first.
\<close>

definition grouped :: "(Vulnerability \<Rightarrow> string) \<Rightarrow> Vulnerability list \<Rightarrow> query_map \<Rightarrow> bool" where
  "grouped path vulns q \<longleftrightarrow>
     gomap_ok q \<and> fst ` set q = v_QueryID ` set vulns \<and>
     (\<forall>k e. map_of q k = Some e \<longrightarrow>
        qs_QueryID e = k \<and> qs_Files e = map (\<lambda>v. vulnerable_file (path v) v) (of_query k vulns) \<and>
        qs_Severity e = v_Severity (hd (of_query k vulns)))"

lemma of_query_snoc:
  "of_query k (vs @ [v]) = of_query k vs @ (if v_QueryID v = k then [v] else [])"
  by (simp add: of_query_def)

lemma of_query_none: "k \<notin> v_QueryID ` set vs \<Longrightarrow> of_query k vs = []"
  by (auto simp: of_query_def filter_empty_conv)

lemma of_query_some: "k \<in> v_QueryID ` set vs \<Longrightarrow> of_query k vs \<noteq> []"
  by (auto simp: of_query_def filter_empty_conv)

lemma grouped_add:
  assumes "grouped path vs q"
  shows "grouped path (vs @ [v]) (add_item (path v) v q)"
proof -
  let ?id = "v_QueryID v"
  define e where "e = (case map_of q ?id of Some e \<Rightarrow> e | None \<Rightarrow> query_summary v)"
  let ?e = "e\<lparr>qs_Files := qs_Files e @ [vulnerable_file (path v) v]\<rparr>"
  have add: "add_item (path v) v q = gomap_put ?id ?e q" by (simp add: add_item_def e_def Let_def)
  have keys: "fst ` set q = v_QueryID ` set vs" using assms by (simp add: grouped_def)
  have new: "qs_QueryID ?e = ?id \<and>
      qs_Files ?e = map (\<lambda>v. vulnerable_file (path v) v) (of_query ?id (vs @ [v])) \<and>
      qs_Severity ?e = v_Severity (hd (of_query ?id (vs @ [v])))"
  proof (cases "map_of q ?id")
    case None
    then have "?id \<notin> v_QueryID ` set vs" using keys by (simp add: map_of_eq_None_iff)
    then show ?thesis by (simp add: e_def None of_query_snoc of_query_none query_summary_def)
  next
    case (Some x)
    then have "?id \<in> v_QueryID ` set vs" using keys by (metis map_of_SomeD fst_conv image_eqI)
    then show ?thesis using assms Some of_query_some
      by (simp add: e_def grouped_def of_query_snoc)
  qed
  show ?thesis
    unfolding grouped_def add
    using assms new by (auto simp: grouped_def gomap_put_keys of_query_snoc intro: gomap_put_ok)
qed

lemma group_items_fold:
  "group_items resolve vs q fp = Some (q', fp') \<Longrightarrow>
     q' = foldl (\<lambda>q v. add_item (the (resolve (v_FileName v))) v q) q vs"
  by (induction vs arbitrary: q fp) (auto simp: bind_eq_Some_conv)

lemma grouped_fold: "grouped path vs (foldl (\<lambda>q v. add_item (path v) v q) [] vs)"
  by (induction vs rule: rev_induct) (simp_all add: grouped_add, simp add: grouped_def)

lemma group_items_grouped:
  "group_items resolve vs [] fp = Some (q, fp') \<Longrightarrow>
     grouped (\<lambda>v. the (resolve (v_FileName v))) vs q"
  using grouped_fold [of "\<lambda>v. the (resolve (v_FileName v))" vs] group_items_fold [of resolve vs "[]" fp q fp']
  by simp

text \<open>Each vulnerability is counted in one query.\<close>

lemma length_by_key:
  assumes "distinct ks" and "f ` set xs \<subseteq> set ks"
  shows "(\<Sum>k \<leftarrow> ks. int (length (filter (\<lambda>x. f x = k) xs))) = int (length xs)"
  using assms(2)
proof (induction xs)
  case (Cons x xs)
  have "(\<Sum>k \<leftarrow> ks. int (length (filter (\<lambda>y. f y = k) (x # xs)))) =
      (\<Sum>k \<leftarrow> ks. (if f x = k then 1 else 0) + int (length (filter (\<lambda>y. f y = k) xs)))"
    by (intro arg_cong [of _ _ sum_list] map_cong) auto
  also have "\<dots> = (\<Sum>k \<leftarrow> ks. if f x = k then 1 else 0) +
      (\<Sum>k \<leftarrow> ks. int (length (filter (\<lambda>y. f y = k) xs)))"
    by (rule sum_list_addf)
  also have "(\<Sum>k \<leftarrow> ks. if f x = k then 1 else 0) = (1 :: int)"
    using assms(1) Cons.prems by (simp add: sum.distinct_set_conv_list [symmetric])
  finally show ?case using Cons by simp
qed (simp add: sum_list_0)

lemma grouped_values:
  assumes "grouped path vs q"
  shows "map qs_QueryID (map snd q) = map fst q"
    and "(\<Sum>e \<leftarrow> map snd q. int (length (qs_Files e))) = int (length vs)"
proof -
  have ok: "gomap_ok q" and keys: "fst ` set q = v_QueryID ` set vs" using assms by (auto simp: grouped_def)
  have e: "qs_QueryID e = k \<and> qs_Files e = map (\<lambda>v. vulnerable_file (path v) v) (of_query k vs)"
    if "(k, e) \<in> set q" for k e
  proof -
    have "map_of q k = Some e" using that gomap_mem_iff [OF ok] by blast
    then show ?thesis using assms unfolding grouped_def by blast
  qed
  show "map qs_QueryID (map snd q) = map fst q" using e by auto
  have "(\<Sum>e \<leftarrow> map snd q. int (length (qs_Files e))) =
      (\<Sum>k \<leftarrow> map fst q. int (length (filter (\<lambda>v. v_QueryID v = k) vs)))"
    unfolding map_map comp_def using e by (intro arg_cong [of _ _ sum_list] map_cong) (auto simp: of_query_def)
  also have "\<dots> = int (length vs)" using ok keys by (intro length_by_key) auto
  finally show "(\<Sum>e \<leftarrow> map snd q. int (length (qs_Files e))) = int (length vs)" .
qed

definition files_count :: "QuerySummary list \<Rightarrow> int" where
  "files_count es = (\<Sum>e \<leftarrow> es. int (length (qs_Files e)))"

lemma files_count_mset: "mset es = mset es' \<Longrightarrow> files_count es = files_count es'"
  unfolding files_count_def by (metis mset_map sum_mset_sum_list)

lemma count_queries_spec:
  "count_queries es sevs qs n = (sevs', qs', n') \<Longrightarrow>
     qs' = qs @ filter (\<lambda>e. qs_Severity e \<noteq> SeverityTrace) es \<and>
     n' = n + files_count (filter (\<lambda>e. qs_Severity e \<noteq> SeverityTrace) es) \<and>
     (\<forall>sev. count_of sevs' sev = count_of sevs sev + files_count (filter (\<lambda>e. qs_Severity e = sev) es))"
proof (induction es arbitrary: sevs qs n)
  case (Cons e es)
  let ?n = "int (length (qs_Files e))"
  let ?sevs = "gomap_put (qs_Severity e) (count_of sevs (qs_Severity e) + ?n) sevs"
  have c: "count_of ?sevs sev = count_of sevs sev + (if qs_Severity e = sev then ?n else 0)" for sev
    by (auto simp: count_of_def)
  show ?case
  proof (cases "qs_Severity e = SeverityTrace")
    case True
    then have "count_queries es ?sevs qs n = (sevs', qs', n')" using Cons.prems by (simp add: Let_def)
    from Cons.IH [OF this, unfolded c] show ?thesis using True by (simp add: files_count_def)
  next
    case False
    then have "count_queries es ?sevs (qs @ [e]) (n + ?n) = (sevs', qs', n')"
      using Cons.prems by (simp add: Let_def)
    from Cons.IH [OF this, unfolded c] show ?thesis using False by (simp add: files_count_def)
  qed
qed (simp add: files_count_def)

lemma CreateSummary_parts:
  assumes "CreateSummary env counters vulns scan paths version dir = Some s"
    and "range_order (su_counting env)" and "range_order (su_materials env)"
    and "sorts_by query_before (su_sort env)"
  obtains q where "grouped (\<lambda>v. the (resolvePath (su_paths env) (v_FileName v) paths dir)) vulns q"
    and "mset (sm_Queries s @ sm_Bom s) = mset (map snd q)"
    and "\<forall>e \<in> set (sm_Queries s). qs_Severity e \<noteq> SeverityTrace"
    and "\<forall>e \<in> set (sm_Bom s). qs_Severity e = SeverityTrace"
    and "sorted_wrt (\<lambda>x y. \<not> query_before y x) (sm_Queries s)"
    and "ss_TotalCounter (sm_SeveritySummary s) = files_count (sm_Queries s)"
    and "ss_TotalBOMResources (sm_SeveritySummary s) = files_count (sm_Bom s)"
    and "\<forall>sev. count_of (ss_SeverityCounters (sm_SeveritySummary s)) sev =
      files_count (filter (\<lambda>e. qs_Severity e = sev) (map snd q))"
proof -
  obtain q fp where
      g: "group_items (\<lambda>p. resolvePath (su_paths env) p paths dir) vulns [] [] = Some (q, fp)"
    using assms(1)
    by (cases "group_items (\<lambda>p. resolvePath (su_paths env) p paths dir) vulns [] []")
      (auto simp: CreateSummary_def)
  obtain sevs queries n where
      c: "count_queries (map snd (su_counting env q)) no_counts [] 0 = (sevs, queries, n)"
    by (metis prod_cases3)
  have s: "s = \<lparr>sm_LatestVersion = version, sm_Counters = counters,
       sm_SeveritySummary = \<lparr>ss_ScanID = scan, ss_SeverityCounters = sevs, ss_TotalCounter = n,
         ss_TotalBOMResources = files_count (filter (\<lambda>e. qs_Severity e = SeverityTrace)
           (map snd (su_materials env q)))\<rparr>,
       sm_ScannedPaths = removeAllURLCredentials (su_paths env) paths,
       sm_Queries = su_sort env queries,
       sm_Bom = filter (\<lambda>e. qs_Severity e = SeverityTrace) (map snd (su_materials env q)),
       sm_FilePaths = fp\<rparr>"
    using assms(1) g c by (simp add: CreateSummary_def Let_def files_count_def)
  let ?es = "map snd (su_counting env q)"
  have srt: "mset (su_sort env xs) = mset xs" for xs using assms(4) by (simp add: sorts_by_def)
  have sort: "mset (su_sort env queries) = mset queries"
      "sorted_wrt (\<lambda>x y. \<not> query_before y x) (su_sort env queries)"
    using assms(4) by (auto simp: sorts_by_def)
  note cs = count_queries_spec [OF c]
  have qs: "queries = filter (\<lambda>e. qs_Severity e \<noteq> SeverityTrace) ?es" using cs by simp
  have m1: "mset ?es = mset (map snd q)" using assms(2) by (simp add: range_order_def)
  have m2: "mset (map snd (su_materials env q)) = mset (map snd q)" using assms(3) by (simp add: range_order_def)
  have "mset (sm_Queries s @ sm_Bom s) =
      filter_mset (\<lambda>e. qs_Severity e \<noteq> SeverityTrace) (mset ?es) +
      filter_mset (\<lambda>e. qs_Severity e = SeverityTrace) (mset (map snd (su_materials env q)))"
    by (simp add: s srt qs)
  also have "\<dots> = mset (map snd q)"
    unfolding m1 m2 by (metis (mono_tags) multiset_partition add.commute)
  finally have mset: "mset (sm_Queries s @ sm_Bom s) = mset (map snd q)" .
  have zero: "count_of no_counts sev = 0" for sev by (auto simp: count_of_def no_counts_def)
  have counts: "count_of sevs sev = files_count (filter (\<lambda>e. qs_Severity e = sev) (map snd q))" for sev
    using cs zero m1 files_count_mset by (metis add_0 mset_filter)
  have "set (su_sort env queries) = set queries" using sort(1) by (metis set_mset_mset)
  then have untraced: "\<forall>e \<in> set (sm_Queries s). qs_Severity e \<noteq> SeverityTrace" by (simp add: s qs)
  have totals: "ss_TotalCounter (sm_SeveritySummary s) = files_count (sm_Queries s)"
    using cs files_count_mset [OF sort(1)] by (simp add: s)
  show ?thesis
  proof (rule that [OF group_items_grouped [OF g] mset untraced _ _ totals])
    show "sorted_wrt (\<lambda>x y. \<not> query_before y x) (sm_Queries s)" using sort(2) by (simp add: s)
    show "\<forall>sev. count_of (ss_SeverityCounters (sm_SeveritySummary s)) sev =
        files_count (filter (\<lambda>e. qs_Severity e = sev) (map snd q))" using counts by (simp add: s)
  qed (simp_all add: s)
qed

section \<open>Credentials in URLs\<close>

lemma go_replace_marked:
  "z \<notin> set (a @ x) \<Longrightarrow> go_replace (a @ (x @ [z]) @ b) (x @ [z]) new 1 = a @ new @ b"
proof (induction a)
  case Nil
  show ?case by (cases x) (subst go_replace.simps, simp)+
next
  case (Cons c a)
  have "\<not> prefix (x @ [z]) (c # a @ (x @ [z]) @ b)"
  proof
    assume "prefix (x @ [z]) (c # a @ (x @ [z]) @ b)"
    then obtain r where r: "(c # a @ x) @ z # b = (x @ [z]) @ r" by (auto simp: prefix_def)
    have "take (length (x @ [z])) ((c # a @ x) @ z # b) = x @ [z]" unfolding r by simp
    moreover have "take (length (x @ [z])) ((c # a @ x) @ z # b) = take (length (x @ [z])) (c # a @ x)"
      by (subst take_append) simp
    ultimately have "x @ [z] = take (length (x @ [z])) (c # a @ x)" by simp
    then have "z \<in> set (c # a @ x)" by (metis in_set_conv_decomp in_set_takeD)
    then show False using Cons.prems by auto
  qed
  then show ?case using Cons by (subst go_replace.simps) simp
qed

lemma removeURLCredentials_scheme:
  assumes "scheme \<in> {''ssh://'', ''http://'', ''https://''}" and "cred \<noteq> []"
    and "\<forall>c \<in> set cred. \<not> re_space c \<and> c \<noteq> CHR ''@''" and "CHR ''@'' \<notin> set rest"
  shows "removeURLCredentials (scheme @ cred @ CHR ''@'' # rest) = scheme @ rest"
proof -
  let ?url = "scheme @ cred @ CHR ''@'' # rest"
  have scheme: "after_scheme ?url = Some (cred @ CHR ''@'' # rest)"
    using assms(1) by (auto simp: after_scheme_def has_prefix_def)
  have sp: "\<not> re_space (CHR ''@'')" by (simp add: re_space_def)
  have run: "takeWhile (\<lambda>c. \<not> re_space c) (cred @ CHR ''@'' # rest) =
      cred @ CHR ''@'' # takeWhile (\<lambda>c. \<not> re_space c) rest"
    using assms(3) sp by (simp add: takeWhile_append2)
  have "CHR ''@'' \<notin> set (rev (takeWhile (\<lambda>c. \<not> re_space c) rest))"
    using assms(4) by (auto dest: set_takeWhileD)
  then have drop: "dropWhile (\<lambda>c. c \<noteq> CHR ''@'') (rev (cred @ CHR ''@'' # takeWhile (\<lambda>c. \<not> re_space c) rest)) =
      CHR ''@'' # rev cred"
    using dropWhile_append2 [of "rev (takeWhile (\<lambda>c. \<not> re_space c) rest)" "\<lambda>c. c \<noteq> CHR ''@''"
        "CHR ''@'' # rev cred"]
    by auto
  have "auth_group_at ?url = Some (cred @ [CHR ''@''])"
    using assms(2) by (simp add: auth_group_at_def scheme run drop del: rev_append)
  moreover have "?url = hd ?url # tl ?url" using assms(1) by auto
  ultimately have "find_auth_group ?url = Some (cred @ [CHR ''@''])"
    by (metis find_auth_group.simps(2) option.simps(5))
  moreover have "CHR ''@'' \<notin> set scheme" using assms(1) by auto
  then have "CHR ''@'' \<notin> set (scheme @ cred)" using assms(3) by auto
  from go_replace_marked [OF this, of rest "[]"]
  have "go_replace ?url (cred @ [CHR ''@'']) [] 1 = scheme @ rest" by simp
  ultimately show ?thesis by (simp add: removeURLCredentials_def)
qed

section \<open>Properties\<close>

definition query_key :: "QuerySummary \<Rightarrow> int \<times> string" where
  "query_key e = (count_of severityOrder (qs_Severity e), qs_QueryName e)"

lemma query_before_key: "query_before x y \<longleftrightarrow> query_key x < query_key y"
  by (auto simp: query_before_def query_key_def less_prod_def)

lemma sort_key_sorts: "sorts_by query_before (sort_key query_key)"
proof -
  have "sorted_wrt (\<lambda>x y. query_key x \<le> query_key y) (sort_key query_key xs)" for xs
    using sorted_sort_key [of query_key xs] by (simp add: sorted_map)
  then show ?thesis
    by (auto simp: sorts_by_def query_before_key not_less)
qed

definition example_summary_env :: summary_env where
  "example_summary_env =
     \<lparr>su_paths = rev, su_counting = rev, su_materials = id, su_sort = sort_key query_key\<rparr>"

definition example_counters :: Counters where
  "example_counters = \<lparr>ct_ScannedFiles = 0, ct_ScannedFilesLines = 0, ct_ParsedFiles = 0,
     ct_ParsedFilesLines = 0, ct_IgnoredFilesLines = 0, ct_FailedToScanFiles = 0, ct_TotalQueries = 0,
     ct_FailedToExecuteQueries = 0, ct_FailedSimilarityID = 0, ct_FoundResources = 0\<rparr>"

definition example_vulns :: "Vulnerability list" where
  "example_vulns =
     [zero_vulnerability\<lparr>v_QueryID := ''q1'', v_Severity := SeverityLow, v_FileName := ''a''\<rparr>,
      zero_vulnerability\<lparr>v_QueryID := ''q2'', v_Severity := SeverityHigh, v_FileName := ''a''\<rparr>,
      zero_vulnerability\<lparr>v_QueryID := ''q1'', v_Severity := SeverityLow, v_FileName := ''b''\<rparr>]"

lemma example_summary:
  "\<exists>s. CreateSummary example_summary_env example_counters example_vulns ''s'' [] () ''d'' = Some s"
  by (simp add: CreateSummary_def example_vulns_def resolvePath_def replaceIfTemporaryPath_def
      example_summary_env_def Let_def split: prod.split)

lemma example_summary_orders:
  "range_order (su_counting example_summary_env)" "range_order (su_materials example_summary_env)"
  "sorts_by query_before (su_sort example_summary_env)"
  using sort_key_sorts by (simp_all add: example_summary_env_def range_order_id)

text \<open>C14. Whatever the order of Go's maps and of equal elements in \<open>sort.Slice\<close>, a summary has one
  entry for each query id, with the files of all its vulnerabilities in their order; entries of
  severity \<open>TRACE\<close> are the materials and no others, and the queries are sorted by severity and
  name.\<close>

theorem summary_groups_by_query:
  assumes "CreateSummary env counters vulns scan paths version dir = Some s"
    and "range_order (su_counting env)" and "range_order (su_materials env)"
    and "sorts_by query_before (su_sort env)"
  shows "distinct (map qs_QueryID (sm_Queries s @ sm_Bom s)) \<and>
    qs_QueryID ` set (sm_Queries s @ sm_Bom s) = v_QueryID ` set vulns \<and>
    (\<forall>e \<in> set (sm_Queries s @ sm_Bom s).
       qs_Files e = map (\<lambda>v. vulnerable_file
         (the (resolvePath (su_paths env) (v_FileName v) paths dir)) v) (of_query (qs_QueryID e) vulns) \<and>
       (e \<in> set (sm_Bom s) \<longleftrightarrow> qs_Severity e = SeverityTrace)) \<and>
    sorted_wrt (\<lambda>x y. \<not> query_before y x) (sm_Queries s)"
proof -
  obtain q where g: "grouped (\<lambda>v. the (resolvePath (su_paths env) (v_FileName v) paths dir)) vulns q"
    and m: "mset (sm_Queries s @ sm_Bom s) = mset (map snd q)"
    and t: "\<forall>e \<in> set (sm_Queries s). qs_Severity e \<noteq> SeverityTrace"
      "\<forall>e \<in> set (sm_Bom s). qs_Severity e = SeverityTrace"
    and srt: "sorted_wrt (\<lambda>x y. \<not> query_before y x) (sm_Queries s)"
    by (rule CreateSummary_parts [OF assms])
  have ok: "gomap_ok q" and keys: "fst ` set q = v_QueryID ` set vulns" using g by (auto simp: grouped_def)
  have es: "set (sm_Queries s @ sm_Bom s) = snd ` set q" using m by (metis set_map set_mset_mset)
  have "mset (map qs_QueryID (sm_Queries s @ sm_Bom s)) = mset (map fst q)"
    using m grouped_values(1) [OF g] by (metis mset_map)
  then have ids: "distinct (map qs_QueryID (sm_Queries s @ sm_Bom s))"
      "qs_QueryID ` set (sm_Queries s @ sm_Bom s) = v_QueryID ` set vulns"
    using ok keys by (metis mset_eq_imp_distinct_iff, metis list.set_map mset_eq_setD)
  have files: "qs_Files e = map (\<lambda>v. vulnerable_file
         (the (resolvePath (su_paths env) (v_FileName v) paths dir)) v) (of_query (qs_QueryID e) vulns)"
    if "e \<in> snd ` set q" for e
  proof -
    obtain k where "(k, e) \<in> set q" using \<open>e \<in> snd ` set q\<close> by auto
    then have "map_of q k = Some e" using gomap_mem_iff [OF ok] by blast
    then show ?thesis using g unfolding grouped_def by blast
  qed
  show ?thesis using ids files es t srt by auto
qed

theorem summary_groups_by_query_witness:
  "\<exists>s. CreateSummary example_summary_env example_counters example_vulns ''s'' [] () ''d'' = Some s \<and>
     qs_QueryID ` set (sm_Queries s @ sm_Bom s) = {''q1'', ''q2''}"
proof -
  obtain s where s: "CreateSummary example_summary_env example_counters example_vulns ''s'' [] () ''d'' = Some s"
    using example_summary by blast
  from summary_groups_by_query [OF s example_summary_orders]
  have "qs_QueryID ` set (sm_Queries s @ sm_Bom s) = {''q1'', ''q2''}"
    by (auto simp: example_vulns_def)
  with s show ?thesis by blast
qed

text \<open>C29. Every vulnerability is counted once: the total and the number of materials add up to their
  number, and the counter of a severity is the number of files of the entries with it.\<close>

theorem summary_counts_each_once:
  assumes "CreateSummary env counters vulns scan paths version dir = Some s"
    and "range_order (su_counting env)" and "range_order (su_materials env)"
    and "sorts_by query_before (su_sort env)"
  shows "ss_TotalCounter (sm_SeveritySummary s) + ss_TotalBOMResources (sm_SeveritySummary s) =
      int (length vulns) \<and>
    (\<forall>sev. count_of (ss_SeverityCounters (sm_SeveritySummary s)) sev =
       files_count (filter (\<lambda>e. qs_Severity e = sev) (sm_Queries s @ sm_Bom s))) \<and>
    count_of (ss_SeverityCounters (sm_SeveritySummary s)) SeverityTrace =
      ss_TotalBOMResources (sm_SeveritySummary s)"
proof -
  obtain q where g: "grouped (\<lambda>v. the (resolvePath (su_paths env) (v_FileName v) paths dir)) vulns q"
    and m: "mset (sm_Queries s @ sm_Bom s) = mset (map snd q)"
    and t: "\<forall>e \<in> set (sm_Queries s). qs_Severity e \<noteq> SeverityTrace"
      "\<forall>e \<in> set (sm_Bom s). qs_Severity e = SeverityTrace"
    and n: "ss_TotalCounter (sm_SeveritySummary s) = files_count (sm_Queries s)"
      "ss_TotalBOMResources (sm_SeveritySummary s) = files_count (sm_Bom s)"
    and c: "\<forall>sev. count_of (ss_SeverityCounters (sm_SeveritySummary s)) sev =
      files_count (filter (\<lambda>e. qs_Severity e = sev) (map snd q))"
    by (rule CreateSummary_parts [OF assms])
  have "files_count (sm_Queries s @ sm_Bom s) = int (length vulns)"
    using files_count_mset [OF m] grouped_values(2) [OF g] by (simp add: files_count_def)
  then have all: "files_count (sm_Queries s) + files_count (sm_Bom s) = int (length vulns)"
    by (simp add: files_count_def)
  have sev: "files_count (filter (\<lambda>e. qs_Severity e = sev) (map snd q)) =
      files_count (filter (\<lambda>e. qs_Severity e = sev) (sm_Queries s @ sm_Bom s))" for sev
    by (rule files_count_mset) (metis m mset_filter)
  have "filter (\<lambda>e. qs_Severity e = SeverityTrace) (sm_Queries s @ sm_Bom s) = sm_Bom s"
    using t by (auto simp: filter_id_conv filter_empty_conv)
  then show ?thesis using all n c sev by metis
qed

theorem summary_counts_each_once_witness:
  "\<exists>s. CreateSummary example_summary_env example_counters example_vulns ''s'' [] () ''d'' = Some s \<and>
     ss_TotalCounter (sm_SeveritySummary s) + ss_TotalBOMResources (sm_SeveritySummary s) = 3"
proof -
  obtain s where s: "CreateSummary example_summary_env example_counters example_vulns ''s'' [] () ''d'' = Some s"
    using example_summary by blast
  from summary_counts_each_once [OF s example_summary_orders] s show ?thesis
    by (auto simp: example_vulns_def)
qed

text \<open>The credentials in the URL of a scanned repository, the text between the scheme and an
  \<open>@\<close>, do not appear in the report.\<close>

lemma url_credentials_removed:
  assumes "scheme \<in> {''ssh://'', ''http://'', ''https://''}" and "cred \<noteq> []"
    and "\<forall>c \<in> set cred. \<not> re_space c \<and> c \<noteq> CHR ''@''" and "CHR ''@'' \<notin> set rest"
  shows "removeURLCredentials (scheme @ cred @ ''@'' @ rest) = scheme @ rest"
  using removeURLCredentials_scheme [OF assms] by simp

end
