(* ===== verification/Reports.thy ===== *)
theory Reports
  imports Summary
begin

text \<open>
  The reports of \<open>pkg/report/model\<close> that list the vulnerabilities of a summary: CSV, Code Climate,
  SonarQube, GitLab, JUnit, the AWS security findings and CycloneDX. The version of KICS, the clock,
  environment variables, random ids, reading a file and SHA-256 are parameters; a time is the text it is
  written as.
\<close>

definition Fullname :: string where "Fullname = ''Keeping Infrastructure as Code Secure''"
definition KICS_URL :: string where "KICS_URL = ''https://www.kics.io/''"

text \<open>What a report can list: each file of each query, in their order.\<close>

definition listed :: "QuerySummary list \<Rightarrow> (QuerySummary \<times> VulnerableFile) list" where
  "listed qs = concat (map (\<lambda>q. map (Pair q) (qs_Files q)) qs)"

lemma listed_Cons: "listed (q # qs) = map (Pair q) (qs_Files q) @ listed qs"
  by (simp add: listed_def)

lemma listed_Nil [simp]: "listed [] = []"
  by (simp add: listed_def)

lemma listed_count: "int (length (listed qs)) = files_count qs"
  by (induction qs) (simp_all add: listed_Cons files_count_def)

section \<open>CSV\<close>

record CSVReport =
  cs_QueryName :: string
  cs_QueryID :: string
  cs_QueryURI :: string
  cs_Severity :: string
  cs_Platform :: string
  cs_CWE :: string
  cs_CloudProvider :: string
  cs_Category :: string
  cs_DescriptionID :: string
  cs_Description :: string
  cs_CISDescriptionIDFormatted :: string
  cs_CISDescriptionTitle :: string
  cs_CISDescriptionTextFormatted :: string
  cs_FileName :: string
  cs_SimilarityID :: string
  cs_Line :: int
  cs_IssueType :: string
  cs_SearchKey :: string
  cs_SearchLine :: int
  cs_SearchValue :: string
  cs_ExpectedValue :: string
  cs_ActualValue :: string

definition csv_row :: "QuerySummary \<Rightarrow> VulnerableFile \<Rightarrow> CSVReport" where
  "csv_row q f =
     \<lparr>cs_QueryName = qs_QueryName q, cs_QueryID = qs_QueryID q, cs_QueryURI = qs_QueryURI q,
      cs_Severity = qs_Severity q, cs_Platform = qs_Platform q, cs_CWE = qs_CWE q,
      cs_CloudProvider = qs_CloudProvider q, cs_Category = qs_Category q,
      cs_DescriptionID = qs_DescriptionID q, cs_Description = qs_Description q,
      cs_CISDescriptionIDFormatted = qs_CISDescriptionIDFormatted q,
      cs_CISDescriptionTitle = qs_CISDescriptionTitle q,
      cs_CISDescriptionTextFormatted = qs_CISDescriptionTextFormatted q,
      cs_FileName = vf_FileName f, cs_SimilarityID = vf_SimilarityID f, cs_Line = vf_Line f,
      cs_IssueType = vf_IssueType f, cs_SearchKey = vf_SearchKey f, cs_SearchLine = vf_SearchLine f,
      cs_SearchValue = vf_SearchValue f, cs_ExpectedValue = vf_KeyExpectedValue f,
      cs_ActualValue = vf_KeyActualValue f\<rparr>"

definition BuildCSVReport :: "'v Summary \<Rightarrow> CSVReport list" where
  "BuildCSVReport summary = concat (map (\<lambda>q. map (csv_row q) (qs_Files q)) (sm_Queries summary))"

section \<open>Code Climate\<close>

record CodeClimateReport =
  cc_Type :: string
  cc_CheckName :: string
  cc_CWE :: string
  cc_Description :: string
  cc_Categories :: "string list"
  cc_Path :: string
  cc_Begin :: int
  cc_Severity :: string
  cc_Fingerprint :: string

definition lookup0 :: "(string, string) gomap \<Rightarrow> string \<Rightarrow> string" where
  "lookup0 m k = (case map_of m k of Some v \<Rightarrow> v | None \<Rightarrow> [])"

definition severityMap :: "(string, string) gomap" where
  "severityMap =
     [(SeverityTrace, ''info''), (SeverityInfo, ''info''), (SeverityLow, ''minor''),
      (SeverityMedium, ''major''), (SeverityHigh, ''critical''), (SeverityCritical, ''blocker'')]"

definition BuildCodeClimateReport :: "'v Summary \<Rightarrow> CodeClimateReport list" where
  "BuildCodeClimateReport summary =
     concat (map (\<lambda>q. map (\<lambda>f.
         \<lparr>cc_Type = ''issue'', cc_CheckName = qs_QueryName q, cc_CWE = qs_CWE q,
          cc_Description = qs_Description q, cc_Categories = [''Security''],
          cc_Path = vf_FileName f, cc_Begin = vf_Line f, cc_Severity = lookup0 severityMap (qs_Severity q),
          cc_Fingerprint = vf_SimilarityID f\<rparr>) (qs_Files q)) (sm_Queries summary))"

section \<open>SonarQube\<close>

definition severitySonarQubeEquivalence :: "(Severity, string) gomap" where
  "severitySonarQubeEquivalence =
     [(''INFO'', ''INFO''), (''LOW'', ''MINOR''), (''MEDIUM'', ''MAJOR''), (''HIGH'', ''CRITICAL''),
      (''CRITICAL'', ''BLOCKER'')]"

definition categorySonarQubeEquivalence :: "(string, string) gomap" where
  "categorySonarQubeEquivalence =
     [(''Access Control'', ''VULNERABILITY''), (''Availability'', ''VULNERABILITY''),
      (''Backup'', ''VULNERABILITY''), (''Best Practices'', ''CODE_SMELL''),
      (''Build Process'', ''VULNERABILITY''), (''Encryption'', ''VULNERABILITY''),
      (''Insecure Configurations'', ''CODE_SMELL''), (''Insecure Defaults'', ''CODE_SMELL''),
      (''Networking and Firewall'', ''VULNERABILITY''), (''Observability'', ''VULNERABILITY''),
      (''Resource Management'', ''VULNERABILITY''), (''Secret Management'', ''VULNERABILITY''),
      (''Supply-Chain'', ''VULNERABILITY''), (''Structure and Semantics'', ''CODE_SMELL'')]"

record Location =
  lo_Message :: string
  lo_FilePath :: string
  lo_StartLine :: int

record Issue =
  iu_EngineID :: string
  iu_RuleID :: string
  iu_Severity :: string
  iu_CWE :: string
  iu_Type :: string
  iu_PrimaryLocation :: Location
  iu_SecondaryLocations :: "Location list"

record SonarQubeReportBuilder =
  sq_version :: string
  sq_Issues :: "Issue list"

definition NewSonarQubeRepory :: "string \<Rightarrow> SonarQubeReportBuilder" where
  "NewSonarQubeRepory version = \<lparr>sq_version = ''KICS '' @ version, sq_Issues = []\<rparr>"

definition buildLocation :: "int \<Rightarrow> QuerySummary \<Rightarrow> Location option" where
  "buildLocation index query = do {
     file \<leftarrow> at (qs_Files query) index;
     Some \<lparr>lo_Message = (if qs_CISDescriptionID query \<noteq> [] then qs_CISDescriptionID query
                         else qs_Description query),
           lo_FilePath = vf_FileName file, lo_StartLine = vf_Line file\<rparr>
   }"

definition buildSecondaryLocation :: "QuerySummary \<Rightarrow> Location list option" where
  "buildSecondaryLocation query = do {
     rest \<leftarrow> slice_from (qs_Files query) 1;
     those (map (\<lambda>i. buildLocation (int i + 1) query) [0..<length rest])
   }"

definition buildIssue :: "QuerySummary \<Rightarrow> SonarQubeReportBuilder \<Rightarrow> SonarQubeReportBuilder option" where
  "buildIssue query s = do {
     primary \<leftarrow> buildLocation 0 query;
     secondary \<leftarrow> buildSecondaryLocation query;
     Some (s\<lparr>sq_Issues := sq_Issues s @
       [\<lparr>iu_EngineID = sq_version s, iu_RuleID = qs_QueryID query,
         iu_Severity = lookup0 severitySonarQubeEquivalence (qs_Severity query), iu_CWE = qs_CWE query,
         iu_Type = lookup0 categorySonarQubeEquivalence (qs_Category query),
         iu_PrimaryLocation = primary, iu_SecondaryLocations = secondary\<rparr>]\<rparr>)
   }"

fun build_issues :: "QuerySummary list \<Rightarrow> SonarQubeReportBuilder \<Rightarrow> SonarQubeReportBuilder option" where
  "build_issues [] s = Some s"
| "build_issues (q # qs) s = Option.bind (buildIssue q s) (build_issues qs)"

definition BuildReport :: "'v Summary \<Rightarrow> SonarQubeReportBuilder \<Rightarrow> SonarQubeReportBuilder option" where
  "BuildReport summary s = build_issues (sm_Queries summary) s"

section \<open>GitLab\<close>

record gitlabSASTVulnerabilityIdentifier =
  gi_IdentifierType :: string
  gi_Name :: string
  gi_URL :: string
  gi_Value :: string

record gitlabSASTVulnerability =
  gv_ID :: string
  gv_Severity :: string
  gv_Name :: string
  gv_CWE :: string
  gv_Links :: "string list"
  gv_File :: string
  gv_Start :: int
  gv_End :: int
  gv_Identifiers :: "gitlabSASTVulnerabilityIdentifier list"
  gv_Details :: "(string, string) gomap"

record gitlabSASTScan =
  gs_AnalyzerID :: string
  gs_AnalyzerName :: string
  gs_AnalyzerVersion :: string
  gs_AnalyzerVendor :: string
  gs_StartTime :: string
  gs_EndTime :: string
  gs_Status :: string
  gs_Scantype :: string
  gs_ScannerID :: string
  gs_ScannerName :: string
  gs_ScannerURL :: string
  gs_ScannerVersion :: string
  gs_ScannerVendor :: string

record gitlabSASTReport =
  gr_Schema :: string
  gr_SchemaVersion :: string
  gr_Scan :: gitlabSASTScan
  gr_Vulnerabilities :: "gitlabSASTVulnerability list"

definition initGitlabSASTScan :: "string \<Rightarrow> string \<Rightarrow> string \<Rightarrow> gitlabSASTScan" where
  "initGitlabSASTScan version start0 end0 =
     \<lparr>gs_AnalyzerID = ''keeping-infrastructure-as-code-secure'', gs_AnalyzerName = Fullname,
      gs_AnalyzerVersion = version, gs_AnalyzerVendor = ''Checkmarx'', gs_StartTime = start0,
      gs_EndTime = end0, gs_Status = ''success'', gs_Scantype = ''sast'',
      gs_ScannerID = ''keeping-infrastructure-as-code-secure'', gs_ScannerName = Fullname,
      gs_ScannerURL = KICS_URL, gs_ScannerVersion = version, gs_ScannerVendor = ''Checkmarx''\<rparr>"

definition NewGitlabSASTReport :: "string \<Rightarrow> string \<Rightarrow> string \<Rightarrow> gitlabSASTReport" where
  "NewGitlabSASTReport version start0 end0 =
     \<lparr>gr_Schema = ''https://gitlab.com/gitlab-org/security-products/security-report-schemas/-/raw/v15.0.6/dist/sast-report-format.json'',
      gr_SchemaVersion = ''15.0.6'', gr_Scan = initGitlabSASTScan version start0 end0,
      gr_Vulnerabilities = []\<rparr>"

text \<open>\<open>title\<close> is \<open>cases.Title\<close> of \<open>golang.org/x/text\<close>.\<close>

definition BuildGitlabSASTVulnerability ::
  "(string \<Rightarrow> string) \<Rightarrow> QuerySummary \<Rightarrow> VulnerableFile \<Rightarrow> gitlabSASTReport \<Rightarrow> gitlabSASTReport" where
  "BuildGitlabSASTVulnerability title issue f glsr =
     (if length (qs_Files issue) > 0 then
        glsr\<lparr>gr_Vulnerabilities := gr_Vulnerabilities glsr @
          [\<lparr>gv_ID = vf_SimilarityID f, gv_Severity = title (to_lower (qs_Severity issue)),
            gv_Name = qs_QueryName issue, gv_CWE = qs_CWE issue, gv_Links = [qs_QueryURI issue],
            gv_File = vf_FileName f, gv_Start = vf_Line f, gv_End = vf_Line f,
            gv_Identifiers =
              [\<lparr>gi_IdentifierType = ''kics'', gi_Name = Fullname,
                gi_URL = ''https://docs.kics.io/latest/queries/'' @ to_lower (qs_Platform issue) @ ''-queries'',
                gi_Value = qs_QueryID issue\<rparr>],
            gv_Details =
              (if qs_CISDescriptionID issue \<noteq> []
               then [(''cisTitle'', qs_CISDescriptionTitle issue), (''cisId'', qs_CISDescriptionIDFormatted issue)]
               else [])\<rparr>]\<rparr>
      else glsr)"

text \<open>The calls of \<open>PrintGitlabSASTReport\<close> on a report\<close>

definition gitlab_report :: "(string \<Rightarrow> string) \<Rightarrow> string \<Rightarrow> string \<Rightarrow> string \<Rightarrow> 'v Summary \<Rightarrow> gitlabSASTReport" where
  "gitlab_report title version start0 end0 summary =
     foldl (\<lambda>r q. foldl (\<lambda>r f. BuildGitlabSASTVulnerability title q f r) r (qs_Files q))
       (NewGitlabSASTReport version start0 end0) (sm_Queries summary)"

section \<open>JUnit\<close>

record junitFailure =
  jf_Type :: string
  jf_Message :: string

record junitTestCase =
  jc_CWE :: string
  jc_Name :: string
  jc_ClassName :: string
  jc_Failures :: "junitFailure list"

record junitTestSuite =
  jt_Name :: string
  jt_Failures :: string
  jt_Tests :: string
  jt_TestCases :: "junitTestCase list"
  jt_failCount :: int

record junitTestSuites =
  js_Name :: string
  js_Time :: string
  js_Failures :: string
  js_TestSuites :: "junitTestSuite list"

definition NewJUnitReport :: "string \<Rightarrow> string \<Rightarrow> junitTestSuites" where
  "NewJUnitReport version time =
     \<lparr>js_Name = ''KICS '' @ version, js_Time = time, js_Failures = [], js_TestSuites = []\<rparr>"

definition failed_test_case :: "QuerySummary \<Rightarrow> string \<Rightarrow> VulnerableFile \<Rightarrow> junitTestCase" where
  "failed_test_case query queryDescription f =
     \<lparr>jc_CWE = qs_CWE query,
      jc_Name = qs_QueryName query @ '': '' @ vf_FileName f @ '' file in line '' @ itoa (vf_Line f),
      jc_ClassName = qs_Platform query,
      jc_Failures = [\<lparr>jf_Type = queryDescription,
        jf_Message = ''[Severity: '' @ qs_Severity query @ '', Query description: '' @ queryDescription @
          ''] Problem found on '' @ [CHR 0x27] @ vf_FileName f @ [CHR 0x27] @ '' file in line '' @
          itoa (vf_Line f) @ ''. Expected value: '' @ trim_right_set (vf_KeyExpectedValue f) ''.'' @
          ''. Actual value: '' @ trim_right_set (vf_KeyActualValue f) ''.'' @ ''.''\<rparr>]\<rparr>"

definition GenerateTestEntry :: "QuerySummary \<Rightarrow> junitTestSuites \<Rightarrow> junitTestSuites" where
  "GenerateTestEntry query jUnit =
     (let queryDescription = (if qs_CISDescriptionTextFormatted query \<noteq> []
          then qs_CISDescriptionTextFormatted query else qs_Description query)
      in jUnit\<lparr>js_TestSuites := js_TestSuites jUnit @
           [\<lparr>jt_Name = qs_Platform query, jt_Failures = [], jt_Tests = [],
             jt_TestCases = map (failed_test_case query queryDescription) (qs_Files query),
             jt_failCount = int (length (qs_Files query))\<rparr>]\<rparr>)"

definition FinishReport :: "junitTestSuites \<Rightarrow> junitTestSuites" where
  "FinishReport jUnit =
     jUnit\<lparr>js_TestSuites := map (\<lambda>t. t\<lparr>jt_Failures := itoa (jt_failCount t), jt_Tests := itoa (jt_failCount t)\<rparr>)
             (js_TestSuites jUnit),
           js_Failures := itoa (\<Sum>t \<leftarrow> js_TestSuites jUnit. jt_failCount t)\<rparr>"

text \<open>The calls of \<open>PrintJUnitReport\<close> on a report\<close>

definition junit_report :: "string \<Rightarrow> string \<Rightarrow> 'v Summary \<Rightarrow> junitTestSuites" where
  "junit_report version time summary =
     FinishReport (foldl (\<lambda>j q. GenerateTestEntry q j) (NewJUnitReport version time) (sm_Queries summary))"

section \<open>AWS security findings\<close>

record AwsAccountInfo =
  aw_AwsAccountID :: string
  aw_AwsRegion :: string

record AwsSecurityFinding =
  af_AwsAccountID :: string
  af_Compliance :: string
  af_CreatedAt :: string
  af_Description :: string
  af_GeneratorID :: string
  af_ID :: string
  af_ProductArn :: string
  af_Recommendation :: string
  af_Resources :: "(string \<times> string) list"
  af_SchemaVersion :: string
  af_SeverityOriginal :: string
  af_SeverityLabel :: string
  af_Title :: string
  af_Types :: "string list"
  af_UpdatedAt :: string
  af_CWE :: string

definition getDescription :: "QuerySummary \<Rightarrow> string \<Rightarrow> string" where
  "getDescription query format0 =
     (let queryDescription = (if qs_CISDescriptionTextFormatted query \<noteq> []
          then qs_CISDescriptionTextFormatted query else qs_Description query)
      in if format0 = ''asff'' then queryDescription
         else ''['' @ qs_Platform query @ ''].['' @ qs_QueryName query @ '']: '' @ queryDescription)"

definition getEnv :: "(string \<Rightarrow> string) \<Rightarrow> string \<Rightarrow> string" where
  "getEnv environ env = (if environ env \<noteq> [] then environ env else env)"

definition getAwsAccountInfo :: "(string \<Rightarrow> string) \<Rightarrow> AwsAccountInfo" where
  "getAwsAccountInfo environ =
     \<lparr>aw_AwsAccountID = getEnv environ ''AWS_ACCOUNT_ID'', aw_AwsRegion = getEnv environ ''AWS_REGION''\<rparr>"

definition incompleteAwsAccountInfo :: "AwsAccountInfo \<Rightarrow> bool" where
  "incompleteAwsAccountInfo a \<longleftrightarrow> aw_AwsAccountID a = [] \<or> aw_AwsRegion a = []"

definition getFinding :: "string \<Rightarrow> AwsAccountInfo \<Rightarrow> QuerySummary \<Rightarrow> VulnerableFile \<Rightarrow> AwsSecurityFinding" where
  "getFinding now a query f =
     (let acc = aw_AwsAccountID a; region = aw_AwsRegion a in
      \<lparr>af_AwsAccountID = acc, af_Compliance = ''FAILED'', af_CreatedAt = now,
       af_Description = getDescription query ''asff'', af_GeneratorID = qs_QueryID query,
       af_ID = region @ ''/'' @ acc @ ''/'' @ vf_SimilarityID f,
       af_ProductArn = ''arn:aws:securityhub:'' @ region @ '':'' @ acc @ '':product/'' @ acc @ ''/default'',
       af_Recommendation = ''Problem found on '' @ [CHR 0x27] @ vf_FileName f @ [CHR 0x27] @ '' file in line '' @
          itoa (vf_Line f) @ ''. Expected value: '' @ trim_right_set (vf_KeyExpectedValue f) ''.'' @
          ''. Actual value: '' @ trim_right_set (vf_KeyActualValue f) ''.'' @ ''.'',
       af_Resources = [(qs_QueryID query, ''Other'')],
       af_SchemaVersion = ''2018-10-08'', af_SeverityOriginal = qs_Severity query,
       af_SeverityLabel = (if qs_Severity query = ''INFO'' then ''INFORMATIONAL'' else qs_Severity query),
       af_Title = qs_QueryName query,
       af_Types = [''Software and Configuration Checks/Vulnerabilities/KICS''], af_UpdatedAt = now,
       af_CWE = qs_CWE query\<rparr>)"

definition getFindingsPerQuery :: "string \<Rightarrow> AwsAccountInfo \<Rightarrow> QuerySummary \<Rightarrow> AwsSecurityFinding list" where
  "getFindingsPerQuery now a query =
     (if qs_CloudProvider query = ''AWS'' then map (getFinding now a query) (qs_Files query) else [])"

definition BuildASFF :: "string \<Rightarrow> (string \<Rightarrow> string) \<Rightarrow> 'v Summary \<Rightarrow> AwsSecurityFinding list" where
  "BuildASFF now environ summary =
     concat (map (getFindingsPerQuery now (getAwsAccountInfo environ)) (sm_Queries summary))"

section \<open>CycloneDX\<close>

definition cycloneDxSeverityLevelEquivalence :: "(Severity, string) gomap" where
  "cycloneDxSeverityLevelEquivalence =
     [(''INFO'', ''None''), (''LOW'', ''Low''), (''MEDIUM'', ''Medium''), (''HIGH'', ''High''),
      (''CRITICAL'', ''Critical'')]"

record CycloneVulnerability =
  cv_Ref :: string
  cv_ID :: string
  cv_CWE :: string
  cv_Source :: "string \<times> string"
  cv_Ratings :: "(string \<times> string) list"
  cv_Description :: string
  cv_Recommendations :: "string list"

record Component =
  cm_Type :: string
  cm_BomRef :: string
  cm_Name :: string
  cm_Version :: string
  cm_Hashes :: "(string \<times> string) list"
  cm_Purl :: string
  cm_Vulnerabilities :: "CycloneVulnerability list"

record CycloneDxReport =
  cd_XMLNS :: string
  cd_SerialNumber :: string
  cd_XMLNSV :: string
  cd_Version :: int
  cd_Timestamp :: string
  cd_Tools :: "(string \<times> string \<times> string) list"
  cd_Components :: "Component list"

definition match_file :: "VulnerableFile list \<Rightarrow> string \<Rightarrow> bool" where
  "match_file fileNames fileName = list_ex (\<lambda>f. vf_FileName f = fileName) fileNames"

definition getAllFiles :: "'v Summary \<Rightarrow> VulnerableFile list" where
  "getAllFiles summary =
     foldl (\<lambda>fileNames q. foldl (\<lambda>fileNames f.
         if \<not> match_file fileNames (vf_FileName f) then fileNames @ [f] else fileNames) fileNames (qs_Files q))
       [] (sm_Queries summary)"

record cyclone_env =
  cy_ReadFile :: "string \<Rightarrow> string + string"
  cy_sha256 :: "string \<Rightarrow> string"
  cy_now :: string
  cy_uuid :: string
  cy_version :: string

definition generateSha256 :: "cyclone_env \<Rightarrow> string \<Rightarrow> (string, string) gomap \<Rightarrow> string" where
  "generateSha256 env filePath filePaths =
     (case cy_ReadFile env (Clean (lookup0 filePaths filePath)) of
        Inl err \<Rightarrow> [] | Inr content0 \<Rightarrow> cy_sha256 env content0)"

definition getPurl :: "string \<Rightarrow> string \<Rightarrow> string" where
  "getPurl filePath version = ''pkg:generic/'' @ filePath @ ''@'' @ version"

definition getVulnerabilitiesByFile :: "QuerySummary \<Rightarrow> string \<Rightarrow> string \<Rightarrow> CycloneVulnerability list" where
  "getVulnerabilitiesByFile query fileName purl =
     map (\<lambda>f.
       \<lparr>cv_Ref = purl @ qs_QueryID query, cv_ID = qs_QueryID query, cv_CWE = qs_CWE query,
        cv_Source = (''KICS'', ''https://kics.io/''),
        cv_Ratings = [(lookup0 cycloneDxSeverityLevelEquivalence (qs_Severity query), ''Other'')],
        cv_Description = getDescription query ''cyclonedx'',
        cv_Recommendations = [''Problem found in line '' @ itoa (vf_Line f) @ ''. Expected value: '' @
          trim_right_set (vf_KeyExpectedValue f) ''.'' @ ''. Actual value: '' @
          trim_right_set (vf_KeyActualValue f) ''.'' @ ''.'']\<rparr>)
       (filter (\<lambda>f. fileName = vf_FileName f) (qs_Files query))"

definition getVulnerabilities :: "string \<Rightarrow> string \<Rightarrow> 'v Summary \<Rightarrow> CycloneVulnerability list" where
  "getVulnerabilities fileName purl summary =
     concat (map (\<lambda>q. getVulnerabilitiesByFile q fileName purl) (sm_Queries summary))"

definition InitCycloneDxReport :: "cyclone_env \<Rightarrow> CycloneDxReport" where
  "InitCycloneDxReport env =
     \<lparr>cd_XMLNS = ''http://cyclonedx.org/schema/bom/1.5'', cd_SerialNumber = ''urn:uuid:'' @ cy_uuid env,
      cd_XMLNSV = ''http://cyclonedx.org/schema/ext/vulnerability/1.0'', cd_Version = 1,
      cd_Timestamp = cy_now env, cd_Tools = [(''Checkmarx'', ''KICS'', cy_version env)], cd_Components = []\<rparr>"

definition component_of ::
  "cyclone_env \<Rightarrow> 'v Summary \<Rightarrow> (string, string) gomap \<Rightarrow> VulnerableFile \<Rightarrow> Component list" where
  "component_of env summary filePaths f =
     (let filePath = replace_all (vf_FileName f) [CHR 0x5C] ''/'';
          sha = generateSha256 env (vf_FileName f) filePaths
      in if length sha < 12 then []
         else
           (let version = ''0.0.0-'' @ take 12 sha; purl = getPurl filePath version in
            [\<lparr>cm_Type = ''file'', cm_BomRef = purl, cm_Name = filePath, cm_Version = version,
              cm_Hashes = [(''SHA-256'', sha)], cm_Purl = purl,
              cm_Vulnerabilities = getVulnerabilities (vf_FileName f) purl summary\<rparr>]))"

definition BuildCycloneDxReport :: "cyclone_env \<Rightarrow> 'v Summary \<Rightarrow> (string, string) gomap \<Rightarrow> CycloneDxReport" where
  "BuildCycloneDxReport env summary filePaths =
     (InitCycloneDxReport env)\<lparr>cd_Components :=
        concat (map (component_of env summary filePaths) (getAllFiles summary))\<rparr>"

section \<open>Lemmas\<close>

lemma concat_listed: "concat (map (\<lambda>q. map (g q) (qs_Files q)) qs) = map (\<lambda>(q, f). g q f) (listed qs)"
  by (induction qs) (simp_all add: listed_Cons comp_def)

lemma gitlab_file_fold:
  "qs_Files q \<noteq> [] \<Longrightarrow>
   map (\<lambda>v. (gv_Name v, gv_File v, gv_Start v))
     (gr_Vulnerabilities (foldl (\<lambda>r f. BuildGitlabSASTVulnerability title q f r) r fs)) =
   map (\<lambda>v. (gv_Name v, gv_File v, gv_Start v)) (gr_Vulnerabilities r) @
     map (\<lambda>f. (qs_QueryName q, vf_FileName f, vf_Line f)) fs"
  by (induction fs arbitrary: r) (simp_all add: BuildGitlabSASTVulnerability_def)

lemma gitlab_fold:
  "map (\<lambda>v. (gv_Name v, gv_File v, gv_Start v))
     (gr_Vulnerabilities (foldl (\<lambda>r q. foldl (\<lambda>r f. BuildGitlabSASTVulnerability title q f r) r (qs_Files q)) r qs)) =
   map (\<lambda>v. (gv_Name v, gv_File v, gv_Start v)) (gr_Vulnerabilities r) @
     map (\<lambda>(q, f). (qs_QueryName q, vf_FileName f, vf_Line f)) (listed qs)"
proof (induction qs arbitrary: r)
  case (Cons q qs)
  show ?case
  proof (cases "qs_Files q = []")
    case False
    then show ?thesis using Cons gitlab_file_fold [OF False] by (simp add: listed_Cons comp_def)
  qed (use Cons in \<open>simp add: listed_Cons\<close>)
qed simp

lemma junit_fold:
  "js_TestSuites (foldl (\<lambda>j q. GenerateTestEntry q j) j qs) = js_TestSuites j @
     map (\<lambda>q. \<lparr>jt_Name = qs_Platform q, jt_Failures = [], jt_Tests = [],
       jt_TestCases = map (failed_test_case q (getDescription q ''asff'')) (qs_Files q),
       jt_failCount = int (length (qs_Files q))\<rparr>) qs"
  by (induction qs arbitrary: j) (simp_all add: GenerateTestEntry_def getDescription_def Let_def)

lemma junit_cases:
  "concat (map jt_TestCases (js_TestSuites (junit_report version time s))) =
     map (\<lambda>(q, f). failed_test_case q (getDescription q ''asff'') f) (listed (sm_Queries s))"
  "js_Failures (junit_report version time s) = itoa (files_count (sm_Queries s))"
  by (simp_all add: junit_report_def FinishReport_def NewJUnitReport_def junit_fold comp_def concat_listed
      files_count_def)

lemma summary_files_nonempty:
  assumes "CreateSummary env counters vulns scan paths version dir = Some s"
    and "range_order (su_counting env)" and "range_order (su_materials env)"
    and "sorts_by query_before (su_sort env)"
  shows "\<forall>q \<in> set (sm_Queries s). qs_Files q \<noteq> []"
    and "ss_TotalCounter (sm_SeveritySummary s) = files_count (sm_Queries s)"
proof -
  obtain q where g: "grouped (\<lambda>v. the (resolvePath (su_paths env) (v_FileName v) paths dir)) vulns q"
    and m: "mset (sm_Queries s @ sm_Bom s) = mset (map snd q)"
    and n: "ss_TotalCounter (sm_SeveritySummary s) = files_count (sm_Queries s)"
    by (rule CreateSummary_parts [OF assms])
  show "ss_TotalCounter (sm_SeveritySummary s) = files_count (sm_Queries s)" by (rule n)
  have ok: "gomap_ok q" and keys: "fst ` set q = v_QueryID ` set vulns" using g by (auto simp: grouped_def)
  have es: "set (sm_Queries s @ sm_Bom s) = snd ` set q" using m by (metis set_map set_mset_mset)
  show "\<forall>e \<in> set (sm_Queries s). qs_Files e \<noteq> []"
  proof
    fix e assume "e \<in> set (sm_Queries s)"
    then have "e \<in> snd ` set q" using es by auto
    then obtain k where k: "(k, e) \<in> set q" by auto
    then have "map_of q k = Some e" using gomap_mem_iff [OF ok] by blast
    then have "qs_Files e = map (\<lambda>v. vulnerable_file
        (the (resolvePath (su_paths env) (v_FileName v) paths dir)) v) (of_query k vulns)"
      using g unfolding grouped_def by blast
    moreover have "k \<in> v_QueryID ` set vulns" using k keys by force
    ultimately show "qs_Files e \<noteq> []" using of_query_some by simp
  qed
qed

lemma secondary_locations:
  assumes "qs_Files q = f # fs"
  shows "buildSecondaryLocation q = Some (map (\<lambda>g. the (buildLocation 0 (q\<lparr>qs_Files := [g]\<rparr>))) fs)"
proof -
  have "slice_from (f # fs) 1 = Some fs" by (simp add: slice_from_def slice_def)
  moreover have "buildLocation (int i + 1) q = Some (the (buildLocation 0 (q\<lparr>qs_Files := [fs ! i]\<rparr>)))"
    if "i < length fs" for i
    using that assms by (simp add: buildLocation_def at_def nat_add_distrib)
  then have "map (\<lambda>i. buildLocation (int i + 1) q) [0..<length fs] =
      map (\<lambda>i. Some (the (buildLocation 0 (q\<lparr>qs_Files := [fs ! i]\<rparr>)))) [0..<length fs]"
    by (intro map_cong) auto
  moreover have "those (map (\<lambda>i. Some (h i)) xs) = Some (map h xs)" for h :: "nat \<Rightarrow> Location" and xs
    by (induction xs) simp_all
  moreover have "map (\<lambda>i. the (buildLocation 0 (q\<lparr>qs_Files := [fs ! i]\<rparr>))) [0..<length fs] =
      map (\<lambda>g. the (buildLocation 0 (q\<lparr>qs_Files := [g]\<rparr>))) fs"
    by (rule nth_equalityI) auto
  ultimately have "those (map (\<lambda>i. buildLocation (int i + 1) q) [0..<length fs]) =
      Some (map (\<lambda>g. the (buildLocation 0 (q\<lparr>qs_Files := [g]\<rparr>))) fs)" by metis
  then show ?thesis using assms \<open>slice_from (f # fs) 1 = Some fs\<close> by (simp add: buildSecondaryLocation_def)
qed

definition places :: "Issue \<Rightarrow> (string \<times> int) list" where
  "places i = map (\<lambda>l. (lo_FilePath l, lo_StartLine l)) (iu_PrimaryLocation i # iu_SecondaryLocations i)"

lemma buildIssue_places:
  "buildIssue q s = (if qs_Files q = [] then None else
     Some (s\<lparr>sq_Issues := sq_Issues s @ [\<lparr>iu_EngineID = sq_version s, iu_RuleID = qs_QueryID q,
         iu_Severity = lookup0 severitySonarQubeEquivalence (qs_Severity q), iu_CWE = qs_CWE q,
         iu_Type = lookup0 categorySonarQubeEquivalence (qs_Category q),
         iu_PrimaryLocation = the (buildLocation 0 q),
         iu_SecondaryLocations = map (\<lambda>g. the (buildLocation 0 (q\<lparr>qs_Files := [g]\<rparr>))) (tl (qs_Files q))\<rparr>]\<rparr>))"
proof (cases "qs_Files q")
  case (Cons f fs)
  then show ?thesis
    by (simp add: buildIssue_def secondary_locations [OF Cons]) (simp add: buildLocation_def at_def)
qed (simp add: buildIssue_def buildLocation_def at_def)

lemma build_issues_places:
  assumes "\<forall>q \<in> set qs. qs_Files q \<noteq> []"
  shows "\<exists>s'. build_issues qs s = Some s' \<and>
    map (\<lambda>i. (iu_RuleID i, places i)) (sq_Issues s') = map (\<lambda>i. (iu_RuleID i, places i)) (sq_Issues s) @
      map (\<lambda>q. (qs_QueryID q, map (\<lambda>f. (vf_FileName f, vf_Line f)) (qs_Files q))) qs"
  using assms
proof (induction qs arbitrary: s)
  case (Cons q qs)
  then obtain f fs where f: "qs_Files q = f # fs" by (cases "qs_Files q") auto
  then obtain s1 where s1: "buildIssue q s = Some s1"
      "map (\<lambda>i. (iu_RuleID i, places i)) (sq_Issues s1) = map (\<lambda>i. (iu_RuleID i, places i)) (sq_Issues s) @
        [(qs_QueryID q, map (\<lambda>f. (vf_FileName f, vf_Line f)) (qs_Files q))]"
    by (simp add: buildIssue_places places_def buildLocation_def at_def comp_def)
  with Cons.IH [of s1] Cons.prems show ?case by auto
qed simp
section \<open>Lemmas: the files of the CycloneDX report\<close>

definition first_of_each :: "VulnerableFile list \<Rightarrow> VulnerableFile list \<Rightarrow> VulnerableFile list" where
  "first_of_each seen fs =
     foldl (\<lambda>fileNames f. if \<not> match_file fileNames (vf_FileName f) then fileNames @ [f] else fileNames) seen fs"

lemma getAllFiles_first: "getAllFiles s = first_of_each [] (map snd (listed (sm_Queries s)))"
proof -
  have "foldl (\<lambda>fileNames q. foldl (\<lambda>fileNames f.
         if \<not> match_file fileNames (vf_FileName f) then fileNames @ [f] else fileNames) fileNames (qs_Files q))
       seen qs = first_of_each seen (map snd (listed qs))" for seen qs
    by (induction qs arbitrary: seen) (simp_all add: first_of_each_def listed_Cons comp_def)
  then show ?thesis by (simp add: getAllFiles_def)
qed

lemma match_file_iff: "match_file fs n \<longleftrightarrow> n \<in> vf_FileName ` set fs"
  by (auto simp: match_file_def list_ex_iff)

lemma first_of_each_spec:
  "distinct (map vf_FileName seen) \<Longrightarrow> distinct (map vf_FileName (first_of_each seen fs)) \<and>
     vf_FileName ` set (first_of_each seen fs) = vf_FileName ` (set seen \<union> set fs)"
proof (induction fs arbitrary: seen)
  case (Cons f fs)
  have step: "first_of_each seen (f # fs) =
      first_of_each (if match_file seen (vf_FileName f) then seen else seen @ [f]) fs"
    by (simp add: first_of_each_def)
  show ?case
  proof (cases "match_file seen (vf_FileName f)")
    case True
    then show ?thesis using Cons.IH [of seen] Cons.prems step by (auto simp: match_file_iff)
  next
    case False
    then have "distinct (map vf_FileName (seen @ [f]))" using Cons.prems by (auto simp: match_file_iff)
    then show ?thesis using Cons.IH [of "seen @ [f]"] False step by auto
  qed
qed (simp add: first_of_each_def)

definition readable :: "cyclone_env \<Rightarrow> (string, string) gomap \<Rightarrow> string \<Rightarrow> bool" where
  "readable env filePaths p \<longleftrightarrow> 12 \<le> length (generateSha256 env p filePaths)"

lemma component_of_readable:
  "map (\<lambda>c. (cm_Name c, length (cm_Vulnerabilities c))) (component_of env s filePaths f) =
     (if readable env filePaths (vf_FileName f)
      then [(replace_all (vf_FileName f) [CHR 0x5C] ''/'',
             length (filter (\<lambda>(q, g). vf_FileName g = vf_FileName f) (listed (sm_Queries s))))] else [])"
proof -
  have "length (getVulnerabilities n purl s) = length (filter (\<lambda>(q, g). vf_FileName g = n) (listed (sm_Queries s)))"
    for n purl
  proof -
    have "length (concat (map (\<lambda>q. getVulnerabilitiesByFile q n purl) qs)) =
        length (filter (\<lambda>(q, g). vf_FileName g = n) (listed qs))" for qs
      by (induction qs) (simp_all add: getVulnerabilitiesByFile_def listed_Cons filter_map comp_def eq_commute)
    then show ?thesis by (simp add: getVulnerabilities_def)
  qed
  then show ?thesis by (simp add: component_of_def readable_def Let_def)
qed

lemma components_readable:
  "map (\<lambda>c. (cm_Name c, length (cm_Vulnerabilities c))) (cd_Components (BuildCycloneDxReport env s filePaths)) =
     map (\<lambda>f. (replace_all (vf_FileName f) [CHR 0x5C] ''/'',
             length (filter (\<lambda>(q, g). vf_FileName g = vf_FileName f) (listed (sm_Queries s)))))
       (filter (\<lambda>f. readable env filePaths (vf_FileName f)) (getAllFiles s))"
proof -
  have "map (\<lambda>c. (cm_Name c, length (cm_Vulnerabilities c))) (concat (map (component_of env s filePaths) fs)) =
      map (\<lambda>f. (replace_all (vf_FileName f) [CHR 0x5C] ''/'',
             length (filter (\<lambda>(q, g). vf_FileName g = vf_FileName f) (listed (sm_Queries s)))))
       (filter (\<lambda>f. readable env filePaths (vf_FileName f)) fs)" for fs
    by (induction fs) (simp_all add: component_of_readable)
  then show ?thesis by (simp add: BuildCycloneDxReport_def)
qed

lemma count_by_name:
  fixes xs :: "(QuerySummary \<times> VulnerableFile) list"
  assumes "distinct ns" and "set ns = {n \<in> vf_FileName ` snd ` set xs. P n}"
  shows "(\<Sum>n \<leftarrow> ns. length (filter (\<lambda>(q, g). vf_FileName g = n) xs)) =
    length (filter (\<lambda>(q, g). P (vf_FileName g)) xs)"
proof -
  let ?ys = "filter (\<lambda>(q, g). P (vf_FileName g)) xs" and ?f = "\<lambda>(q :: QuerySummary, g :: VulnerableFile). vf_FileName g"
  have "filter (\<lambda>(q, g). vf_FileName g = n) xs = filter (\<lambda>y. ?f y = n) ?ys" if "n \<in> set ns" for n
    using that assms(2) by (auto simp: case_prod_beta intro: filter_cong)
  then have "(\<Sum>n \<leftarrow> ns. length (filter (\<lambda>(q, g). vf_FileName g = n) xs)) =
      (\<Sum>n \<leftarrow> ns. length (filter (\<lambda>y. ?f y = n) ?ys))"
    by (intro arg_cong [of _ _ sum_list] map_cong) auto
  moreover have "int (\<Sum>n \<leftarrow> ns. length (filter (\<lambda>y. ?f y = n) ?ys)) = int (length ?ys)"
  proof -
    have "int (\<Sum>n \<leftarrow> ns. g n) = (\<Sum>n \<leftarrow> ns. int (g n))" for g :: "string \<Rightarrow> nat"
      by (induction ns) simp_all
    moreover have "?f ` set ?ys \<subseteq> set ns" using assms(2) by force
    ultimately show ?thesis using length_by_key [OF assms(1), of ?f ?ys] by simp
  qed
  ultimately show ?thesis by simp
qed

section \<open>Properties\<close>


text \<open>C32. The SonarQube report of a summary that a scan has made is built without a panic: one issue for
  each query, with the places of all its files; and the total of the summary is the number of rows of the
  other reports.\<close>

theorem sonarqube_of_summary:
  assumes "CreateSummary env counters vulns scan paths version dir = Some s"
    and "range_order (su_counting env)" and "range_order (su_materials env)"
    and "sorts_by query_before (su_sort env)"
  shows "(\<exists>r. BuildReport s (NewSonarQubeRepory kics) = Some r \<and>
      map (\<lambda>i. (iu_RuleID i, places i)) (sq_Issues r) =
        map (\<lambda>q. (qs_QueryID q, map (\<lambda>f. (vf_FileName f, vf_Line f)) (qs_Files q))) (sm_Queries s)) \<and>
    int (length (BuildCSVReport s)) = ss_TotalCounter (sm_SeveritySummary s)"
proof
  show "\<exists>r. BuildReport s (NewSonarQubeRepory kics) = Some r \<and>
      map (\<lambda>i. (iu_RuleID i, places i)) (sq_Issues r) =
        map (\<lambda>q. (qs_QueryID q, map (\<lambda>f. (vf_FileName f, vf_Line f)) (qs_Files q))) (sm_Queries s)"
    using build_issues_places [OF summary_files_nonempty(1) [OF assms], of "NewSonarQubeRepory kics"]
    by (simp add: BuildReport_def NewSonarQubeRepory_def)
  show "int (length (BuildCSVReport s)) = ss_TotalCounter (sm_SeveritySummary s)"
    using summary_files_nonempty(2) [OF assms] by (simp add: BuildCSVReport_def concat_listed listed_count)
qed

theorem sonarqube_of_summary_witness:
  "\<exists>s r. CreateSummary example_summary_env example_counters example_vulns ''s'' [] () ''d'' = Some s \<and>
     BuildReport s (NewSonarQubeRepory ''1'') = Some r"
proof -
  obtain s where s: "CreateSummary example_summary_env example_counters example_vulns ''s'' [] () ''d'' = Some s"
    using example_summary by blast
  from sonarqube_of_summary [OF s example_summary_orders] s show ?thesis by blast
qed

text \<open>The CycloneDX report has one component for each file of the summary that can be read, and the
  components hold all results of those files.\<close>

lemma cyclonedx_lists_readable:
  "\<exists>names. distinct names \<and>
     set names = {n \<in> vf_FileName ` snd ` set (listed (sm_Queries s)). readable env filePaths n} \<and>
     map cm_Name (cd_Components (BuildCycloneDxReport env s filePaths)) =
       map (\<lambda>n. replace_all n [CHR 0x5C] ''/'') names \<and>
     (\<Sum>c \<leftarrow> cd_Components (BuildCycloneDxReport env s filePaths). length (cm_Vulnerabilities c)) =
       length (filter (\<lambda>(q, f). readable env filePaths (vf_FileName f)) (listed (sm_Queries s)))"
proof (intro exI conjI)
  let ?fs = "filter (\<lambda>f. readable env filePaths (vf_FileName f)) (getAllFiles s)"
  let ?names = "map vf_FileName ?fs"
  note spec = first_of_each_spec [of "[]" "map snd (listed (sm_Queries s))", folded getAllFiles_first]
  show d: "distinct ?names" using spec by (simp add: distinct_map_filter)
  show n: "set ?names = {n \<in> vf_FileName ` snd ` set (listed (sm_Queries s)). readable env filePaths n}"
  proof -
    have "vf_FileName ` snd ` set (listed (sm_Queries s)) = vf_FileName ` set (getAllFiles s)"
      using spec by (simp add: image_image)
    then show ?thesis by auto
  qed
  show "map cm_Name (cd_Components (BuildCycloneDxReport env s filePaths)) =
      map (\<lambda>n. replace_all n [CHR 0x5C] ''/'') ?names"
    using arg_cong [OF components_readable [of env s filePaths], of "map fst"] by (simp add: comp_def)
  show "(\<Sum>c \<leftarrow> cd_Components (BuildCycloneDxReport env s filePaths). length (cm_Vulnerabilities c)) =
      length (filter (\<lambda>(q, f). readable env filePaths (vf_FileName f)) (listed (sm_Queries s)))"
    using arg_cong [OF components_readable [of env s filePaths], of "\<lambda>xs. sum_list (map snd xs)"]
      count_by_name [OF d n] by (simp add: comp_def)
qed

end
