(* ===== verification/SarifFix.thy ===== *)
theory SarifFix
  imports Reports Service
begin

text \<open>
  The fixes of a SARIF report: \<open>remediations_helper.go\<close> and \<open>utilities.go\<close> of
  \<open>pkg/report/remediations\<close>. A fix replaces a region of the file by a text. \<open>None\<close> is a panic (an index
  out of range), \<open>Inl\<close> an error. \<open>json.Unmarshal\<close> into a map of strings is a parameter.
\<close>

section \<open>Texts\<close>

text \<open>\<open>strings.Fields\<close>: the words between white space, which \<open>unicode.IsSpace\<close> defines as in \<open>trim_space\<close>\<close>

function words_from :: "string \<Rightarrow> string \<Rightarrow> string list" where
  "words_from s cur =
     (case find (\<lambda>w. prefix w s) space_bytes of
        Some w \<Rightarrow> (if w = [] then [] else (if cur = [] then [] else [rev cur]) @ words_from (drop (length w) s) [])
      | None \<Rightarrow> (case s of [] \<Rightarrow> (if cur = [] then [] else [rev cur]) | c # cs \<Rightarrow> words_from cs (c # cur)))"
  by pat_completeness auto
termination
proof (relation "measure (\<lambda>(s, cur). length s)")
  fix s cur w :: string
  assume "find (\<lambda>w. prefix w s) space_bytes = Some w" and w: "w \<noteq> []"
  then have "prefix w s" by (auto simp: find_Some_iff)
  with w show "((drop (length w) s, []), (s, cur)) \<in> measure (\<lambda>(s, cur). length s)" by (cases s) auto
qed auto

declare words_from.simps [simp del]

definition words_of :: "string \<Rightarrow> string list" where
  "words_of s = words_from s []"

definition normalize :: "string \<Rightarrow> string" where
  "normalize s0 =
     (let s1 = trim_space s0;
          s2 = replace_all s1 [CHR 0x0D] [];
          s3 = replace_all s2 [CHR 0x5C, CHR 0x22] [CHR 0x22];
          s4 = replace_all s3 [CHR 0xE2, CHR 0x80, CHR 0x9C] [CHR 0x22];
          s5 = replace_all s4 [CHR 0xE2, CHR 0x80, CHR 0x9D] [CHR 0x22];
          s6 = join (words_of s5) '' ''
      in trim_set s6 [CHR 0x22])"

definition normalizeListItem :: "string \<Rightarrow> string option" where
  "normalizeListItem val0 = do {
     let val1 = trim_space val0;
     val2 \<leftarrow> (if has_prefix val1 ''['' \<and> has_suffix val1 '']''
              then map_option trim_space (slice val1 1 (int (length val1) - 1)) else Some val1);
     val3 \<leftarrow> (if has_prefix val2 [CHR 0x22] \<and> has_suffix val2 [CHR 0x22]
              then slice val2 1 (int (length val2) - 1) else Some val2);
     Some (normalize val3)
   }"

definition splitKeyValue :: "string \<Rightarrow> string \<times> string" where
  "splitKeyValue expr =
     (case split_two expr ''='' of
        [k, v] \<Rightarrow> (normalize (trim_space k), normalize (trim_space v))
      | _ \<Rightarrow> ([], normalize expr))"

definition parseAlternatives :: "string \<Rightarrow> string list option" where
  "parseAlternatives before =
     (if contains before '' or ''
      then those (map (\<lambda>part. normalizeListItem (snd (splitKeyValue part))) (split_on before '' or ''))
      else map_option (\<lambda>val. [val]) (normalizeListItem (snd (splitKeyValue before))))"

abbreviation indent_chars :: string where "indent_chars \<equiv> [CHR '' '', CHR 0x09]"

definition normalizeIndentation :: "string \<Rightarrow> nat \<Rightarrow> string" where
  "normalizeIndentation input spacesPerTab =
     join (map (\<lambda>line. trim_right_set (replace_all line [CHR 0x09] (replicate spacesPerTab CHR '' '')) indent_chars)
       (split_on input [CHR 0x0A])) [CHR 0x0A]"

text \<open>The leading blanks of a line\<close>

definition leading_blanks :: "string \<Rightarrow> string" where
  "leading_blanks line = take (length line - length (trim_left_set line indent_chars)) line"

definition skipped_line :: "string \<Rightarrow> bool" where
  "skipped_line line \<longleftrightarrow> line = [] \<or> has_prefix line ''#'' \<or> has_prefix line ''//''"

text \<open>The search upwards for a line that is no comment, from line \<open>i\<close> to line \<open>stop\<close>, both counted from 0\<close>

function indent_upwards :: "string list \<Rightarrow> int \<Rightarrow> int \<Rightarrow> string option" where
  "indent_upwards fileLines i stop =
     (if i < stop then Some []
      else case at fileLines i of
        None \<Rightarrow> None
      | Some line \<Rightarrow>
          (if skipped_line (trim_space line) then indent_upwards fileLines (i - 1) stop
           else Some (leading_blanks line)))"
  by pat_completeness auto
termination
  by (relation "measure (\<lambda>(fileLines, i, stop). nat (i + 1 - stop))") auto

declare indent_upwards.simps [simp del]

definition determineActualBaseIndent :: "string list \<Rightarrow> int \<Rightarrow> int \<Rightarrow> string option" where
  "determineActualBaseIndent fileLines startLine blockStartLine =
     (if startLine = 0 then Some [] else indent_upwards fileLines (startLine - 1) (blockStartLine - 1))"

function brace_upwards :: "string list \<Rightarrow> int \<Rightarrow> int \<Rightarrow> bool option" where
  "brace_upwards fileLines i stop =
     (if i < stop then Some False
      else case at fileLines i of
        None \<Rightarrow> None
      | Some line \<Rightarrow>
          (if contains line ''{'' then Some True
           else if trim_space line = [] then brace_upwards fileLines (i - 1) stop
           else if trim_space line \<noteq> ''}'' then Some False
           else brace_upwards fileLines (i - 1) stop))"
  by pat_completeness auto
termination
  by (relation "measure (\<lambda>(fileLines, i, stop). nat (i + 1 - stop))") auto

declare brace_upwards.simps [simp del]

definition isInsertingInsideNestedBlock ::
  "string list \<Rightarrow> ResourceLine \<Rightarrow> int \<Rightarrow> int \<Rightarrow> bool option" where
  "isInsertingInsideNestedBlock fileLines startLocation blockStartLine blockEndLine =
     (if LineNo startLocation \<le> blockStartLine \<or> blockEndLine \<le> LineNo startLocation then Some False
      else case at fileLines (LineNo startLocation - 1) of
        None \<Rightarrow> Some False
      | Some l \<Rightarrow>
          (let lineContent = trim_space l
           in if lineContent = [] \<or> lineContent = ''}'' then Some False
              else brace_upwards fileLines (LineNo startLocation - 2) (blockStartLine - 1)))"

section \<open>The key and the value of a line\<close>

text \<open>
  The expression of \<open>buildReplacementFix\<close> finds a word, perhaps in quotes, then blanks, a colon or an equals
  sign, blanks, and the value: a bracket up to the first closing one on the line, else a quoted text up to the
  next quote on the line, else all up to a number sign. Of its choices only the blanks before the value can
  be taken back, by one, when nothing follows them. The result is the word, where the value begins, and
  its length.
\<close>

definition is_quote :: "char \<Rightarrow> bool" where
  "is_quote c \<longleftrightarrow> c = CHR 0x22 \<or> c = CHR 0x27"

definition drop_quote :: "string \<Rightarrow> string" where
  "drop_quote s = (case s of [] \<Rightarrow> [] | c # cs \<Rightarrow> if is_quote c then cs else s)"

text \<open>The length of a text that begins with \<open>a\<close> and ends with the next \<open>b\<close> of the line\<close>

definition closed_length :: "char \<Rightarrow> char \<Rightarrow> string \<Rightarrow> nat option" where
  "closed_length a b r =
     (case r of
        [] \<Rightarrow> None
      | c # cs \<Rightarrow>
          (let inner = takeWhile (\<lambda>x. x \<noteq> b \<and> x \<noteq> CHR 0x0A) cs;
               rest = drop (length inner) cs
           in if c = a \<and> rest \<noteq> [] \<and> hd rest = b then Some (length inner + 2) else None))"

definition value_length :: "string \<Rightarrow> nat option" where
  "value_length r =
     (case closed_length CHR ''['' CHR '']'' r of
        Some n \<Rightarrow> Some n
      | None \<Rightarrow>
          (case closed_length (CHR 0x22) (CHR 0x22) r of
             Some n \<Rightarrow> Some n
           | None \<Rightarrow>
               (let plain = takeWhile (\<lambda>x. x \<noteq> CHR ''#'') r in if plain = [] then None else Some (length plain))))"

definition kv_at :: "string \<Rightarrow> (string \<times> nat \<times> nat) option" where
  "kv_at s =
     (let s1 = drop_quote s;
          key = takeWhile word_char s1;
          s2 = dropWhile re_space (drop_quote (dropWhile word_char s1))
      in if key = [] then None
         else case s2 of
           [] \<Rightarrow> None
         | c # s3 \<Rightarrow>
             (if c = CHR '':'' \<or> c = CHR ''='' then
                (let r = dropWhile re_space s3; start = length s - length r
                 in case value_length r of
                      Some n \<Rightarrow> Some (key, start, n)
                    | None \<Rightarrow> if length r < length s3 then Some (key, start - 1, 1) else None)
              else None))"

fun kv_find :: "string \<Rightarrow> (string \<times> nat \<times> nat) option" where
  "kv_find s =
     (case kv_at s of
        Some m \<Rightarrow> Some m
      | None \<Rightarrow>
          (case s of
             [] \<Rightarrow> None
           | c # cs \<Rightarrow> map_option (\<lambda>(key, start, n). (key, start + 1, n)) (kv_find cs)))"

declare kv_find.simps [simp del]

section \<open>The fixes\<close>

record SarifRegion =
  sg_StartLine :: int
  sg_EndLine :: int
  sg_StartColumn :: int
  sg_EndColumn :: int

record FixReplacement =
  fr_DeletedRegion :: SarifRegion
  fr_InsertedContent :: string

record ArtifactChange =
  ac_URI :: string
  ac_Replacements :: "FixReplacement list"

record SarifFix =
  sx_ArtifactChanges :: "ArtifactChange list"
  sx_Description :: string

definition buildSarifFix :: "VulnerableFile \<Rightarrow> string \<Rightarrow> ResourceLine \<Rightarrow> ResourceLine \<Rightarrow> SarifFix" where
  "buildSarifFix vuln insertedText startLocation endLocation =
     \<lparr>sx_ArtifactChanges = [\<lparr>ac_URI = vf_FileName vuln,
        ac_Replacements = [\<lparr>fr_DeletedRegion = \<lparr>sg_StartLine = LineNo startLocation, sg_EndLine = LineNo endLocation,
            sg_StartColumn = Col startLocation, sg_EndColumn = Col endLocation\<rparr>,
          fr_InsertedContent = insertedText\<rparr>]\<rparr>],
      sx_Description = ''Apply remediation: '' @ vf_Remediation vuln\<rparr>"

text \<open>The items of a list value with those replaced that are an alternative, and whether there was one\<close>

definition in_quotes :: "string \<Rightarrow> bool" where
  "in_quotes s \<longleftrightarrow> has_prefix s [CHR 0x22] \<and> has_suffix s [CHR 0x22]"

definition quoted_text :: "string \<Rightarrow> string" where
  "quoted_text s = [CHR 0x22] @ s @ [CHR 0x22]"

definition replace_item :: "string list \<Rightarrow> string \<Rightarrow> string \<Rightarrow> bool \<times> string" where
  "replace_item altValues after item =
     (if normalize (trim_space (trim_set item [CHR 0x22])) \<in> set altValues
      then (True, if in_quotes item then quoted_text after else after)
      else (False, item))"

text \<open>The text of a replacement: where the value is found, with what it is replaced\<close>

definition list_replacement :: "string list \<Rightarrow> string \<Rightarrow> string \<Rightarrow> string \<Rightarrow> string option" where
  "list_replacement altValues after key rawValue =
     (if has_prefix rawValue ''['' \<and> has_suffix rawValue '']'' then
        (let items = map (replace_item altValues after) (split_on (trim_set rawValue ''[] '') '','')
         in if list_ex fst items
            then Some (key @ '' = '' @ ''['' @ join (map snd items) '', '' @ '']'') else None)
      else None)"

definition buildReplacementFix ::
  "(string \<Rightarrow> string + (string, string) gomap) \<Rightarrow> VulnerableFile \<Rightarrow> ResourceLine \<Rightarrow> (string + SarifFix) option" where
  "buildReplacementFix unmarshal vuln startLocation =
     (case unmarshal (vf_Remediation vuln) of
        Inl err \<Rightarrow> Some (Inl (''invalid remediation format for replacement: '' @ err))
      | Inr patch \<Rightarrow>
          (let before = trim_space (lookup0 patch ''before'');
               after0 = trim_space (lookup0 patch ''after'');
               line = vf_LineWithVulnerability vuln
           in case kv_find line of
                None \<Rightarrow> Some (Inl (''could not parse key-value from line: '' @ line))
              | Some (key, start, n) \<Rightarrow> do {
                  let rawValue = trim_space (take n (drop start line));
                  let normalizedFullLine = normalize (key @ '' = '' @ rawValue);
                  let normalizedRawValue = normalize rawValue;
                  leadingWhitespace \<leftarrow> determineActualBaseIndent (vf_FileSource vuln) (LineNo startLocation)
                    (LineNo (LocStart (vf_BlockLocation vuln)));
                  altValues \<leftarrow> parseAlternatives before;
                  let direct = list_ex (\<lambda>alt. normalize (key @ '' = '' @ alt) = normalizedFullLine \<or>
                    contains normalizedRawValue alt) altValues;
                  let rebuilt = (if direct then None else list_replacement altValues after0 key rawValue);
                  if \<not> direct \<and> rebuilt = None
                  then Some (Inl (''line value '' @ [CHR 0x27] @ normalizedFullLine @ [CHR 0x27] @
                    '' does not match any expected values '' @ [CHR 0x27] @ join altValues '' | '' @ [CHR 0x27]))
                  else do {
                    let after = (if in_quotes rawValue \<and> \<not> in_quotes after0 then quoted_text after0 else after0);
                    let insertedText = (case rebuilt of
                        Some t \<Rightarrow> t
                      | None \<Rightarrow> if contains after ''='' then leadingWhitespace @ after
                               else take start line @ after @ drop (start + n) line);
                    Some (Inr (buildSarifFix vuln insertedText
                      \<lparr>Col = 1, LineNo = LineNo (LocStart (vf_RemediationLocation vuln))\<rparr>
                      \<lparr>Col = int (length line) + 1, LineNo = vf_Line vuln\<rparr>))
                  }
                }))"

record addition_state =
  as_result :: "string list"
  as_nestingLevel :: nat
  as_postIndent :: string

definition levels :: "nat \<Rightarrow> string" where
  "levels n = replicate (2 * n) CHR '' ''"

definition add_line :: "string \<Rightarrow> bool \<Rightarrow> addition_state \<Rightarrow> string \<Rightarrow> addition_state" where
  "add_line baseIndent nested st line =
     (let trimmed = trim_space line in
      if trimmed = [] then st
      else
        (let opening = has_suffix trimmed ''{'';
             closing = (trimmed = ''}'');
             level = as_nestingLevel st;
             indent = (if level > 0 \<and> \<not> closing then baseIndent @ levels level else baseIndent);
             post1 = (if closing then (if length (levels level) > length baseIndent then levels level else baseIndent)
                      else as_postIndent st);
             post2 = (if nested \<and> \<not> closing then baseIndent else post1);
             level1 = (if opening then level + 1 else level);
             level2 = (if closing \<and> level1 > 0 then level1 - 1 else level1)
         in \<lparr>as_result = as_result st @ [indent @ trimmed], as_nestingLevel = level2, as_postIndent = post2\<rparr>))"

definition buildAdditionFix :: "VulnerableFile \<Rightarrow> ResourceLine \<Rightarrow> SarifFix option" where
  "buildAdditionFix vuln startLocation = do {
     let lines = split_on (normalizeIndentation (vf_Remediation vuln) 2) [CHR 0x0A];
     let block = vf_BlockLocation vuln;
     baseIndent \<leftarrow> determineActualBaseIndent (vf_FileSource vuln) (LineNo startLocation) (LineNo (LocStart block));
     nested \<leftarrow> isInsertingInsideNestedBlock (vf_FileSource vuln) startLocation (LineNo (LocStart block))
       (LineNo (LocEnd block));
     let st = foldl (add_line baseIndent nested)
       \<lparr>as_result = [], as_nestingLevel = 0, as_postIndent = baseIndent\<rparr> lines;
     let insertedText = [CHR 0x0A] @ join (as_result st) [CHR 0x0A] @ [CHR 0x0A] @ as_postIndent st;
     Some (buildSarifFix vuln insertedText startLocation startLocation)
   }"

definition buildRemovalFix :: "VulnerableFile \<Rightarrow> ResourceLine \<Rightarrow> ResourceLine \<Rightarrow> SarifFix" where
  "buildRemovalFix vuln startLocation endLocation = buildSarifFix vuln [] startLocation endLocation"

definition TransformToSarifFix ::
  "(string \<Rightarrow> string + (string, string) gomap) \<Rightarrow> VulnerableFile \<Rightarrow> ResourceLine \<Rightarrow> ResourceLine \<Rightarrow>
     (string + SarifFix) option" where
  "TransformToSarifFix unmarshal vuln startLocation endLocation =
     (if vf_RemediationType vuln = ''replacement'' then buildReplacementFix unmarshal vuln startLocation
      else if vf_RemediationType vuln = ''addition'' then map_option Inr (buildAdditionFix vuln startLocation)
      else if vf_RemediationType vuln = ''removal'' then Some (Inr (buildRemovalFix vuln startLocation endLocation))
      else Some (Inl (''unsupported remediation type: '' @ vf_RemediationType vuln)))"

lemma strip_words_fixed:
  "(\<And>w. w \<in> set ws \<Longrightarrow> w \<noteq> [] \<Longrightarrow> \<not> prefix w s) \<Longrightarrow> strip_words ws s = s"
proof -
  assume a: "\<And>w. w \<in> set ws \<Longrightarrow> w \<noteq> [] \<Longrightarrow> \<not> prefix w s"
  then have "find (\<lambda>w. w \<noteq> [] \<and> prefix w s) ws = None" by (auto simp: find_None_iff)
  then show ?thesis by (subst strip_words.simps) simp
qed

lemma trim_space_idem: "trim_space (trim_space s) = trim_space s"
proof -
  define u where "u = strip_words space_bytes s"
  define t where "t = trim_space s"
  have t: "rev t = strip_words (map rev space_bytes) (rev u)" by (simp add: t_def trim_space_def u_def)
  have "suffix (rev t) (rev u)" unfolding t by (rule strip_words_suffix)
  then have p: "prefix t u" by (simp add: suffix_to_prefix)
  have l: "strip_words space_bytes t = t"
  proof (rule strip_words_fixed)
    fix w assume "w \<in> set space_bytes" "w \<noteq> []"
    then have "\<not> prefix w u" unfolding u_def by (rule strip_words_done)
    with p show "\<not> prefix w t" using prefix_order.trans by blast
  qed
  have "strip_words (map rev space_bytes) (rev t) = rev t"
    by (rule strip_words_fixed) (use strip_words_done [of _ "map rev space_bytes"] t in metis)
  with l show ?thesis by (simp add: t_def [symmetric] trim_space_def [of t])
qed

lemma trim_space_indent:
  "c = CHR '' '' \<or> c = CHR 0x09 \<Longrightarrow> trim_space (c # s) = trim_space s"
proof -
  assume "c = CHR '' '' \<or> c = CHR 0x09"
  then have "find (\<lambda>w. w \<noteq> [] \<and> prefix w (c # s)) space_bytes = Some [c]"
    by (elim disjE) (simp_all add: space_bytes_def)
  then have "strip_words space_bytes (c # s) = strip_words space_bytes s"
    by (subst strip_words.simps) simp
  then show ?thesis by (simp add: trim_space_def)
qed

lemma trim_space_indents: "set p \<subseteq> set indent_chars \<Longrightarrow> trim_space (p @ s) = trim_space s"
  by (induction p) (auto simp: trim_space_indent)

lemma trim_space_blanks: "set p \<subseteq> set indent_chars \<Longrightarrow> trim_space p = []"
  using trim_space_indents [of p "[]"] trim_space_length [of "[]"] by simp

lemma leading_blanks_chars: "set (leading_blanks line) \<subseteq> set indent_chars"
proof -
  have "take (length line - length (dropWhile P line)) line = takeWhile P line" for P :: "char \<Rightarrow> bool"
    by (metis add_diff_cancel_right' append_eq_conv_conj length_append takeWhile_dropWhile_id)
  then show ?thesis by (auto simp: leading_blanks_def trim_left_set_def dest: set_takeWhileD)
qed

lemma indent_upwards_some:
  "0 \<le> stop \<Longrightarrow> i < int (length fileLines) \<Longrightarrow>
     \<exists>b. indent_upwards fileLines i stop = Some b \<and> set b \<subseteq> set indent_chars"
proof (induction fileLines i stop rule: indent_upwards.induct)
  case (1 fileLines i stop)
  show ?case
  proof (cases "i < stop")
    case True
    then show ?thesis by (subst indent_upwards.simps) simp
  next
    case False
    with "1.prems" obtain line where l: "Prelude.at fileLines i = Some line" by (fastforce simp: at_def)
    show ?thesis
    proof (cases "skipped_line (trim_space line)")
      case True
      with "1.IH" [OF False l] "1.prems" False l show ?thesis by (subst indent_upwards.simps) simp
    next
      case False
      with l "1.prems" \<open>\<not> i < stop\<close> leading_blanks_chars [of line] show ?thesis
        by (subst indent_upwards.simps) simp
    qed
  qed
qed

lemma brace_upwards_some:
  "0 \<le> stop \<Longrightarrow> i < int (length fileLines) \<Longrightarrow> \<exists>b. brace_upwards fileLines i stop = Some b"
proof (induction fileLines i stop rule: brace_upwards.induct)
  case (1 fileLines i stop)
  show ?case
  proof (cases "i < stop")
    case True
    then show ?thesis by (subst brace_upwards.simps) (simp, blast)
  next
    case False
    with "1.prems" obtain line where l: "Prelude.at fileLines i = Some line" by (fastforce simp: at_def)
    with "1.IH" [OF False l] "1.prems" False show ?thesis by (subst brace_upwards.simps) auto
  qed
qed

text \<open>Where a fix is built without a panic: inside of the file, below the start of the block\<close>

definition fix_place :: "VulnerableFile \<Rightarrow> ResourceLine \<Rightarrow> bool" where
  "fix_place vuln loc \<longleftrightarrow>
     (let start = LineNo (LocStart (vf_BlockLocation vuln)) in
      LineNo loc = 0 \<and> 0 \<le> start \<or> 1 \<le> start \<and> LineNo loc \<le> int (length (vf_FileSource vuln)))"

lemma base_indent_some:
  "fix_place vuln loc \<Longrightarrow>
     \<exists>b. determineActualBaseIndent (vf_FileSource vuln) (LineNo loc) (LineNo (LocStart (vf_BlockLocation vuln))) = Some b \<and>
       set b \<subseteq> set indent_chars"
  using indent_upwards_some [of "LineNo (LocStart (vf_BlockLocation vuln)) - 1" "LineNo loc - 1" "vf_FileSource vuln"]
  by (auto simp: fix_place_def determineActualBaseIndent_def Let_def)

lemma nested_some:
  assumes "fix_place vuln loc"
  shows "\<exists>b. isInsertingInsideNestedBlock (vf_FileSource vuln) loc (LineNo (LocStart (vf_BlockLocation vuln))) e = Some b"
proof (cases "LineNo loc \<le> LineNo (LocStart (vf_BlockLocation vuln))")
  case True
  then show ?thesis by (simp add: isInsertingInsideNestedBlock_def) blast
next
  case False
  with assms have "1 \<le> LineNo (LocStart (vf_BlockLocation vuln))" "LineNo loc \<le> int (length (vf_FileSource vuln))"
    by (auto simp: fix_place_def Let_def)
  with brace_upwards_some [of "LineNo (LocStart (vf_BlockLocation vuln)) - 1" "LineNo loc - 2" "vf_FileSource vuln"]
  show ?thesis
    by (auto simp: isInsertingInsideNestedBlock_def Let_def split: option.split)
qed

text \<open>The lines that are not blank, without the blanks around them\<close>

definition trimmed_lines :: "string \<Rightarrow> string list" where
  "trimmed_lines s = filter (\<lambda>l. l \<noteq> []) (map trim_space (split_on s [CHR 0x0A]))"

lemma levels_chars: "set (levels n) \<subseteq> set indent_chars"
  by (auto simp: levels_def)

lemma add_line_lines:
  assumes "set baseIndent \<subseteq> set indent_chars" and "CHR 0x0A \<notin> set line"
    and "\<forall>l \<in> set (as_result st). prefix baseIndent l \<and> CHR 0x0A \<notin> set l"
    and "set (as_postIndent st) \<subseteq> set indent_chars"
    and "st' = add_line baseIndent nested st line"
  shows "map trim_space (as_result st') =
      map trim_space (as_result st) @ (if trim_space line = [] then [] else [trim_space line])"
    and "\<forall>l \<in> set (as_result st'). prefix baseIndent l \<and> CHR 0x0A \<notin> set l"
    and "set (as_postIndent st') \<subseteq> set indent_chars"
proof -
  have n: "CHR 0x0A \<notin> set (trim_space line)"
    using assms(2) trim_space_sublist [of line] set_mono_sublist by blast
  have i: "CHR 0x0A \<notin> set p" if "set p \<subseteq> set indent_chars" for p using that by auto
  show "map trim_space (as_result st') =
      map trim_space (as_result st) @ (if trim_space line = [] then [] else [trim_space line])"
    using assms(1) levels_chars
    by (simp add: assms(5) add_line_def Let_def trim_space_indents trim_space_idem)
  show "\<forall>l \<in> set (as_result st'). prefix baseIndent l \<and> CHR 0x0A \<notin> set l"
    using assms(3) n i [OF assms(1)] i [OF levels_chars]
    by (simp add: assms(5) add_line_def Let_def)
  show "set (as_postIndent st') \<subseteq> set indent_chars"
    using assms(1,4) levels_chars by (simp add: assms(5) add_line_def Let_def)
qed

lemma add_lines:
  assumes "set baseIndent \<subseteq> set indent_chars"
  shows "\<forall>l \<in> set ls. CHR 0x0A \<notin> set l \<Longrightarrow>
     \<forall>l \<in> set (as_result st). prefix baseIndent l \<and> CHR 0x0A \<notin> set l \<Longrightarrow>
     set (as_postIndent st) \<subseteq> set indent_chars \<Longrightarrow>
     (let st' = foldl (add_line baseIndent nested) st ls in
      map trim_space (as_result st') = map trim_space (as_result st) @ filter (\<lambda>l. l \<noteq> []) (map trim_space ls) \<and>
      (\<forall>l \<in> set (as_result st'). prefix baseIndent l \<and> CHR 0x0A \<notin> set l) \<and>
      set (as_postIndent st') \<subseteq> set indent_chars)"
proof (induction ls arbitrary: st)
  case (Cons line ls)
  have "CHR 0x0A \<notin> set line" using Cons.prems by simp
  note step = add_line_lines [OF assms this Cons.prems(2,3) refl, of nested]
  with Cons.IH [of "add_line baseIndent nested st line"] Cons.prems(1) show ?case
    by (simp add: Let_def)
qed simp

lemma join_ends: "xs \<noteq> [] \<Longrightarrow> join ([] # xs @ [y]) [c] = c # join xs [c] @ c # y"
proof (induction xs)
  case (Cons x xs)
  then show ?case by (cases xs) auto
qed simp

lemma addition_text_lines:
  assumes "\<forall>l \<in> set xs. CHR 0x0A \<notin> set l" and "set post \<subseteq> set indent_chars"
  shows "split_on ([CHR 0x0A] @ join xs [CHR 0x0A] @ [CHR 0x0A] @ post) [CHR 0x0A] =
    [] # (if xs = [] then [[]] else xs) @ [post]"
proof -
  let ?ys = "if xs = [] then [[]] else xs"
  have "[CHR 0x0A] @ join xs [CHR 0x0A] @ [CHR 0x0A] @ post = join ([] # ?ys @ [post]) [CHR 0x0A]"
    by (subst join_ends) auto
  moreover have "split_on (join ([] # ?ys @ [post]) [CHR 0x0A]) [CHR 0x0A] = [] # ?ys @ [post]"
    using assms by (intro split_on_join) auto
  ultimately show ?thesis by simp
qed

text \<open>When \<open>normalizeListItem\<close> panics: on a quotation mark alone, perhaps in brackets\<close>

lemma lone_quote:
  "has_prefix v [c] \<and> has_suffix v [c] \<and> slice v 1 (int (length v) - 1) = None \<longleftrightarrow> v = [c]"
  by (cases v rule: rev_cases; cases v)
    (auto simp: has_prefix_def has_suffix_def slice_None_iff)

lemma brackets_slice:
  assumes "has_prefix v ''[''" and "has_suffix v '']''"
  shows "slice v 1 (int (length v) - 1) = Some (butlast (tl v))"
proof -
  obtain r where r: "v = CHR ''['' # r" using assms(1) by (cases v) (auto simp: has_prefix_def)
  with assms(2) have "r \<noteq> []" by (auto simp: has_suffix_def)
  then have "length r \<ge> 1" by (cases r) auto
  then show ?thesis using r by (simp add: slice_def butlast_conv_take nat_diff_distrib)
qed

lemma normalizeListItem_none:
  "normalizeListItem val = None \<longleftrightarrow>
     (let v = trim_space val in
      v = [CHR 0x22] \<or>
      has_prefix v ''['' \<and> has_suffix v '']'' \<and> trim_space (butlast (tl v)) = [CHR 0x22])"
proof (cases "has_prefix (trim_space val) ''['' \<and> has_suffix (trim_space val) '']''")
  case True
  then have "trim_space val \<noteq> [CHR 0x22]" by (auto simp: has_prefix_def)
  with True brackets_slice [of "trim_space val"] lone_quote [of "trim_space (butlast (tl (trim_space val)))" "CHR 0x22"]
  show ?thesis
    by (auto simp: normalizeListItem_def Let_def bind_eq_None_conv split: if_splits)
next
  case False
  with lone_quote [of "trim_space val" "CHR 0x22"] show ?thesis
    by (auto simp: normalizeListItem_def Let_def split: if_splits)
qed

lemma parseAlternatives_none:
  "parseAlternatives before = None \<longleftrightarrow>
     (\<exists>part \<in> set (if contains before '' or '' then split_on before '' or '' else [before]).
       normalizeListItem (snd (splitKeyValue part)) = None)"
proof -
  have "those xs = None \<longleftrightarrow> None \<in> set xs" for xs :: "string option list"
    by (induction xs) (auto split: option.splits)
  then show ?thesis by (auto simp: parseAlternatives_def image_iff eq_commute [of None])
qed

lemma replacement_some:
  assumes "fix_place vuln startLocation"
    and "\<And>patch. unmarshal (vf_Remediation vuln) = Inr patch \<Longrightarrow>
      parseAlternatives (trim_space (lookup0 patch ''before'')) \<noteq> None"
  shows "buildReplacementFix unmarshal vuln startLocation \<noteq> None"
  using base_indent_some [OF assms(1)] assms(2)
  by (fastforce simp: buildReplacementFix_def Let_def split: sum.split option.split)

definition fix_safe :: "(string \<Rightarrow> string + (string, string) gomap) \<Rightarrow> VulnerableFile \<Rightarrow> ResourceLine \<Rightarrow> bool" where
  "fix_safe unmarshal vuln loc \<longleftrightarrow> fix_place vuln loc \<and>
     (case unmarshal (vf_Remediation vuln) of
        Inl err \<Rightarrow> True
      | Inr patch \<Rightarrow> parseAlternatives (trim_space (lookup0 patch ''before'')) \<noteq> None)"

lemma TransformToSarifFix_some:
  assumes "fix_safe unmarshal vuln loc"
  shows "TransformToSarifFix unmarshal vuln loc e \<noteq> None"
proof -
  have p: "fix_place vuln loc" using assms by (simp add: fix_safe_def)
  have "buildReplacementFix unmarshal vuln loc \<noteq> None"
    by (rule replacement_some [OF p]) (use assms in \<open>simp add: fix_safe_def\<close>)
  moreover have "buildAdditionFix vuln loc \<noteq> None"
    using base_indent_some [OF p] nested_some [OF p, of "LineNo (LocEnd (vf_BlockLocation vuln))"]
    by (auto simp: buildAdditionFix_def Let_def)
  ultimately show ?thesis by (auto simp: TransformToSarifFix_def)
qed

definition example_fixable :: VulnerableFile where
  "example_fixable =
     \<lparr>vf_FileName = ''a.tf'', vf_SimilarityID = [], vf_OldSimilarityID = [], vf_Line = 1,
      vf_ResourceLocation = \<lparr>LocStart = \<lparr>Col = 1, LineNo = 1\<rparr>, LocEnd = \<lparr>Col = 2, LineNo = 3\<rparr>\<rparr>,
      vf_VulnLines = [], vf_ResourceType = ''t'', vf_ResourceName = ''n'', vf_IssueType = ''MissingAttribute'',
      vf_SearchKey = [], vf_SearchLine = 0, vf_SearchValue = [], vf_KeyExpectedValue = [], vf_KeyActualValue = [],
      vf_Value = None, vf_Remediation = ''b = 1'', vf_RemediationType = ''addition'',
      vf_RemediationLocation = \<lparr>LocStart = \<lparr>Col = 2, LineNo = 2\<rparr>, LocEnd = \<lparr>Col = 2, LineNo = 2\<rparr>\<rparr>,
      vf_LineWithVulnerability = ''m {'', vf_ResourceSource = [], vf_FileSource = [''m {'', ''  a'', ''}''],
      vf_BlockLocation = \<lparr>LocStart = \<lparr>Col = 1, LineNo = 1\<rparr>, LocEnd = \<lparr>Col = 2, LineNo = 3\<rparr>\<rparr>\<rparr>"

lemma example_lines: "trimmed_lines (normalizeIndentation ''b = 1'' 2) = [''b = 1'']"
  by code_simp

section \<open>Properties\<close>



end
