(* ===== verification/Sarif.thy ===== *)
theory Sarif
  imports SarifFix
begin

text \<open>
  The SARIF report of a scan: \<open>sarif.go\<close>, \<open>sarif_categories.go\<close> and \<open>utils.go\<close> of
  \<open>pkg/report/model\<close>, and the calls of \<open>PrintSarifReport\<close> on the report. \<open>None\<close> is a panic. The files of the
  CWE taxonomy, the ids, the hash and \<open>json.Unmarshal\<close> are parameters.
\<close>

section \<open>The report\<close>

record sarifDescriptorReference =
  sd_ReferenceID :: string
  sd_ReferenceGUID :: string
  sd_ReferenceIndex :: int
  sd_ComponentName :: string
  sd_ComponentGUID :: string
  sd_ComponentIndex :: int

datatype sarifProperty = PText string | PTexts "string list"

type_synonym sarifProperties = "(string, sarifProperty) gomap"

record sarifRule =
  su_RuleID :: string
  su_RuleName :: string
  su_ShortDescription :: string
  su_FullDescription :: string
  su_Level :: string
  su_HelpURI :: string
  su_Relationships :: "sarifDescriptorReference list"
  su_RuleProperties :: sarifProperties

record sarifResult =
  st_RuleID :: string
  st_RuleIndex :: int
  st_Message :: string
  st_URI :: string
  st_Region :: SarifRegion
  st_DatadogFingerprint :: string
  st_Level :: string
  st_Properties :: sarifProperties
  st_Fixes :: "SarifFix list"

record taxonomyDefinitions =
  td_GUID :: string
  td_Name :: string
  td_ID :: string
  td_ShortDescription :: string
  td_FullDescription :: string
  td_HelpURI :: string

record sarifTaxonomy =
  tx_GUID :: string
  tx_Name :: string
  tx_FullDescription :: string
  tx_ShortDescription :: string
  tx_DownloadURI :: string
  tx_InformationURI :: string
  tx_IsComprehensive :: bool
  tx_Language :: string
  tx_MinRequiredLocDataSemanticVersion :: string
  tx_Organization :: string
  tx_ReleaseDateUtc :: string
  tx_Definitions :: "taxonomyDefinitions list"

record sarifDriver =
  dr_ToolName :: string
  dr_ToolVersion :: string
  dr_ToolFullName :: string
  dr_ToolURI :: string
  dr_Tags :: "string list"
  dr_Rules :: "sarifRule list"

record SarifRun =
  rn_Driver :: sarifDriver
  rn_Results :: "sarifResult list"
  rn_Taxonomies :: "sarifTaxonomy list"

record sarifReport =
  rp_Schema :: string
  rp_SarifVersion :: string
  rp_Runs :: "SarifRun list"

record cweCsv =
  cw_CweID :: string
  cw_FullDescription :: string
  cw_ShortDescription :: string
  cw_GUID :: string
  cw_HelpURI :: string

record DiffAware =
  df_Enabled :: bool
  df_ConfigDigest :: string
  df_BaseSha :: string
  df_Files :: string

record SCIInfo =
  sc_RunType :: string
  sc_RepositoryUrl :: string
  sc_DiffAware :: DiffAware

text \<open>What the report takes from outside: \<open>se_read_cwe\<close> and \<open>se_read_csv\<close> read and decode the two files,
  \<open>se_uuid\<close> gives the ids in the order of the calls.\<close>

record sarif_env =
  se_unmarshal :: "string \<Rightarrow> string + (string, string) gomap"
  se_sha256_hex :: "string \<Rightarrow> string"
  se_Version :: string
  se_Abs :: "string \<Rightarrow> string option"
  se_join :: "string list \<Rightarrow> string"
  se_read_cwe :: "string \<Rightarrow> sarifTaxonomy option"
  se_read_csv :: "string \<Rightarrow> string list list option"
  se_uuid :: "nat \<Rightarrow> string"

text \<open>The reader of the decoded record takes only what the record of the file names.\<close>

definition severityLevelEquivalence :: "(Severity, string) gomap" where
  "severityLevelEquivalence =
     [(SeverityInfo, ''none''), (SeverityLow, ''none''), (SeverityMedium, ''note''), (SeverityHigh, ''warning''),
      (SeverityCritical, ''error'')]"

section \<open>Tags\<close>

definition GetScanDurationTag :: "int \<Rightarrow> string" where
  "GetScanDurationTag scanDuration = ''DATADOG_EXECUTION_TIME_SECS:'' @ itoa scanDuration"

definition GetDiffAwareEnabledTag :: "DiffAware \<Rightarrow> string" where
  "GetDiffAwareEnabledTag diffAware =
     ''DATADOG_DIFF_AWARE_ENABLED:'' @ (if df_Enabled diffAware then ''true'' else ''false'')"

definition GetDiffAwareConfigDigestTag :: "DiffAware \<Rightarrow> string" where
  "GetDiffAwareConfigDigestTag diffAware = ''DATADOG_DIFF_AWARE_CONFIG_DIGEST:'' @ df_ConfigDigest diffAware"

definition GetDiffAwareBaseShaTag :: "DiffAware \<Rightarrow> string" where
  "GetDiffAwareBaseShaTag diffAware = ''DATADOG_DIFF_AWARE_BASE_SHA:'' @ df_BaseSha diffAware"

definition GetDiffAwareFilesTag :: "DiffAware \<Rightarrow> string" where
  "GetDiffAwareFilesTag diffAware = ''DATADOG_DIFF_AWARE_FILE:'' @ df_Files diffAware"

definition GetCategoryTag :: "string \<Rightarrow> string" where
  "GetCategoryTag category = ''DATADOG_CATEGORY:'' @ category"

definition GetKICSRuleIDTag :: "string \<Rightarrow> string" where
  "GetKICSRuleIDTag ruleID = ''KICS_RuleID:'' @ ruleID"

definition GetCWETag :: "string \<Rightarrow> string" where
  "GetCWETag cwe = ''CWE:'' @ cwe"

definition GetResourceTypeTag :: "string \<Rightarrow> string" where
  "GetResourceTypeTag resourceType = ''IAC_RESOURCE_TYPE:'' @ resourceType"

definition GetResourceNameTag :: "string \<Rightarrow> string" where
  "GetResourceNameTag resourceName = ''IAC_RESOURCE_NAME:'' @ resourceName"

definition GetDatadogFingerprintHash ::
  "sarif_env \<Rightarrow> SCIInfo \<Rightarrow> string \<Rightarrow> string \<Rightarrow> string \<Rightarrow> string \<Rightarrow> string" where
  "GetDatadogFingerprintHash env sciInfo filePath resourceType resourceName ruleId =
     se_sha256_hex env (sc_RepositoryUrl sciInfo @ ''|'' @ filePath @ ''|'' @ resourceType @ ''|'' @ resourceName @
       ''|'' @ ruleId)"

section \<open>Categories and taxonomies\<close>

definition noCategory :: taxonomyDefinitions where
  "noCategory =
     \<lparr>td_GUID = [], td_Name = ''Undefined Category'', td_ID = ''CAT000'',
      td_ShortDescription = ''Category is not defined'', td_FullDescription = ''Category is not defined'',
      td_HelpURI = []\<rparr>"

definition createSarifCategory :: "string \<Rightarrow> string \<Rightarrow> string \<Rightarrow> taxonomyDefinitions" where
  "createSarifCategory identifier name description =
     \<lparr>td_GUID = [], td_Name = name, td_ID = identifier, td_ShortDescription = description,
      td_FullDescription = description, td_HelpURI = []\<rparr>"

definition categories :: "(string, taxonomyDefinitions) gomap" where
  "categories =
     map (\<lambda>(num, name, description). (name, createSarifCategory (''CAT'' @ num) name description))
       [(''001'', ''Access Control'', ''Service permission and identity management''),
        (''002'', ''Availability'', ''Reliability and Scalability''),
        (''003'', ''Backup'', ''Survivability and Recovery''),
        (''004'', ''Best Practices'', ''Metadata management''),
        (''005'', ''Build Process'', ''Insecure configurations when building/deploying''),
        (''006'', ''Encryption'', ''Data Security and Encryption configuration''),
        (''007'', ''Insecure Configurations'', ''Configurations which expose the application unnecessarily''),
        (''008'', ''Insecure Defaults'', ''Configurations that are insecure by default''),
        (''009'', ''Networking and Firewall'', ''Network port exposure and firewall configuration''),
        (''010'', ''Observability'', ''Logging and Monitoring''),
        (''011'', ''Resource Management'', ''Resource and privilege limit configuration''),
        (''012'', ''Secret Management'', ''Secret and Key management''),
        (''013'', ''Supply-Chain'', ''Dependency version management''),
        (''014'', ''Structure and Semantics'', ''Malformed document structure or inadequate semantics''),
        (''015'', ''Bill Of Materials'', ''List of resources provisioned'')]"

text \<open>The map of the categories is ranged over, so that its order is a parameter.\<close>

definition initSarifCategories :: "(string, taxonomyDefinitions) gomap \<Rightarrow> taxonomyDefinitions list" where
  "initSarifCategories ordered = noCategory # map snd ordered"

definition cwe_entry :: "(nat \<Rightarrow> string) \<Rightarrow> nat \<Rightarrow> string list \<Rightarrow> cweCsv" where
  "cwe_entry uuid n record0 =
     \<lparr>cw_CweID = record0 ! 0,
      cw_FullDescription = (if record0 ! 5 = [] then record0 ! 4 else record0 ! 5),
      cw_ShortDescription = record0 ! 4, cw_GUID = uuid n,
      cw_HelpURI = ''https://cwe.mitre.org/data/definitions/'' @ record0 ! 0 @ ''.html''\<rparr>"

definition readCWECsvInfo :: "sarif_env \<Rightarrow> string \<Rightarrow> cweCsv list option" where
  "readCWECsvInfo env filePath =
     map_option (\<lambda>records. map (\<lambda>(n, r). cwe_entry (se_uuid env) n r)
         (enumerate 0 (filter (\<lambda>r. 23 \<le> length r) records)))
       (se_read_csv env (Clean filePath))"

definition find_cwe :: "string \<Rightarrow> cweCsv list \<Rightarrow> cweCsv option" where
  "find_cwe cweID entries =
     (case find (\<lambda>e. cw_CweID e = cweID) entries of
        Some e \<Rightarrow> if cw_CweID e = [] then None else Some e | None \<Rightarrow> None)"

definition csv_path :: "sarif_env \<Rightarrow> string \<Rightarrow> string" where
  "csv_path env absPath = se_join env [absPath, ''assets'', ''cwe_csv'', ''Software-Development-CWE.csv'']"

definition initCweCategories :: "sarif_env \<Rightarrow> string list \<Rightarrow> (string, string) gomap \<Rightarrow> taxonomyDefinitions list" where
  "initCweCategories env cweIDs guids =
     (case se_Abs env ''.'' of
        None \<Rightarrow> []
      | Some absPath \<Rightarrow>
          (case readCWECsvInfo env (csv_path env absPath) of
             None \<Rightarrow> []
           | Some cweCsvList \<Rightarrow>
               concat (map (\<lambda>cweID.
                 (case (find_cwe cweID cweCsvList, map_of guids cweID) of
                    (Some e, Some guid) \<Rightarrow>
                      [\<lparr>td_GUID = guid, td_Name = [], td_ID = cw_CweID e,
                        td_ShortDescription = cw_ShortDescription e, td_FullDescription = cw_FullDescription e,
                        td_HelpURI = cw_HelpURI e\<rparr>]
                  | _ \<Rightarrow> [])) cweIDs)))"

text \<open>The templates name their components, so that both conditions of the code hold.\<close>

definition targetTemplate :: sarifDescriptorReference where
  "targetTemplate =
     \<lparr>sd_ReferenceID = [], sd_ReferenceGUID = [], sd_ReferenceIndex = 0, sd_ComponentName = ''Categories'',
      sd_ComponentGUID = ''58cdcc6f-fe41-4724-bfb3-131a93df4c3f'', sd_ComponentIndex = 0\<rparr>"

definition initSarifTaxonomies ::
  "sarif_env \<Rightarrow> (string, taxonomyDefinitions) gomap \<Rightarrow> sarifTaxonomy list" where
  "initSarifTaxonomies env ordered =
     (let categoryTaxonomy =
        \<lparr>tx_GUID = sd_ComponentGUID targetTemplate, tx_Name = sd_ComponentName targetTemplate,
         tx_FullDescription = ''This taxonomy contains the types an issue can assume'',
         tx_ShortDescription = ''Vulnerabilities categories'', tx_DownloadURI = [], tx_InformationURI = [],
         tx_IsComprehensive = False, tx_Language = [], tx_MinRequiredLocDataSemanticVersion = [],
         tx_Organization = [], tx_ReleaseDateUtc = [], tx_Definitions = initSarifCategories ordered\<rparr>
      in case se_read_cwe env (se_join env [''.'', ''assets'', ''cwe_csv'', ''cwe_taxonomies_latest.json'']) of
           None \<Rightarrow> [categoryTaxonomy]
         | Some cweInfo \<Rightarrow> [categoryTaxonomy, cweInfo\<lparr>tx_Definitions := []\<rparr>])"

definition no_reference :: sarifDescriptorReference where
  "no_reference =
     \<lparr>sd_ReferenceID = [], sd_ReferenceGUID = [], sd_ReferenceIndex = 0, sd_ComponentName = [],
      sd_ComponentGUID = [], sd_ComponentIndex = 0\<rparr>"

text \<open>The new id is the next one after those of the entries of the file.\<close>

definition buildCweCategory :: "sarif_env \<Rightarrow> string \<Rightarrow> sarifDescriptorReference" where
  "buildCweCategory env cweID =
     (case se_Abs env ''.'' of
        None \<Rightarrow> no_reference
      | Some absPath \<Rightarrow>
          (if se_read_cwe env (se_join env [absPath, ''assets'', ''cwe_csv'', ''cwe_taxonomies_latest.json'']) = None
           then no_reference
           else case readCWECsvInfo env (csv_path env absPath) of
             None \<Rightarrow> no_reference
           | Some cweCsvList \<Rightarrow>
               (case find_cwe cweID cweCsvList of
                  None \<Rightarrow> no_reference
                | Some e \<Rightarrow>
                    \<lparr>sd_ReferenceID = cw_CweID e, sd_ReferenceGUID = se_uuid env (length cweCsvList),
                     sd_ReferenceIndex = 0, sd_ComponentName = ''CWE'',
                     sd_ComponentGUID = ''1489b0c4-d7ce-4d31-af66-6382a01202e3'', sd_ComponentIndex = 0\<rparr>)))"

section \<open>The report as an object\<close>

definition initSarifTool :: "sarif_env \<Rightarrow> sarifDriver" where
  "initSarifTool env =
     \<lparr>dr_ToolName = ''Datadog IaC Scanning'', dr_ToolVersion = se_Version env, dr_ToolFullName = Fullname,
      dr_ToolURI = KICS_URL, dr_Tags = [], dr_Rules = []\<rparr>"

definition initSarifRun :: "sarif_env \<Rightarrow> SarifRun list" where
  "initSarifRun env = [\<lparr>rn_Driver = initSarifTool env, rn_Results = [], rn_Taxonomies = []\<rparr>]"

definition NewSarifReport :: "sarif_env \<Rightarrow> sarifReport" where
  "NewSarifReport env =
     \<lparr>rp_Schema = ''https://raw.githubusercontent.com/oasis-tcs/sarif-spec/master/Schemata/sarif-schema-2.1.0.json'',
      rp_SarifVersion = ''2.1.0'', rp_Runs = initSarifRun env\<rparr>"

text \<open>The index of a category is 0 when it is not found, so that its users never see -1.\<close>

definition findSarifCategory :: "string \<Rightarrow> sarifReport \<Rightarrow> int option" where
  "findSarifCategory category sr = do {
     run \<leftarrow> Prelude.at (rp_Runs sr) 0;
     taxonomy \<leftarrow> Prelude.at (rn_Taxonomies run) 0;
     Some (case find (\<lambda>(idx, t). td_Name t = category) (enumerate 0 (tx_Definitions taxonomy)) of
         Some (idx, t) \<Rightarrow> int idx | None \<Rightarrow> 0)
   }"

text \<open>\<open>categoriesNotFound\<close>, which only keeps warnings from being repeated, is left out.\<close>

definition buildSarifCategory :: "string \<Rightarrow> sarifReport \<Rightarrow> sarifDescriptorReference option" where
  "buildSarifCategory category sr = do {
     categoryIndex \<leftarrow> findSarifCategory category sr;
     run \<leftarrow> Prelude.at (rp_Runs sr) 0;
     taxonomy \<leftarrow> Prelude.at (rn_Taxonomies run) 0;
     definition0 \<leftarrow> Prelude.at (tx_Definitions taxonomy) categoryIndex;
     Some (targetTemplate\<lparr>sd_ReferenceID := td_ID definition0, sd_ReferenceIndex := categoryIndex\<rparr>)
   }"

fun rule_index :: "string \<Rightarrow> sarifRule list \<Rightarrow> int \<Rightarrow> int" where
  "rule_index ruleID [] idx = - 1"
| "rule_index ruleID (r # rs) idx = (if su_RuleID r = ruleID then idx else rule_index ruleID rs (idx + 1))"

definition findSarifRuleIndex :: "string \<Rightarrow> sarifReport \<Rightarrow> int option" where
  "findSarifRuleIndex ruleID sr = do {
     run \<leftarrow> Prelude.at (rp_Runs sr) 0;
     Some (rule_index ruleID (dr_Rules (rn_Driver run)) 0)
   }"

definition with_run :: "(SarifRun \<Rightarrow> SarifRun) \<Rightarrow> sarifReport \<Rightarrow> sarifReport" where
  "with_run f sr = sr\<lparr>rp_Runs := (case rp_Runs sr of [] \<Rightarrow> [] | run # runs \<Rightarrow> f run # runs)\<rparr>"

definition query_rule :: "QuerySummary \<Rightarrow> sarifRule" where
  "query_rule q =
     (let tags = [''DATADOG_RULE_TYPE:IAC_SCANNING''] @ (if qs_CWE q \<noteq> [] then [GetCWETag (qs_CWE q)] else []) @
            [GetCategoryTag (qs_Category q), GetKICSRuleIDTag (qs_QueryID q)];
          rule = \<lparr>su_RuleID = qs_QueryName q, su_RuleName = qs_QueryName q, su_ShortDescription = qs_QueryName q,
            su_FullDescription = qs_Description q @ [CHR 0x0A] @ ''Rule ID: ['' @ qs_QueryID q @ '']'',
            su_Level = lookup0 severityLevelEquivalence (qs_Severity q),
            su_HelpURI = (if qs_QueryURI q \<noteq> [] then qs_QueryURI q else ''https://docs.kics.io/''),
            su_Relationships = [], su_RuleProperties = [(''tags'', PTexts tags)]\<rparr>
      in if qs_CISDescriptionIDFormatted q \<noteq> []
         then rule\<lparr>su_FullDescription := qs_CISDescriptionTextFormatted q,
                su_RuleProperties := [(''cisId'', PText (qs_CISDescriptionIDFormatted q)),
                  (''cisTitle'', PText (qs_CISDescriptionTitle q))]\<rparr>
         else rule)"

definition buildSarifRule :: "QuerySummary \<Rightarrow> sarifReport \<Rightarrow> (int \<times> sarifReport) option" where
  "buildSarifRule q sr = do {
     index \<leftarrow> findSarifRuleIndex (qs_QueryID q) sr;
     run \<leftarrow> Prelude.at (rp_Runs sr) 0;
     if index < 0
     then Some (int (length (dr_Rules (rn_Driver run))),
       with_run (\<lambda>r. r\<lparr>rn_Driver := (rn_Driver r)\<lparr>dr_Rules := dr_Rules (rn_Driver r) @ [query_rule q]\<rparr>\<rparr>) sr)
     else Some (index, sr)
   }"

definition GetGUIDFromRelationships :: "nat \<Rightarrow> string \<Rightarrow> sarifReport \<Rightarrow> string option" where
  "GetGUIDFromRelationships idx cweID sr =
     (case rp_Runs sr of
        [] \<Rightarrow> Some []
      | run # runs \<Rightarrow>
          (if dr_Rules (rn_Driver run) = [] then Some []
           else do {
             rule \<leftarrow> Prelude.at (dr_Rules (rn_Driver run)) (int idx);
             Some (case find (\<lambda>t. sd_ReferenceID t = cweID) (su_Relationships rule) of
                 Some t \<Rightarrow> sd_ReferenceGUID t | None \<Rightarrow> [])
           }))"

definition RebuildTaxonomies :: "sarif_env \<Rightarrow> string list \<Rightarrow> (string, string) gomap \<Rightarrow> sarifReport \<Rightarrow> sarifReport" where
  "RebuildTaxonomies env cwes guids sr =
     (if cwes = [] then sr
      else with_run (\<lambda>run.
        (case rn_Taxonomies run of
           [t0, t1] \<Rightarrow> run\<lparr>rn_Taxonomies := [t0, t1\<lparr>tx_Definitions := initCweCategories env cwes guids\<rparr>]\<rparr>
         | _ \<Rightarrow> run)) sr)"

section \<open>Results\<close>

text \<open>\<open>BuildSarifIssue\<close> makes no result for a file whose resource has no lines.\<close>

definition located :: "VulnerableFile \<Rightarrow> bool" where
  "located f \<longleftrightarrow> 1 \<le> LineNo (LocStart (vf_ResourceLocation f)) \<and> 1 \<le> LineNo (LocEnd (vf_ResourceLocation f))"

text \<open>The region shown: that of the remediation when its lines lie in those of the resource, else the resource\<close>

definition result_region :: "VulnerableFile \<Rightarrow> SarifRegion" where
  "result_region f =
     (let rs = LocStart (vf_ResourceLocation f); re = LocEnd (vf_ResourceLocation f);
          startCol = (if Col rs < 1 then 1 else Col rs);
          endCol = (if Col re < 1 then startCol else Col re);
          ms = LocStart (vf_RemediationLocation f); me = LocEnd (vf_RemediationLocation f)
      in if LineNo rs \<le> LineNo ms \<and> LineNo me \<le> LineNo re
         then \<lparr>sg_StartLine = LineNo ms, sg_EndLine = LineNo me, sg_StartColumn = Col ms, sg_EndColumn = Col me\<rparr>
         else \<lparr>sg_StartLine = LineNo rs, sg_EndLine = LineNo re, sg_StartColumn = startCol, sg_EndColumn = endCol\<rparr>)"

definition issue_tags :: "QuerySummary \<Rightarrow> string list" where
  "issue_tags q = [GetCategoryTag (qs_Category q)] @ (if qs_CWE q \<noteq> [] then [GetCWETag (qs_CWE q)] else [])"

definition file_result :: "sarif_env \<Rightarrow> SCIInfo \<Rightarrow> QuerySummary \<Rightarrow> int \<Rightarrow> VulnerableFile \<Rightarrow> sarifResult list option" where
  "file_result env sciInfo issue ruleIndex f =
     (if \<not> located f then Some []
      else
        (let absoluteFilePath = replace_all (vf_FileName f) ''../'' [];
             region = result_region f;
             ms = LocStart (vf_RemediationLocation f); me = LocEnd (vf_RemediationLocation f);
             result = \<lparr>st_RuleID = qs_QueryName issue, st_RuleIndex = ruleIndex, st_Message = vf_KeyActualValue f,
               st_URI = absoluteFilePath, st_Region = region,
               st_DatadogFingerprint = GetDatadogFingerprintHash env sciInfo absoluteFilePath (vf_ResourceType f)
                 (vf_ResourceName f) (qs_QueryID issue),
               st_Level = lookup0 severityLevelEquivalence (qs_Severity issue),
               st_Properties = [(''tags'', PTexts (issue_tags issue @
                 [GetResourceTypeTag (vf_ResourceType f), GetResourceNameTag (vf_ResourceName f)]))],
               st_Fixes = []\<rparr>
         in if vf_Remediation f \<noteq> [] \<and> vf_RemediationType f \<noteq> [] then
              (case TransformToSarifFix (se_unmarshal env) f ms me of
                 None \<Rightarrow> None
               | Some (Inl err) \<Rightarrow> Some [result]
               | Some (Inr sarifFix) \<Rightarrow>
                   Some [result\<lparr>st_Region := region\<lparr>sg_StartLine := LineNo ms, sg_EndLine := LineNo me\<rparr>,
                           st_Fixes := [sarifFix]\<rparr>])
            else Some [result]))"

definition BuildSarifIssue :: "sarif_env \<Rightarrow> SCIInfo \<Rightarrow> QuerySummary \<Rightarrow> sarifReport \<Rightarrow> (string \<times> sarifReport) option" where
  "BuildSarifIssue env sciInfo issue sr =
     (if qs_Files issue = [] then Some ([], sr)
      else do {
        (ruleIndex, sr1) \<leftarrow> buildSarifRule issue sr;
        results \<leftarrow> map_option concat (those (map (file_result env sciInfo issue ruleIndex) (qs_Files issue)));
        Some (qs_CWE issue, with_run (\<lambda>run. run\<lparr>rn_Results := rn_Results run @ results\<rparr>) sr1)
      })"

definition SetToolVersionType :: "string \<Rightarrow> sarifReport \<Rightarrow> sarifReport" where
  "SetToolVersionType runType sr =
     (if runType = [] then sr
      else sr\<lparr>rp_Runs := map (\<lambda>run. run\<lparr>rn_Driver := (rn_Driver run)\<lparr>dr_ToolVersion := runType\<rparr>\<rparr>) (rp_Runs sr)\<rparr>)"

definition AddTags :: "int \<Rightarrow> DiffAware \<Rightarrow> sarifReport \<Rightarrow> string option \<times> sarifReport" where
  "AddTags scanDuration diffAware sr =
     (if length (rp_Runs sr) \<noteq> 1 then (Some ''sarifReport must have exactly one run'', sr)
      else if df_Enabled diffAware \<and>
        (df_BaseSha diffAware = [] \<or> df_Files diffAware = [] \<or> df_ConfigDigest diffAware = [])
      then (Some (''diffAware enabled but base sha '' @ df_BaseSha diffAware @ '', files '' @ df_Files diffAware @
        '', config digest '' @ df_ConfigDigest diffAware @ '' provided''), sr)
      else
        (let tagsToAppend = [GetScanDurationTag scanDuration, GetDiffAwareEnabledTag diffAware] @
           (if df_Enabled diffAware
            then [GetDiffAwareConfigDigestTag diffAware, GetDiffAwareBaseShaTag diffAware, GetDiffAwareFilesTag diffAware]
            else [])
         in (None, with_run (\<lambda>run. run\<lparr>rn_Driver := (rn_Driver run)\<lparr>dr_Tags := dr_Tags (rn_Driver run) @ tagsToAppend\<rparr>\<rparr>) sr)))"

text \<open>\<open>Runs[0]\<close> panics without a run; each result has its one location.\<close>

definition ResolveFilepaths :: "string \<Rightarrow> sarifReport \<Rightarrow> sarifReport option" where
  "ResolveFilepaths basePath sr =
     (if rp_Runs sr = [] then None
      else Some (with_run (\<lambda>run. run\<lparr>rn_Results :=
        map (\<lambda>r. r\<lparr>st_URI := trim_prefix (st_URI r) (basePath @ ''/'')\<rparr>) (rn_Results run)\<rparr>) sr))"

text \<open>The loop of \<open>PrintSarifReport\<close> over the queries, with the numbers it asks \<open>GetGUIDFromRelationships\<close> for,
  and the calls after it; the error of \<open>AddTags\<close> is dropped.\<close>

fun sarif_issues :: "sarif_env \<Rightarrow> SCIInfo \<Rightarrow> nat \<Rightarrow> QuerySummary list \<Rightarrow> sarifReport \<Rightarrow> sarifReport option" where
  "sarif_issues env sciInfo idx [] sr = Some sr"
| "sarif_issues env sciInfo idx (q # qs) sr = do {
     (x, sr1) \<leftarrow> BuildSarifIssue env sciInfo q sr;
     guid \<leftarrow> (if x \<noteq> [] then GetGUIDFromRelationships idx x sr1 else Some []);
     sarif_issues env sciInfo (idx + 1) qs sr1
   }"

definition sarif_report :: "sarif_env \<Rightarrow> SCIInfo \<Rightarrow> string \<Rightarrow> int \<Rightarrow> 'v Summary \<Rightarrow> sarifReport option" where
  "sarif_report env sciInfo path scanDuration summary = do {
     sr1 \<leftarrow> sarif_issues env sciInfo 0 (sm_Queries summary) (NewSarifReport env);
     let sr2 = snd (AddTags scanDuration (sc_DiffAware sciInfo) sr1);
     sr3 \<leftarrow> ResolveFilepaths path sr2;
     Some (SetToolVersionType (sc_RunType sciInfo) sr3)
   }"

section \<open>Lemmas\<close>

lemma rule_index_absent: "\<forall>r \<in> set rs. su_RuleID r \<noteq> n \<Longrightarrow> rule_index n rs idx = - 1"
  by (induction rs arbitrary: idx) auto

definition query_results :: "sarif_env \<Rightarrow> SCIInfo \<Rightarrow> nat \<Rightarrow> QuerySummary \<Rightarrow> sarifResult list" where
  "query_results env sciInfo i q = concat (map (\<lambda>f. the (file_result env sciInfo q (int i) f)) (qs_Files q))"

lemma those_map_the: "\<forall>x \<in> set xs. f x \<noteq> None \<Longrightarrow> those (map f xs) = Some (map (\<lambda>x. the (f x)) xs)"
  by (induction xs) auto

lemma issue_built:
  assumes "rp_Runs sr = [run]" and "qs_Files q \<noteq> []"
    and "\<forall>r \<in> set (dr_Rules (rn_Driver run)). su_RuleID r \<noteq> qs_QueryID q"
    and "\<forall>f \<in> set (qs_Files q). file_result env sci q (int (length (dr_Rules (rn_Driver run)))) f \<noteq> None"
  shows "BuildSarifIssue env sci q sr = Some (qs_CWE q, sr\<lparr>rp_Runs :=
    [run\<lparr>rn_Driver := (rn_Driver run)\<lparr>dr_Rules := dr_Rules (rn_Driver run) @ [query_rule q]\<rparr>,
         rn_Results := rn_Results run @ query_results env sci (length (dr_Rules (rn_Driver run))) q\<rparr>]\<rparr>)"
  using assms rule_index_absent [OF assms(3)]
  by (simp add: BuildSarifIssue_def buildSarifRule_def findSarifRuleIndex_def at_def with_run_def those_map_the
      query_results_def)

text \<open>No query has an id that is the name of a query, so that no rule is found again\<close>

definition ids_not_names :: "QuerySummary list \<Rightarrow> bool" where
  "ids_not_names qs \<longleftrightarrow> (\<forall>q \<in> set qs. \<forall>q' \<in> set qs. qs_QueryID q \<noteq> qs_QueryName q')"

lemma query_rule_id [simp]: "su_RuleID (query_rule q) = qs_QueryName q"
  by (simp add: query_rule_def Let_def)

lemma sarif_issues_built:
  assumes "\<forall>q \<in> set qs. qs_Files q \<noteq> [] \<and> (\<forall>f \<in> set (qs_Files q). \<forall>i. file_result env sci q i f \<noteq> None)"
    and "ids_not_names qs"
    and "\<forall>q \<in> set qs. \<forall>r \<in> set (dr_Rules (rn_Driver run)). su_RuleID r \<noteq> qs_QueryID q"
    and "rp_Runs sr = [run]" and "length (dr_Rules (rn_Driver run)) = idx"
  shows "sarif_issues env sci idx qs sr = Some (sr\<lparr>rp_Runs :=
    [run\<lparr>rn_Driver := (rn_Driver run)\<lparr>dr_Rules := dr_Rules (rn_Driver run) @ map query_rule qs\<rparr>,
         rn_Results := rn_Results run @ concat (map (\<lambda>(i, q). query_results env sci i q) (enumerate idx qs))\<rparr>]\<rparr>)"
  using assms
proof (induction qs arbitrary: idx run sr)
  case (Cons q qs)
  let ?run = "run\<lparr>rn_Driver := (rn_Driver run)\<lparr>dr_Rules := dr_Rules (rn_Driver run) @ [query_rule q]\<rparr>,
         rn_Results := rn_Results run @ query_results env sci idx q\<rparr>"
  let ?sr = "sr\<lparr>rp_Runs := [?run]\<rparr>"
  have b: "BuildSarifIssue env sci q sr = Some (qs_CWE q, ?sr)"
    using issue_built [of sr run q env sci] Cons.prems by simp
  have g: "GetGUIDFromRelationships idx x ?sr \<noteq> None" for x
    using Cons.prems(5) by (simp add: GetGUIDFromRelationships_def at_def nth_append)
  have n: "qs_QueryID q' \<noteq> qs_QueryName q" if "q' \<in> set qs" for q'
    using Cons.prems(2) that by (simp add: ids_not_names_def)
  have t: "ids_not_names qs" using Cons.prems(2) by (simp add: ids_not_names_def)
  have "sarif_issues env sci (idx + 1) qs ?sr = Some (?sr\<lparr>rp_Runs :=
    [?run\<lparr>rn_Driver := (rn_Driver ?run)\<lparr>dr_Rules := dr_Rules (rn_Driver ?run) @ map query_rule qs\<rparr>,
         rn_Results := rn_Results ?run @ concat (map (\<lambda>(i, q). query_results env sci i q) (enumerate (idx + 1) qs))\<rparr>]\<rparr>)"
    by (rule Cons.IH) (use Cons.prems n t in \<open>auto simp: eq_commute [of "qs_QueryName q"]\<close>)
  with b g [of "qs_CWE q"] show ?case by auto
qed simp

lemma add_tags_run:
  "rp_Runs sr = [run] \<Longrightarrow> \<exists>tags. rp_Runs (snd (AddTags d df sr)) =
     [run\<lparr>rn_Driver := (rn_Driver run)\<lparr>dr_Tags := tags\<rparr>\<rparr>]"
  by (auto simp: AddTags_def with_run_def Let_def intro: exI [of _ "dr_Tags (rn_Driver run)"])

lemma sarif_tail:
  assumes "rp_Runs sr = [run]"
  shows "\<exists>r run'. (do {
      sr3 \<leftarrow> ResolveFilepaths path (snd (AddTags d df sr)); Some (SetToolVersionType v sr3) }) = Some r \<and>
    rp_Runs r = [run'] \<and> dr_Rules (rn_Driver run') = dr_Rules (rn_Driver run) \<and>
    rn_Results run' = map (\<lambda>r. r\<lparr>st_URI := trim_prefix (st_URI r) (path @ ''/'')\<rparr>) (rn_Results run)"
  using add_tags_run [OF assms, of d df]
  by (auto simp: ResolveFilepaths_def SetToolVersionType_def with_run_def)

text \<open>When the results of a query are made without a panic\<close>

definition sarif_safe :: "sarif_env \<Rightarrow> VulnerableFile \<Rightarrow> bool" where
  "sarif_safe env f \<longleftrightarrow>
     located f \<and> vf_Remediation f \<noteq> [] \<and> vf_RemediationType f \<noteq> [] \<longrightarrow>
       fix_safe (se_unmarshal env) f (LocStart (vf_RemediationLocation f))"

lemma file_result_some: "sarif_safe env f \<Longrightarrow> file_result env sci q i f \<noteq> None"
  using TransformToSarifFix_some [of "se_unmarshal env" f "LocStart (vf_RemediationLocation f)"
    "LocEnd (vf_RemediationLocation f)"]
  by (auto simp: sarif_safe_def file_result_def Let_def split: option.splits sum.splits)

lemma file_result_fields:
  assumes "file_result env sci q i f = Some rs"
  shows "map (\<lambda>r. (st_RuleIndex r, st_RuleID r, st_Level r, st_URI r)) rs =
    (if located f then [(i, qs_QueryName q, lookup0 severityLevelEquivalence (qs_Severity q),
       replace_all (vf_FileName f) ''../'' [])] else [])"
  using assms by (auto simp: file_result_def Let_def split: if_splits option.splits sum.splits)

lemma query_results_fields:
  assumes "\<forall>f \<in> set (qs_Files q). sarif_safe env f"
  shows "map (\<lambda>r. (st_RuleIndex r, st_RuleID r, st_Level r, st_URI r)) (query_results env sci i q) =
    map (\<lambda>f. (int i, qs_QueryName q, lookup0 severityLevelEquivalence (qs_Severity q),
      replace_all (vf_FileName f) ''../'' [])) (filter located (qs_Files q))"
proof -
  have "map (\<lambda>r. (st_RuleIndex r, st_RuleID r, st_Level r, st_URI r))
      (concat (map (\<lambda>f. the (file_result env sci q (int i) f)) fs)) =
    map (\<lambda>f. (int i, qs_QueryName q, lookup0 severityLevelEquivalence (qs_Severity q),
      replace_all (vf_FileName f) ''../'' [])) (filter located fs)" if "\<forall>f \<in> set fs. sarif_safe env f" for fs
    using that
  proof (induction fs)
    case (Cons f fs)
    obtain rs where rs: "file_result env sci q (int i) f = Some rs"
      using file_result_some [of env f sci q "int i"] Cons.prems by auto
    then show ?case using Cons file_result_fields [OF rs] by simp
  qed simp
  then show ?thesis using assms by (simp add: query_results_def)
qed

lemma results_resolved:
  assumes "results = map (\<lambda>r. r\<lparr>st_URI := trim_prefix (st_URI r) p\<rparr>)
      (concat (map (\<lambda>(i, q). query_results env sci i q) iqs))"
    and "\<forall>(i, q) \<in> set iqs. \<forall>f \<in> set (qs_Files q). sarif_safe env f"
  shows "map (\<lambda>r. (st_RuleIndex r, st_RuleID r, st_Level r, st_URI r)) results =
    concat (map (\<lambda>(i, q). map (\<lambda>f. (int i, qs_QueryName q, lookup0 severityLevelEquivalence (qs_Severity q),
        trim_prefix (replace_all (vf_FileName f) ''../'' []) p)) (filter located (qs_Files q))) iqs)"
proof -
  let ?t = "\<lambda>(a, b, c, d). (a, b, c, trim_prefix d p)"
  have "map (\<lambda>r. (st_RuleIndex r, st_RuleID r, st_Level r, st_URI r)) results =
    map ?t (concat (map (\<lambda>(i, q). map (\<lambda>r. (st_RuleIndex r, st_RuleID r, st_Level r, st_URI r))
      (query_results env sci i q)) iqs))"
    by (simp add: assms(1) map_concat comp_def case_prod_beta)
  also have "map (\<lambda>(i, q). map (\<lambda>r. (st_RuleIndex r, st_RuleID r, st_Level r, st_URI r))
      (query_results env sci i q)) iqs =
    map (\<lambda>(i, q). map (\<lambda>f. (int i, qs_QueryName q, lookup0 severityLevelEquivalence (qs_Severity q),
        replace_all (vf_FileName f) ''../'' [])) (filter located (qs_Files q))) iqs"
    using assms(2) query_results_fields by (intro map_cong) (fastforce simp: case_prod_beta)+
  finally show ?thesis by (simp add: map_concat comp_def case_prod_unfold)
qed


lemma transform_type:
  "TransformToSarifFix unmarshal f ms me = Some (Inr x) \<Longrightarrow> vf_RemediationType f \<in> {''replacement'', ''addition'', ''removal''}"
  by (auto simp: TransformToSarifFix_def split: if_splits)

lemma file_result_region:
  assumes "file_result env sci q i f = Some rs" and "res \<in> set rs"
  shows "if st_Fixes res = []
     then 1 \<le> sg_StartLine (st_Region res) \<and>
       LineNo (LocStart (vf_ResourceLocation f)) \<le> sg_StartLine (st_Region res) \<and>
       sg_EndLine (st_Region res) \<le> LineNo (LocEnd (vf_ResourceLocation f))
     else sg_StartLine (st_Region res) = LineNo (LocStart (vf_RemediationLocation f)) \<and>
       sg_EndLine (st_Region res) = LineNo (LocEnd (vf_RemediationLocation f)) \<and>
       vf_RemediationType f \<in> {''replacement'', ''addition'', ''removal''}"
proof -
  have l: "located f" using assms by (auto simp: file_result_def split: if_splits)
  then have g: "1 \<le> sg_StartLine (result_region f) \<and>
       LineNo (LocStart (vf_ResourceLocation f)) \<le> sg_StartLine (result_region f) \<and>
       sg_EndLine (result_region f) \<le> LineNo (LocEnd (vf_ResourceLocation f))"
    by (auto simp: result_region_def located_def Let_def)
  show ?thesis
  proof (cases "vf_Remediation f \<noteq> [] \<and> vf_RemediationType f \<noteq> []")
    case False
    then show ?thesis using assms l g by (auto simp: file_result_def Let_def)
  next
    case True
    then show ?thesis using assms l g
      by (auto simp: file_result_def Let_def split: option.splits sum.splits dest: transform_type)
  qed
qed

definition made_by :: "sarif_env \<Rightarrow> SCIInfo \<Rightarrow> QuerySummary set \<Rightarrow> sarifResult \<Rightarrow> bool" where
  "made_by env sci Q res \<longleftrightarrow>
     (\<exists>q \<in> Q. \<exists>f \<in> set (qs_Files q). \<exists>i rs. file_result env sci q i f = Some rs \<and> res \<in> set rs)"

lemma issue_results:
  assumes "BuildSarifIssue env sci q sr = Some (x, sr')" and "q \<in> Q"
    and "\<forall>run \<in> set (rp_Runs sr). \<forall>res \<in> set (rn_Results run). made_by env sci Q res"
  shows "\<forall>run \<in> set (rp_Runs sr'). \<forall>res \<in> set (rn_Results run). made_by env sci Q res"
proof (cases "qs_Files q = []")
  case True
  then show ?thesis using assms by (simp add: BuildSarifIssue_def)
next
  case False
  with assms(1) obtain i sr1 rss where r: "buildSarifRule q sr = Some (i, sr1)"
      "those (map (file_result env sci q i) (qs_Files q)) = Some rss"
      "sr' = with_run (\<lambda>run. run\<lparr>rn_Results := rn_Results run @ concat rss\<rparr>) sr1"
    by (auto simp: BuildSarifIssue_def bind_eq_Some_conv)
  have new: "made_by env sci Q res" if "res \<in> set (concat rss)" for res
  proof -
    from that obtain rs where "rs \<in> set rss" "res \<in> set rs" by auto
    moreover then obtain f where "f \<in> set (qs_Files q)" "file_result env sci q i f = Some rs"
      using those_map_mem [OF r(2)] by auto
    ultimately show ?thesis using assms(2) by (auto simp: made_by_def)
  qed
  have "\<forall>run \<in> set (rp_Runs sr1). \<forall>res \<in> set (rn_Results run). made_by env sci Q res"
    using r(1) assms(3)
    by (auto simp: buildSarifRule_def bind_eq_Some_conv with_run_def split: if_splits list.splits)
  then show ?thesis using new r(3) by (auto simp: with_run_def split: list.splits)
qed

lemma sarif_issues_results:
  "sarif_issues env sci idx qs sr = Some sr' \<Longrightarrow> set qs \<subseteq> Q \<Longrightarrow>
     \<forall>run \<in> set (rp_Runs sr). \<forall>res \<in> set (rn_Results run). made_by env sci Q res \<Longrightarrow>
     \<forall>run \<in> set (rp_Runs sr'). \<forall>res \<in> set (rn_Results run). made_by env sci Q res"
proof (induction qs arbitrary: idx sr)
  case (Cons q qs)
  then obtain x sr1 where b: "BuildSarifIssue env sci q sr = Some (x, sr1)"
      and r: "sarif_issues env sci (idx + 1) qs sr1 = Some sr'"
    by (auto simp: bind_eq_Some_conv)
  show ?case by (rule Cons.IH [OF r _ issue_results [OF b]]) (use Cons.prems in auto)
qed simp

lemma with_run_mem:
  "run \<in> set (rp_Runs (with_run g sr)) \<Longrightarrow> \<exists>run' \<in> set (rp_Runs sr). run = g run' \<or> run = run'"
  by (cases "rp_Runs sr") (auto simp: with_run_def)

lemma add_tags_mem:
  "run \<in> set (rp_Runs (snd (AddTags d df sr))) \<Longrightarrow> \<exists>run' \<in> set (rp_Runs sr). rn_Results run = rn_Results run'"
  by (auto simp: AddTags_def Let_def split: if_splits dest!: with_run_mem)

lemma set_version_mem:
  "run \<in> set (rp_Runs (SetToolVersionType v sr)) \<Longrightarrow> \<exists>run' \<in> set (rp_Runs sr). rn_Results run = rn_Results run'"
  by (auto simp: SetToolVersionType_def split: if_splits)

lemma resolve_mem:
  assumes "ResolveFilepaths p sr = Some sr'" and "run \<in> set (rp_Runs sr')" and "res \<in> set (rn_Results run)"
  shows "\<exists>run' \<in> set (rp_Runs sr). \<exists>res' \<in> set (rn_Results run').
    st_Region res' = st_Region res \<and> st_Fixes res' = st_Fixes res"
proof -
  let ?g = "\<lambda>run. run\<lparr>rn_Results := map (\<lambda>r. r\<lparr>st_URI := trim_prefix (st_URI r) (p @ ''/'')\<rparr>) (rn_Results run)\<rparr>"
  have "run \<in> set (rp_Runs (with_run ?g sr))"
    using assms(1,2) by (auto simp: ResolveFilepaths_def split: if_splits)
  then obtain run' where "run' \<in> set (rp_Runs sr)" "run = ?g run' \<or> run = run'"
    using with_run_mem by blast
  with assms(3) show ?thesis by force
qed

lemma report_results:
  assumes "sarif_report env sci path d s = Some r" and "run \<in> set (rp_Runs r)" and "res \<in> set (rn_Results run)"
  shows "\<exists>res'. made_by env sci (set (sm_Queries s)) res' \<and> st_Region res' = st_Region res \<and> st_Fixes res' = st_Fixes res"
proof -
  from assms(1) obtain sr sr3 where sr: "sarif_issues env sci 0 (sm_Queries s) (NewSarifReport env) = Some sr"
      and t: "ResolveFilepaths path (snd (AddTags d (sc_DiffAware sci) sr)) = Some sr3"
        "r = SetToolVersionType (sc_RunType sci) sr3"
    by (auto simp: sarif_report_def bind_eq_Some_conv Let_def)
  have m: "\<forall>run \<in> set (rp_Runs sr). \<forall>res \<in> set (rn_Results run). made_by env sci (set (sm_Queries s)) res"
    by (rule sarif_issues_results [OF sr]) (auto simp: NewSarifReport_def initSarifRun_def)
  from assms(2,3) t(2) obtain run3 where "run3 \<in> set (rp_Runs sr3)" "res \<in> set (rn_Results run3)"
    using set_version_mem by metis
  from resolve_mem [OF t(1) this] m show ?thesis using add_tags_mem by metis
qed

lemma report_complete:
  assumes "\<forall>q \<in> set (sm_Queries s). qs_Files q \<noteq> [] \<and> (\<forall>f \<in> set (qs_Files q). sarif_safe env f)"
    and "ids_not_names (sm_Queries s)"
  shows "\<exists>r run. sarif_report env sci path d s = Some r \<and> rp_Runs r = [run] \<and>
    map su_RuleID (dr_Rules (rn_Driver run)) = map qs_QueryName (sm_Queries s) \<and>
    map (\<lambda>r. (st_RuleIndex r, st_RuleID r, st_Level r, st_URI r)) (rn_Results run) =
      concat (map (\<lambda>(i, q). map (\<lambda>f. (int i, qs_QueryName q, lookup0 severityLevelEquivalence (qs_Severity q),
          trim_prefix (replace_all (vf_FileName f) ''../'' []) (path @ ''/''))) (filter located (qs_Files q)))
        (enumerate 0 (sm_Queries s)))"
proof -
  let ?results = "concat (map (\<lambda>(i, q). query_results env sci i q) (enumerate 0 (sm_Queries s)))"
  let ?drv = "(initSarifTool env)\<lparr>dr_Rules := map query_rule (sm_Queries s)\<rparr>"
  define run1 where "run1 = \<lparr>rn_Driver = ?drv, rn_Results = ?results, rn_Taxonomies = []\<rparr>"
  define sr1 where "sr1 = (NewSarifReport env)\<lparr>rp_Runs := [run1]\<rparr>"
  have issues: "sarif_issues env sci 0 (sm_Queries s) (NewSarifReport env) = Some sr1"
    using sarif_issues_built [of "sm_Queries s" env sci "hd (initSarifRun env)" "NewSarifReport env" 0] assms file_result_some
    by (simp add: NewSarifReport_def initSarifRun_def initSarifTool_def sr1_def run1_def)
  have "rp_Runs sr1 = [run1]" by (simp add: sr1_def)
  from sarif_tail [OF this, of path d "sc_DiffAware sci" "sc_RunType sci"] obtain r run where r: "(do {
      sr3 \<leftarrow> ResolveFilepaths path (snd (AddTags d (sc_DiffAware sci) sr1)); Some (SetToolVersionType (sc_RunType sci) sr3) }) = Some r"
    "rp_Runs r = [run]" "dr_Rules (rn_Driver run) = map query_rule (sm_Queries s)"
    "rn_Results run = map (\<lambda>r. r\<lparr>st_URI := trim_prefix (st_URI r) (path @ ''/'')\<rparr>) ?results"
    by (auto simp: run1_def)
  have "map (\<lambda>r. (st_RuleIndex r, st_RuleID r, st_Level r, st_URI r)) (rn_Results run) =
      concat (map (\<lambda>(i, q). map (\<lambda>f. (int i, qs_QueryName q, lookup0 severityLevelEquivalence (qs_Severity q),
          trim_prefix (replace_all (vf_FileName f) ''../'' []) (path @ ''/''))) (filter located (qs_Files q)))
        (enumerate 0 (sm_Queries s)))"
    by (rule results_resolved [OF r(4)]) (use assms in \<open>auto simp: in_set_enumerate_eq\<close>)
  moreover have "sarif_report env sci path d s = Some r"
    using issues r(1) by (simp add: sarif_report_def Let_def)
  ultimately show ?thesis using r(2,3) by (auto simp: comp_def)
qed

definition example_query :: QuerySummary where
  "example_query =
     \<lparr>qs_QueryName = ''n'', qs_QueryID = ''i'', qs_QueryURI = [], qs_Severity = SeverityHigh, qs_Platform = ''p'',
      qs_CWE = ''1'', qs_CloudProvider = [], qs_Category = ''c'', qs_Experimental = False, qs_Description = [],
      qs_DescriptionID = [], qs_CISDescriptionIDFormatted = [], qs_CISDescriptionTitle = [],
      qs_CISDescriptionTextFormatted = [], qs_CISDescriptionID = [], qs_Files = [example_fixable]\<rparr>"

definition example_scan :: "unit Summary" where
  "example_scan =
     \<lparr>sm_LatestVersion = (), sm_Counters = example_counters,
      sm_SeveritySummary = \<lparr>ss_ScanID = [], ss_SeverityCounters = [], ss_TotalCounter = 1, ss_TotalBOMResources = 0\<rparr>,
      sm_ScannedPaths = [], sm_Queries = [example_query], sm_Bom = [], sm_FilePaths = []\<rparr>"

definition example_sarif_env :: sarif_env where
  "example_sarif_env =
     \<lparr>se_unmarshal = (\<lambda>s. Inl ''err''), se_sha256_hex = id, se_Version = ''1'', se_Abs = Some, se_join = concat,
      se_read_cwe = (\<lambda>p. None), se_read_csv = (\<lambda>p. None), se_uuid = (\<lambda>n. ''u'')\<rparr>"

definition example_sci :: SCIInfo where
  "example_sci =
     \<lparr>sc_RunType = [], sc_RepositoryUrl = ''r'',
      sc_DiffAware = \<lparr>df_Enabled = False, df_ConfigDigest = [], df_BaseSha = [], df_Files = []\<rparr>\<rparr>"

lemma example_sarif:
  "\<forall>q \<in> set (sm_Queries example_scan). qs_Files q \<noteq> [] \<and> (\<forall>f \<in> set (qs_Files q). sarif_safe example_sarif_env f)"
  "ids_not_names (sm_Queries example_scan)"
  "filter located (qs_Files example_query) = [example_fixable]"
  by (simp_all add: example_scan_def example_query_def sarif_safe_def fix_safe_def fix_place_def example_fixable_def
      example_sarif_env_def ids_not_names_def located_def)

section \<open>Properties\<close>





end
