(* ===== verification/Secrets.thy ===== *)
theory Secrets
  imports Service YamlDoc Complex_Main "HOL-Library.Multiset"
begin

text \<open>
  \<open>pkg/engine/secrets/inspector.go\<close>: the search for passwords and other secrets. A compiled
  expression is known by the submatches it finds, which are parameters, as the rules are read when a scan
  starts; so are the timer of a query and the order in which the goroutines of a file take the
  lock. The entropies are real numbers, where the code rounds them to \<open>float64\<close>.
\<close>

section \<open>Compiled expressions\<close>

text \<open>
  \<open>FindAllStringSubmatchIndex\<close>: for each match where it begins and ends, and where its groups do;
  a group that takes no part in the match has negative positions.
\<close>

record regexp =
  re_FindAll :: "string \<Rightarrow> ((int \<times> int) \<times> (int \<times> int) list) list"

definition submatch :: "string \<Rightarrow> int \<times> int \<Rightarrow> string" where
  "submatch s p = (if fst p < 0 then [] else take (nat (snd p - fst p)) (drop (nat (fst p)) s))"

definition FindAllStringSubmatch :: "regexp \<Rightarrow> string \<Rightarrow> string list list" where
  "FindAllStringSubmatch re s = map (\<lambda>(m, gs). map (submatch s) (m # gs)) (re_FindAll re s)"

definition FindAllStringIndex :: "regexp \<Rightarrow> string \<Rightarrow> (int \<times> int) list" where
  "FindAllStringIndex re s = map fst (re_FindAll re s)"

definition FindStringIndex :: "regexp \<Rightarrow> string \<Rightarrow> (int \<times> int) option" where
  "FindStringIndex re s = (case FindAllStringIndex re s of [] \<Rightarrow> None | p # ps \<Rightarrow> Some p)"

definition FindString :: "regexp \<Rightarrow> string \<Rightarrow> string" where
  "FindString re s = (case FindStringIndex re s of None \<Rightarrow> [] | Some p \<Rightarrow> submatch s p)"

section \<open>Rules\<close>

record Entropy =
  en_Group :: int
  en_Min :: real
  en_Max :: real

record AllowRule =
  ar_RegexStr :: string
  ar_Regex :: regexp

record RegexQuery =
  rq_ID :: string
  rq_Name :: string
  rq_DetectLineGroup :: int
  rq_RegexStr :: string
  rq_SpecialMask :: string
  rq_Entropies :: "Entropy list"
  rq_AllowRules :: "AllowRule list"
  rq_Regex :: regexp

fun CompileRegex :: "(string \<Rightarrow> string + regexp) \<Rightarrow> AllowRule list \<Rightarrow> string + AllowRule list" where
  "CompileRegex compile [] = Inr []"
| "CompileRegex compile (r # rs) =
     bind_err (compile (ar_RegexStr r)) (\<lambda>compiledRegex.
       bind_err (CompileRegex compile rs) (\<lambda>rs'. Inr (r\<lparr>ar_Regex := compiledRegex\<rparr> # rs')))"

definition AllowRuleMatches :: "string \<Rightarrow> AllowRule list \<Rightarrow> (int \<times> int) list" where
  "AllowRuleMatches s allowRules = concat (map (\<lambda>r. FindAllStringIndex (ar_Regex r) s) allowRules)"

definition IsAllowRule :: "string \<Rightarrow> RegexQuery \<Rightarrow> AllowRule list \<Rightarrow> bool" where
  "IsAllowRule s query allowRules =
     (case FindStringIndex (rq_Regex query) s of
        None \<Rightarrow> False
      | Some (regexStart, regexEnd) \<Rightarrow>
          list_ex (\<lambda>(allowStart, allowEnd).
              allowStart \<le> regexEnd \<and> allowStart \<ge> regexStart \<or>
              regexStart \<le> allowEnd \<and> regexStart \<ge> allowStart)
            (AllowRuleMatches s (rq_AllowRules query @ allowRules)))"

section \<open>\<open>isSecret\<close>\<close>

text \<open>
  The loop over the matches of a text, and the search begun for a text (\<open>None\<close>). The condition of the
  code compares the number of matches with the number of the group; the matches that the calls for
  the rest of the text add are counted, but not visited. The result is \<open>None\<close> when a group is not
  there (a panic) or when the calls do not end.
\<close>

definition last_line_with :: "int \<Rightarrow> string list list \<Rightarrow> string list \<Rightarrow> string list \<Rightarrow> nat option option" where
  "last_line_with detectLineGroup groups matched splitedText =
     (if int (length groups) < detectLineGroup then do {
        g \<leftarrow> Prelude.at matched detectLineGroup;
        Some (case filter (\<lambda>i. contains (splitedText ! i) g) [0..<length splitedText] of
                [] \<Rightarrow> None | i # is \<Rightarrow> Some (last (i # is)))
      }
      else Some None)"

definition without_line :: "string list \<Rightarrow> nat \<Rightarrow> string" where
  "without_line splitedText i = join (take i splitedText @ drop (Suc i) splitedText) [CHR 0x0A]"

partial_function (option) secret_search ::
  "regexp \<Rightarrow> int \<Rightarrow> (string \<Rightarrow> bool) \<Rightarrow> string \<Rightarrow> (string list list \<times> string list list) option \<Rightarrow>
     string list list option" where
  "secret_search re detectLineGroup allowed s run =
     (case run of
        None \<Rightarrow>
          (if allowed s then Some []
           else secret_search re detectLineGroup allowed s
                  (Some (FindAllStringSubmatch re s, FindAllStringSubmatch re s)))
      | Some (todo, groups) \<Rightarrow>
          (case todo of
             [] \<Rightarrow> Some groups
           | matched # todo' \<Rightarrow>
               (case last_line_with detectLineGroup groups matched (split_on s [CHR 0x0A]) of
                  None \<Rightarrow> None
                | Some None \<Rightarrow> secret_search re detectLineGroup allowed s (Some (todo', groups))
                | Some (Some i) \<Rightarrow>
                    Option.bind
                      (secret_search re detectLineGroup allowed (without_line (split_on s [CHR 0x0A]) i) None)
                      (\<lambda>newGroups.
                        secret_search re detectLineGroup allowed s (Some (todo', groups @ newGroups))))))"

declare secret_search.simps [code]

definition isSecret :: "AllowRule list \<Rightarrow> string \<Rightarrow> RegexQuery \<Rightarrow> (bool \<times> string list list) option" where
  "isSecret allowRules s query =
     map_option (\<lambda>groups. (groups \<noteq> [], groups))
       (secret_search (rq_Regex query) (rq_DetectLineGroup query)
          (\<lambda>s. IsAllowRule s query (rq_AllowRules query @ allowRules)) s None)"

section \<open>Entropy\<close>

definition Base64Chars :: string where
  "Base64Chars = ''ABCDEFGHIJKLMNOPQRSTUVWXYZabcdefghijklmnopqrstuvwxyz0123456789+/=''"

definition HexChars :: string where
  "HexChars = ''1234567890abcdefABCDEF''"

definition calculateEntropy :: "string \<Rightarrow> string \<Rightarrow> real" where
  "calculateEntropy token charSet =
     (if token = [] then 0
      else let counts = map (\<lambda>c. real (count_list token c)) (remdups (filter (\<lambda>c. c \<in> set charSet) token));
               freq = (\<Sum>count \<leftarrow> counts. count * log 2 count);
               len = real (length token)
           in log 2 len - freq / len)"

text \<open>The logarithm of a real number is not computed: an entropy stays as it is in an evaluation.\<close>

declare calculateEntropy_def [code del]

definition insideInterval :: "Entropy \<Rightarrow> real \<Rightarrow> bool" where
  "insideInterval entropy floatEntropy \<longleftrightarrow> floatEntropy \<ge> en_Min entropy \<and> floatEntropy \<le> en_Max entropy"

definition CheckEntropyInterval :: "Entropy \<Rightarrow> string \<Rightarrow> bool \<times> real" where
  "CheckEntropyInterval entropy token =
     (let base64Entropy = calculateEntropy token Base64Chars;
          hexEntropy = calculateEntropy token HexChars;
          highestEntropy = max base64Entropy hexEntropy
      in if insideInterval entropy base64Entropy \<or> insideInterval entropy hexEntropy
         then (True, highestEntropy) else (False, highestEntropy))"

section \<open>Masking\<close>

definition secret_mask :: string where
  "secret_mask = ''<SECRET-MASKED-ON-PURPOSE>''"

record secrets_env =
  sn_sha :: "string \<Rightarrow> string"
  sn_metadata :: "string \<Rightarrow> string"
  sn_compile :: "string \<Rightarrow> string + regexp"
  sn_yaml :: "string \<Rightarrow> string + ynode"
  sn_expired :: "nat \<Rightarrow> nat \<Rightarrow> bool"
  sn_order :: "nat \<Rightarrow> nat \<Rightarrow> (Vulnerability \<times> SecretTracker list) list list \<Rightarrow>
                 (Vulnerability \<times> SecretTracker list) list"

text \<open>\<open>regexp.MustCompile\<close> panics on an expression that is wrong.\<close>

definition MustCompile :: "secrets_env \<Rightarrow> string \<Rightarrow> regexp option" where
  "MustCompile env s = (case sn_compile env s of Inl err \<Rightarrow> None | Inr re \<Rightarrow> Some re)"

definition secret_tracked :: "VulnerabilityLines \<Rightarrow> string \<Rightarrow> string \<Rightarrow> SecretTracker" where
  "secret_tracked linesVuln original masked =
     \<lparr>st_ResolvedFilePath = vl_ResolvedFile linesVuln, st_Line = vl_Line linesVuln,
      st_OriginalContent = original, st_MaskedContent = masked\<rparr>"

definition mask_issue_line :: "secrets_env \<Rightarrow> RegexQuery \<Rightarrow> string \<Rightarrow> string option" where
  "mask_issue_line env query issueLine =
     (let special = rq_SpecialMask query in do {
        re \<leftarrow> MustCompile env (if special \<noteq> [] then ''(.*)'' @ special else rq_RegexStr query);
        let matched = FindString re issueLine;
        let matched = (if special \<noteq> [] then drop (length matched) issueLine else matched);
        Some (if matched \<noteq> [] then go_replace issueLine matched secret_mask 1 else secret_mask)
      })"

fun hide_lines ::
  "secrets_env \<Rightarrow> VulnerabilityLines \<Rightarrow> string \<Rightarrow> RegexQuery \<Rightarrow> nat \<Rightarrow> CodeLine list \<Rightarrow>
     (CodeLine list \<times> SecretTracker list) option" where
  "hide_lines env linesVuln issueLine query idx [] = Some ([], [])"
| "hide_lines env linesVuln issueLine query idx (l # ls) = do {
     (l', ts) \<leftarrow>
       (if rq_SpecialMask query = ''all'' \<and> idx \<noteq> 0 then
          Some (l\<lparr>CodeText := secret_mask\<rparr>, [secret_tracked linesVuln (CodeText l) secret_mask])
        else if CodeText l = issueLine then do {
          masked \<leftarrow> mask_issue_line env query issueLine;
          Some (l\<lparr>CodeText := masked\<rparr>, [secret_tracked linesVuln (CodeText l) masked])
        }
        else Some (l, []));
     (ls', ts') \<leftarrow> hide_lines env linesVuln issueLine query (Suc idx) ls;
     Some (l' # ls', ts @ ts')
   }"

definition hideSecret ::
  "secrets_env \<Rightarrow> VulnerabilityLines \<Rightarrow> string \<Rightarrow> RegexQuery \<Rightarrow> (CodeLine list \<times> SecretTracker list) option" where
  "hideSecret env linesVuln issueLine query =
     hide_lines env linesVuln issueLine query 0 (vl_VulnLines linesVuln)"

section \<open>Results\<close>

record SecretsInspector =
  si_detector :: DetectLine
  si_excludeResults :: "(string, bool) gomap"
  si_regexQueries :: "RegexQuery list"
  si_allowRules :: "AllowRule list"
  si_vulnerabilities :: "Vulnerability list"
  si_SecretTracker :: "SecretTracker list"
  si_ignore :: ignore

definition GetQueriesLength :: "SecretsInspector \<Rightarrow> int" where
  "GetQueriesLength c = int (length (si_regexQueries c))"

definition ignoreLine :: "int \<Rightarrow> int list \<Rightarrow> bool" where
  "ignoreLine lineNumber linesIgnore = list_ex (\<lambda>l. lineNumber = l) linesIgnore"

text \<open>What a call adds to the results and the tracked secrets, under the lock: one result or none.\<close>

type_synonym added = "Vulnerability \<times> SecretTracker list"

definition addVulnerability ::
  "secrets_env \<Rightarrow> SecretsInspector \<Rightarrow> string list \<Rightarrow> FileMetadata \<Rightarrow> RegexQuery \<Rightarrow> int \<Rightarrow> string \<Rightarrow>
     added list option" where
  "addVulnerability env c basePaths file query lineNumber issueLine =
     (if ShouldSkipVulnerability (f_Commands file) (rq_ID query) then Some []
      else
        (let simID = (case ComputeSimilarityID (sn_sha env) basePaths (f_FilePath file) (rq_ID query)
                             (itoa lineNumber) [] of Inl err \<Rightarrow> None | Inr sim \<Rightarrow> Some sim) in
         if map_of (si_excludeResults c) (PtrStringToString simID) \<noteq> None then Some []
         else do {
           linesVuln \<leftarrow> GetAdjacent (si_detector c) file (lineNumber + 1);
           if ignoreLine (vl_Line linesVuln) (f_LinesIgnore file) then Some []
           else do {
             (vulnLines, tracked) \<leftarrow> hideSecret env linesVuln issueLine query;
             Some [(zero_vulnerability
               \<lparr>v_QueryID := rq_ID query,
                v_QueryName := sn_metadata env ''queryName'' @ '' - '' @ rq_Name query,
                v_SimilarityID := PtrStringToString simID,
                v_FileID := f_ID file,
                v_FileName := f_FilePath file,
                v_Line := vl_Line linesVuln,
                v_VulnLines := vulnLines,
                v_IssueType := ''RedundantAttribute'',
                v_Platform := sn_metadata env ''platform'',
                v_Severity := SeverityHigh,
                v_QueryURI := sn_metadata env ''descriptionUrl'',
                v_Category := sn_metadata env ''category'',
                v_Description := sn_metadata env ''descriptionText'',
                v_DescriptionID := sn_metadata env ''descriptionID'',
                v_KeyExpectedValue := ''Hardcoded secret key should not appear in source'',
                v_KeyActualValue := ''Hardcoded secret key appears in source'',
                v_CloudProvider := sn_metadata env ''cloudProvider''\<rparr>, tracked)]
           }
         }))"

definition add_to_results :: "SecretsInspector \<Rightarrow> added list \<Rightarrow> SecretsInspector" where
  "add_to_results c adds =
     c\<lparr>si_vulnerabilities := si_vulnerabilities c @ map fst adds,
       si_SecretTracker := si_SecretTracker c @ concat (map snd adds)\<rparr>"

text \<open>
  The loop over the entropies of a rule; the flag tells that a group was not there, where the code
  returns from the whole call.
\<close>

fun check_entropies :: "added list option \<Rightarrow> string list \<Rightarrow> Entropy list \<Rightarrow> (added list \<times> bool) option" where
  "check_entropies add groups [] = Some ([], False)"
| "check_entropies add groups (entropy # entropies) =
     (if int (length groups) \<le> en_Group entropy then Some ([], True)
      else do {
        token \<leftarrow> Prelude.at groups (en_Group entropy);
        adds \<leftarrow> (if fst (CheckEntropyInterval entropy token) then add else Some []);
        (adds', ended) \<leftarrow> check_entropies add groups entropies;
        Some (adds @ adds', ended)
      })"

section \<open>Lines of a multiline match\<close>

record lineVulneInfo =
  li_lineContent :: string
  li_lineNumber :: int
  li_groups :: "string list"

fun first_difference :: "string list \<Rightarrow> string list \<Rightarrow> int \<Rightarrow> (int \<times> string) option option" where
  "first_difference [] rs i = Some None"
| "first_difference (l # ls) [] i = None"
| "first_difference (l # ls) (r # rs) i =
     (if l \<noteq> r then Some (Some (i, l)) else first_difference ls rs (i + 1))"

fun detect_groups ::
  "int \<Rightarrow> string \<Rightarrow> string list \<Rightarrow> int \<Rightarrow> string list list \<Rightarrow> lineVulneInfo list option" where
  "detect_groups detectLineGroup content0 ls realLineUpdater [] = Some []"
| "detect_groups detectLineGroup content0 ls realLineUpdater (groups # vulnGroups) =
     (let info = \<lparr>li_lineContent = ''-'', li_lineNumber = - 1, li_groups = groups\<rparr> in
      if int (length groups) \<le> detectLineGroup then do {
        infos \<leftarrow> detect_groups detectLineGroup content0 ls realLineUpdater vulnGroups;
        Some (info # infos)
      }
      else do {
        g \<leftarrow> Prelude.at groups detectLineGroup;
        let contentMatchRemoved = go_replace content0 g [] 1;
        let contentMatchRemovedLines = split_on (replace_all contentMatchRemoved [CHR 0x0D] []) [CHR 0x0A];
        found \<leftarrow> first_difference ls contentMatchRemovedLines 0;
        let info' = (case found of None \<Rightarrow> info
          | Some (i, l) \<Rightarrow> info\<lparr>li_lineNumber := i + realLineUpdater, li_lineContent := l\<rparr>);
        infos \<leftarrow> detect_groups detectLineGroup contentMatchRemoved contentMatchRemovedLines
                   (realLineUpdater + (int (length ls) - int (length contentMatchRemovedLines))) vulnGroups;
        Some (info' # infos)
      })"

definition secretsDetectLine ::
  "RegexQuery \<Rightarrow> FileMetadata \<Rightarrow> string list list \<Rightarrow> lineVulneInfo list option" where
  "secretsDetectLine query file vulnGroups =
     detect_groups (rq_DetectLineGroup query) (f_OriginalData file) (f_LinesOriginalData file) 0 vulnGroups"

section \<open>The check of a file\<close>

fun check_line_vulns ::
  "secrets_env \<Rightarrow> SecretsInspector \<Rightarrow> string list \<Rightarrow> FileMetadata \<Rightarrow> RegexQuery \<Rightarrow> lineVulneInfo list \<Rightarrow>
     added list option" where
  "check_line_vulns env c basePaths file query [] = Some []"
| "check_line_vulns env c basePaths file query (lineVuln # lineVulns) =
     (let add = addVulnerability env c basePaths file query (li_lineNumber lineVuln) (li_lineContent lineVuln)
      in do {
        adds1 \<leftarrow> (if rq_Entropies query = [] then add else Some []);
        (adds2, ended) \<leftarrow>
          (if length (li_groups lineVuln) > 0 then check_entropies add (li_groups lineVuln) (rq_Entropies query)
           else Some ([], False));
        adds3 \<leftarrow> (if ended then Some [] else check_line_vulns env c basePaths file query lineVulns);
        Some (adds1 @ adds2 @ adds3)
      })"

definition checkFileContent ::
  "secrets_env \<Rightarrow> SecretsInspector \<Rightarrow> RegexQuery \<Rightarrow> string list \<Rightarrow> FileMetadata \<Rightarrow> added list option" where
  "checkFileContent env c query basePaths file = do {
     (secret, groups) \<leftarrow> isSecret (si_allowRules c) (f_OriginalData file) query;
     if \<not> secret then Some []
     else do {
       lineVulns \<leftarrow> secretsDetectLine query file groups;
       check_line_vulns env c basePaths file query lineVulns
     }
   }"

definition checkLineByLine ::
  "secrets_env \<Rightarrow> SecretsInspector \<Rightarrow> RegexQuery \<Rightarrow> string list \<Rightarrow> FileMetadata \<Rightarrow> int \<Rightarrow> string \<Rightarrow>
     added list option" where
  "checkLineByLine env c query basePaths file lineNumber currentLine = do {
     (secret, groups) \<leftarrow> isSecret (si_allowRules c) currentLine query;
     if \<not> secret then Some []
     else (let add = addVulnerability env c basePaths file query lineNumber currentLine in do {
       adds1 \<leftarrow> (if rq_Entropies query = [] then add else Some []);
       (adds2, ended) \<leftarrow> check_entropies add (hd groups) (rq_Entropies query);
       Some (adds1 @ adds2)
     })
   }"

text \<open>
  One goroutine for each line; a panic of one ends the scan. \<open>sn_order\<close> puts what they add in the
  order in which they take the lock.
\<close>

definition checkContent ::
  "secrets_env \<Rightarrow> nat \<Rightarrow> nat \<Rightarrow> RegexQuery \<Rightarrow> string list \<Rightarrow> FileMetadata \<Rightarrow> SecretsInspector \<Rightarrow>
     SecretsInspector option" where
  "checkContent env i idx query basePaths file0 c = do {
     (linesIgnore, ig) \<leftarrow> GetIgnoreLines (sn_yaml env) file0 (si_ignore c);
     let file = file0\<lparr>f_LinesIgnore := linesIgnore\<rparr>;
     let c = c\<lparr>si_ignore := ig\<rparr>;
     adds \<leftarrow>
       (if rq_DetectLineGroup query = 0 then
          map_option (sn_order env i idx)
            (those (map (\<lambda>(n, line). checkLineByLine env c query basePaths file (int n) line)
                      (enumerate 0 (f_LinesOriginalData file))))
        else checkFileContent env c query basePaths file);
     Some (add_to_results c adds)
   }"

section \<open>\<open>Inspect\<close>\<close>

text \<open>\<open>cleanFiles\<close> keeps the first file of each path.\<close>

fun clean_files :: "string set \<Rightarrow> FileMetadata list \<Rightarrow> FileMetadata list" where
  "clean_files keys [] = []"
| "clean_files keys (f # fs) =
     (if f_FilePath f \<in> keys then clean_files keys fs
      else f # clean_files (insert (f_FilePath f) keys) fs)"

definition cleanFiles :: "FileMetadata list \<Rightarrow> FileMetadata list" where
  "cleanFiles fs = clean_files {} fs"

fun inspect_files ::
  "secrets_env \<Rightarrow> nat \<Rightarrow> RegexQuery \<Rightarrow> string list \<Rightarrow> nat \<Rightarrow> FileMetadata list \<Rightarrow> SecretsInspector \<Rightarrow>
     (SecretsInspector \<times> string option) option" where
  "inspect_files env i query basePaths idx [] c = Some (c, None)"
| "inspect_files env i query basePaths idx (f # fs) c =
     (if map_of (f_Commands f) ''ignore'' \<noteq> None then inspect_files env i query basePaths (Suc idx) fs c
      else if sn_expired env i idx then Some (c, Some ''context deadline exceeded'')
      else do {
        c' \<leftarrow> checkContent env i idx query basePaths f c;
        inspect_files env i query basePaths (Suc idx) fs c'
      })"

definition secrets_inspectQuery ::
  "secrets_env \<Rightarrow> string list \<Rightarrow> FileMetadata list \<Rightarrow> nat \<Rightarrow> RegexQuery \<Rightarrow> SecretsInspector \<Rightarrow>
     (SecretsInspector \<times> string option) option" where
  "secrets_inspectQuery env basePaths files i query c =
     inspect_files env i query basePaths 0 (cleanFiles files) c"

fun inspect_secret_queries ::
  "secrets_env \<Rightarrow> string list \<Rightarrow> FileMetadata list \<Rightarrow> nat \<Rightarrow> RegexQuery list \<Rightarrow> SecretsInspector \<Rightarrow>
     (SecretsInspector \<times> string option) option" where
  "inspect_secret_queries env basePaths files i [] c = Some (c, None)"
| "inspect_secret_queries env basePaths files i (query # queries) c = do {
     (c', err) \<leftarrow> secrets_inspectQuery env basePaths files i query c;
     if err \<noteq> None then Some (c', err)
     else inspect_secret_queries env basePaths files (Suc i) queries c'
   }"

definition secrets_Inspect ::
  "secrets_env \<Rightarrow> string list \<Rightarrow> FileMetadata list \<Rightarrow> SecretsInspector \<Rightarrow>
     (SecretsInspector \<times> string option) option" where
  "secrets_Inspect env basePaths files c =
     inspect_secret_queries env basePaths files 0 (si_regexQueries c) c"

section \<open>Lemmas: entropy\<close>

definition frequency :: "string \<Rightarrow> char \<Rightarrow> real" where
  "frequency token c = count_list token c / length token"

lemma sum_counts: "(\<Sum>c \<in> set xs. count_list xs c) = length xs"
  using sum_count_set [of xs "set xs"] by simp

lemma counts_sum:
  "(\<Sum>count \<leftarrow> map (\<lambda>c. real (count_list token c)) (remdups (filter (\<lambda>c. c \<in> set charSet) token)). g count) =
   (\<Sum>c \<in> set token \<inter> set charSet. g (real (count_list token c)))"
proof -
  have "set (remdups (filter (\<lambda>c. c \<in> set charSet) token)) = set token \<inter> set charSet" by auto
  then show ?thesis by (simp add: sum_list_distinct_conv_sum_set comp_def del: set_remdups)
qed

lemma calculateEntropy_sum:
  "token \<noteq> [] \<Longrightarrow> calculateEntropy token charSet = log 2 (length token) -
     (\<Sum>c \<in> set token \<inter> set charSet. real (count_list token c) * log 2 (count_list token c)) / length token"
  unfolding calculateEntropy_def Let_def counts_sum by simp

lemma count_list_pos: "c \<in> set xs \<Longrightarrow> 1 \<le> count_list xs c"
  using count_list_0_iff [of xs c] by (metis One_nat_def Suc_leI neq0_conv)

lemma count_le_length_real: "real (count_list xs c) \<le> real (length xs)"
  using count_le_length [of xs c] by simp

lemma counts_at_most: "(\<Sum>c \<in> set token \<inter> A. real (count_list token c)) \<le> length token"
proof -
  have "(\<Sum>c \<in> set token \<inter> A. real (count_list token c)) \<le> (\<Sum>c \<in> set token. real (count_list token c))"
    by (intro sum_mono2) auto
  also have "\<dots> = length token" using sum_counts [of token] by (metis of_nat_sum)
  finally show ?thesis .
qed

lemma entropy_bounds:
  assumes "token \<noteq> []"
  shows "0 \<le> calculateEntropy token charSet \<and> calculateEntropy token charSet \<le> log 2 (length token)"
proof -
  let ?n = "real (length token)" and ?k = "\<lambda>c. real (count_list token c)" and ?A = "set token \<inter> set charSet"
  have n: "1 \<le> ?n" using assms by (cases token) auto
  have k: "1 \<le> ?k c \<and> ?k c \<le> ?n" if "c \<in> ?A" for c
    using that count_list_pos [of c token] count_le_length_real [of token c] by auto
  have "0 \<le> (\<Sum>c \<in> ?A. ?k c * log 2 (?k c))"
    using k by (intro sum_nonneg mult_nonneg_nonneg zero_le_log_cancel_iff [THEN iffD2]) fastforce+
  moreover have "(\<Sum>c \<in> ?A. ?k c * log 2 (?k c)) \<le> (\<Sum>c \<in> ?A. ?k c * log 2 ?n)"
  proof (intro sum_mono mult_left_mono)
    fix c assume "c \<in> ?A"
    then have "1 \<le> ?k c \<and> ?k c \<le> ?n" by (rule k)
    then show "log 2 (?k c) \<le> log 2 ?n" by (subst log_le_cancel_iff) auto
  qed simp
  moreover have "0 \<le> log 2 ?n" using n by (subst zero_le_log_cancel_iff) auto
  then have "(\<Sum>c \<in> ?A. ?k c * log 2 ?n) \<le> ?n * log 2 ?n"
    unfolding sum_distrib_right [symmetric] using counts_at_most by (intro mult_right_mono) auto
  ultimately have "0 \<le> (\<Sum>c \<in> ?A. ?k c * log 2 (?k c))" "(\<Sum>c \<in> ?A. ?k c * log 2 (?k c)) \<le> log 2 ?n * ?n"
    by (auto simp: mult.commute)
  moreover from this(2) have "(\<Sum>c \<in> ?A. ?k c * log 2 (?k c)) / ?n \<le> log 2 ?n"
    using n by (subst pos_divide_le_eq) auto
  moreover have "(\<Sum>c \<in> ?A. ?k c * log 2 (?k c)) / ?n \<le> log 2 ?n \<Longrightarrow>
      0 \<le> (\<Sum>c \<in> ?A. ?k c * log 2 (?k c)) / ?n \<Longrightarrow> ?thesis"
    by (simp add: calculateEntropy_sum [OF assms])
  ultimately show ?thesis using divide_nonneg_nonneg of_nat_0_le_iff by blast
qed

lemma log_frequency:
  assumes "c \<in> set token"
  shows "frequency token c * log 2 (frequency token c) =
    real (count_list token c) * log 2 (count_list token c) / length token - frequency token c * log 2 (length token)"
proof -
  have "0 < real (count_list token c)" "0 < real (length token)"
    using assms count_list_pos [OF assms] by (auto simp: length_pos_if_in_set)
  then have "log 2 (frequency token c) = log 2 (count_list token c) - log 2 (length token)"
    unfolding frequency_def by (simp add: log_divide)
  then show ?thesis
    unfolding \<open>log 2 (frequency token c) = _\<close> by (simp add: frequency_def diff_divide_distrib right_diff_distrib)
qed

lemma entropy_is_shannon:
  "calculateEntropy token charSet =
     (- (\<Sum>c \<in> set token \<inter> set charSet. frequency token c * log 2 (frequency token c))) +
     (1 - (\<Sum>c \<in> set token \<inter> set charSet. frequency token c)) * log 2 (length token)"
proof (cases "token = []")
  case False
  have "(\<Sum>c \<in> set token \<inter> set charSet. frequency token c * log 2 (frequency token c)) =
      (\<Sum>c \<in> set token \<inter> set charSet. real (count_list token c) * log 2 (count_list token c)) / length token -
      (\<Sum>c \<in> set token \<inter> set charSet. frequency token c) * log 2 (length token)"
    by (simp add: log_frequency sum_subtractf sum_divide_distrib sum_distrib_right)
  then show ?thesis by (simp add: calculateEntropy_sum [OF False] algebra_simps)
qed (simp add: calculateEntropy_def log_def)

lemma frequencies_total: "token \<noteq> [] \<Longrightarrow> set token \<subseteq> A \<Longrightarrow> (\<Sum>c \<in> set token \<inter> A. frequency token c) = 1"
  using sum_counts [of token]
  by (simp add: frequency_def sum_divide_distrib [symmetric] Int_absorb2 flip: of_nat_sum)

section \<open>Lemmas: the search\<close>

lemma length_join: "length (join xs [c]) = (\<Sum>x \<leftarrow> xs. length x) + (length xs - 1)"
proof (induction xs)
  case (Cons x xs)
  then show ?case by (cases "xs = []") (auto simp: join_Cons neq_Nil_conv)
qed simp

lemma without_line_shorter:
  assumes "i < length (split_on s [CHR 0x0A])" and "s \<noteq> []"
  shows "length (without_line (split_on s [CHR 0x0A]) i) < length s"
proof -
  let ?xs = "split_on s [CHR 0x0A]"
  have s: "length s = (\<Sum>x \<leftarrow> ?xs. length x) + (length ?xs - 1)"
    using length_join [of ?xs "CHR 0x0A"] by (simp only: join_split_on)
  have x: "(\<Sum>x \<leftarrow> ?xs. length x) =
      (\<Sum>x \<leftarrow> take i ?xs @ drop (Suc i) ?xs. length x) + length (?xs ! i)"
    by (subst id_take_nth_drop [OF assms(1)]) simp
  show ?thesis
  proof (cases "length ?xs = 1")
    case True
    then show ?thesis using assms by (simp add: without_line_def)
  next
    case False
    then have "2 \<le> length ?xs" using assms(1) by linarith
    then show ?thesis
      using s x assms(1) by (simp add: without_line_def length_join)
  qed
qed

lemma last_line_with_bound:
  assumes "last_line_with d groups found ls = Some (Some i)"
  shows "i < length ls"
proof -
  obtain g where "filter (\<lambda>i. contains (ls ! i) g) [0..<length ls] \<noteq> [] \<and>
      i = last (filter (\<lambda>i. contains (ls ! i) g) [0..<length ls])"
    using assms unfolding last_line_with_def
    by (auto simp del: last.simps filter.simps upt.simps split: if_splits Option.bind_splits list.splits)
      (metis list.discI)
  then have "i \<in> set (filter (\<lambda>i. contains (ls ! i) g) [0..<length ls])" using last_in_set by metis
  then show ?thesis by simp
qed

lemma last_line_with_some:
  "0 \<le> d \<Longrightarrow> d < int (length found) \<Longrightarrow> last_line_with d groups found ls \<noteq> None"
  by (auto simp: last_line_with_def Prelude.at_def)

lemma last_line_with_early: "d \<le> int (length groups) \<Longrightarrow> last_line_with d groups found ls = Some None"
  by (simp add: last_line_with_def)

text \<open>With the whole match or the first group as the one that gives the line, there are no further calls.\<close>

lemma secret_loop_plain:
  "d \<le> 1 \<Longrightarrow> (todo \<noteq> [] \<Longrightarrow> groups \<noteq> []) \<Longrightarrow> secret_search re d allowed s (Some (todo, groups)) = Some groups"
proof (induction todo)
  case (Cons found todo)
  then have "d \<le> int (length groups)" by (cases groups) auto
  then show ?case
    using Cons by (subst secret_search.simps) (simp add: last_line_with_early)
qed (subst secret_search.simps, simp)

lemma secret_search_plain:
  "d \<le> 1 \<Longrightarrow> secret_search re d allowed s None = Some (if allowed s then [] else FindAllStringSubmatch re s)"
  by (subst secret_search.simps) (simp add: secret_loop_plain)

lemma secret_search_returns:
  assumes "0 \<le> d" and groups: "\<And>t found. found \<in> set (FindAllStringSubmatch re t) \<Longrightarrow> d < int (length found)"
    and on_empty: "allowed [] \<or> FindAllStringSubmatch re [] = []"
  shows "secret_search re d allowed s None \<noteq> None"
proof (induction "length s" arbitrary: s rule: less_induct)
  case less
  have loop: "secret_search re d allowed s (Some (todo, gs)) \<noteq> None"
    if "set todo \<subseteq> set (FindAllStringSubmatch re s)" "s = [] \<Longrightarrow> todo = []" for todo gs
    using that
  proof (induction todo arbitrary: gs)
    case (Cons found todo)
    have "last_line_with d gs found (split_on s [CHR 0x0A]) \<noteq> None"
      using Cons.prems groups [of found s] assms(1) by (intro last_line_with_some) auto
    then obtain r where r: "last_line_with d gs found (split_on s [CHR 0x0A]) = Some r" by blast
    have rest: "secret_search re d allowed s (Some (todo, gs')) \<noteq> None" for gs'
      using Cons by auto
    show ?case
    proof (cases r)
      case None
      then show ?thesis using rest [of gs] r by (subst secret_search.simps) simp
    next
      case (Some i)
      then have "i < length (split_on s [CHR 0x0A])" using r last_line_with_bound by blast
      then have "secret_search re d allowed (without_line (split_on s [CHR 0x0A]) i) None \<noteq> None"
        using Cons.prems by (intro less without_line_shorter) auto
      then obtain new where "secret_search re d allowed (without_line (split_on s [CHR 0x0A]) i) None = Some new"
        by blast
      then show ?thesis
        using rest [of "gs @ new"] r Some by (subst secret_search.simps) simp
    qed
  qed (subst secret_search.simps, simp)
  show ?case
  proof (cases "allowed s")
    case False
    then have "s = [] \<Longrightarrow> FindAllStringSubmatch re s = []" using on_empty by auto
    then show ?thesis
      using loop [of "FindAllStringSubmatch re s" "FindAllStringSubmatch re s"] False
      by (subst secret_search.simps) simp
  qed (subst secret_search.simps, simp)
qed

lemma secret_search_stuck:
  assumes "2 \<le> d" "d < int (length found)" and "FindAllStringSubmatch re [] = [found]" "\<not> allowed []"
  shows "secret_search re d allowed [] None = None"
proof (rule ccontr)
  assume "secret_search re d allowed [] None \<noteq> None"
  then obtain gs where gs: "secret_search re d allowed [] None = Some gs" by blast
  have found: "set found \<subseteq> {[]}"
    using assms(3) by (auto simp: FindAllStringSubmatch_def submatch_def)
  have at: "Prelude.at found d = Some []"
  proof -
    have "nat d < length found" using assms(1,2) by linarith
    then have "found ! nat d \<in> set found" by (rule nth_mem)
    then have "found ! nat d = []" using found by blast
    then show ?thesis using assms(1,2) by (simp add: Prelude.at_def)
  qed
  have line: "last_line_with d [found] found (split_on [] [CHR 0x0A]) = Some (Some 0)"
    using assms(1) at by (subst split_on.simps) (simp add: last_line_with_def)
  have empty: "without_line (split_on [] [CHR 0x0A]) 0 = []"
    by (subst split_on.simps) (simp add: without_line_def)
  let ?Q = "\<lambda>re' d' al (s :: string) run. re' = re \<and> d' = d \<and> al = allowed \<and> s = [] \<and>
      (run = None \<or> run = Some ([found], [found]))"
  have "\<not> ?Q re d allowed [] None"
  proof (rule secret_search.raw_induct [where P = "\<lambda>re' d' al s run y. \<not> ?Q re' d' al s run", OF _ gs], rule notI)
    fix f re' d' al s run y
    assume IH: "\<And>re' d' al s run y. f re' d' al s run = Some y \<Longrightarrow> \<not> ?Q re' d' al s run"
      and Q: "?Q re' d' al s run"
      and eq: "(case run of
        None \<Rightarrow> if al s then Some []
          else f re' d' al s (Some (FindAllStringSubmatch re' s, FindAllStringSubmatch re' s))
      | Some (todo, groups) \<Rightarrow> (case todo of [] \<Rightarrow> Some groups
          | matched # todo' \<Rightarrow> (case last_line_with d' groups matched (split_on s [CHR 0x0A]) of
                  None \<Rightarrow> None
                | Some None \<Rightarrow> f re' d' al s (Some (todo', groups))
                | Some (Some i) \<Rightarrow> Option.bind (f re' d' al (without_line (split_on s [CHR 0x0A]) i) None)
                      (\<lambda>newGroups. f re' d' al s (Some (todo', groups @ newGroups)))))) = Some y"
    from Q have "run = None \<or> run = Some ([found], [found])" by simp
    then show False
    proof
      assume "run = None"
      then have "f re d allowed [] (Some ([found], [found])) = Some y" using Q eq assms(3,4) by simp
      then show False using IH by blast
    next
      assume "run = Some ([found], [found])"
      then obtain z where "f re d allowed [] None = Some z"
        using Q eq line empty by (auto split: Option.bind_splits)
      then show False using IH by blast
    qed
  qed
  then show False by simp
qed

section \<open>Lemmas: masking\<close>

lemma FindString_sublist: "sublist (FindString re s) s"
proof -
  have "sublist (take n (drop m s)) s" for n m
    by (metis append_take_drop_id sublist_appendI)
  then show ?thesis
    by (auto simp: FindString_def submatch_def split: option.splits)
qed

lemma go_replace_once:
  assumes "contains s old" and "old \<noteq> []"
  shows "contains (go_replace s old new 1) new"
  using assms
proof (induction s)
  case Nil
  then show ?case by (simp add: contains_iff)
next
  case (Cons c s)
  show ?case
  proof (cases "prefix old (c # s)")
    case True
    then show ?thesis
      using Cons.prems(2) by (subst go_replace.simps) (simp add: contains_iff)
  next
    case False
    then have "contains s old" using Cons.prems(1) by (auto simp: contains_iff sublist_Cons_right)
    then have "contains (go_replace s old new 1) new" using Cons by blast
    then show ?thesis
      using False Cons.prems(2) by (subst go_replace.simps) (simp add: contains_iff sublist_Cons_right)
  qed
qed

lemma mask_issue_line_masked:
  assumes "mask_issue_line env query issueLine = Some masked"
  shows "contains masked secret_mask"
proof -
  have "contains issueLine (drop n issueLine)" for n
    unfolding contains_iff using suffix_drop [of n issueLine] by (rule suffix_imp_sublist)
  moreover have "contains issueLine (FindString re issueLine)" for re
    using FindString_sublist by (simp add: contains_iff)
  ultimately show ?thesis
    using assms
    by (auto simp: mask_issue_line_def Let_def intro!: go_replace_once split: Option.bind_splits if_splits)
qed

lemma hide_lines_masked:
  assumes "hide_lines env linesVuln issueLine query idx ls = Some (ls', ts)"
  shows "map Position ls' = map Position ls \<and>
    (\<forall>l \<in> set ls'. contains (CodeText l) secret_mask \<or> CodeText l \<noteq> issueLine \<and> l \<in> set ls)"
  using assms
proof (induction ls arbitrary: idx ls' ts)
  case (Cons l ls)
  then show ?case
    by (fastforce dest: mask_issue_line_masked split: Option.bind_splits if_splits prod.splits)
qed simp

text \<open>Each change of a line is tracked, in their order, under the line of the result.\<close>

lemma hide_lines_tracked:
  assumes "hide_lines env linesVuln issueLine query idx ls = Some (ls', ts)"
  shows "map st_OriginalContent ts = map (CodeText \<circ> snd)
      (filter (\<lambda>(i, l). rq_SpecialMask query = ''all'' \<and> i \<noteq> 0 \<or> CodeText l = issueLine) (enumerate idx ls)) \<and>
    (\<forall>t \<in> set ts. st_Line t = vl_Line linesVuln)"
  using assms
proof (induction ls arbitrary: idx ls' ts)
  case (Cons l ls)
  then show ?case
    by (fastforce simp: secret_tracked_def split: Option.bind_splits if_splits prod.splits)
qed simp

section \<open>Lemmas: what a result says\<close>

definition secret_report :: "secrets_env \<Rightarrow> SecretsInspector \<Rightarrow> FileMetadata \<Rightarrow> RegexQuery \<Rightarrow> int \<Rightarrow> string \<Rightarrow>
    Vulnerability \<Rightarrow> bool" where
  "secret_report env c file query n issueLine v \<longleftrightarrow>
     v_QueryID v = rq_ID query \<and> v_FileID v = f_ID file \<and> v_FileName v = f_FilePath file \<and> v_Line v = n + 1 \<and>
     v_VulnerabilityLocation v = zero_location \<and> \<not> ShouldSkipVulnerability (f_Commands file) (rq_ID query) \<and>
     map_of (si_excludeResults c) (v_SimilarityID v) = None \<and> v_Line v \<notin> set (f_LinesIgnore file) \<and>
     (\<not> contains issueLine secret_mask \<longrightarrow> issueLine \<notin> CodeText ` set (v_VulnLines v))"

lemma ignoreLine_iff [simp]: "ignoreLine n ls \<longleftrightarrow> n \<in> set ls"
  by (auto simp: ignoreLine_def list_ex_iff)

lemma addVulnerability_reports:
  assumes "addVulnerability env c basePaths file query n issueLine = Some adds" and "(v, ts) \<in> set adds"
  shows "secret_report env c file query n issueLine v"
  using assms hide_lines_masked
  by (fastforce simp: addVulnerability_def secret_report_def Let_def hideSecret_def GetAdjacent_def zero_vulnerability_def
      split: if_splits Option.bind_splits prod.splits)

lemma check_entropies_from:
  assumes "check_entropies add groups es = Some (adds, ended)" and "a \<in> set adds"
  shows "\<exists>adds'. add = Some adds' \<and> a \<in> set adds'"
  using assms
proof (induction es arbitrary: adds ended)
  case (Cons e es)
  then show ?case
    by (fastforce split: if_splits Option.bind_splits prod.splits)
qed simp

lemma checkLineByLine_reports:
  assumes "checkLineByLine env c query basePaths file n line = Some adds" and "(v, ts) \<in> set adds"
  shows "secret_report env c file query n line v \<and> (\<exists>groups. isSecret (si_allowRules c) line query = Some (True, groups))"
proof -
  obtain groups add where g: "isSecret (si_allowRules c) line query = Some (True, groups)"
      "addVulnerability env c basePaths file query n line = Some add" "(v, ts) \<in> set add"
    using assms check_entropies_from
    by (fastforce simp: checkLineByLine_def Let_def split: if_splits Option.bind_splits prod.splits)
  then show ?thesis using addVulnerability_reports by blast
qed

lemma check_line_vulns_reports:
  assumes "check_line_vulns env c basePaths file query lvs = Some adds" and "(v, ts) \<in> set adds"
  shows "\<exists>n line. secret_report env c file query n line v"
  using assms
proof (induction lvs arbitrary: adds)
  case (Cons lv lvs)
  let ?add = "addVulnerability env c basePaths file query (li_lineNumber lv) (li_lineContent lv)"
  have "(\<exists>as. ?add = Some as \<and> (v, ts) \<in> set as) \<or>
      (\<exists>as. check_line_vulns env c basePaths file query lvs = Some as \<and> (v, ts) \<in> set as)"
    using Cons.prems check_entropies_from
    by (fastforce simp: Let_def split: if_splits Option.bind_splits prod.splits)
  then show ?case using Cons.IH addVulnerability_reports by blast
qed simp

section \<open>Lemmas: the whole scan\<close>

text \<open>Whatever takes the lock first, everything that is added is added once.\<close>

definition fair_order :: "secrets_env \<Rightarrow> bool" where
  "fair_order env \<longleftrightarrow> (\<forall>i idx ws. mset (sn_order env i idx ws) = mset (concat ws))"

lemma fair_order_set: "fair_order env \<Longrightarrow> set (sn_order env i idx ws) = set (concat ws)"
  unfolding fair_order_def by (metis set_mset_mset)

definition secret_report_of ::
  "secrets_env \<Rightarrow> SecretsInspector \<Rightarrow> FileMetadata \<Rightarrow> RegexQuery \<Rightarrow> Vulnerability \<Rightarrow> bool" where
  "secret_report_of env c f query v \<longleftrightarrow>
     (\<exists>linesIgnore ig ig' n line.
        GetIgnoreLines (sn_yaml env) f ig = Some (linesIgnore, ig') \<and>
        secret_report env c (f\<lparr>f_LinesIgnore := linesIgnore\<rparr>) query n line v \<and>
        (rq_DetectLineGroup query = 0 \<longrightarrow>
           0 \<le> n \<and> n < int (length (f_LinesOriginalData f)) \<and> line = f_LinesOriginalData f ! nat n \<and>
           (\<exists>groups. isSecret (si_allowRules c) line query = Some (True, groups))))"

definition rules_of :: "SecretsInspector \<Rightarrow> DetectLine \<times> (string, bool) gomap \<times> RegexQuery list \<times> AllowRule list" where
  "rules_of c = (si_detector c, si_excludeResults c, si_regexQueries c, si_allowRules c)"

lemma add_to_results_rules [simp]:
  "rules_of (add_to_results c adds) = rules_of c" "rules_of (c\<lparr>si_ignore := ig\<rparr>) = rules_of c"
  by (simp_all add: rules_of_def add_to_results_def)

lemma secret_report_rules:
  "rules_of c = rules_of c' \<Longrightarrow> secret_report env c f q n l v = secret_report env c' f q n l v"
  "rules_of c = rules_of c' \<Longrightarrow> secret_report_of env c f q v = secret_report_of env c' f q v"
  by (simp_all add: secret_report_of_def secret_report_def rules_of_def)

lemma checkContent_rules: "checkContent env i idx query basePaths f c = Some c' \<Longrightarrow> rules_of c' = rules_of c"
  by (auto simp: checkContent_def Let_def split: Option.bind_splits prod.splits)

lemma checkContent_reports:
  assumes fair: "fair_order env" and c: "checkContent env i idx query basePaths f c = Some c'"
    and v: "v \<in> set (si_vulnerabilities c')" "v \<notin> set (si_vulnerabilities c)"
  shows "secret_report_of env c f query v"
proof -
  obtain linesIgnore ig adds where g: "GetIgnoreLines (sn_yaml env) f (si_ignore c) = Some (linesIgnore, ig)"
      "(if rq_DetectLineGroup query = 0 then
          map_option (sn_order env i idx)
            (those (map (\<lambda>(n, line). checkLineByLine env (c\<lparr>si_ignore := ig\<rparr>) query basePaths
                (f\<lparr>f_LinesIgnore := linesIgnore\<rparr>) (int n) line) (enumerate 0 (f_LinesOriginalData (f\<lparr>f_LinesIgnore := linesIgnore\<rparr>)))))
        else checkFileContent env (c\<lparr>si_ignore := ig\<rparr>) query basePaths (f\<lparr>f_LinesIgnore := linesIgnore\<rparr>)) = Some adds"
      "c' = add_to_results (c\<lparr>si_ignore := ig\<rparr>) adds"
    using c by (auto simp: checkContent_def Let_def split: Option.bind_splits)
  then obtain ts where vt: "(v, ts) \<in> set adds" using v by (auto simp: add_to_results_def)
  show ?thesis
  proof (cases "rq_DetectLineGroup query = 0")
    case True
    then obtain ws where ws: "those (map (\<lambda>(n, line). checkLineByLine env (c\<lparr>si_ignore := ig\<rparr>) query basePaths
        (f\<lparr>f_LinesIgnore := linesIgnore\<rparr>) (int n) line) (enumerate 0 (f_LinesOriginalData f))) = Some ws"
        "adds = sn_order env i idx ws" using g(2) by auto
    have "(v, ts) \<in> set (concat ws)" using vt ws(2) fair_order_set [OF fair] by simp
    from those_map_concat [OF ws(1) this] obtain n w where n: "n < length (f_LinesOriginalData f)"
        "checkLineByLine env (c\<lparr>si_ignore := ig\<rparr>) query basePaths (f\<lparr>f_LinesIgnore := linesIgnore\<rparr>) (int n)
          (f_LinesOriginalData f ! n) = Some w" "(v, ts) \<in> set w"
      by (auto simp: enumerate_eq_zip set_zip)
    from checkLineByLine_reports [OF n(2,3)]
    have "secret_report env c (f\<lparr>f_LinesIgnore := linesIgnore\<rparr>) query (int n) (f_LinesOriginalData f ! n) v"
        "\<exists>groups. isSecret (si_allowRules c) (f_LinesOriginalData f ! n) query = Some (True, groups)"
      by (auto simp: secret_report_def)
    then show ?thesis
      unfolding secret_report_of_def using g(1) n(1) True
      by (intro exI [of _ linesIgnore] exI [of _ "si_ignore c"] exI [of _ ig] exI [of _ "int n"]
          exI [of _ "f_LinesOriginalData f ! n"]) auto
  next
    case False
    then obtain lvs where "check_line_vulns env (c\<lparr>si_ignore := ig\<rparr>) basePaths (f\<lparr>f_LinesIgnore := linesIgnore\<rparr>)
        query lvs = Some adds"
      using g(2) vt by (auto simp: checkFileContent_def split: Option.bind_splits if_splits prod.splits)
    from check_line_vulns_reports [OF this vt]
    obtain n line where "secret_report env (c\<lparr>si_ignore := ig\<rparr>) (f\<lparr>f_LinesIgnore := linesIgnore\<rparr>) query n line v"
      by blast
    then have "secret_report env c (f\<lparr>f_LinesIgnore := linesIgnore\<rparr>) query n line v"
      by (auto simp: secret_report_def)
    then show ?thesis unfolding secret_report_of_def using g(1) False by blast
  qed
qed

lemma inspect_files_reports:
  assumes "fair_order env" and "inspect_files env i query basePaths idx fs c = Some (c', err)"
  shows "rules_of c' = rules_of c \<and> (\<forall>v \<in> set (si_vulnerabilities c') - set (si_vulnerabilities c).
    \<exists>f \<in> set fs. map_of (f_Commands f) ''ignore'' = None \<and> secret_report_of env c f query v)"
  using assms(2)
proof (induction fs arbitrary: idx c)
  case (Cons f fs)
  show ?case
  proof (cases "map_of (f_Commands f) ''ignore'' = None \<and> \<not> sn_expired env i idx")
    case True
    then obtain c1 where c1: "checkContent env i idx query basePaths f c = Some c1"
        "inspect_files env i query basePaths (Suc idx) fs c1 = Some (c', err)"
      using Cons.prems by (auto split: Option.bind_splits)
    have r: "rules_of c1 = rules_of c" using checkContent_rules [OF c1(1)] .
    show ?thesis
      using Cons.IH [OF c1(2)] checkContent_reports [OF assms(1) c1(1)] True r
        secret_report_rules(2) [OF r] by auto
  next
    case False
    then show ?thesis using Cons by (auto split: if_splits)
  qed
qed simp

lemma inspect_secret_queries_reports:
  assumes "fair_order env" and "inspect_secret_queries env basePaths files i queries c = Some (c', err)"
  shows "rules_of c' = rules_of c \<and> (\<forall>v \<in> set (si_vulnerabilities c') - set (si_vulnerabilities c).
    \<exists>query \<in> set queries. \<exists>f \<in> set (cleanFiles files). map_of (f_Commands f) ''ignore'' = None \<and>
      secret_report_of env c f query v)"
  using assms(2)
proof (induction queries arbitrary: i c)
  case (Cons query queries)
  obtain c1 e where c1: "inspect_files env i query basePaths 0 (cleanFiles files) c = Some (c1, e)"
      "(if e \<noteq> None then Some (c1, e) else inspect_secret_queries env basePaths files (Suc i) queries c1) =
        Some (c', err)"
    using Cons.prems by (auto simp: secrets_inspectQuery_def split: Option.bind_splits)
  note new = inspect_files_reports [OF assms(1) c1(1)]
  then have r: "rules_of c1 = rules_of c" ..
  show ?case
  proof (cases "e = None")
    case True
    then show ?thesis
    proof (intro conjI ballI)
      have rest: "rules_of c' = rules_of c1" "\<forall>v \<in> set (si_vulnerabilities c') - set (si_vulnerabilities c1).
          \<exists>query \<in> set queries. \<exists>f \<in> set (cleanFiles files). map_of (f_Commands f) ''ignore'' = None \<and>
            secret_report_of env c f query v"
        using Cons.IH [of "Suc i" c1] c1(2) True secret_report_rules(2) [OF r] by auto
      then show "rules_of c' = rules_of c" using r by simp
      fix v assume v: "v \<in> set (si_vulnerabilities c') - set (si_vulnerabilities c)"
      then show "\<exists>query' \<in> set (query # queries). \<exists>f \<in> set (cleanFiles files).
          map_of (f_Commands f) ''ignore'' = None \<and> secret_report_of env c f query' v"
        using rest(2) new by (cases "v \<in> set (si_vulnerabilities c1)") auto
    qed
  next
    case False
    then show ?thesis using c1(2) new by auto
  qed
qed simp

lemma clean_files_paths:
  "f_FilePath ` set (clean_files keys fs) = f_FilePath ` set fs - keys"
  by (induction fs arbitrary: keys) auto

lemma clean_files_subset: "set (clean_files keys fs) \<subseteq> set fs"
proof (induction fs arbitrary: keys)
  case (Cons f fs)
  have "set (clean_files keys' fs) \<subseteq> insert f (set fs)" for keys' using Cons by blast
  then show ?case by simp
qed simp

lemma clean_files_distinct: "distinct (map f_FilePath (clean_files keys fs))"
proof (induction fs arbitrary: keys)
  case (Cons f fs)
  have "f_FilePath f \<notin> f_FilePath ` set (clean_files (insert (f_FilePath f) keys) fs)"
    using clean_files_paths [of "insert (f_FilePath f) keys" fs] by blast
  then show ?case using Cons by simp
qed simp

section \<open>Lemmas: the order of the goroutines\<close>

lemma mask_order [simp]: "mask_issue_line (env\<lparr>sn_order := ord\<rparr>) = mask_issue_line env"
  by (intro ext) (simp add: mask_issue_line_def MustCompile_def)

lemma hide_order [simp]: "hide_lines (env\<lparr>sn_order := ord\<rparr>) lv l q idx ls = hide_lines env lv l q idx ls"
  by (induction ls arbitrary: idx) (simp_all cong: if_cong)

lemma hideSecret_order [simp]: "hideSecret (env\<lparr>sn_order := ord\<rparr>) = hideSecret env"
  by (intro ext) (simp add: hideSecret_def)

lemma addVulnerability_rules:
  assumes "rules_of c = rules_of c'"
  shows "addVulnerability (env\<lparr>sn_order := ord\<rparr>) c' base f q n l = addVulnerability env c base f q n l"
proof -
  have "si_excludeResults c' = si_excludeResults c" "si_detector c' = si_detector c"
    using assms by (simp_all add: rules_of_def)
  moreover have "sn_sha (env\<lparr>sn_order := ord\<rparr>) = sn_sha env"
      "sn_metadata (env\<lparr>sn_order := ord\<rparr>) = sn_metadata env" by simp_all
  ultimately show ?thesis unfolding addVulnerability_def by (simp only: hideSecret_order)
qed

lemma checkLineByLine_rules:
  assumes "rules_of c = rules_of c'"
  shows "checkLineByLine (env\<lparr>sn_order := ord\<rparr>) c' q base f n l = checkLineByLine env c q base f n l"
proof -
  have "si_allowRules c' = si_allowRules c" using assms by (simp add: rules_of_def)
  then show ?thesis by (simp add: checkLineByLine_def addVulnerability_rules [OF assms] cong: if_cong)
qed

lemma checkFileContent_rules:
  assumes "rules_of c = rules_of c'"
  shows "checkFileContent (env\<lparr>sn_order := ord\<rparr>) c' q base f = checkFileContent env c q base f"
proof -
  have "check_line_vulns (env\<lparr>sn_order := ord\<rparr>) c' base f q lvs = check_line_vulns env c base f q lvs" for lvs
    by (induction lvs) (simp_all add: addVulnerability_rules [OF assms] Let_def cong: if_cong)
  then have "check_line_vulns (env\<lparr>sn_order := ord\<rparr>) c' base f q = check_line_vulns env c base f q"
    by (rule ext)
  moreover have "si_allowRules c' = si_allowRules c" using assms by (simp add: rules_of_def)
  ultimately show ?thesis by (simp add: checkFileContent_def cong: if_cong)
qed

text \<open>Two inspectors that have the same results and tracked secrets, in any order\<close>

definition same_secrets :: "SecretsInspector \<Rightarrow> SecretsInspector \<Rightarrow> bool" where
  "same_secrets c c' \<longleftrightarrow> rules_of c = rules_of c' \<and> si_ignore c = si_ignore c' \<and>
     mset (si_vulnerabilities c) = mset (si_vulnerabilities c') \<and>
     mset (si_SecretTracker c) = mset (si_SecretTracker c')"

lemma same_secrets_refl [simp]: "same_secrets c c"
  by (simp add: same_secrets_def)

lemma mset_concat_cong: "mset xs = mset ys \<Longrightarrow> mset (concat (map g xs)) = mset (concat (map g ys))"
  by (simp add: mset_concat comp_def sum_mset_sum_list [symmetric] flip: mset_map)
    (metis mset_map)

lemma add_same_secrets:
  assumes "same_secrets c c'" and "mset adds = mset adds'"
  shows "same_secrets (add_to_results (c\<lparr>si_ignore := ig\<rparr>) adds) (add_to_results (c'\<lparr>si_ignore := ig\<rparr>) adds')"
  using assms mset_concat_cong [OF assms(2), of snd]
  by (simp add: same_secrets_def add_to_results_def rules_of_def)

lemma checkContent_same:
  assumes "fair_order env" "fair_order (env\<lparr>sn_order := ord\<rparr>)" and same: "same_secrets c c'"
  shows "rel_option same_secrets (checkContent env i idx q base f c)
    (checkContent (env\<lparr>sn_order := ord\<rparr>) i idx q base f c')"
proof -
  have r: "rules_of (c\<lparr>si_ignore := ig\<rparr>) = rules_of (c'\<lparr>si_ignore := ig\<rparr>)" for ig
    using same by (simp add: same_secrets_def)
  have ig: "si_ignore c' = si_ignore c" using same by (simp add: same_secrets_def)
  have m: "mset (sn_order env i idx ws) = mset (ord i idx ws)" for ws
    using assms(1,2) by (simp add: fair_order_def)
  show ?thesis
  proof (cases "GetIgnoreLines (sn_yaml env) f (si_ignore c)")
    case None
    then show ?thesis using ig by (simp add: checkContent_def)
  next
    case (Some p)
    obtain ls ig1 where p: "p = (ls, ig1)" by (cases p)
    show ?thesis
    proof (cases "rq_DetectLineGroup q = 0")
      case True
      let ?go = "\<lambda>(n, line). checkLineByLine env (c\<lparr>si_ignore := ig1\<rparr>) q base (f\<lparr>f_LinesIgnore := ls\<rparr>) (int n) line"
      have "(\<lambda>(n, line). checkLineByLine (env\<lparr>sn_order := ord\<rparr>) (c'\<lparr>si_ignore := ig1\<rparr>) q base
          (f\<lparr>f_LinesIgnore := ls\<rparr>) (int n) line) = ?go"
        by (simp add: checkLineByLine_rules [OF r])
      then show ?thesis
        using Some True ig p m add_same_secrets [OF same]
        by (cases "those (map ?go (enumerate 0 (f_LinesOriginalData f)))")
          (simp_all add: checkContent_def Let_def)
    next
      case False
      then show ?thesis
        using Some ig p add_same_secrets [OF same]
        by (cases "checkFileContent env (c\<lparr>si_ignore := ig1\<rparr>) q base (f\<lparr>f_LinesIgnore := ls\<rparr>)")
          (simp_all add: checkContent_def Let_def checkFileContent_rules [OF r])
    qed
  qed
qed

abbreviation same_outcome ::
  "(SecretsInspector \<times> string option) option \<Rightarrow> (SecretsInspector \<times> string option) option \<Rightarrow> bool" where
  "same_outcome \<equiv> rel_option (rel_prod same_secrets (=))"

lemma inspect_files_same:
  assumes "fair_order env" "fair_order (env\<lparr>sn_order := ord\<rparr>)" and "same_secrets c c'"
  shows "same_outcome (inspect_files env i q base idx fs c)
    (inspect_files (env\<lparr>sn_order := ord\<rparr>) i q base idx fs c')"
  using assms(3)
proof (induction fs arbitrary: idx c c')
  case (Cons f fs)
  from checkContent_same [OF assms(1,2) Cons.prems, of i idx q base f]
  have "(checkContent env i idx q base f c = None \<and>
       checkContent (env\<lparr>sn_order := ord\<rparr>) i idx q base f c' = None) \<or>
      (\<exists>d d'. checkContent env i idx q base f c = Some d \<and>
       checkContent (env\<lparr>sn_order := ord\<rparr>) i idx q base f c' = Some d' \<and> same_secrets d d')"
    by (auto simp: option_rel_Some1 elim: option.rel_cases)
  then show ?case using Cons by auto
qed simp

lemma inspect_secret_queries_same:
  assumes "fair_order env" "fair_order (env\<lparr>sn_order := ord\<rparr>)" and "same_secrets c c'"
  shows "same_outcome (inspect_secret_queries env base files i qs c)
    (inspect_secret_queries (env\<lparr>sn_order := ord\<rparr>) base files i qs c')"
  using assms(3)
proof (induction qs arbitrary: i c c')
  case (Cons q qs)
  from inspect_files_same [OF assms(1,2) Cons.prems, of i q base 0 "cleanFiles files"]
  have "(secrets_inspectQuery env base files i q c = None \<and>
       secrets_inspectQuery (env\<lparr>sn_order := ord\<rparr>) base files i q c' = None) \<or>
      (\<exists>d d' e. secrets_inspectQuery env base files i q c = Some (d, e) \<and>
       secrets_inspectQuery (env\<lparr>sn_order := ord\<rparr>) base files i q c' = Some (d', e) \<and> same_secrets d d')"
    unfolding secrets_inspectQuery_def by (auto simp: option_rel_Some1 elim!: option.rel_cases rel_prod.cases)
  then show ?case using Cons by auto
qed simp

section \<open>Lemmas: lines that are gone\<close>

lemma split_on_LF_append:
  "split_on (p @ c # r) [c] = split_on p [c] @ split_on r [c]"
proof (induction p)
  case Nil
  show ?case by (simp add: split_on_single_Cons) (subst split_on.simps, simp)
next
  case (Cons x p)
  obtain l ls where "split_on p [c] = l # ls" by (metis split_on_nonempty neq_Nil_conv)
  then show ?case using Cons by (simp add: split_on_single_Cons)
qed

lemma first_difference_prefix: "ys \<noteq> [] \<Longrightarrow> first_difference (xs @ ys) xs n = None"
  by (induction xs arbitrary: n) (auto simp: neq_Nil_conv)

section \<open>Properties\<close>

definition example_regexp :: "string \<Rightarrow> regexp" where
  "example_regexp w = \<lparr>re_FindAll = (\<lambda>s. case index_nat s w of
     None \<Rightarrow> [] | Some i \<Rightarrow> [((int i, int (length s)), [])])\<rparr>"

definition example_secret_env :: secrets_env where
  "example_secret_env =
     \<lparr>sn_sha = (\<lambda>s. s), sn_metadata = (\<lambda>k. k), sn_compile = (\<lambda>s. Inr (example_regexp s)),
      sn_yaml = (\<lambda>s. Inl ''no yaml''), sn_expired = (\<lambda>i idx. False), sn_order = (\<lambda>i idx ws. concat ws)\<rparr>"

definition example_rule :: RegexQuery where
  "example_rule =
     \<lparr>rq_ID = ''q1'', rq_Name = ''Key'', rq_DetectLineGroup = 0, rq_RegexStr = ''key='', rq_SpecialMask = [],
      rq_Entropies = [], rq_AllowRules = [], rq_Regex = example_regexp ''key=''\<rparr>"

definition example_secrets :: SecretsInspector where
  "example_secrets =
     \<lparr>si_detector = \<lparr>detectors = [], outputLines = 3, defaultDetector = (\<lambda>f s n. None)\<rparr>,
      si_excludeResults = [], si_regexQueries = [example_rule], si_allowRules = [], si_vulnerabilities = [],
      si_SecretTracker = [], si_ignore = []\<rparr>"

definition example_secret_file :: FileMetadata where
  "example_secret_file = zero_file\<lparr>f_ID := ''f1'', f_FilePath := ''a.tf'',
     f_OriginalData := ''a'' @ [CHR 0x0A] @ ''key=x'', f_LinesOriginalData := [''a'', ''key=x'']\<rparr>"

lemma example_fair: "fair_order example_secret_env"
  by (simp add: fair_order_def example_secret_env_def)

lemma example_secret_found:
  "map_option (\<lambda>(c, err). (map (\<lambda>v. (v_Line v, map CodeText (v_VulnLines v))) (si_vulnerabilities c), err))
     (secrets_Inspect example_secret_env [] [example_secret_file] example_secrets) =
   Some ([(2, [''a'', ''<SECRET-MASKED-ON-PURPOSE>''])], None)"
  by code_simp



text \<open>The results and the tracked secrets of a scan do not depend on the order in which the
  goroutines take the lock, except for their own order.\<close>

lemma secret_results_order_independent:
  assumes "fair_order env" and "fair_order (env\<lparr>sn_order := ord\<rparr>)"
  shows "rel_option (rel_prod same_secrets (=)) (secrets_Inspect env base files c)
    (secrets_Inspect (env\<lparr>sn_order := ord\<rparr>) base files c)"
  unfolding secrets_Inspect_def by (rule inspect_secret_queries_same [OF assms]) simp



text \<open>The search ends without a panic when every match has the group that gives the line and the
  rule does not find the empty text.\<close>

lemma secret_search_ends:
  assumes "0 \<le> rq_DetectLineGroup query"
    and "\<And>t found. found \<in> set (FindAllStringSubmatch (rq_Regex query) t) \<Longrightarrow>
      rq_DetectLineGroup query < int (length found)"
    and "FindAllStringSubmatch (rq_Regex query) [] = []"
  shows "\<exists>secret groups. isSecret rules s query = Some (secret, groups) \<and> (secret \<longleftrightarrow> groups \<noteq> [])"
  using secret_search_returns [of "rq_DetectLineGroup query" "rq_Regex query"] assms
  by (fastforce simp: isSecret_def)

text \<open>C40. The entropy of a token is the Shannon entropy of its characters of the set, but for the
  characters outside of the set, each of which adds \<open>log2 n / n\<close>.\<close>

theorem entropy_shannon:
  "calculateEntropy token charSet =
     (- (\<Sum>c \<in> set token \<inter> set charSet. frequency token c * log 2 (frequency token c))) +
     (1 - (\<Sum>c \<in> set token \<inter> set charSet. frequency token c)) * log 2 (length token)"
  by (rule entropy_is_shannon)

text \<open>A match that begins with a line break and is the end of a file makes the search for its line
  panic: the lines that are left are a prefix of those of the file.\<close>

lemma secret_line_panics:
  assumes "0 \<le> rq_DetectLineGroup query" "rq_DetectLineGroup query < int (length groups)"
    and "groups ! nat (rq_DetectLineGroup query) = CHR 0x0A # r"
    and "f_OriginalData file = p @ CHR 0x0A # r" and "f_LinesOriginalData file = split_on (f_OriginalData file) [CHR 0x0A]"
    and "CHR 0x0A \<notin> set p" and "CHR 0x0D \<notin> set p"
  shows "secretsDetectLine query file (groups # others) = None"
proof -
  have "index_nat (p @ CHR 0x0A # r) (CHR 0x0A # r) = Some (length p)"
    using index_nat_first [OF assms(6), of r "[]"] by simp
  then have gone: "go_replace (p @ CHR 0x0A # r) (CHR 0x0A # r) [] 1 = p"
    using assms(6)
  proof (induction p)
    case Nil
    show ?case by (subst go_replace.simps) simp
  next
    case (Cons x p)
    then have "index_nat (p @ CHR 0x0A # r) (CHR 0x0A # r) = Some (length p)"
      using index_nat_first [of "CHR 0x0A" p r "[]"] by simp
    then show ?case using Cons by (subst go_replace.simps) auto
  qed
  have "replace_all p [CHR 0x0D] [] = p"
    using assms(7) by (intro go_replace_absent) (auto simp: contains_iff dest: set_mono_sublist)
  then have "first_difference (f_LinesOriginalData file)
      (split_on (replace_all (go_replace (f_OriginalData file) (groups ! nat (rq_DetectLineGroup query)) [] 1)
         [CHR 0x0D] []) [CHR 0x0A]) 0 = None"
    by (simp add: assms(3-5) gone split_on_LF_append first_difference_prefix)
  then show ?thesis
    using assms(1,2) by (simp add: secretsDetectLine_def Prelude.at_def Let_def)
qed

end
