(* ===== verification/ScanReport.thy ===== *)
theory ScanReport
  imports Sarif Secrets
begin

text \<open>
  What the detectors, the secrets inspector, the summary and the SARIF report give together: which results of
  a scan its SARIF report shows.
\<close>

section \<open>Which results a SARIF report shows\<close>

lemma other_kind_unlocated:
  assumes "f_Kind file \<noteq> KindTerraform"
    and "registry_DetectLine (inspector_detectors lev parse r ra n) file key = Some lv"
  shows "vl_VulnerablilityLocation lv = zero_location"
proof (cases "f_Kind file = KindHELM")
  case True
  with assms have "helm_DetectLine lev r file key n = Some lv"
    by (simp add: registry_DetectLine_def inspector_detectors_def Add_def NewDetectLine_def)
  then show ?thesis
    by (auto simp: helm_DetectLine_def Let_def zero_vuln_lines_def split: Option.bind_splits if_splits prod.splits)
next
  case False
  with assms have "default_DetectLine lev r file key n = Some lv"
    by (simp add: registry_DetectLine_def inspector_detectors_def Add_def NewDetectLine_def KindHELM_def
        KindTerraform_def)
  then show ?thesis
    by (auto simp: default_DetectLine_def Let_def zero_vuln_lines_def split: Option.bind_splits if_splits)
qed

lemma built_unlocated:
  assumes "DefaultVulnerabilityBuilder env (inspector_detectors lev parse r ra n) uo ns qd ctx v t = Some (Inr vul, t')"
    and "\<forall>i file. map_of (Files ctx) i = Some file \<longrightarrow> f_Kind file \<noteq> KindTerraform"
  shows "v_VulnerabilityLocation vul = zero_location"
proof -
  from assms(1) obtain vObj1 outp i fl lv0 sk li vObj ln lio lv1
    where f: "map_of (Files ctx) i = Some fl"
      and loc: "locate_result (inspector_detectors lev parse r ra n) fl vObj1 = Some (Some (lv0, sk, li, vObj))"
      and calc: "(if f_Kind fl \<noteq> KindHELM \<and> length (f_ResolvedFiles fl) = 0
                  then calculeSearchLine (be_marshal env) (be_get env) vObj fl
                    \<lparr>lineNr = - 1, similarityIDLineInfo = li, linesVulne = lv0\<rparr>
                  else Some (0, li, lv0)) = Some (ln, lio, lv1)"
      and fill: "fill_vulnerability env ctx fl uo ns qd outp vObj
          (if vl_Line lv1 = - 1 then lv1\<lparr>vl_Line := 1\<rparr> else lv1) sk li lio ln t = Some (vul, t')"
    by (auto simp: DefaultVulnerabilityBuilder_def Let_def
        split: jval.splits sum.splits option.splits Option.bind_splits)
  have "lv1 = lv0" using calc calculeSearchLine_lines by (fastforce split: if_splits)
  moreover have "vl_VulnerablilityLocation lv0 = zero_location"
    using loc other_kind_unlocated [of fl] assms(2) f
    by (fastforce simp: locate_result_def Let_def zero_vuln_lines_def
        split: jval.splits prod.splits Option.bind_splits if_splits option.splits)
  ultimately show ?thesis
    using fill by (auto simp: fill_vulnerability_def Let_def zero_vulnerability_def split: Option.bind_splits prod.splits)
qed

text \<open>What a scan finds in files other than Terraform: the results of the queries and the secrets\<close>

definition found_elsewhere :: "Vulnerability \<Rightarrow> bool" where
  "found_elsewhere vul \<longleftrightarrow>
     (\<exists>(env :: unit builder_env) lev parse r ra n uo ns qd ctx v t t'.
        DefaultVulnerabilityBuilder env (inspector_detectors lev parse r ra n) uo ns qd ctx v t = Some (Inr vul, t') \<and>
        (\<forall>i file. map_of (Files ctx) i = Some file \<longrightarrow> f_Kind file \<noteq> KindTerraform)) \<or>
     (\<exists>env base files c c' err. fair_order env \<and> secrets_Inspect env base files c = Some (c', err) \<and>
        vul \<in> set (si_vulnerabilities c') - set (si_vulnerabilities c))"

lemma found_elsewhere_unlocated: "found_elsewhere vul \<Longrightarrow> v_VulnerabilityLocation vul = zero_location"
proof -
  have "v_VulnerabilityLocation v = zero_location"
    if "fair_order env" "secrets_Inspect env base files c = Some (c', err)"
      "v \<in> set (si_vulnerabilities c') - set (si_vulnerabilities c)" for env base files c c' err v
  proof -
    from inspect_secret_queries_reports [OF that(1) that(2) [unfolded secrets_Inspect_def]] that(3)
    obtain f q where "secret_report_of env c f q v" by blast
    then show ?thesis by (auto simp: secret_report_of_def secret_report_def)
  qed
  then show "found_elsewhere vul \<Longrightarrow> ?thesis"
    unfolding found_elsewhere_def by (elim disjE exE conjE) (erule (1) built_unlocated, blast)
qed

lemma summary_file_origin:
  assumes "CreateSummary env counters vulns scan paths version dir = Some s"
    and "range_order (su_counting env)" and "range_order (su_materials env)"
    and "sorts_by query_before (su_sort env)"
    and "q \<in> set (sm_Queries s)" and "f \<in> set (qs_Files q)"
  shows "\<exists>v \<in> set vulns. vf_ResourceLocation f = v_VulnerabilityLocation v"
proof -
  obtain m where g: "grouped (\<lambda>v. the (resolvePath (su_paths env) (v_FileName v) paths dir)) vulns m"
    and m: "mset (sm_Queries s @ sm_Bom s) = mset (map snd m)"
    by (rule CreateSummary_parts [OF assms(1-4)])
  have ok: "gomap_ok m" using g by (simp add: grouped_def)
  have "set (sm_Queries s @ sm_Bom s) = snd ` set m" using m by (metis set_map set_mset_mset)
  then have "q \<in> snd ` set m" using assms(5) by auto
  then obtain k where "map_of m k = Some q" using gomap_mem_iff [OF ok] by auto
  then have "qs_Files q = map (\<lambda>v. vulnerable_file
        (the (resolvePath (su_paths env) (v_FileName v) paths dir)) v) (of_query k vulns)"
    using g unfolding grouped_def by blast
  with assms(6) show ?thesis by (auto simp: of_query_def vulnerable_file_def)
qed


lemma example_secret_reported:
  obtains c' v where "secrets_Inspect example_secret_env [] [example_secret_file] example_secrets = Some (c', None)"
    and "si_vulnerabilities c' = [v]" and "v_QueryID v = ''q1''" and "v_QueryName v = ''queryName - Key''"
    and "v_Severity v = SeverityHigh" and "v_FileName v = f_FilePath example_secret_file"
proof -
  have "map_option (\<lambda>(c, err). (map (\<lambda>v. (v_QueryID v, v_QueryName v, v_Severity v, v_FileName v)) (si_vulnerabilities c), err))
     (secrets_Inspect example_secret_env [] [example_secret_file] example_secrets) =
   Some ([(''q1'', ''queryName - Key'', SeverityHigh, f_FilePath example_secret_file)], None)"
    by code_simp
  then show ?thesis using that by (auto simp: map_eq_Cons_conv)
qed


end
