(* ===== verification/JsonLine.thy ===== *)
theory JsonLine
  imports YamlDoc
begin

text \<open>
  JSON documents: \<open>pkg/parser/json\<close>. A first pass over the tokens of the text records on which lines each text
  stands below each path, a second one looks the keys of the decoded document up there; the planned values of
  a Terraform plan become a document of their own. The decoder of \<open>encoding/json\<close> gives the tokens with the
  offset behind each of them, and the document. \<open>None\<close> is a panic.
\<close>

section \<open>The tokens\<close>

text \<open>A number is kept as the decoder reads it; \<open>int_text\<close> prints its integral part, which the code records.\<close>

datatype jtoken = TDelim char | TString string | TFloat string | TBool bool | TNil

fun token_text :: "(string \<Rightarrow> string) \<Rightarrow> jtoken \<Rightarrow> string option" where
  "token_text int_text (TString t) = Some t"
| "token_text int_text (TFloat t) = Some (int_text t)"
| "token_text int_text (TBool b) = Some (if b then ''true'' else ''false'')"
| "token_text int_text TNil = Some ''<nil>''"
| "token_text int_text (TDelim c) = None"

record jsonLineStruct =
  tmpParent :: string
  pathArr :: "string list"
  lastWasRune :: bool
  noremoveidx :: "(int, string) gomap"
  js_parent :: string

definition update_parent :: "jsonLineStruct \<Rightarrow> jsonLineStruct" where
  "update_parent j = j\<lparr>js_parent := join (pathArr j) ''.''\<rparr>"

definition closeBrackets :: "int \<Rightarrow> jsonLineStruct \<Rightarrow> jsonLineStruct" where
  "closeBrackets lenPathArr j =
     update_parent
       (if lenPathArr > 0 then
          (case map_of (noremoveidx j) lenPathArr of
             Some v \<Rightarrow>
               (if pathArr j ! nat lenPathArr \<noteq> v then j\<lparr>pathArr := take (nat lenPathArr) (pathArr j)\<rparr>
                else j\<lparr>noremoveidx := filter (\<lambda>e. fst e \<noteq> lenPathArr) (noremoveidx j)\<rparr>)
           | None \<Rightarrow> j\<lparr>pathArr := take (nat lenPathArr) (pathArr j)\<rparr>)
        else j)"

definition delimSetup :: "char \<Rightarrow> jsonLineStruct \<Rightarrow> jsonLineStruct option" where
  "delimSetup v j = do {
     let lenPathArr = int (length (pathArr j)) - 1;
     j1 \<leftarrow> (if v = CHR ''{'' \<or> v = CHR ''['' then
              (if \<not> lastWasRune j then Some (update_parent (j\<lparr>pathArr := pathArr j @ [tmpParent j]\<rparr>))
               else do {
                 p \<leftarrow> Prelude.at (pathArr j) lenPathArr;
                 Some (update_parent (j\<lparr>tmpParent := p, noremoveidx := gomap_put lenPathArr p (noremoveidx j)\<rparr>))
               })
            else if v = CHR ''}'' \<or> v = CHR '']'' then Some (closeBrackets lenPathArr j)
            else Some j);
     Some (j1\<lparr>lastWasRune := True\<rparr>)
   }"

text \<open>The lines of a text below a path; in the code a queue behind a pointer\<close>

type_synonym line_info = "(string, (string, int list) gomap) gomap"

definition info_get :: "line_info \<Rightarrow> string \<Rightarrow> string \<Rightarrow> int list option" where
  "info_get li key father = Option.bind (map_of li key) (\<lambda>m. map_of m father)"

definition info_set :: "string \<Rightarrow> string \<Rightarrow> int list \<Rightarrow> line_info \<Rightarrow> line_info" where
  "info_set key father ns li =
     gomap_put key (gomap_put father ns (case map_of li key of Some m \<Rightarrow> m | None \<Rightarrow> [])) li"

definition record_line :: "string \<Rightarrow> string \<Rightarrow> int \<Rightarrow> line_info \<Rightarrow> line_info" where
  "record_line key father line li =
     info_set key father ((case info_get li key father of Some ns \<Rightarrow> ns | None \<Rightarrow> []) @ [line]) li"

text \<open>The loop over the tokens; \<open>line\<close> is counted up to the end of the last token that is no delimiter.\<close>

fun scan_tokens ::
  "(string \<Rightarrow> string) \<Rightarrow> string \<Rightarrow> (jtoken \<times> int) list \<Rightarrow> jsonLineStruct \<Rightarrow> int \<Rightarrow> int \<Rightarrow> line_info \<Rightarrow>
     line_info option" where
  "scan_tokens int_text doc [] js line prev li = Some li"
| "scan_tokens int_text doc ((tok, offset) # toks) js line prev li =
     (case tok of
        TDelim c \<Rightarrow> do {
          js' \<leftarrow> delimSetup c js;
          scan_tokens int_text doc toks js' line prev li
        }
      | _ \<Rightarrow> do {
          t \<leftarrow> token_text int_text tok;
          passed \<leftarrow> (if offset < prev then Some [] else Prelude.slice doc prev offset);
          let js' = js\<lparr>lastWasRune := False, tmpParent := t\<rparr>;
          let line' = line + int (count_list passed CHR 0x0A);
          scan_tokens int_text doc toks js' line' offset (record_line t (js_parent js') line' li)
        })"

definition initializeJSONLine :: "(string \<Rightarrow> string) \<Rightarrow> string \<Rightarrow> (jtoken \<times> int) list \<Rightarrow> line_info option" where
  "initializeJSONLine int_text doc toks =
     scan_tokens int_text doc toks
       \<lparr>tmpParent = [], pathArr = [], lastWasRune = False, noremoveidx = [], js_parent = []\<rparr> 1 0 []"

section \<open>The lines of a document\<close>

text \<open>
  The entries of an object are in the order in which \<open>range\<close> visits them; \<open>sprint\<close> is \<open>fmt.Sprint\<close> of an
  element. The first component is the answer, the second the value, to which the lines are added, the last
  what is left of the queues.
\<close>

definition min_line :: "line_info \<Rightarrow> string \<Rightarrow> doc \<Rightarrow> int option" where
  "min_line li father c =
     (let linesNumbers = concat (map (\<lambda>(key, v). case info_get li key father of Some (n # ns) \<Rightarrow> [n] | _ \<Rightarrow> []) c)
      in if linesNumbers = [] then None else Some (Min (set linesNumbers)))"

text \<open>The last object of the list that has a line gives the answer.\<close>

definition getMapDefaultLine :: "line_info \<Rightarrow> jval list \<Rightarrow> string \<Rightarrow> int" where
  "getMapDefaultLine li v father =
     foldl (\<lambda>returnNumber x. case x of
         JObj c \<Rightarrow> (case min_line li father c of Some n \<Rightarrow> n | None \<Rightarrow> returnNumber) | _ \<Rightarrow> returnNumber) (- 1) v"

definition default_lines :: "int \<Rightarrow> line_map" where
  "default_lines def0 = [(''_kics__default'', LineObject def0 [])]"

definition kics_name :: "string \<Rightarrow> string" where
  "kics_name key = ''_kics_'' @ key"

abbreviation with_lines :: "line_map \<Rightarrow> doc \<Rightarrow> jval" where
  "with_lines lm kvs \<equiv> JObj (gomap_put ''_kics_lines'' (lines_value lm) kvs)"

text \<open>The first line of a queue and what is left without it\<close>

definition head_line :: "line_info \<Rightarrow> string \<Rightarrow> string \<Rightarrow> (int \<times> int list) option" where
  "head_line li key father =
     (case info_get li key father of Some (n # rest) \<Rightarrow> Some (n, rest) | _ \<Rightarrow> None)"

function (sequential) set_value :: "(jval \<Rightarrow> string) \<Rightarrow> string \<Rightarrow> bool \<Rightarrow> int \<Rightarrow> jval \<Rightarrow> line_info \<Rightarrow> line_map list \<times> jval \<times> line_info"
  and set_pairs :: "(jval \<Rightarrow> string) \<Rightarrow> string \<Rightarrow> bool \<Rightarrow> doc \<Rightarrow> line_map \<Rightarrow> line_info \<Rightarrow> line_map \<times> doc \<times> line_info"
  and set_elem :: "(jval \<Rightarrow> string) \<Rightarrow> string \<Rightarrow> int \<Rightarrow> jval \<Rightarrow> line_info \<Rightarrow> line_map list \<times> jval \<times> line_info"
  and setSeqLines :: "(jval \<Rightarrow> string) \<Rightarrow> jval list \<Rightarrow> int \<Rightarrow> string \<Rightarrow> jval list \<Rightarrow> line_info \<Rightarrow>
     line_map list \<times> jval list \<times> line_info" where
  "set_value sprint path pop lineNr v li =
     (case v of
        JList xs \<Rightarrow> (let (arr, xs', li') = setSeqLines sprint xs lineNr path xs li in (arr, JList xs', li'))
      | JObj c \<Rightarrow>
          (let (lm, c', li') = set_pairs sprint path pop c (default_lines lineNr) li in ([], with_lines lm c', li'))
      | _ \<Rightarrow> ([], v, li))"
| "set_pairs sprint father pop [] lm li = (lm, [], li)"
| "set_pairs sprint father pop ((key, v) # kvs) lm li =
     (case head_line li key father of
        None \<Rightarrow> (let (lm', kvs', li') = set_pairs sprint father pop kvs lm li in (lm', (key, v) # kvs', li'))
      | Some (lineNr, rest) \<Rightarrow>
          (let (lineArr, v', li1) = set_value sprint (father @ ''.'' @ key) pop lineNr v
                 (if pop then info_set key father rest li else li);
               (lm', kvs', li') = set_pairs sprint father pop kvs
                 (gomap_put (kics_name key) (LineObject lineNr lineArr) lm) li1
           in (lm', (key, v') # kvs', li')))"
| "set_elem sprint fatherKey def0 con li =
     (case con of
        JObj c \<Rightarrow>
          (let (lm, c', li') = set_pairs sprint fatherKey True c (default_lines def0) li in ([lm], JObj c', li'))
      | _ \<Rightarrow>
          (case head_line li (sprint con) fatherKey of
             Some (n, rest) \<Rightarrow> ([default_lines n], con, info_set (sprint con) fatherKey rest li)
           | None \<Rightarrow> ([], con, li)))"
| "setSeqLines sprint v def0 fatherKey [] li = ([], [], li)"
| "setSeqLines sprint v def0 fatherKey (con # cons) li =
     (let n = getMapDefaultLine li v fatherKey;
          (arr, con', li1) = set_elem sprint fatherKey (if n = - 1 then def0 else n) con li;
          (arrs, cons', li') = setSeqLines sprint v def0 fatherKey cons li1
      in (arr @ arrs, con' # cons', li'))"
  by pat_completeness auto
termination
  by (relation "measure (\<lambda>x. case x of
      Inl (Inl (sprint, path, pop, n, v, li)) \<Rightarrow> size v
    | Inl (Inr (sprint, father, pop, kvs, lm, li)) \<Rightarrow> size_list (size_prod (\<lambda>_. 0) size) kvs
    | Inr (Inl (sprint, father, n, con, li)) \<Rightarrow> size con
    | Inr (Inr (sprint, v, n, father, cons, li)) \<Rightarrow> size_list size cons)") auto

definition setLine :: "(jval \<Rightarrow> string) \<Rightarrow> doc \<Rightarrow> int \<Rightarrow> string \<Rightarrow> bool \<Rightarrow> line_info \<Rightarrow> line_map \<times> doc \<times> line_info" where
  "setLine sprint val def0 father pop li = set_pairs sprint father pop val (default_lines def0) li"

definition setLineInfo :: "(jval \<Rightarrow> string) \<Rightarrow> line_info \<Rightarrow> doc \<Rightarrow> doc" where
  "setLineInfo sprint li doc =
     (let (lm, doc', li') = setLine sprint doc 0 [] False li in gomap_put ''_kics_lines'' (lines_value lm) doc')"

section \<open>Terraform plans\<close>

text \<open>What the code reads of the plan that \<open>hashicorp/terraform-json\<close> decodes; the planned values may be missing.\<close>

record plan_resource =
  pr_Type :: string
  pr_Name :: string
  pr_AttributeValues :: jval

datatype StateModule = StateModule (sm_Resources: "plan_resource list") (sm_ChildModules: "StateModule list")

type_synonym KicsPlan = "(string, (string, jval) gomap) gomap"

fun readModule :: "StateModule \<Rightarrow> KicsPlan \<Rightarrow> KicsPlan" where
  "readModule (StateModule rs ms) kp =
     (let kp1 = foldl (\<lambda>kp r. gomap_put (pr_Type r) [] kp) kp rs;
          kp2 = foldl (\<lambda>kp r. gomap_put (pr_Type r)
            (gomap_put (pr_Name r) (pr_AttributeValues r)
              (case map_of kp (pr_Type r) of Some m \<Rightarrow> m | None \<Rightarrow> [])) kp) kp1 rs
      in fold readModule ms kp2)"

definition readPlan :: "(doc \<Rightarrow> doc option) \<Rightarrow> StateModule option \<Rightarrow> doc option" where
  "readPlan via_json planned = do {
     root \<leftarrow> planned;
     Some (case via_json [(''resource'', JObj (map (\<lambda>(t, ns). (t, JObj ns)) (readModule root [])))] of
         Some doc \<Rightarrow> doc | None \<Rightarrow> [])
   }"

text \<open>\<open>decode\<close> is the way of the document through \<open>json.Marshal\<close> into a plan.\<close>

definition parseTFPlan ::
  "(doc \<Rightarrow> doc option) \<Rightarrow> (doc \<Rightarrow> string + StateModule option) \<Rightarrow> doc \<Rightarrow> (string + doc) option" where
  "parseTFPlan via_json decode doc =
     (case decode doc of
        Inl err \<Rightarrow> Some (Inl err)
      | Inr planned \<Rightarrow> map_option Inr (readPlan via_json planned))"

section \<open>The parser\<close>

record json_env =
  je_unmarshal :: "string \<Rightarrow> string + doc"
  je_unmarshal_list :: "string \<Rightarrow> string + doc list"
  je_tokens :: "string \<Rightarrow> (jtoken \<times> int) list"
  je_int_text :: "string \<Rightarrow> string"
  je_sprint :: "jval \<Rightarrow> string"
  je_via_json :: "doc \<Rightarrow> doc option"
  je_decode_plan :: "doc \<Rightarrow> string + StateModule option"
  je_indent :: "string \<Rightarrow> string + string"

text \<open>The documents or the error, and whether the content must be indented from now on\<close>

definition json_Parse :: "json_env \<Rightarrow> string \<Rightarrow> bool \<Rightarrow> ((string + doc list) \<times> bool) option" where
  "json_Parse env fileContent shouldIdent =
     (case je_unmarshal env fileContent of
        Inl err \<Rightarrow> Some (je_unmarshal_list env fileContent, shouldIdent)
      | Inr r \<Rightarrow> do {
          jLine \<leftarrow> initializeJSONLine (je_int_text env) fileContent (je_tokens env fileContent);
          let kicsJSON = setLineInfo (je_sprint env) jLine r;
          kicsPlan \<leftarrow> parseTFPlan (je_via_json env) (je_decode_plan env) kicsJSON;
          Some (case kicsPlan of Inl err \<Rightarrow> (Inr [kicsJSON], shouldIdent) | Inr plan \<Rightarrow> (Inr [plan], True))
        })"

definition StringifyContent :: "json_env \<Rightarrow> bool \<Rightarrow> string \<Rightarrow> string + string" where
  "StringifyContent env shouldIdent content =
     (if shouldIdent then (case je_indent env content of Inl err \<Rightarrow> Inl err | Inr s \<Rightarrow> Inr s) else Inr content)"

definition json_SupportedExtensions :: "string list" where
  "json_SupportedExtensions = [''.json'']"

definition json_GetKind :: FileKind where
  "json_GetKind = ''JSON''"

definition json_SupportedTypes :: "(string, bool) gomap" where
  "json_SupportedTypes =
     map (\<lambda>t. (t, True)) [''ansible'', ''cloudformation'', ''openapi'', ''azureresourcemanager'', ''terraform'', ''kubernetes'']"

section \<open>Lemmas: paths\<close>

text \<open>The tokens of a document, in the order of its entries\<close>

fun json_tokens :: "jval \<Rightarrow> jtoken list" and pair_tokens :: "doc \<Rightarrow> jtoken list"
  and elem_tokens :: "jval list \<Rightarrow> jtoken list" where
  "json_tokens (JObj kvs) = TDelim CHR ''{'' # pair_tokens kvs @ [TDelim CHR ''}'']"
| "json_tokens (JList xs) = TDelim CHR ''['' # elem_tokens xs @ [TDelim CHR '']'']"
| "json_tokens (JStr s) = [TString s]"
| "json_tokens (JBool b) = [TBool b]"
| "json_tokens (JFloat t) = [TFloat t]"
| "json_tokens v = [TNil]"
| "pair_tokens [] = []"
| "pair_tokens ((k, v) # kvs) = TString k # json_tokens v @ pair_tokens kvs"
| "elem_tokens [] = []"
| "elem_tokens (x # xs) = json_tokens x @ elem_tokens xs"

fun scalar :: "jval \<Rightarrow> bool" where
  "scalar (JObj kvs) = False" | "scalar (JList xs) = False" | "scalar v = True"

text \<open>Documents whose lists hold only objects or no objects and no lists\<close>

fun regular :: "jval \<Rightarrow> bool" and regular_pairs :: "doc \<Rightarrow> bool" and regular_objs :: "jval list \<Rightarrow> bool" where
  "regular (JObj kvs) = regular_pairs kvs"
| "regular (JList xs) = (list_all scalar xs \<or> regular_objs xs)"
| "regular v = True"
| "regular_pairs [] = True"
| "regular_pairs ((k, v) # kvs) = (regular v \<and> regular_pairs kvs)"
| "regular_objs [] = True"
| "regular_objs (JObj kvs # xs) = (regular_pairs kvs \<and> regular_objs xs)"
| "regular_objs (x # xs) = False"

text \<open>Each text of a document with the path it stands below: the keys down to it; elements of a list stand
  below the key of the list\<close>

definition scalar_text :: "(string \<Rightarrow> string) \<Rightarrow> jval \<Rightarrow> string" where
  "scalar_text it v = the (token_text it (hd (json_tokens v)))"

fun val_events :: "(string \<Rightarrow> string) \<Rightarrow> string list \<Rightarrow> string \<Rightarrow> jval \<Rightarrow> (string \<times> string) list"
  and obj_events :: "(string \<Rightarrow> string) \<Rightarrow> string list \<Rightarrow> doc \<Rightarrow> (string \<times> string) list"
  and elem_events :: "(string \<Rightarrow> string) \<Rightarrow> string list \<Rightarrow> jval list \<Rightarrow> (string \<times> string) list" where
  "val_events it p k (JObj kvs) = obj_events it (p @ [k]) kvs"
| "val_events it p k (JList xs) = elem_events it (p @ [k]) xs"
| "val_events it p k v = [(scalar_text it v, join p ''.'')]"
| "obj_events it p [] = []"
| "obj_events it p ((k, v) # kvs) = (k, join p ''.'') # val_events it p k v @ obj_events it p kvs"
| "elem_events it p [] = []"
| "elem_events it p (JObj kvs # xs) = obj_events it p kvs @ elem_events it p xs"
| "elem_events it p (x # xs) = (scalar_text it x, join p ''.'') # elem_events it p xs"

text \<open>The texts the scan records, without their lines\<close>

fun track :: "(string \<Rightarrow> string) \<Rightarrow> jtoken list \<Rightarrow> jsonLineStruct \<Rightarrow> ((string \<times> string) list \<times> jsonLineStruct) option" where
  "track it [] js = Some ([], js)"
| "track it (TDelim c # toks) js = Option.bind (delimSetup c js) (track it toks)"
| "track it (tok # toks) js =
     map_option (\<lambda>(es, js'). ((the (token_text it tok), js_parent js) # es, js'))
       (track it toks (js\<lparr>lastWasRune := False, tmpParent := the (token_text it tok)\<rparr>))"

lemma track_append:
  "track it (xs @ ys) js =
     Option.bind (track it xs js) (\<lambda>(es, js'). map_option (\<lambda>(es', js''). (es @ es', js'')) (track it ys js'))"
proof (induction it xs js rule: track.induct)
  case (1 it js)
  have "(\<lambda>(es', js''). (es', js'')) = (id :: (string \<times> string) list \<times> jsonLineStruct \<Rightarrow> _)" by auto
  then show ?case by (simp add: option.map_id)
next
  case (2 it c toks js)
  then show ?case by (cases "delimSetup c js") auto
qed (auto simp: option.map_comp comp_def case_prod_unfold bind_map_option intro!: bind_option_cong
      split: bind_splits)

definition at_path :: "string list \<Rightarrow> jsonLineStruct \<Rightarrow> bool" where
  "at_path p js \<longleftrightarrow> pathArr js = p \<and> js_parent js = join p ''.'' \<and> (\<forall>e \<in> set (noremoveidx js). fst e < int (length p))"

definition kept :: "jsonLineStruct \<Rightarrow> jsonLineStruct \<Rightarrow> bool" where
  "kept js js' \<longleftrightarrow> pathArr js' = pathArr js \<and> js_parent js' = js_parent js \<and> noremoveidx js' = noremoveidx js"

lemma kept_trans: "kept a b \<Longrightarrow> kept b c \<Longrightarrow> kept a c"
  by (simp add: kept_def)

lemma kept_at_path: "kept js js' \<Longrightarrow> at_path p js \<Longrightarrow> at_path p js'"
  by (simp add: kept_def at_path_def)

lemma open_key:
  assumes "at_path p js" and "\<not> lastWasRune js" and "c = CHR ''{'' \<or> c = CHR ''[''"
  shows "\<exists>js'. delimSetup c js = Some js' \<and> at_path (p @ [tmpParent js]) js' \<and> lastWasRune js' \<and>
    noremoveidx js' = noremoveidx js"
  using assms by (fastforce simp: delimSetup_def at_path_def update_parent_def)

lemma close_key:
  assumes "at_path (p @ [k]) js'" and "noremoveidx js' = noremoveidx js" and "at_path p js" and "p \<noteq> []"
    and "c = CHR ''}'' \<or> c = CHR '']''"
  shows "\<exists>js''. delimSetup c js' = Some js'' \<and> kept js js'' \<and> lastWasRune js''"
proof -
  have "map_of (noremoveidx js') (int (length p)) = None"
    using assms(2,3) by (fastforce simp: at_path_def map_of_eq_None_iff)
  with assms show ?thesis
    by (auto simp: delimSetup_def closeBrackets_def at_path_def update_parent_def kept_def)
qed

lemma open_elem:
  assumes "at_path (p @ [k]) js" and "lastWasRune js" and "\<forall>e \<in> set (noremoveidx js). fst e < int (length p)"
  shows "\<exists>js'. delimSetup (CHR ''{'') js = Some js' \<and> at_path (p @ [k]) js' \<and>
    map_of (noremoveidx js') (int (length p)) = Some k \<and>
    filter (\<lambda>e. fst e \<noteq> int (length p)) (noremoveidx js') = noremoveidx js"
proof -
  have n: "int (length p) \<notin> fst ` set (noremoveidx js)" using assms(3) by fastforce
  then have f: "filter (\<lambda>e. fst e \<noteq> int (length p)) (noremoveidx js) = noremoveidx js"
    by (intro filter_True) force
  have u: "set (AList.update k' v xs) \<subseteq> insert (k', v) (set xs)" for k' and v :: string and xs :: "(int, string) gomap"
    by (induction xs) auto
  have g: "filter (\<lambda>e. fst e \<noteq> k') (AList.update k' v xs) = filter (\<lambda>e. fst e \<noteq> k') xs"
    for k' and v :: string and xs :: "(int, string) gomap"
    by (induction xs) auto
  show ?thesis
    using assms f g u [of "int (length p)" k "noremoveidx js"]
    by (auto simp: delimSetup_def at_path_def update_parent_def at_def nth_append update_conv')
qed

lemma close_elem:
  assumes "at_path (p @ [k]) js'" and "map_of (noremoveidx js') (int (length p)) = Some k"
    and "filter (\<lambda>e. fst e \<noteq> int (length p)) (noremoveidx js') = noremoveidx js" and "at_path (p @ [k]) js"
    and "p \<noteq> []"
  shows "\<exists>js''. delimSetup (CHR ''}'') js' = Some js'' \<and> kept js js'' \<and> lastWasRune js''"
  using assms by (auto simp: delimSetup_def closeBrackets_def at_path_def update_parent_def kept_def)

lemma track_scalar:
  "scalar v \<Longrightarrow> \<exists>js'. track it (json_tokens v) js = Some ([(scalar_text it v, js_parent js)], js') \<and> kept js js'"
  by (cases v) (auto simp: scalar_text_def kept_def)

lemma track_scalars:
  "list_all scalar xs \<Longrightarrow> at_path p js \<Longrightarrow>
     \<exists>js'. track it (elem_tokens xs) js = Some (elem_events it p xs, js') \<and> kept js js'"
proof (induction xs arbitrary: js)
  case (Cons x xs)
  obtain js1 where 1: "track it (json_tokens x) js = Some ([(scalar_text it x, js_parent js)], js1)" "kept js js1"
    using track_scalar Cons.prems by fastforce
  obtain js2 where 2: "track it (elem_tokens xs) js1 = Some (elem_events it p xs, js2)" "kept js1 js2"
    using Cons.IH [of js1] Cons.prems kept_at_path [OF 1(2)] by auto
  have "js_parent js = join p ''.''" using Cons.prems by (simp add: at_path_def)
  moreover have "elem_events it p (x # xs) = (scalar_text it x, join p ''.'') # elem_events it p xs"
    using Cons.prems by (cases x) auto
  ultimately show ?case using 1 2 kept_trans by (auto simp: track_append)
qed (simp add: kept_def)

lemma track_regular:
  "regular v \<Longrightarrow> p \<noteq> [] \<Longrightarrow> at_path p js \<Longrightarrow> tmpParent js = k \<Longrightarrow> \<not> lastWasRune js \<Longrightarrow>
     \<exists>js'. track it (json_tokens v) js = Some (val_events it p k v, js') \<and> kept js js'"
  "regular_pairs kvs \<Longrightarrow> p \<noteq> [] \<Longrightarrow> at_path p js \<Longrightarrow>
     \<exists>js'. track it (pair_tokens kvs) js = Some (obj_events it p kvs, js') \<and> kept js js'"
  "regular_objs xs \<Longrightarrow> p \<noteq> [] \<Longrightarrow> at_path (p @ [k]) js \<Longrightarrow> lastWasRune js \<Longrightarrow>
     \<forall>e \<in> set (noremoveidx js). fst e < int (length p) \<Longrightarrow>
     \<exists>js'. track it (elem_tokens xs) js = Some (elem_events it (p @ [k]) xs, js') \<and> kept js js' \<and> lastWasRune js'"
proof (induction v and kvs and xs arbitrary: p k js and p js and p k js
    rule: regular_regular_pairs_regular_objs.induct)
  case (1 kvs)
  obtain js1 where 1: "delimSetup (CHR ''{'') js = Some js1" "at_path (p @ [k]) js1" "noremoveidx js1 = noremoveidx js"
    using open_key [of p js "CHR ''{''"] "1.prems" by auto
  obtain js2 where 2: "track it (pair_tokens kvs) js1 = Some (obj_events it (p @ [k]) kvs, js2)" "kept js1 js2"
    using "1.IH" [of "p @ [k]" js1] 1(2) "1.prems" by auto
  obtain js3 where "delimSetup (CHR ''}'') js2 = Some js3" "kept js js3"
    using close_key [of p k js2 js "CHR ''}''"] kept_at_path [OF 2(2) 1(2)] 1(3) 2(2) "1.prems" by (auto simp: kept_def)
  with 1 2 show ?case by (simp add: track_append)
next
  case (2 xs)
  obtain js1 where 1: "delimSetup (CHR ''['') js = Some js1" "at_path (p @ [k]) js1" "noremoveidx js1 = noremoveidx js"
      "lastWasRune js1"
    using open_key [of p js "CHR ''[''"] "2.prems" by auto
  have n: "\<forall>e \<in> set (noremoveidx js1). fst e < int (length p)" using 1(3) "2.prems"(3) by (simp add: at_path_def)
  obtain js2 where 2: "track it (elem_tokens xs) js1 = Some (elem_events it (p @ [k]) xs, js2)" "kept js1 js2"
    using "2.IH" [of p k js1] track_scalars [of xs "p @ [k]" js1 it] 1 n "2.prems" by auto
  obtain js3 where "delimSetup (CHR '']'') js2 = Some js3" "kept js js3"
    using close_key [of p k js2 js "CHR '']''"] kept_at_path [OF 2(2) 1(2)] 1(3) 2(2) "2.prems" by (auto simp: kept_def)
  with 1 2 show ?case by (simp add: track_append)
next
  case (5 k v kvs)
  let ?js = "js\<lparr>lastWasRune := False, tmpParent := k\<rparr>"
  have k: "kept js ?js" by (simp add: kept_def)
  obtain js1 where 1: "track it (json_tokens v) ?js = Some (val_events it p k v, js1)" "kept ?js js1"
    using "5.IH"(1) [of p ?js k] kept_at_path [OF k] "5.prems" by auto
  have k1: "kept js js1" using k 1(2) kept_trans by blast
  obtain js2 where 2: "track it (pair_tokens kvs) js1 = Some (obj_events it p kvs, js2)" "kept js1 js2"
    using "5.IH"(2) [of p js1] kept_at_path [OF k1] "5.prems" by auto
  have "js_parent js = join p ''.''" using "5.prems" by (simp add: at_path_def)
  with 1 2 kept_trans [OF k1 2(2)] show ?case by (simp add: track_append)
next
  case (7 kvs xs)
  obtain js1 where 1: "delimSetup (CHR ''{'') js = Some js1" "at_path (p @ [k]) js1"
      "map_of (noremoveidx js1) (int (length p)) = Some k"
      "filter (\<lambda>e. fst e \<noteq> int (length p)) (noremoveidx js1) = noremoveidx js"
    using open_elem [of p k js] "7.prems" by auto
  obtain js2 where 2: "track it (pair_tokens kvs) js1 = Some (obj_events it (p @ [k]) kvs, js2)" "kept js1 js2"
    using "7.IH"(1) [of "p @ [k]" js1] 1(2) "7.prems" by auto
  obtain js3 where 3: "delimSetup (CHR ''}'') js2 = Some js3" "kept js js3" "lastWasRune js3"
    using close_elem [of p k js2 js] kept_at_path [OF 2(2) 1(2)] 1(3,4) 2(2) "7.prems" by (auto simp: kept_def)
  obtain js4 where 4: "track it (elem_tokens xs) js3 = Some (elem_events it (p @ [k]) xs, js4)" "kept js3 js4"
      "lastWasRune js4"
    using "7.IH"(2) [of p k js3] kept_at_path [OF 3(2)] 3(2,3) "7.prems" by (auto simp: kept_def)
  with 1 2 3 kept_trans [OF 3(2) 4(2)] show ?case by (simp add: track_append)
qed (auto simp: kept_def scalar_text_def at_path_def)
section \<open>Lemmas: lines\<close>

definition line_at :: "string \<Rightarrow> int \<Rightarrow> int" where
  "line_at doc offset = 1 + int (count_list (take (nat offset) doc) CHR 0x0A)"

fun is_delim :: "jtoken \<Rightarrow> bool" where
  "is_delim (TDelim c) = True" | "is_delim t = False"

definition text_offsets :: "(jtoken \<times> int) list \<Rightarrow> int list" where
  "text_offsets toks = map snd (filter (\<lambda>(t, off). \<not> is_delim t) toks)"

definition record_all :: "string \<Rightarrow> ((string \<times> string) \<times> int) list \<Rightarrow> line_info \<Rightarrow> line_info" where
  "record_all doc = fold (\<lambda>((t, p), off) li. record_line t p (line_at doc off) li)"

lemma line_at_step:
  assumes "0 \<le> prev" and "prev \<le> off" and "off \<le> int (length doc)"
  shows "\<exists>passed. Prelude.slice doc prev off = Some passed \<and>
    line_at doc prev + int (count_list passed CHR 0x0A) = line_at doc off"
proof -
  have "take (nat off) doc = take (nat prev) doc @ take (nat (off - prev)) (drop (nat prev) doc)"
    using assms by (metis le_add_diff_inverse nat_diff_distrib nat_mono take_add)
  with assms show ?thesis by (simp add: slice_def line_at_def)
qed

lemma scan_text:
  assumes "\<not> is_delim tok" and "0 \<le> prev" and "prev \<le> off" and "off \<le> int (length doc)"
  shows "scan_tokens it doc ((tok, off) # toks) js (line_at doc prev) prev li =
    scan_tokens it doc toks (js\<lparr>lastWasRune := False, tmpParent := the (token_text it tok)\<rparr>) (line_at doc off) off
      (record_line (the (token_text it tok)) (js_parent js) (line_at doc off) li)"
  using assms line_at_step [OF assms(2-4)] by (cases tok) (auto simp: Let_def)

lemma scan_track:
  "track it (map fst toks) js = Some (es, js') \<Longrightarrow> 0 \<le> prev \<Longrightarrow> sorted (prev # map snd toks) \<Longrightarrow>
     \<forall>off \<in> set (map snd toks). off \<le> int (length doc) \<Longrightarrow>
     length es = length (text_offsets toks) \<and>
     scan_tokens it doc toks js (line_at doc prev) prev li = Some (record_all doc (zip es (text_offsets toks)) li)"
proof (induction toks arbitrary: js es prev li)
  case (Cons tok toks)
  obtain t off where tok: "tok = (t, off)" by fastforce
  show ?case
  proof (cases "is_delim t")
    case True
    then obtain c where c: "t = TDelim c" by (cases t) auto
    obtain js1 where "delimSetup c js = Some js1" "track it (map fst toks) js1 = Some (es, js')"
      using Cons.prems(1) by (auto simp: tok c bind_eq_Some_conv)
    then show ?thesis using Cons.IH [of js1 es prev li] Cons.prems
      by (simp add: tok c text_offsets_def)
  next
    case False
    let ?js = "js\<lparr>lastWasRune := False, tmpParent := the (token_text it t)\<rparr>"
    obtain es1 where es: "es = (the (token_text it t), js_parent js) # es1" "track it (map fst toks) ?js = Some (es1, js')"
      using Cons.prems(1) False by (cases t) (auto simp: tok)
    have s: "scan_tokens it doc (tok # toks) js (line_at doc prev) prev li =
        scan_tokens it doc toks ?js (line_at doc off) off
          (record_line (the (token_text it t)) (js_parent js) (line_at doc off) li)"
      unfolding tok by (rule scan_text) (use False Cons.prems tok in auto)
    have "length es1 = length (text_offsets toks) \<and> scan_tokens it doc toks ?js (line_at doc off) off
          (record_line (the (token_text it t)) (js_parent js) (line_at doc off) li) =
        Some (record_all doc (zip es1 (text_offsets toks))
          (record_line (the (token_text it t)) (js_parent js) (line_at doc off) li))"
      by (rule Cons.IH [OF es(2)]) (use Cons.prems tok in auto)
    then show ?thesis using s False by (simp add: es(1) tok text_offsets_def record_all_def)
  qed
qed (simp add: text_offsets_def record_all_def)

lemma info_get_set:
  "info_get (info_set k p ns li) k' p' = (if k' = k \<and> p' = p then Some ns else info_get li k' p')"
  by (auto simp: info_get_def info_set_def split: option.split)

lemma info_get_Nil [simp]: "info_get [] k p = None"
  by (simp add: info_get_def)

lemma record_all_get:
  "info_get (record_all doc es li) k p =
     (let ns = (case info_get li k p of Some ns \<Rightarrow> ns | None \<Rightarrow> []) @
        map (\<lambda>(e, off). line_at doc off) (filter (\<lambda>(e, off). e = (k, p)) es)
      in if info_get li k p = None \<and> ns = [] then None else Some ns)"
proof (induction es arbitrary: li)
  case Nil
  then show ?case by (auto simp: record_all_def split: option.split)
next
  case (Cons e es)
  obtain t q off where e: "e = ((t, q), off)" by (metis prod.exhaust)
  have "record_all doc (e # es) li = record_all doc es (record_line t q (line_at doc off) li)"
    by (simp add: record_all_def e)
  then show ?case using Cons.IH [of "record_line t q (line_at doc off) li"]
    by (auto simp: e record_line_def info_get_set Let_def split: option.split)
qed

text \<open>The lines of the tokens that are the text \<open>k\<close> below the path \<open>p\<close>, for a document at whose top the path
  is empty\<close>

definition lines_of :: "(string \<Rightarrow> string) \<Rightarrow> string \<Rightarrow> doc \<Rightarrow> (jtoken \<times> int) list \<Rightarrow> string \<Rightarrow> string \<Rightarrow> int list" where
  "lines_of it doc kvs toks k p =
     map (\<lambda>(e, off). line_at doc off) (filter (\<lambda>(e, off). e = (k, p)) (zip (obj_events it [[]] kvs) (text_offsets toks)))"

definition tokens_in :: "string \<Rightarrow> doc \<Rightarrow> (jtoken \<times> int) list \<Rightarrow> bool" where
  "tokens_in doc kvs toks \<longleftrightarrow> map fst toks = json_tokens (JObj kvs) \<and> sorted (0 # map snd toks) \<and>
     (\<forall>off \<in> set (map snd toks). off \<le> int (length doc))"

lemma scan_document:
  assumes "regular_pairs kvs" and "tokens_in doc kvs toks"
  shows "length (obj_events it [[]] kvs) = length (text_offsets toks) \<and>
    (\<exists>li. initializeJSONLine it doc toks = Some li \<and>
    (\<forall>k p. info_get li k p = (let ns = lines_of it doc kvs toks k p in if ns = [] then None else Some ns)))"
proof -
  let ?js = "\<lparr>tmpParent = [], pathArr = [], lastWasRune = False, noremoveidx = [], js_parent = []\<rparr>"
  have d: "delimSetup (CHR ''{'') ?js = Some (?js\<lparr>pathArr := [[]], lastWasRune := True\<rparr>)"
    by (simp add: delimSetup_def update_parent_def)
  have "at_path [[]] (?js\<lparr>pathArr := [[]], lastWasRune := True\<rparr>)" by (simp add: at_path_def)
  from track_regular(2) [OF assms(1) _ this, of it] obtain js1 where
    t: "track it (pair_tokens kvs) (?js\<lparr>pathArr := [[]], lastWasRune := True\<rparr>) = Some (obj_events it [[]] kvs, js1)"
      "kept (?js\<lparr>pathArr := [[]], lastWasRune := True\<rparr>) js1"
    by auto
  have "\<exists>js2. delimSetup (CHR ''}'') js1 = Some js2"
    by (simp add: delimSetup_def)
  with d t have "\<exists>js2. track it (map fst toks) ?js = Some (obj_events it [[]] kvs, js2)"
    using assms(2) by (auto simp: tokens_in_def track_append)
  then obtain js2 where "track it (map fst toks) ?js = Some (obj_events it [[]] kvs, js2)" by blast
  from scan_track [OF this, of 0 doc "[]"] have s: "length (obj_events it [[]] kvs) = length (text_offsets toks)" "initializeJSONLine it doc toks =
      Some (record_all doc (zip (obj_events it [[]] kvs) (text_offsets toks)) [])"
    using assms(2) by (simp_all add: tokens_in_def initializeJSONLine_def line_at_def)
  then show ?thesis
    by (auto simp: record_all_get lines_of_def Let_def)
qed

declare set_value.simps [simp del] set_elem.simps [simp del]

section \<open>Lemmas: the lines of the keys\<close>

definition under :: "string \<Rightarrow> string \<Rightarrow> bool" where
  "under f p \<longleftrightarrow> p = f \<or> prefix (f @ ''.'') p"

lemma under_key: "under (f @ ''.'' @ k) p \<Longrightarrow> under f p"
  by (auto simp: under_def prefix_def)

lemma under_unique:
  assumes "under (f @ ''.'' @ k) p" and "under (f @ ''.'' @ k') p" and "CHR ''.'' \<notin> set k" and "CHR ''.'' \<notin> set k'"
  shows "k = k'"
proof -
  obtain r r' where r: "p = f @ ''.'' @ k @ r" "r = [] \<or> hd r = CHR ''.''" "p = f @ ''.'' @ k' @ r'" "r' = [] \<or> hd r' = CHR ''.''"
    using assms(1,2) by (auto simp: under_def prefix_def) (metis append.assoc append_Cons append_Nil list.sel(1))+
  have key: "takeWhile (\<lambda>c. c \<noteq> CHR ''.'') (k @ r) = k"
    if "CHR ''.'' \<notin> set k" "r = [] \<or> hd r = CHR ''.''" for k r :: string
  proof -
    have "takeWhile (\<lambda>c. c \<noteq> CHR ''.'') r = []" using that(2) by (cases r) auto
    moreover have "takeWhile (\<lambda>c. c \<noteq> CHR ''.'') (k @ r) = k @ takeWhile (\<lambda>c. c \<noteq> CHR ''.'') r"
      using that(1) by (intro takeWhile_append2) auto
    ultimately show ?thesis by simp
  qed
  have "k @ r = k' @ r'" using r(1,3) by simp
  then show ?thesis using key [OF assms(3) r(2)] key [OF assms(4) r(4)] by simp
qed

lemma not_under_self: "\<not> under (f @ ''.'' @ k) f"
proof
  assume "under (f @ ''.'' @ k) f"
  then have "length (f @ ''.'' @ k) \<le> length f" by (auto simp: under_def dest: prefix_length_le)
  then show False by simp
qed

lemma lines_changes:
  "set_value sprint path pop n v li = (arr, v', li1) \<Longrightarrow> info_get li1 k p \<noteq> info_get li k p \<Longrightarrow>
     under path p"
  "set_pairs sprint father pop kvs lm li = (lm', kvs', li2) \<Longrightarrow> info_get li2 k p \<noteq> info_get li k p \<Longrightarrow>
     pop \<and> p = father \<or> (\<exists>key \<in> fst ` set kvs. under (father @ ''.'' @ key) p)"
  "set_elem sprint fatherKey def0 con li = (arr', con', li3) \<Longrightarrow> info_get li3 k p \<noteq> info_get li k p \<Longrightarrow>
     under fatherKey p"
  "setSeqLines sprint vs def1 fatherKey' cons li = (arr'', cons', li4) \<Longrightarrow> info_get li4 k p \<noteq> info_get li k p \<Longrightarrow>
     under fatherKey' p"
proof (induction sprint path pop n v li and sprint father pop kvs lm li and sprint fatherKey def0 con li
    and sprint vs def1 fatherKey' cons li arbitrary: arr v' li1 and lm' kvs' li2 and arr' con' li3 and arr'' cons' li4
    rule: set_value_set_pairs_set_elem_setSeqLines.induct)
  case (1 sprint path pop n v li)
  show ?case
  proof (cases v)
    case (JList xs)
    with "1.prems"(1) obtain xs' where "setSeqLines sprint xs n path xs li = (arr, xs', li1)"
      by (auto simp: set_value.simps split: prod.splits)
    from "1.IH"(1) [OF JList this "1.prems"(2)] show ?thesis .
  next
    case (JObj c)
    with "1.prems"(1) obtain lm c' where "set_pairs sprint path pop c (default_lines n) li = (lm, c', li1)"
      by (auto simp: set_value.simps split: prod.splits)
    from "1.IH"(2) [OF JObj this "1.prems"(2)] show ?thesis using under_key by (auto simp: under_def)
  qed (use 1 in \<open>auto simp: set_value.simps\<close>)
next
  case (2 sprint father pop lm li)
  then show ?case by simp
next
  case (3 sprint father pop key v kvs lm li)
  show ?case
  proof (cases "head_line li key father")
    case None
    then obtain lm1 kvs1 where "set_pairs sprint father pop kvs lm li = (lm1, kvs1, li2)"
      using "3.prems"(1) by (auto split: prod.splits)
    from "3.IH"(1) [OF None this "3.prems"(2)] show ?thesis by auto
  next
    case (Some nr)
    then obtain n rest where n: "head_line li key father = Some (n, rest)" by (cases nr) auto
    let ?li = "if pop then info_set key father rest li else li"
    obtain arr v' li1 where inner: "set_value sprint (father @ ''.'' @ key) pop n v ?li = (arr, v', li1)"
      by (metis prod.exhaust)
    obtain lm1 kvs1 where rest: "set_pairs sprint father pop kvs (gomap_put (kics_name key) (LineObject n arr) lm) li1 =
        (lm1, kvs1, li2)"
      using "3.prems"(1) n inner by (auto simp: Let_def split: prod.splits)
    have 1: "pop \<and> p = father" if "info_get ?li k p \<noteq> info_get li k p"
      using that by (auto simp: info_get_set split: if_splits)
    have 2: "under (father @ ''.'' @ key) p" if "info_get li1 k p \<noteq> info_get ?li k p"
      by (rule "3.IH"(2) [OF n refl inner that])
    have 3: "pop \<and> p = father \<or> (\<exists>key \<in> fst ` set kvs. under (father @ ''.'' @ key) p)"
      if "info_get li2 k p \<noteq> info_get li1 k p"
      by (rule "3.IH"(3) [OF n refl inner [symmetric] refl refl rest that])
    have "pop \<and> p = father \<or> under (father @ ''.'' @ key) p \<or> (\<exists>key \<in> fst ` set kvs. under (father @ ''.'' @ key) p)"
      using 1 2 3 "3.prems"(2) by metis
    then show ?thesis by auto
  qed
next
  case (4 sprint fatherKey def0 con li)
  show ?case
  proof (cases con)
    case (JObj c)
    with "4.prems"(1) obtain lm c' where "set_pairs sprint fatherKey True c (default_lines def0) li = (lm, c', li3)"
      by (auto simp: set_elem.simps split: prod.splits)
    from "4.IH"(1) [OF JObj this "4.prems"(2)] show ?thesis using under_key by (auto simp: under_def)
  qed (use "4.prems" in \<open>auto simp: set_elem.simps info_get_set under_def split: option.splits if_splits\<close>)
next
  case (6 sprint v def0 fatherKey con cons li)
  let ?n = "if getMapDefaultLine li v fatherKey = - 1 then def0 else getMapDefaultLine li v fatherKey"
  obtain arr con1 li1 where 1: "set_elem sprint fatherKey ?n con li = (arr, con1, li1)" by (metis prod.exhaust)
  obtain arrs cons1 where 2: "setSeqLines sprint v def0 fatherKey cons li1 = (arrs, cons1, li4)"
    using "6.prems"(1) 1 by (auto simp: Let_def split: prod.splits)
  show ?case
    using "6.IH"(1) [OF refl 1] "6.IH"(2) [OF refl 1 [symmetric] refl refl 2] "6.prems"(2) by metis
qed simp

text \<open>The object at the end of a path of keys, and the path as the pass over the tokens writes it\<close>

fun object_at :: "string list \<Rightarrow> jval \<Rightarrow> doc option" where
  "object_at [] v = (case v of JObj c \<Rightarrow> Some c | _ \<Rightarrow> None)"
| "object_at (k # ks) v =
     (case v of JObj c \<Rightarrow> Option.bind (map_of c k) (object_at ks) | _ \<Rightarrow> None)"

fun path_below :: "string \<Rightarrow> string list \<Rightarrow> string" where
  "path_below f [] = f"
| "path_below f (k # ks) = path_below (f @ ''.'' @ k) ks"

text \<open>Keys as in the code's documents: each once, without a dot, and not the one the lines go to\<close>

definition plain_keys :: "doc \<Rightarrow> bool" where
  "plain_keys c \<longleftrightarrow> distinct (map fst c) \<and> (\<forall>k \<in> fst ` set c. CHR ''.'' \<notin> set k \<and> k \<noteq> ''_kics_lines'')"

definition lines_for :: "line_info \<Rightarrow> string \<Rightarrow> doc \<Rightarrow> line_map \<Rightarrow> bool" where
  "lines_for li father c lm \<longleftrightarrow>
     (\<forall>key \<in> fst ` set c. \<forall>n ns. info_get li key father = Some (n # ns) \<longrightarrow>
        (\<exists>arr. map_of lm (kics_name key) = Some (LineObject n arr)))"

lemma head_line_Some: "head_line li key father = Some (n, ns) \<longleftrightarrow> info_get li key father = Some (n # ns)"
  by (auto simp: head_line_def split: option.splits list.splits)

lemma kics_name_inj [simp]: "kics_name k = kics_name k' \<longleftrightarrow> k = k'"
  by (simp add: kics_name_def)

lemma set_pairs_other:
  "set_pairs sprint father False kvs lm li = (lm', kvs', li') \<Longrightarrow> key \<notin> fst ` set kvs \<Longrightarrow>
     map_of lm' (kics_name key) = map_of lm (kics_name key)"
  by (induction kvs arbitrary: lm kvs' li) (fastforce split: option.splits prod.splits simp: Let_def)+

text \<open>One object: the lines of its keys, and what becomes of the objects in it\<close>

lemma set_pairs_lines:
  "set_pairs sprint father False kvs lm li = (lm', kvs', li') \<Longrightarrow> plain_keys kvs \<Longrightarrow>
     \<forall>key \<in> fst ` set kvs. \<forall>k. info_get li key father = info_get li0 key father \<and>
       (\<forall>p. under (father @ ''.'' @ key) p \<longrightarrow> info_get li k p = info_get li0 k p) \<Longrightarrow>
     lines_for li0 father kvs lm' \<and>
     (\<forall>key c n ns. map_of kvs key = Some (JObj c) \<and> info_get li0 key father = Some (n # ns) \<longrightarrow>
        (\<exists>li1 lm1 c1 li2. set_pairs sprint (father @ ''.'' @ key) False c (default_lines n) li1 = (lm1, c1, li2) \<and>
           map_of kvs' key = Some (with_lines lm1 c1) \<and>
           (\<forall>k p. under (father @ ''.'' @ key) p \<longrightarrow> info_get li1 k p = info_get li0 k p)))"
proof (induction kvs arbitrary: lm li kvs')
  case Nil
  then show ?case by (simp add: lines_for_def)
next
  case (Cons kv kvs)
  obtain key v where kv: "kv = (key, v)" by fastforce
  have pk: "plain_keys kvs" and new: "key \<notin> fst ` set kvs" using Cons.prems(2) by (auto simp: plain_keys_def kv)
  show ?case
  proof (cases "head_line li key father")
    case None
    then obtain kvs1 where r: "set_pairs sprint father False kvs lm li = (lm', kvs1, li')" "kvs' = (key, v) # kvs1"
      using Cons.prems(1) by (auto simp: kv split: prod.splits)
    have "info_get li0 key father \<noteq> Some (n # ns)" for n ns
      using None Cons.prems(3) head_line_Some [of li key father] by (auto simp: kv)
    moreover note Cons.IH [OF r(1) pk]
    ultimately show ?thesis using Cons.prems(3) new r(2)
      by (auto simp: lines_for_def kv)
  next
    case (Some nr)
    then obtain n ns where n: "head_line li key father = Some (n, ns)" by (cases nr) auto
    obtain arr v' li1 where inner: "set_value sprint (father @ ''.'' @ key) False n v li = (arr, v', li1)"
      by (metis prod.exhaust)
    obtain kvs1 where rest: "set_pairs sprint father False kvs (gomap_put (kics_name key) (LineObject n arr) lm) li1 =
        (lm', kvs1, li')" "kvs' = (key, v') # kvs1"
      using Cons.prems(1) n inner by (auto simp: kv Let_def split: prod.splits)
    have frame: "info_get li1 k p = info_get li k p" if "\<not> under (father @ ''.'' @ key) p" for k p
      using lines_changes(1) [OF inner] that by blast
    have apart: "\<not> under (father @ ''.'' @ key) p" if "key' \<in> fst ` set kvs" "under (father @ ''.'' @ key') p" for key' p
      using under_unique [of father key p key'] that new Cons.prems(2) by (auto simp: plain_keys_def kv)
    have ih: "lines_for li0 father kvs lm' \<and>
     (\<forall>key c n ns. map_of kvs key = Some (JObj c) \<and> info_get li0 key father = Some (n # ns) \<longrightarrow>
        (\<exists>li1 lm1 c1 li2. set_pairs sprint (father @ ''.'' @ key) False c (default_lines n) li1 = (lm1, c1, li2) \<and>
           map_of kvs1 key = Some (with_lines lm1 c1) \<and>
           (\<forall>k p. under (father @ ''.'' @ key) p \<longrightarrow> info_get li1 k p = info_get li0 k p)))"
    proof (rule Cons.IH [OF rest(1) pk], intro ballI allI conjI impI)
      fix key' k assume key': "key' \<in> fst ` set kvs"
      show "info_get li1 key' father = info_get li0 key' father"
        using Cons.prems(3) frame [OF not_under_self] key' by (auto simp: kv)
      show "info_get li1 k p = info_get li0 k p" if "under (father @ ''.'' @ key') p" for p
        using Cons.prems(3) frame [OF apart [OF key' that]] key' that by (auto simp: kv)
    qed
    have line: "map_of lm' (kics_name key) = Some (LineObject n arr)"
      using set_pairs_other [OF rest(1) new] by simp
    have n0: "info_get li0 key father = Some (n # ns)"
      using n Cons.prems(3) by (auto simp: kv head_line_Some)
    have inside: "\<exists>li1 lm1 c1 li2. set_pairs sprint (father @ ''.'' @ key) False c (default_lines n) li1 = (lm1, c1, li2) \<and>
        v' = with_lines lm1 c1 \<and> (\<forall>k p. under (father @ ''.'' @ key) p \<longrightarrow> info_get li1 k p = info_get li0 k p)"
      if obj: "v = JObj c" for c
    proof -
      obtain lm1 c1 where "set_pairs sprint (father @ ''.'' @ key) False c (default_lines n) li = (lm1, c1, li1)"
          "v' = with_lines lm1 c1"
        using inner unfolding obj by (auto simp: set_value.simps split: prod.splits)
      then show ?thesis using Cons.prems(3) by (auto simp: kv)
    qed
    show ?thesis
      using ih line n0 inside new rest(2) by (auto simp: lines_for_def kv)
  qed
qed

lemma object_at_object: "object_at ks v = Some c \<Longrightarrow> \<exists>c0. v = JObj c0"
  by (cases ks; cases v) auto

lemma object_lines:
  "set_pairs sprint father False kvs lm li = (lm', kvs', li') \<Longrightarrow>
     object_at ks (JObj kvs) = Some c \<Longrightarrow>
     (\<And>ks' c'. prefix ks' ks \<Longrightarrow> object_at ks' (JObj kvs) = Some c' \<Longrightarrow> plain_keys c') \<Longrightarrow>
     (\<And>ks' k. prefix (ks' @ [k]) ks \<Longrightarrow> \<exists>n ns. info_get li0 k (path_below father ks') = Some (n # ns)) \<Longrightarrow>
     (\<And>key k. key \<in> fst ` set kvs \<Longrightarrow> info_get li key father = info_get li0 key father) \<Longrightarrow>
     (\<And>key k p. key \<in> fst ` set kvs \<Longrightarrow> under (father @ ''.'' @ key) p \<Longrightarrow> info_get li k p = info_get li0 k p) \<Longrightarrow>
     \<exists>c' lm1. object_at ks (with_lines lm' kvs') = Some c' \<and> map_of c' ''_kics_lines'' = Some (lines_value lm1) \<and>
       lines_for li0 (path_below father ks) c lm1"
proof (induction ks arbitrary: father kvs lm li lm' kvs' li')
  case Nil
  have "plain_keys kvs" using Nil.prems(3) [of "[]" kvs] by simp
  moreover have "c = kvs" using Nil.prems(2) by simp
  ultimately show ?case
    using set_pairs_lines [OF Nil.prems(1), of li0] Nil.prems(5,6) by fastforce
next
  case (Cons key ks)
  have pk: "plain_keys kvs" using Cons.prems(3) [of "[]" kvs] by simp
  obtain c0 where c0: "map_of kvs key = Some (JObj c0)" "object_at ks (JObj c0) = Some c"
    using Cons.prems(2) object_at_object by (fastforce simp: bind_eq_Some_conv)
  obtain n ns where n: "info_get li0 key father = Some (n # ns)"
    using Cons.prems(4) [of "[]" key] by auto
  have "lines_for li0 father kvs lm' \<and>
     (\<forall>key c n ns. map_of kvs key = Some (JObj c) \<and> info_get li0 key father = Some (n # ns) \<longrightarrow>
        (\<exists>li1 lm1 c1 li2. set_pairs sprint (father @ ''.'' @ key) False c (default_lines n) li1 = (lm1, c1, li2) \<and>
           map_of kvs' key = Some (with_lines lm1 c1) \<and>
           (\<forall>k p. under (father @ ''.'' @ key) p \<longrightarrow> info_get li1 k p = info_get li0 k p)))"
    by (rule set_pairs_lines [OF Cons.prems(1) pk]) (use Cons.prems(5,6) in blast)
  with c0(1) n obtain li1 lm1 c1 li2 where r: "set_pairs sprint (father @ ''.'' @ key) False c0 (default_lines n) li1 = (lm1, c1, li2)"
      "map_of kvs' key = Some (with_lines lm1 c1)"
      "\<forall>k p. under (father @ ''.'' @ key) p \<longrightarrow> info_get li1 k p = info_get li0 k p"
    by blast
  have u: "under (father @ ''.'' @ key) (father @ ''.'' @ key)" by (simp add: under_def)
  have key: "key \<noteq> ''_kics_lines''" using pk map_of_SomeD [OF c0(1)] by (force simp: plain_keys_def)
  have "\<exists>c' lm2. object_at ks (with_lines lm1 c1) = Some c' \<and> map_of c' ''_kics_lines'' = Some (lines_value lm2) \<and>
       lines_for li0 (path_below (father @ ''.'' @ key) ks) c lm2"
  proof (rule Cons.IH [OF r(1) c0(2)])
    show "plain_keys c'" if "prefix ks' ks" "object_at ks' (JObj c0) = Some c'" for ks' c'
      using Cons.prems(3) [of "key # ks'" c'] that c0(1) by simp
    show "\<exists>n ns. info_get li0 k (path_below (father @ ''.'' @ key) ks') = Some (n # ns)" if "prefix (ks' @ [k]) ks" for ks' k
      using Cons.prems(4) [of "key # ks'" k] that by simp
    show "info_get li1 k (father @ ''.'' @ key) = info_get li0 k (father @ ''.'' @ key)" for k using r(3) u by blast
    show "info_get li1 k p = info_get li0 k p" if "under ((father @ ''.'' @ key) @ ''.'' @ k') p" for k' k p
      using r(3) under_key [OF that] by blast
  qed
  then show ?case using r(2) key by simp
qed

lemma path_below_join: "p \<noteq> [] \<Longrightarrow> path_below (join p ''.'') ks = join (p @ ks) ''.''"
proof (induction ks arbitrary: p)
  case (Cons k ks)
  have "join p ''.'' @ ''.'' @ k = join (p @ [k]) ''.''" using Cons.prems
    by (induction p rule: induct_list012) auto
  then show ?case using Cons.IH [of "p @ [k]"] by simp
qed simp

lemma obj_events_mem: "(k, JObj c) \<in> set kvs \<Longrightarrow> set (obj_events it (p @ [k]) c) \<subseteq> set (obj_events it p kvs)"
  by (induction kvs) auto

lemma obj_events_keys: "k \<in> fst ` set kvs \<Longrightarrow> (k, join p ''.'') \<in> set (obj_events it p kvs)"
  by (induction kvs) force+

lemma object_at_events:
  "object_at ks (JObj kvs) = Some c \<Longrightarrow> k \<in> fst ` set c \<Longrightarrow> (k, join (p @ ks) ''.'') \<in> set (obj_events it p kvs)"
proof (induction ks arbitrary: p kvs)
  case Nil
  then show ?case using obj_events_keys by simp
next
  case (Cons key ks)
  then obtain v where v: "map_of kvs key = Some v" "object_at ks v = Some c" by (auto simp: bind_eq_Some_conv)
  moreover obtain c0 where "v = JObj c0" using object_at_object [OF v(2)] by blast
  ultimately have c0: "(key, JObj c0) \<in> set kvs" "object_at ks (JObj c0) = Some c"
    by (auto dest: map_of_SomeD)
  from Cons.IH [OF c0(2) Cons.prems(2), of "p @ [key]"] obj_events_mem [OF c0(1), of it p]
  show ?case by auto
qed

lemma object_at_prefix:
  "object_at (ks @ ks') v = Some c \<Longrightarrow> \<exists>c'. object_at ks v = Some c' \<and> object_at ks' (JObj c') = Some c"
proof (induction ks arbitrary: v)
  case Nil
  then show ?case using object_at_object [of ks' v c] by auto
next
  case (Cons k ks)
  then show ?case by (cases v) (auto simp: bind_eq_Some_conv)
qed

lemma lines_of_nonempty:
  assumes "length (obj_events it [[]] kvs) = length (text_offsets toks)"
    and "object_at ks (JObj kvs) = Some c" and "k \<in> fst ` set c"
  shows "lines_of it text0 kvs toks k (path_below [] ks) \<noteq> []"
proof -
  have "path_below [] ks = join ([[]] @ ks) ''.''" using path_below_join [of "[[]]" ks] by simp
  then have "(k, path_below [] ks) \<in> set (obj_events it [[]] kvs)"
    using object_at_events [OF assms(2,3), of "[[]]" it] by simp
  then have "(k, path_below [] ks) \<in> fst ` set (zip (obj_events it [[]] kvs) (text_offsets toks))"
    using assms(1) by (metis map_fst_zip set_map)
  then show ?thesis by (force simp: lines_of_def filter_empty_conv)
qed

section \<open>Properties\<close>


definition example_json :: doc where
  "example_json = [(''a'', JObj [(''b'', JFloat ''1'')])]"

definition example_content :: string where
  "example_content = ''{'' @ [CHR 0x0A] @ ''a:{'' @ [CHR 0x0A] @ ''b:1}}''"

definition example_tokens :: "(jtoken \<times> int) list" where
  "example_tokens = [(TDelim CHR ''{'', 1), (TString ''a'', 3), (TDelim CHR ''{'', 5), (TString ''b'', 7), (TFloat ''1'', 9),
     (TDelim CHR ''}'', 10), (TDelim CHR ''}'', 11)]"


text \<open>The modules of a plan in the order in which they are read\<close>

fun modules :: "StateModule \<Rightarrow> plan_resource list list" where
  "modules (StateModule rs ms) = rs # concat (map modules ms)"

text \<open>The resources of a type in one module: the last of each name\<close>

definition named :: "string \<Rightarrow> plan_resource list \<Rightarrow> string \<Rightarrow> jval option" where
  "named t rs n = map_of (rev (map (\<lambda>r. (pr_Name r, pr_AttributeValues r)) (filter (\<lambda>r. pr_Type r = t) rs))) n"

definition plan_value :: "KicsPlan \<Rightarrow> string \<Rightarrow> string \<Rightarrow> jval option" where
  "plan_value kp t n = Option.bind (map_of kp t) (\<lambda>m. map_of m n)"

definition add_module :: "plan_resource list \<Rightarrow> KicsPlan \<Rightarrow> KicsPlan" where
  "add_module rs kp =
     foldl (\<lambda>kp r. gomap_put (pr_Type r) (gomap_put (pr_Name r) (pr_AttributeValues r)
         (case map_of kp (pr_Type r) of Some m \<Rightarrow> m | None \<Rightarrow> [])) kp)
       (foldl (\<lambda>kp r. gomap_put (pr_Type r) [] kp) kp rs) rs"

lemma readModule_modules: "readModule m kp = fold add_module (modules m) kp"
proof (induction m arbitrary: kp)
  case (StateModule rs ms)
  have "fold readModule xs kp = fold add_module (concat (map modules xs)) kp" if "set xs \<subseteq> set ms" for xs kp
    using that StateModule.IH by (induction xs arbitrary: kp) auto
  then show ?case by (simp add: Let_def flip: add_module_def)
qed

lemma add_empty: "map_of (foldl (\<lambda>kp r. gomap_put (pr_Type r) [] kp) kp rs) t =
    (if t \<in> pr_Type ` set rs then Some [] else map_of kp t)"
  by (induction rs arbitrary: kp) auto

lemma add_named:
  "plan_value (foldl (\<lambda>kp r. gomap_put (pr_Type r) (gomap_put (pr_Name r) (pr_AttributeValues r)
         (case map_of kp (pr_Type r) of Some m \<Rightarrow> m | None \<Rightarrow> [])) kp) kp rs) t n =
     (case named t rs n of Some v \<Rightarrow> Some v | None \<Rightarrow> plan_value kp t n)"
proof (induction rs arbitrary: kp)
  case Nil
  then show ?case by (simp add: named_def)
next
  case (Cons r rs)
  show ?case unfolding foldl_Cons Cons.IH
    by (auto simp: named_def plan_value_def map_add_def split: option.splits)
qed

lemma add_module_value:
  "plan_value (add_module rs kp) t n = (if t \<in> pr_Type ` set rs then named t rs n else plan_value kp t n)"
proof -
  have none: "named t rs n = None" if "t \<notin> pr_Type ` set rs"
  proof -
    have "filter (\<lambda>r. pr_Type r = t) rs = []" using that by (auto simp: filter_empty_conv)
    then show ?thesis by (simp add: named_def)
  qed
  show ?thesis
    unfolding add_module_def add_named
    by (cases "t \<in> pr_Type ` set rs") (simp_all add: plan_value_def add_empty none split: option.split)
qed

text \<open>C20. Of the resources of one type a Terraform plan keeps those of one module only: of the last module, in the
  order of the calls, that has a resource of the type. What earlier modules hold of the type is lost.\<close>

theorem plan_keeps_last_module:
  "plan_value (readModule root []) t n =
     (case rev (filter (\<lambda>rs. t \<in> pr_Type ` set rs) (modules root)) of
        [] \<Rightarrow> None
      | rs # _ \<Rightarrow> named t rs n)"
proof -
  have "plan_value (fold add_module mss []) t n =
      (case rev (filter (\<lambda>rs. t \<in> pr_Type ` set rs) mss) of [] \<Rightarrow> None | rs # _ \<Rightarrow> named t rs n)" for mss
    by (induction mss rule: rev_induct) (simp add: plan_value_def, simp add: add_module_value)
  then show ?thesis by (simp add: readModule_modules)
qed

end
