(* ===== verification/Scanner.thy ===== *)
theory Scanner
  imports Service
begin

text \<open>
  The scanner, \<open>pkg/scanner\<close>: it runs the services of a scan at the same time, first to prepare the
  sources (\<open>PrepareAndScan\<close>) and then to scan them (\<open>scanner_StartScan\<close>), and waits for all of them
  or for the first error. What a service does is that of \<open>Service\<close>; here is what the goroutines tell
  each other, by the channels \<open>errCh\<close>, \<open>currentQuery\<close> and \<open>wgDone\<close> and the wait groups.
\<close>

section \<open>Goroutines and channels\<close>

text \<open>
  What is left for the goroutine of a service to do. \<open>Tick\<close> is \<open>currentQuery <- 1\<close>, which the
  workers of its inspector send one by one, \<open>SendErr\<close> a value for \<open>errCh\<close>, \<open>Save\<close> the call of
  \<open>SaveVulnerabilities\<close>, whose error is sent in turn, and \<open>WgDone\<close> the deferred \<open>wg.Done()\<close>.
\<close>

datatype action = Tick | SendErr string | Save "Vulnerability list" | WgDone

datatype progress_bar = NoBar | Counting int | BarOver

text \<open>The goroutine that waits for the groups and then closes \<open>currentQuery\<close> and \<open>wgDone\<close>\<close>

datatype closer = Awaiting | ClosedQuery | ClosedDone

text \<open>The function itself, once it has started the goroutines: at its \<open>select\<close>, or past it\<close>

datatype selector = Selecting | Received string | Returned "string option"

record 's scan_run =
  goroutines :: "action list list"
  wg_count :: int
  wg_closer :: closer
  queue :: int
  query_closed :: bool
  bar_total :: int
  bar :: progress_bar
  errCh_closed :: bool
  selector :: selector
  panicked :: bool
  run_storage :: 's

datatype turn = ServiceTurn nat | BarTurn | CloserTurn | SelectTurn

text \<open>
  \<open>currentQuery\<close> holds one value, \<open>errCh\<close> none: an error is sent when the \<open>select\<close> takes it. To
  send on a closed channel is a panic, which ends the program. \<open>None\<close>: the goroutine has to wait, or
  has ended.
\<close>

definition service_turn ::
  "(Vulnerability list \<Rightarrow> 's \<Rightarrow> string option \<times> 's) \<Rightarrow> nat \<Rightarrow> 's scan_run \<Rightarrow> 's scan_run option" where
  "service_turn save i r =
     (if i < length (goroutines r) then
        (case goroutines r ! i of
           [] \<Rightarrow> None
         | a # as \<Rightarrow>
             (let r' = r\<lparr>goroutines := (goroutines r)[i := as]\<rparr> in
              case a of
                Tick \<Rightarrow>
                  (if query_closed r then Some (r\<lparr>panicked := True\<rparr>)
                   else if queue r < 1 then Some (r'\<lparr>queue := queue r + 1\<rparr>) else None)
              | SendErr e \<Rightarrow>
                  (if errCh_closed r then Some (r\<lparr>panicked := True\<rparr>)
                   else if selector r = Selecting then Some (r'\<lparr>selector := Received e\<rparr>) else None)
              | Save vs \<Rightarrow>
                  (case save vs (run_storage r) of
                     (None, s) \<Rightarrow> Some (r'\<lparr>run_storage := s\<rparr>)
                   | (Some e, s) \<Rightarrow>
                       Some (r\<lparr>goroutines :=
                           (goroutines r)[i := SendErr (''failed to save vulnerabilities: '' @ e) # as],
                         run_storage := s\<rparr>))
              | WgDone \<Rightarrow> Some (r'\<lparr>wg_count := wg_count r - 1\<rparr>)))
      else None)"

text \<open>The loop of the counting progress bar, \<open>pkg/progress/counter\<close>; a closed channel gives 0.\<close>

definition bar_turn :: "'s scan_run \<Rightarrow> 's scan_run option" where
  "bar_turn r =
     (case bar r of
        Counting n \<Rightarrow>
          (if 0 < queue r then
             Some (r\<lparr>queue := queue r - 1,
               bar := if bar_total r \<le> n + 1 then BarOver else Counting (n + 1)\<rparr>)
           else if query_closed r then Some (r\<lparr>bar := BarOver\<rparr>) else None)
      | _ \<Rightarrow> None)"

text \<open>\<open>wg.Wait()\<close>, \<open>wgProg.Wait()\<close>, and then the two channels are closed.\<close>

definition closer_turn :: "'s scan_run \<Rightarrow> 's scan_run option" where
  "closer_turn r =
     (case wg_closer r of
        Awaiting \<Rightarrow>
          (if wg_count r = 0 \<and> (\<forall>n. bar r \<noteq> Counting n)
           then Some (r\<lparr>wg_closer := ClosedQuery, query_closed := True\<rparr>) else None)
      | ClosedQuery \<Rightarrow> Some (r\<lparr>wg_closer := ClosedDone\<rparr>)
      | ClosedDone \<Rightarrow> None)"

text \<open>The \<open>select\<close> on \<open>wgDone\<close> and \<open>errCh\<close>; after an error it closes \<open>errCh\<close> and returns the error.\<close>

definition select_turn :: "'s scan_run \<Rightarrow> 's scan_run option" where
  "select_turn r =
     (case selector r of
        Selecting \<Rightarrow> (if wg_closer r = ClosedDone then Some (r\<lparr>selector := Returned None\<rparr>) else None)
      | Received e \<Rightarrow> Some (r\<lparr>errCh_closed := True, selector := Returned (Some e)\<rparr>)
      | Returned _ \<Rightarrow> None)"

definition scan_turn ::
  "(Vulnerability list \<Rightarrow> 's \<Rightarrow> string option \<times> 's) \<Rightarrow> turn \<Rightarrow> 's scan_run \<Rightarrow> 's scan_run option" where
  "scan_turn save t r =
     (if panicked r then None
      else case t of
        ServiceTurn i \<Rightarrow> service_turn save i r
      | BarTurn \<Rightarrow> bar_turn r
      | CloserTurn \<Rightarrow> closer_turn r
      | SelectTurn \<Rightarrow> select_turn r)"

inductive scan_step ::
  "(Vulnerability list \<Rightarrow> 's \<Rightarrow> string option \<times> 's) \<Rightarrow> 's scan_run \<Rightarrow> 's scan_run \<Rightarrow> bool" for save where
  scan_step: "scan_turn save t r = Some r' \<Longrightarrow> scan_step save r r'"

definition stuck :: "(Vulnerability list \<Rightarrow> 's \<Rightarrow> string option \<times> 's) \<Rightarrow> 's scan_run \<Rightarrow> bool" where
  "stuck save r \<longleftrightarrow> (\<forall>t. scan_turn save t r = None)"

text \<open>A run as a list of turns, for evaluation\<close>

fun take_turns ::
  "(Vulnerability list \<Rightarrow> 's \<Rightarrow> string option \<times> 's) \<Rightarrow> turn list \<Rightarrow> 's scan_run \<Rightarrow> 's scan_run option" where
  "take_turns save [] r = Some r"
| "take_turns save (t # ts) r = do { r' \<leftarrow> scan_turn save t r; take_turns save ts r' }"

section \<open>The two phases\<close>

text \<open>
  The state at the \<open>select\<close>: a goroutine that ran before it has done what it can do after it as
  well. The bar is only started when there are queries.
\<close>

definition start_run :: "action list list \<Rightarrow> int \<Rightarrow> 's \<Rightarrow> 's scan_run" where
  "start_run gs n s =
     \<lparr>goroutines = gs, wg_count = int (length gs), wg_closer = Awaiting, queue = 0, query_closed = False,
      bar_total = n, bar = (if n \<noteq> 0 then Counting 0 else NoBar), errCh_closed = False,
      selector = Selecting, panicked = False, run_storage = s\<rparr>"

definition GetQueriesLength ::
  "'t EngineTracker \<Rightarrow> QueryLoader \<Rightarrow> string list list \<Rightarrow> 't \<Rightarrow> int \<times> 't" where
  "GetQueriesLength tr ql services t0 =
     foldl (\<lambda>(count, t) platforms. let (n, t') = LenQueriesByPlat tr ql platforms t in (count + n, t'))
       (0, t0) services"

text \<open>
  A service is given by the platforms of its parser and what \<open>Inspect\<close> returns to it. Its workers
  send one value for each query they take; when \<open>Inspect\<close> fails it has started none, and there are
  none when the number of workers is negative.
\<close>

type_synonym scan_service = "string list \<times> (string + Vulnerability list)"

definition scan_ticks :: "Inspector \<Rightarrow> scan_service \<Rightarrow> nat" where
  "scan_ticks c sv =
     (case snd sv of
        Inl err \<Rightarrow> 0
      | Inr vs \<Rightarrow>
          (if 0 < i_numWorkers c then length (getQueriesByPlat (i_QueryLoader c) (fst sv)) else 0))"

definition scan_goroutine :: "Inspector \<Rightarrow> scan_service \<Rightarrow> action list" where
  "scan_goroutine c sv =
     replicate (scan_ticks c sv) Tick @
     (case snd sv of
        Inl err \<Rightarrow> [SendErr (''failed to inspect files: '' @ err), Save []]
      | Inr vs \<Rightarrow> [Save vs]) @ [WgDone]"

definition scanner_StartScan ::
  "'t EngineTracker \<Rightarrow> Inspector \<Rightarrow> scan_service list \<Rightarrow> 't \<Rightarrow> 's \<Rightarrow> 's scan_run \<times> 't" where
  "scanner_StartScan tr c services t0 s =
     (let (n, t) = GetQueriesLength tr (i_QueryLoader c) (map fst services) t0
      in (start_run (map (scan_goroutine c) services) n s, t))"

text \<open>
  The first phase of \<open>PrepareAndScan\<close>: a service is given by the errors that \<open>PrepareSources\<close>
  sends. There is no channel \<open>currentQuery\<close> and no bar; the turn that closes it stands for the call
  of the deferred function.
\<close>

definition prepare_goroutine :: "string list \<Rightarrow> action list" where
  "prepare_goroutine errs = map SendErr errs @ [WgDone]"

definition scanner_prepare :: "string list list \<Rightarrow> 's \<Rightarrow> 's scan_run" where
  "scanner_prepare services s = start_run (map prepare_goroutine services) 0 s"

section \<open>The invariant of a run\<close>

definition has_send :: "action list \<Rightarrow> bool" where
  "has_send g \<longleftrightarrow> (\<exists>e. SendErr e \<in> set g)"

definition ends_with_done :: "action list \<Rightarrow> bool" where
  "ends_with_done g \<longleftrightarrow> g = [] \<or> (\<exists>as. g = as @ [WgDone] \<and> WgDone \<notin> set as)"

definition pending :: "'s scan_run \<Rightarrow> int" where
  "pending r = (\<Sum>g\<leftarrow>goroutines r. int (count_list g Tick))"

definition running :: "'s scan_run \<Rightarrow> int" where
  "running r = (\<Sum>g\<leftarrow>goroutines r. if g = [] then 0 else 1)"

definition failing :: "'s scan_run \<Rightarrow> bool" where
  "failing r \<longleftrightarrow> selector r \<noteq> Selecting \<or> (\<exists>g \<in> set (goroutines r). has_send g)"

definition bar_ok :: "'s scan_run \<Rightarrow> bool" where
  "bar_ok r \<longleftrightarrow>
     (case bar r of
        Counting n \<Rightarrow> n < bar_total r \<and> n + queue r + pending r \<le> bar_total r \<and>
          (n + queue r + pending r < bar_total r \<longrightarrow> failing r)
      | _ \<Rightarrow> queue r + pending r = 0)"

definition run_ok :: "'s scan_run \<Rightarrow> bool" where
  "run_ok r \<longleftrightarrow>
     (\<forall>g \<in> set (goroutines r). ends_with_done g) \<and> wg_count r = running r \<and>
     0 \<le> queue r \<and> queue r \<le> 1 \<and>
     (query_closed r \<longleftrightarrow> wg_closer r \<noteq> Awaiting) \<and>
     (wg_closer r \<noteq> Awaiting \<longrightarrow> wg_count r = 0 \<and> (\<forall>n. bar r \<noteq> Counting n)) \<and>
     (errCh_closed r \<longleftrightarrow> (\<exists>e. selector r = Returned (Some e))) \<and>
     (panicked r \<longrightarrow> errCh_closed r) \<and>
     (selector r = Returned None \<longrightarrow> wg_closer r = ClosedDone) \<and> bar_ok r"

lemma sum_list_entry:
  fixes f :: "'a \<Rightarrow> int"
  assumes "i < length xs"
  shows "(\<Sum>x\<leftarrow>xs[i := y]. f x) = (\<Sum>x\<leftarrow>xs. f x) + f y - f (xs ! i)"
  using assms by (induction xs arbitrary: i) (auto split: nat.split)

lemma set_list_entry: "i < length xs \<Longrightarrow> set (xs[i := y]) \<subseteq> insert y (set xs)"
  by (rule set_update_subset_insert)

lemma bex_list_entry:
  assumes "\<exists>x \<in> set xs. P x" and "i < length xs" and "P (xs ! i) \<Longrightarrow> P y"
  shows "\<exists>x \<in> set (xs[i := y]). P x"
proof -
  from assms(1) obtain j where j: "j < length xs" "P (xs ! j)" by (metis in_set_conv_nth)
  then have "P (xs[i := y] ! j)" using assms(2,3) by (cases "i = j") auto
  then show ?thesis using j(1) by (metis length_list_update nth_mem)
qed

lemma pending_nonneg: "0 \<le> pending r"
  unfolding pending_def by (auto intro!: sum_list_nonneg)

lemma running_nonneg: "0 \<le> running r"
  unfolding running_def by (auto intro!: sum_list_nonneg)

lemma running_0: "running r = 0 \<longleftrightarrow> (\<forall>g \<in> set (goroutines r). g = [])"
proof -
  have "(\<Sum>g\<leftarrow>gs. if g = [] then 0 else 1 :: int) = 0 \<longleftrightarrow> (\<forall>g \<in> set gs. g = [])" for gs :: "action list list"
  proof (induction gs)
    case (Cons g gs)
    have "0 \<le> (\<Sum>g\<leftarrow>gs. if g = [] then 0 else 1 :: int)" by (auto intro!: sum_list_nonneg)
    with Cons show ?case by auto
  qed simp
  then show ?thesis by (simp add: running_def)
qed

lemma ends_with_done_Cons:
  "ends_with_done (a # as) \<longleftrightarrow> (if a = WgDone then as = [] else as \<noteq> [] \<and> ends_with_done as)"
  by (auto simp: ends_with_done_def Cons_eq_append_conv)

lemma has_send_Cons: "has_send (a # as) \<longleftrightarrow> (\<exists>e. a = SendErr e) \<or> has_send as"
  by (auto simp: has_send_def)

lemma has_send_Nil [simp]: "\<not> has_send []"
  by (simp add: has_send_def)

text \<open>What the turn of a service changes\<close>

lemma service_turn_cases:
  assumes "service_turn save i r = Some r'"
  obtains (panic) a as where "i < length (goroutines r)" "goroutines r ! i = a # as"
      "r' = r\<lparr>panicked := True\<rparr>" "a = Tick \<and> query_closed r \<or> (\<exists>e. a = SendErr e) \<and> errCh_closed r"
  | (tick) as where "i < length (goroutines r)" "goroutines r ! i = Tick # as" "\<not> query_closed r"
      "queue r < 1" "r' = r\<lparr>goroutines := (goroutines r)[i := as], queue := queue r + 1\<rparr>"
  | (send) e as where "i < length (goroutines r)" "goroutines r ! i = SendErr e # as" "\<not> errCh_closed r"
      "selector r = Selecting" "r' = r\<lparr>goroutines := (goroutines r)[i := as], selector := Received e\<rparr>"
  | (saved) vs as s where "i < length (goroutines r)" "goroutines r ! i = Save vs # as"
      "save vs (run_storage r) = (None, s)"
      "r' = r\<lparr>goroutines := (goroutines r)[i := as], run_storage := s\<rparr>"
  | (not_saved) vs as e s where "i < length (goroutines r)" "goroutines r ! i = Save vs # as"
      "save vs (run_storage r) = (Some e, s)"
      "r' = r\<lparr>goroutines := (goroutines r)[i := SendErr (''failed to save vulnerabilities: '' @ e) # as],
              run_storage := s\<rparr>"
  | (ended) as where "i < length (goroutines r)" "goroutines r ! i = WgDone # as"
      "r' = r\<lparr>goroutines := (goroutines r)[i := as], wg_count := wg_count r - 1\<rparr>"
proof -
  have i: "i < length (goroutines r)" using assms by (simp add: service_turn_def split: if_splits)
  show thesis
  proof (cases "goroutines r ! i")
    case Nil
    then show thesis using assms i by (simp add: service_turn_def)
  next
    case (Cons a as)
    note t = assms [unfolded service_turn_def if_P [OF i] Cons list.case Let_def]
    show thesis
    proof (cases a)
      case Tick
      then show thesis
        using t panic [OF i Cons] tick [OF i Cons [unfolded Tick]] by (simp split: if_splits)
    next
      case (SendErr e)
      then show thesis
        using t panic [OF i Cons] send [OF i Cons [unfolded SendErr]] by (simp split: if_splits)
    next
      case (Save vs)
      then show thesis
        using t saved [OF i Cons [unfolded Save]] not_saved [OF i Cons [unfolded Save]]
        by (simp split: prod.splits option.splits)
    next
      case WgDone
      then show thesis using t ended [OF i Cons [unfolded WgDone]] by simp
    qed
  qed
qed

lemma entry_ok:
  assumes "run_ok r" and "i < length (goroutines r)" and "goroutines r ! i = a # as"
  shows "if a = WgDone then as = [] else as \<noteq> [] \<and> ends_with_done as"
  using assms unfolding run_ok_def by (metis ends_with_done_Cons nth_mem)

lemma pending_entry:
  assumes "i < length (goroutines r)"
  shows "(\<Sum>g\<leftarrow>(goroutines r)[i := g']. int (count_list g Tick)) =
    pending r + int (count_list g' Tick) - int (count_list (goroutines r ! i) Tick)"
  unfolding pending_def by (rule sum_list_entry [OF assms])

lemma running_entry:
  assumes "i < length (goroutines r)"
  shows "(\<Sum>g\<leftarrow>(goroutines r)[i := g']. if g = [] then 0 else 1) =
    running r + (if g' = [] then 0 else 1) - (if goroutines r ! i = [] then 0 else 1)"
  unfolding running_def by (rule sum_list_entry [OF assms])

lemma running_pos:
  assumes "i < length (goroutines r)" and "goroutines r ! i = a # as"
  shows "0 < running r"
  using running_0 [of r] running_nonneg [of r] assms by (metis less_le list.distinct(1) nth_mem)

lemma failing_entry:
  assumes "failing r" and "i < length (goroutines r)" and "selector r' = selector r"
    and "goroutines r' = (goroutines r)[i := g']" and "has_send (goroutines r ! i) \<Longrightarrow> has_send g'"
  shows "failing r'"
  using assms bex_list_entry [of "goroutines r" has_send i g'] by (auto simp: failing_def)

lemma bar_ok_cong:
  assumes "bar_ok r" and "bar r' = bar r" and "bar_total r' = bar_total r"
    and "queue r' + pending r' = queue r + pending r" and "failing r \<Longrightarrow> failing r'"
  shows "bar_ok r'"
  using assms unfolding bar_ok_def by (auto split: progress_bar.splits)

lemma run_ok_service:
  assumes ok: "run_ok r" and t: "service_turn save i r = Some r'"
  shows "run_ok r'"
proof -
  note entry = entry_ok [OF ok]
  have ends: "\<forall>g \<in> set ((goroutines r)[i := g']). ends_with_done g"
    if "i < length (goroutines r)" "ends_with_done g'" for g'
    using ok that set_list_entry [OF that(1)] by (auto simp: run_ok_def)
  have awaiting: "wg_closer r = Awaiting" if "i < length (goroutines r)" "goroutines r ! i = a # as" for a as
    using ok running_pos [OF that] by (auto simp: run_ok_def)
  from t show ?thesis
  proof (cases rule: service_turn_cases)
    case (panic a as)
    have "bar_ok r'"
      by (rule bar_ok_cong [of r]) (use ok panic(3) in \<open>auto simp: run_ok_def pending_def failing_def\<close>)
    then show ?thesis
      using ok awaiting [OF panic(1,2)] panic(3,4) by (auto simp: run_ok_def running_def)
  next
    case (tick as)
    have "bar_ok r'"
    proof (rule bar_ok_cong)
      show "failing r'" if "failing r"
        by (rule failing_entry [OF that tick(1)]) (simp_all add: tick(2,5) has_send_Cons)
      have "pending r' = pending r - 1"
        unfolding pending_def [of r'] unfolding tick(5) using pending_entry [OF tick(1)] tick(2) by simp
      then show "queue r' + pending r' = queue r + pending r" by (simp add: tick(5))
    qed (use ok tick(5) in \<open>auto simp: run_ok_def\<close>)
    moreover have "running r' = running r"
      unfolding running_def [of r'] unfolding tick(5) using running_entry [OF tick(1)] entry [OF tick(1,2)] tick(2) by simp
    ultimately show ?thesis
      using ok ends [OF tick(1), of as] entry [OF tick(1,2)] tick(4) awaiting [OF tick(1,2)]
      unfolding run_ok_def tick(5) by auto
  next
    case (send e as)
    have "bar_ok r'"
    proof (rule bar_ok_cong)
      show "failing r'" by (simp add: failing_def send(5))
      have "pending r' = pending r"
        unfolding pending_def [of r'] unfolding send(5) using pending_entry [OF send(1)] send(2) by simp
      then show "queue r' + pending r' = queue r + pending r" by (simp add: send(5))
    qed (use ok send(5) in \<open>auto simp: run_ok_def\<close>)
    moreover have "running r' = running r"
      unfolding running_def [of r'] unfolding send(5) using running_entry [OF send(1)] entry [OF send(1,2)] send(2) by simp
    ultimately show ?thesis
      using ok ends [OF send(1), of as] entry [OF send(1,2)] send(3,4) awaiting [OF send(1,2)]
      unfolding run_ok_def send(5) by auto
  next
    case (saved vs as s)
    have "bar_ok r'"
    proof (rule bar_ok_cong)
      show "failing r'" if "failing r"
        by (rule failing_entry [OF that saved(1)]) (simp_all add: saved(2,4) has_send_Cons)
      have "pending r' = pending r"
        unfolding pending_def [of r'] unfolding saved(4) using pending_entry [OF saved(1)] saved(2) by simp
      then show "queue r' + pending r' = queue r + pending r" by (simp add: saved(4))
    qed (use ok saved(4) in \<open>auto simp: run_ok_def\<close>)
    moreover have "running r' = running r"
      unfolding running_def [of r'] unfolding saved(4) using running_entry [OF saved(1)] entry [OF saved(1,2)] saved(2) by simp
    ultimately show ?thesis
      using ok ends [OF saved(1), of as] entry [OF saved(1,2)] awaiting [OF saved(1,2)]
      unfolding run_ok_def saved(4) by auto
  next
    case (not_saved vs as e s)
    let ?g = "SendErr (''failed to save vulnerabilities: '' @ e) # as"
    have "bar_ok r'"
    proof (rule bar_ok_cong)
      show "failing r'" if "failing r"
        by (rule failing_entry [OF that not_saved(1), where g' = ?g]) (simp_all add: not_saved(4) has_send_Cons)
      have "pending r' = pending r"
        unfolding pending_def [of r'] unfolding not_saved(4) using pending_entry [OF not_saved(1), of ?g] not_saved(2) by simp
      then show "queue r' + pending r' = queue r + pending r" by (simp add: not_saved(4))
    qed (use ok not_saved(4) in \<open>auto simp: run_ok_def\<close>)
    moreover have "running r' = running r"
      unfolding running_def [of r'] unfolding not_saved(4) using running_entry [OF not_saved(1)] not_saved(2) by simp
    moreover have "ends_with_done ?g" using entry [OF not_saved(1,2)] by (simp add: ends_with_done_Cons)
    ultimately show ?thesis
      using ok ends [OF not_saved(1), of ?g] awaiting [OF not_saved(1,2)]
      unfolding run_ok_def not_saved(4) by auto
  next
    case (ended as)
    have as: "as = []" using entry [OF ended(1,2)] by simp
    have "bar_ok r'"
    proof (rule bar_ok_cong)
      show "failing r'" if "failing r"
        by (rule failing_entry [OF that ended(1)]) (simp_all add: ended(2,3) has_send_Cons)
      have "pending r' = pending r"
        unfolding pending_def [of r'] unfolding ended(3) using pending_entry [OF ended(1)] ended(2) by simp
      then show "queue r' + pending r' = queue r + pending r" by (simp add: ended(3))
    qed (use ok ended(3) in \<open>auto simp: run_ok_def\<close>)
    moreover have "running r' = running r - 1"
      unfolding running_def [of r'] unfolding ended(3) using running_entry [OF ended(1), of as] ended(2) as by simp
    ultimately show ?thesis
      using ok ends [OF ended(1), of as] awaiting [OF ended(1,2)] as
      unfolding run_ok_def ended(3) by (auto simp: ends_with_done_def)
  qed
qed

lemma run_ok_bar:
  assumes ok: "run_ok r" and t: "bar_turn r = Some r'"
  shows "run_ok r'"
proof -
  from t obtain n where n: "bar r = Counting n" by (auto simp: bar_turn_def split: progress_bar.splits)
  with ok have o': "\<not> query_closed r" by (auto simp: run_ok_def)
  with t n have q: "0 < queue r"
    and r': "r' = r\<lparr>queue := queue r - 1, bar := if bar_total r \<le> n + 1 then BarOver else Counting (n + 1)\<rparr>"
    by (simp_all add: bar_turn_def split: if_splits)
  have "bar_ok r'"
    using ok n q pending_nonneg [of r]
    by (auto simp: run_ok_def bar_ok_def r' pending_def failing_def)
  then show ?thesis
    using ok o' n q by (auto simp: run_ok_def r' running_def)
qed

lemma run_ok_closer:
  assumes "run_ok r" and "closer_turn r = Some r'"
  shows "run_ok r'"
  using assms unfolding closer_turn_def run_ok_def
  by (auto simp: running_def bar_ok_def pending_def failing_def split: closer.splits if_splits progress_bar.splits)

lemma run_ok_select:
  assumes "run_ok r" and "select_turn r = Some r'"
  shows "run_ok r'"
  using assms unfolding select_turn_def run_ok_def
  by (auto simp: running_def bar_ok_def pending_def failing_def split: selector.splits if_splits progress_bar.splits)

lemma run_ok_step: "scan_step save r r' \<Longrightarrow> run_ok r \<Longrightarrow> run_ok r'"
  by (auto simp: scan_turn_def elim!: scan_step.cases split: if_splits turn.splits
      intro: run_ok_service run_ok_bar run_ok_closer run_ok_select)

lemma run_ok_reach: "(scan_step save)\<^sup>*\<^sup>* r r' \<Longrightarrow> run_ok r \<Longrightarrow> run_ok r'"
  by (induction rule: rtranclp_induct) (auto intro: run_ok_step)

section \<open>Every run ends\<close>

primrec action_weight :: "action \<Rightarrow> int" where
  "action_weight Tick = 2"
| "action_weight (SendErr e) = 1"
| "action_weight (Save vs) = 2"
| "action_weight WgDone = 1"

lemma action_weight_pos: "0 < action_weight a"
  by (cases a) simp_all

definition work :: "'s scan_run \<Rightarrow> int" where
  "work r =
     (\<Sum>g\<leftarrow>goroutines r. \<Sum>a\<leftarrow>g. action_weight a) + queue r +
     (case bar r of Counting n \<Rightarrow> 1 | _ \<Rightarrow> 0) +
     (case wg_closer r of Awaiting \<Rightarrow> 2 | ClosedQuery \<Rightarrow> 1 | ClosedDone \<Rightarrow> 0) +
     (case selector r of Selecting \<Rightarrow> 2 | Received e \<Rightarrow> 1 | Returned e \<Rightarrow> 0) +
     (if panicked r then 0 else 1)"

lemma work_nonneg: "run_ok r \<Longrightarrow> 0 \<le> work r"
proof -
  assume "run_ok r"
  then have "0 \<le> queue r" by (simp add: run_ok_def)
  moreover have "0 \<le> (\<Sum>g\<leftarrow>goroutines r. \<Sum>a\<leftarrow>g. action_weight a)"
    by (auto intro!: sum_list_nonneg less_imp_le [OF action_weight_pos])
  ultimately show ?thesis
    by (simp add: work_def split: progress_bar.splits closer.splits selector.splits)
qed

lemma work_entry:
  assumes "i < length (goroutines r)"
  shows "(\<Sum>g\<leftarrow>(goroutines r)[i := g']. \<Sum>a\<leftarrow>g. action_weight a) =
    (\<Sum>g\<leftarrow>goroutines r. \<Sum>a\<leftarrow>g. action_weight a) + (\<Sum>a\<leftarrow>g'. action_weight a) -
    (\<Sum>a\<leftarrow>goroutines r ! i. action_weight a)"
  by (rule sum_list_entry [OF assms])

lemma work_service:
  assumes "\<not> panicked r" and "service_turn save i r = Some r'"
  shows "work r' < work r"
  using assms(2)
  by (cases rule: service_turn_cases)
    (use assms(1) in \<open>simp_all add: work_def work_entry\<close>)

lemma work_others:
  assumes "\<not> panicked r"
  shows "bar_turn r = Some r' \<Longrightarrow> work r' < work r"
    and "closer_turn r = Some r' \<Longrightarrow> work r' < work r"
    and "select_turn r = Some r' \<Longrightarrow> work r' < work r"
proof -
  show "work r' < work r" if "bar_turn r = Some r'"
    using that by (cases "bar r") (auto simp: bar_turn_def work_def split: if_splits)
  show "work r' < work r" if "closer_turn r = Some r'"
    using that by (cases "wg_closer r") (auto simp: closer_turn_def work_def split: if_splits)
  show "work r' < work r" if "select_turn r = Some r'"
    using that by (cases "selector r") (auto simp: select_turn_def work_def split: if_splits)
qed

lemma work_step:
  assumes "scan_step save r r'"
  shows "work r' < work r"
proof -
  from assms obtain t where t: "scan_turn save t r = Some r'" by (cases rule: scan_step.cases)
  then have p: "\<not> panicked r" by (simp add: scan_turn_def split: if_splits)
  show ?thesis
    using t work_service [OF p] work_others [OF p] by (cases t) (simp_all add: scan_turn_def p)
qed

lemma run_bounded:
  assumes "(scan_step save ^^ k) r0 r" and "run_ok r0"
  shows "int k + work r \<le> work r0"
  using assms(1)
proof (induction k arbitrary: r)
  case (Suc k)
  then obtain q where "(scan_step save ^^ k) r0 q" "scan_step save q r" by auto
  with Suc.IH [of q] work_step [of save q r] show ?case by simp
qed simp

lemma pending_empty: "\<forall>g \<in> set gs. g = [] \<Longrightarrow> (\<Sum>g\<leftarrow>gs. int (count_list g Tick)) = 0"
  by (induction gs) auto

text \<open>A run that is not over can go on.\<close>

lemma stuck_goroutine:
  assumes "stuck save r" and "\<not> panicked r" and "run_ok r" and "g \<in> set (goroutines r)"
  shows "g = [] \<or> (hd g = Tick \<and> queue r = 1) \<or>
    (\<exists>e. hd g = SendErr e) \<and> \<not> errCh_closed r \<and> selector r \<noteq> Selecting"
proof -
  from assms(4) obtain i where i: "i < length (goroutines r)" "goroutines r ! i = g"
    by (metis in_set_conv_nth)
  have "scan_turn save (ServiceTurn i) r = None" using assms(1) by (simp add: stuck_def)
  then have "service_turn save i r = None" using assms(2) by (simp add: scan_turn_def)
  then show ?thesis
    using i assms(3)
    by (cases g)
      (auto simp: service_turn_def Let_def run_ok_def split: action.splits if_splits prod.splits option.splits)
qed

lemma stuck_returned:
  assumes st: "stuck save r" and ok: "run_ok r"
  shows "\<exists>res. selector r = Returned res"
proof (rule ccontr)
  assume nr: "\<nexists>res. selector r = Returned res"
  then have np: "\<not> panicked r" and ch: "\<not> errCh_closed r" using ok by (auto simp: run_ok_def)
  have turns: "bar_turn r = None" "closer_turn r = None" "select_turn r = None"
    using st np unfolding stuck_def by (auto simp: scan_turn_def dest: spec [of _ BarTurn]
      spec [of _ CloserTurn] spec [of _ SelectTurn])
  have sel: "selector r = Selecting"
    using turns(3) nr by (cases "selector r") (auto simp: select_turn_def)
  with turns(2,3) have cl: "wg_closer r = Awaiting"
    by (auto simp: select_turn_def closer_turn_def split: closer.splits)
  have q: "queue r = 0 \<or> queue r = 1" using ok by (auto simp: run_ok_def)
  have gs: "g = [] \<or> (hd g = Tick \<and> queue r = 1)" if "g \<in> set (goroutines r)" for g
    using stuck_goroutine [OF st np ok that] sel by auto
  have "queue r = 0"
  proof (rule ccontr)
    assume "queue r \<noteq> 0"
    then have "bar r \<noteq> Counting n" for n using turns(1) q by (auto simp: bar_turn_def)
    then have "queue r + pending r = 0" using ok by (auto simp: run_ok_def bar_ok_def split: progress_bar.splits)
    then show False using \<open>queue r \<noteq> 0\<close> q pending_nonneg [of r] by auto
  qed
  then have empty: "\<forall>g \<in> set (goroutines r). g = []" using gs by auto
  then have "wg_count r = 0" using ok running_0 by (auto simp: run_ok_def)
  then obtain n where n: "bar r = Counting n" using turns(2) cl by (auto simp: closer_turn_def split: if_splits)
  have "pending r = 0"
    using empty unfolding pending_def by (rule pending_empty)
  then have "failing r" using ok n \<open>queue r = 0\<close> by (auto simp: run_ok_def bar_ok_def)
  then show False using sel empty by (auto simp: failing_def)
qed

lemma start_run_ok:
  assumes "\<forall>g \<in> set gs. g \<noteq> [] \<and> ends_with_done g"
    and "(\<Sum>g\<leftarrow>gs. int (count_list g Tick)) = n \<or>
      (\<Sum>g\<leftarrow>gs. int (count_list g Tick)) < n \<and> (\<exists>g \<in> set gs. has_send g)"
  shows "run_ok (start_run gs n s)"
proof -
  let ?r = "start_run gs n s"
  have "0 \<le> (\<Sum>g\<leftarrow>gs. int (count_list g Tick))" by (auto intro!: sum_list_nonneg)
  then have "bar_ok ?r" using assms(2) by (auto simp: bar_ok_def start_run_def pending_def failing_def)
  moreover have "(\<Sum>g\<leftarrow>gs. if g = [] then 0 else 1) = int (length gs)"
    using assms(1) by (induction gs) auto
  ultimately show ?thesis
    using assms(1) by (auto simp: run_ok_def start_run_def running_def)
qed

lemma run_ends:
  assumes "run_ok r0" and "(scan_step save ^^ k) r0 r"
  shows "int k \<le> work r0" and "stuck save r \<Longrightarrow> \<exists>res. selector r = Returned res"
proof -
  have ok: "run_ok r" using run_ok_reach relpowp_imp_rtranclp assms by metis
  then show "int k \<le> work r0" using run_bounded [OF assms(2,1)] work_nonneg by fastforce
  show "stuck save r \<Longrightarrow> \<exists>res. selector r = Returned res" using ok by (rule stuck_returned [rotated])
qed

section \<open>What a run without error has done\<close>

fun saves_of :: "action list \<Rightarrow> Vulnerability list list" where
  "saves_of [] = []"
| "saves_of (Save vs # as) = vs # saves_of as"
| "saves_of (a # as) = saves_of as"

definition troubled :: "'s scan_run \<Rightarrow> bool" where
  "troubled r \<longleftrightarrow>
     (\<exists>g \<in> set (goroutines r). has_send g) \<or> (\<exists>e. selector r = Received e \<or> selector r = Returned (Some e))"

lemma mset_entry:
  assumes "i < length xs"
  shows "mset (concat (map f (xs[i := y]))) + mset (f (xs ! i)) = mset (concat (map f xs)) + mset (f y)"
  using assms by (induction xs arbitrary: i) (auto split: nat.split simp: ac_simps)

lemma troubled_step:
  assumes "scan_step save r r'" and "troubled r"
  shows "troubled r'"
proof -
  from assms(1) obtain t where t: "scan_turn save t r = Some r'" by (cases rule: scan_step.cases)
  show ?thesis
  proof (cases t)
    case (ServiceTurn i)
    then have "service_turn save i r = Some r'" using t by (simp add: scan_turn_def split: if_splits)
    then show ?thesis
    proof (cases rule: service_turn_cases)
      case (not_saved vs as e s)
      then show ?thesis by (auto simp: troubled_def has_send_Cons intro!: bexI [OF _ set_update_memI])
    qed (use assms(2) bex_list_entry [of "goroutines r" has_send i] in \<open>auto simp: troubled_def has_send_Cons\<close>)
  qed (use t assms(2) in \<open>auto simp: scan_turn_def bar_turn_def closer_turn_def select_turn_def troubled_def
        split: if_splits progress_bar.splits closer.splits selector.splits\<close>)
qed

lemma not_troubled_returned:
  assumes "run_ok r" and "selector r = Returned None"
  shows "\<not> troubled r \<and> (\<forall>g \<in> set (goroutines r). g = []) \<and> \<not> panicked r"
proof -
  have "wg_closer r = ClosedDone" using assms by (simp add: run_ok_def)
  then have "running r = 0" using assms by (simp add: run_ok_def)
  then have g: "\<forall>g \<in> set (goroutines r). g = []" by (simp add: running_0)
  then have "\<not> (\<exists>g \<in> set (goroutines r). has_send g)" by auto
  then show ?thesis using g assms by (auto simp: troubled_def run_ok_def)
qed

context scan_storage
begin

definition saves_whole :: "Vulnerability list multiset \<Rightarrow> 's \<Rightarrow> 's scan_run \<Rightarrow> bool" where
  "saves_whole B s r \<longleftrightarrow>
     troubled r \<or>
     (\<exists>ps. mset ps + mset (concat (map saves_of (goroutines r))) = B \<and>
        recorded (run_storage r) = recorded s @ concat ps)"

lemma saves_whole_service:
  assumes "service_turn save_vulns i r = Some r'" and "saves_whole B s r" and "\<not> troubled r'" and "\<not> troubled r"
  shows "saves_whole B s r'"
proof -
  from assms(2,4) obtain ps where ps: "mset ps + mset (concat (map saves_of (goroutines r))) = B"
    "recorded (run_storage r) = recorded s @ concat ps" by (auto simp: saves_whole_def)
  note upd = mset_entry [of i "goroutines r" saves_of]
  from assms(1) show ?thesis
  proof (cases rule: service_turn_cases)
    case (panic a as)
    then show ?thesis using assms(2,4) by (auto simp: saves_whole_def troubled_def)
  next
    case (tick as)
    then show ?thesis using ps upd [of as] by (auto simp: saves_whole_def)
  next
    case (send e as)
    then show ?thesis using assms(3) by (auto simp: troubled_def)
  next
    case (saved vs as s')
    then have "mset (concat (map saves_of ((goroutines r)[i := as]))) + {#vs#} =
        mset (concat (map saves_of (goroutines r)))" using upd [of as] by simp
    moreover have "recorded s' = recorded (run_storage r) @ vs" using saved(3) by (rule save_vulns_recorded)
    ultimately show ?thesis
      using ps unfolding saves_whole_def saved(4)
      by (intro disjI2 exI [of _ "ps @ [vs]"])
        (auto simp: ac_simps dest: sym)
  next
    case (not_saved vs as e s')
    then have "troubled r'"
      by (auto simp: troubled_def has_send_Cons intro!: bexI [OF _ set_update_memI])
    then show ?thesis using assms(3) by simp
  next
    case (ended as)
    then show ?thesis using ps upd [of as] by (auto simp: saves_whole_def)
  qed
qed

lemma saves_whole_step:
  assumes "scan_step save_vulns r r'" and "saves_whole B s r"
  shows "saves_whole B s r'"
proof (cases "troubled r'")
  case False
  then have nt: "\<not> troubled r" using troubled_step [OF assms(1)] by blast
  from assms(1) obtain t where t: "scan_turn save_vulns t r = Some r'" by (cases rule: scan_step.cases)
  show ?thesis
  proof (cases t)
    case (ServiceTurn i)
    then have "service_turn save_vulns i r = Some r'" using t by (simp add: scan_turn_def split: if_splits)
    then show ?thesis using saves_whole_service assms(2) False nt by blast
  next
    case BarTurn
    then show ?thesis
      using t nt assms(2) by (auto simp: scan_turn_def bar_turn_def saves_whole_def split: if_splits progress_bar.splits)
  next
    case CloserTurn
    then show ?thesis
      using t nt assms(2) by (auto simp: scan_turn_def closer_turn_def saves_whole_def split: if_splits closer.splits)
  next
    case SelectTurn
    then show ?thesis
      using t nt assms(2) by (auto simp: scan_turn_def select_turn_def saves_whole_def split: if_splits selector.splits)
  qed
qed (simp add: saves_whole_def)

lemma success_saves_all:
  assumes "run_ok (start_run gs n s)" and "(scan_step save_vulns)\<^sup>*\<^sup>* (start_run gs n s) r"
    and "selector r = Returned None"
  shows "(\<forall>g \<in> set (goroutines r). g = []) \<and> \<not> panicked r \<and> (\<forall>g \<in> set gs. \<not> has_send g) \<and>
    (\<exists>ps. mset ps = mset (concat (map saves_of gs)) \<and> recorded (run_storage r) = recorded s @ concat ps)"
proof -
  let ?r0 = "start_run gs n s"
  have ok: "run_ok r" using run_ok_reach assms(1,2) by blast
  note fin = not_troubled_returned [OF ok assms(3)]
  have "troubled ?r0 \<Longrightarrow> troubled r"
    using assms(2) by (induction rule: rtranclp_induct) (auto dest: troubled_step)
  then have nosend: "\<forall>g \<in> set gs. \<not> has_send g" using fin by (auto simp: troubled_def start_run_def)
  have "saves_whole (mset (concat (map saves_of gs))) s ?r0"
    unfolding saves_whole_def by (intro disjI2 exI [of _ "[]"]) (simp add: start_run_def)
  with assms(2) have "saves_whole (mset (concat (map saves_of gs))) s r"
    by (induction rule: rtranclp_induct) (auto dest: saves_whole_step)
  moreover have "concat (map saves_of (goroutines r)) = []" using fin by (auto simp: concat_eq_Nil_conv)
  ultimately show ?thesis using fin nosend by (auto simp: saves_whole_def)
qed

end

section \<open>A second error\<close>

text \<open>
  Of two goroutines that have an error to send and nothing to wait for, one is left over.
\<close>

definition sender :: "action list \<Rightarrow> bool" where
  "sender g \<longleftrightarrow> has_send g \<and> Tick \<notin> set g"

definition senders :: "'s scan_run \<Rightarrow> int" where
  "senders r = (\<Sum>g\<leftarrow>goroutines r. if sender g then 1 else 0)"

definition left_over :: "'s scan_run \<Rightarrow> bool" where
  "left_over r \<longleftrightarrow> (if selector r = Selecting then 2 \<le> senders r else 1 \<le> senders r)"

lemma sender_Cons: "sender (a # as) \<longleftrightarrow> a \<noteq> Tick \<and> ((\<exists>e. a = SendErr e) \<and> Tick \<notin> set as \<or> sender as)"
  by (auto simp: sender_def has_send_Cons)

lemma senders_entry:
  assumes "i < length (goroutines r)"
  shows "(\<Sum>g\<leftarrow>(goroutines r)[i := g']. if sender g then 1 else 0) =
    senders r + (if sender g' then 1 else 0) - (if sender (goroutines r ! i) then 1 else 0)"
  unfolding senders_def by (rule sum_list_entry [OF assms])

lemma sender_Nil [simp]: "\<not> sender []"
  by (simp add: sender_def)

lemma senders_none: "\<forall>g \<in> set gs. \<not> sender g \<Longrightarrow> (\<Sum>g\<leftarrow>gs. if sender g then 1 else 0) = (0 :: int)"
  by (induction gs) auto

lemma left_over_service:
  assumes "service_turn save i r = Some r'" and "left_over r"
  shows "left_over r'"
  using assms(1)
proof (cases rule: service_turn_cases)
  case (panic a as)
  then show ?thesis using assms(2) unfolding panic(3) left_over_def senders_def by simp
next
  case (tick as)
  then show ?thesis
    using assms(2) senders_entry [OF tick(1), of as] by (auto simp: left_over_def senders_def sender_Cons split: if_splits)
next
  case (send e as)
  have "senders r - 1 \<le> senders r'"
    unfolding senders_def [of r'] unfolding send(5) using senders_entry [OF send(1), of as] by simp
  then show ?thesis using assms(2) send(4,5) by (simp add: left_over_def)
next
  case (saved vs as s)
  then show ?thesis
    using assms(2) senders_entry [OF saved(1), of as] by (auto simp: left_over_def senders_def sender_Cons split: if_splits)
next
  case (not_saved vs as e s)
  then show ?thesis
    using assms(2) senders_entry [OF not_saved(1), of "SendErr (''failed to save vulnerabilities: '' @ e) # as"]
    by (auto simp: left_over_def senders_def sender_Cons split: if_splits)
next
  case (ended as)
  then show ?thesis
    using assms(2) senders_entry [OF ended(1), of as] by (auto simp: left_over_def senders_def sender_Cons split: if_splits)
qed

lemma left_over_step:
  assumes "scan_step save r r'" and "left_over r"
  shows "left_over r'"
proof -
  from assms(1) obtain t where t: "scan_turn save t r = Some r'" by (cases rule: scan_step.cases)
  show ?thesis
  proof (cases t)
    case (ServiceTurn i)
    then have "service_turn save i r = Some r'" using t by (simp add: scan_turn_def split: if_splits)
    then show ?thesis using assms(2) by (rule left_over_service)
  qed (use t assms(2) in \<open>auto simp: scan_turn_def bar_turn_def closer_turn_def select_turn_def left_over_def
        senders_def split: if_splits progress_bar.splits closer.splits selector.splits\<close>)
qed

lemma left_over_panics:
  assumes ok: "run_ok r" and lo: "left_over r" and st: "stuck save r"
  shows "panicked r \<and> (\<exists>e. selector r = Returned (Some e))"
proof -
  have "senders r \<noteq> 0" using lo by (auto simp: left_over_def split: if_splits)
  then have "\<exists>g \<in> set (goroutines r). sender g"
    unfolding senders_def using senders_none [of "goroutines r"] by blast
  then obtain g where g: "g \<in> set (goroutines r)" "sender g" by blast
  from stuck_returned [OF st ok] obtain res where res: "selector r = Returned res" by blast
  have "res \<noteq> None" using not_troubled_returned [OF ok] res g by (auto simp: troubled_def sender_def)
  then obtain e where e: "selector r = Returned (Some e)" using res by auto
  then have "errCh_closed r" using ok by (simp add: run_ok_def)
  then have "panicked r"
    using stuck_goroutine [OF st _ ok g(1)] g(2) by (cases g) (auto simp: sender_Cons)
  with e show ?thesis by blast
qed

section \<open>The phases of a scan\<close>

lemma fst_LenQueriesByPlat:
  "fst (LenQueriesByPlat tr ql platforms t) = int (length (getQueriesByPlat ql platforms))"
proof -
  have "fst (foldl (\<lambda>(n, t) query.
       if contains_platform platforms (qm_Platform query)
       then (n + 1, op_TrackQueryExecuting tr (qm_Aggregation query) t) else (n, t)) (n, t) qs) =
     n + int (length (filter (\<lambda>q. contains_platform platforms (qm_Platform q)) qs))" for n qs
    by (induction qs arbitrary: n t) auto
  from this [of 0 "QueriesMetadata ql"] show ?thesis
    by (simp add: LenQueriesByPlat_def getQueriesByPlat_def)
qed

lemma fst_GetQueriesLength:
  "fst (GetQueriesLength tr ql services t) = (\<Sum>p\<leftarrow>services. int (length (getQueriesByPlat ql p)))"
proof -
  have "fst (foldl (\<lambda>(count, t) platforms.
      let (n, t') = LenQueriesByPlat tr ql platforms t in (count + n, t')) (n, t) services) =
    n + (\<Sum>p\<leftarrow>services. int (length (getQueriesByPlat ql p)))" for n
  proof (induction services arbitrary: n t)
    case (Cons p services)
    show ?case using Cons.IH by (simp add: split_beta Let_def fst_LenQueriesByPlat)
  qed simp
  then show ?thesis by (simp add: GetQueriesLength_def)
qed

lemma ends_with_done_snoc: "WgDone \<notin> set as \<Longrightarrow> ends_with_done (as @ [WgDone]) \<and> as @ [WgDone] \<noteq> []"
  by (auto simp: ends_with_done_def)

lemma scan_goroutine_ok: "scan_goroutine c sv \<noteq> [] \<and> ends_with_done (scan_goroutine c sv)"
proof -
  have "WgDone \<notin> set (replicate (scan_ticks c sv) Tick @ (case snd sv of
      Inl err \<Rightarrow> [SendErr (''failed to inspect files: '' @ err), Save []] | Inr vs \<Rightarrow> [Save vs]))"
    by (auto split: sum.split)
  from ends_with_done_snoc [OF this] show ?thesis by (simp add: scan_goroutine_def)
qed

lemma prepare_goroutine_ok: "prepare_goroutine errs \<noteq> [] \<and> ends_with_done (prepare_goroutine errs)"
  unfolding prepare_goroutine_def using ends_with_done_snoc [of "map SendErr errs"] by auto

lemma replicate_ticks:
  "count_list (replicate n Tick) Tick = n" "saves_of (replicate n Tick) = []"
  "(\<Sum>a\<leftarrow>replicate n Tick. action_weight a) = 2 * int n"
  by (induction n) auto

lemma scan_goroutine_ticks: "count_list (scan_goroutine c sv) Tick = scan_ticks c sv"
  by (simp add: scan_goroutine_def replicate_ticks split: sum.split)

lemma scan_goroutine_sends: "has_send (scan_goroutine c sv) \<longleftrightarrow> (\<exists>err. snd sv = Inl err)"
  by (auto simp: scan_goroutine_def has_send_def split: sum.split)

lemma scan_goroutine_sender: "sender (scan_goroutine c sv) \<longleftrightarrow> (\<exists>err. snd sv = Inl err)"
proof -
  have "snd sv = Inl err \<Longrightarrow> Tick \<notin> set (scan_goroutine c sv)" for err
    by (simp add: scan_goroutine_def scan_ticks_def)
  then show ?thesis using scan_goroutine_sends by (auto simp: sender_def)
qed

lemma saves_of_append: "saves_of (as @ bs) = saves_of as @ saves_of bs"
  by (induction as rule: saves_of.induct) auto

lemma scan_goroutine_saves: "saves_of (scan_goroutine c sv) = [case snd sv of Inl err \<Rightarrow> [] | Inr vs \<Rightarrow> vs]"
  by (simp add: scan_goroutine_def saves_of_append replicate_ticks split: sum.split)

lemma scan_ticks_le: "scan_ticks c sv \<le> length (getQueriesByPlat (i_QueryLoader c) (fst sv))"
  by (simp add: scan_ticks_def split: sum.split)

lemma scan_ticks_sum:
  assumes "0 < i_numWorkers c"
  shows "(\<Sum>sv\<leftarrow>services. int (scan_ticks c sv)) =
      (\<Sum>sv\<leftarrow>services. int (length (getQueriesByPlat (i_QueryLoader c) (fst sv)))) \<or>
    (\<Sum>sv\<leftarrow>services. int (scan_ticks c sv)) <
      (\<Sum>sv\<leftarrow>services. int (length (getQueriesByPlat (i_QueryLoader c) (fst sv)))) \<and>
    (\<exists>sv \<in> set services. \<exists>err. snd sv = Inl err)"
proof (induction services)
  case (Cons sv services)
  have "scan_ticks c sv = length (getQueriesByPlat (i_QueryLoader c) (fst sv)) \<or> (\<exists>err. snd sv = Inl err)"
    using assms by (cases "snd sv") (auto simp: scan_ticks_def)
  with Cons scan_ticks_le [of c sv] show ?case by fastforce
qed simp

lemma scanner_StartScan_eq:
  "fst (scanner_StartScan tr c services t s) =
     start_run (map (scan_goroutine c) services)
       (\<Sum>sv\<leftarrow>services. int (length (getQueriesByPlat (i_QueryLoader c) (fst sv)))) s"
  using fst_GetQueriesLength [of tr "i_QueryLoader c" "map fst services" t]
  by (simp add: scanner_StartScan_def split_beta comp_def)

lemma scanner_StartScan_ok:
  assumes "0 < i_numWorkers c"
  shows "run_ok (fst (scanner_StartScan tr c services t s))"
  unfolding scanner_StartScan_eq
proof (rule start_run_ok)
  show "\<forall>g \<in> set (map (scan_goroutine c) services). g \<noteq> [] \<and> ends_with_done g"
    using scan_goroutine_ok by auto
  have "(\<Sum>g\<leftarrow>map (scan_goroutine c) services. int (count_list g Tick)) = (\<Sum>sv\<leftarrow>services. int (scan_ticks c sv))"
    by (simp add: comp_def scan_goroutine_ticks)
  then show "(\<Sum>g\<leftarrow>map (scan_goroutine c) services. int (count_list g Tick)) =
        (\<Sum>sv\<leftarrow>services. int (length (getQueriesByPlat (i_QueryLoader c) (fst sv)))) \<or>
      (\<Sum>g\<leftarrow>map (scan_goroutine c) services. int (count_list g Tick)) <
        (\<Sum>sv\<leftarrow>services. int (length (getQueriesByPlat (i_QueryLoader c) (fst sv)))) \<and>
      (\<exists>g \<in> set (map (scan_goroutine c) services). has_send g)"
    using scan_ticks_sum [OF assms, of services] by (simp add: scan_goroutine_sends)
qed

lemma scanner_prepare_ok: "run_ok (scanner_prepare services s)"
  unfolding scanner_prepare_def
proof (rule start_run_ok)
  show "\<forall>g \<in> set (map prepare_goroutine services). g \<noteq> [] \<and> ends_with_done g"
    using prepare_goroutine_ok by auto
  have "count_list (prepare_goroutine errs) Tick = 0" for errs
    by (induction errs) (auto simp: prepare_goroutine_def)
  then have "(\<Sum>g\<leftarrow>map prepare_goroutine services. int (count_list g Tick)) = 0"
    by (induction services) auto
  then show "(\<Sum>g\<leftarrow>map prepare_goroutine services. int (count_list g Tick)) = 0 \<or>
      (\<Sum>g\<leftarrow>map prepare_goroutine services. int (count_list g Tick)) < 0 \<and>
      (\<exists>g \<in> set (map prepare_goroutine services). has_send g)" ..
qed

lemma scan_goroutine_weight:
  "(\<Sum>a\<leftarrow>scan_goroutine c sv. action_weight a) \<le>
     2 * int (length (getQueriesByPlat (i_QueryLoader c) (fst sv))) + 4"
  using scan_ticks_le [of c sv] by (auto simp: scan_goroutine_def sum_list_replicate split: sum.split)

lemma scanner_StartScan_work:
  "work (fst (scanner_StartScan tr c services t s)) \<le>
     2 * fst (GetQueriesLength tr (i_QueryLoader c) (map fst services) t) + 4 * int (length services) + 6"
proof -
  have "(\<Sum>g\<leftarrow>map (scan_goroutine c) services. \<Sum>a\<leftarrow>g. action_weight a) \<le>
      2 * (\<Sum>sv\<leftarrow>services. int (length (getQueriesByPlat (i_QueryLoader c) (fst sv)))) + 4 * int (length services)"
  proof (induction services)
    case (Cons sv services)
    then show ?case using scan_goroutine_weight [of c sv] by (simp add: algebra_simps)
  qed simp
  then show ?thesis
    unfolding scanner_StartScan_eq fst_GetQueriesLength by (simp add: work_def start_run_def comp_def)
qed

section \<open>Both phases\<close>

text \<open>
  \<open>PrepareAndScan\<close> as a relation: a service is given by the errors \<open>PrepareSources\<close> sends, the
  platforms of its parser, and what \<open>Inspect\<close> returns to it when the scan starts.
\<close>

inductive PrepareAndScan ::
  "(Vulnerability list \<Rightarrow> 's \<Rightarrow> string option \<times> 's) \<Rightarrow> 't EngineTracker \<Rightarrow> Inspector \<Rightarrow>
     (string list \<times> scan_service) list \<Rightarrow> 't \<Rightarrow> 's \<Rightarrow> string option \<Rightarrow> 's \<Rightarrow> bool"
  for save tr c services t s where
  prepare_failed:
    "(scan_step save)\<^sup>*\<^sup>* (scanner_prepare (map fst services) s) r \<Longrightarrow> selector r = Returned (Some e) \<Longrightarrow>
     PrepareAndScan save tr c services t s (Some e) (run_storage r)"
| scanned:
    "(scan_step save)\<^sup>*\<^sup>* (scanner_prepare (map fst services) s) r \<Longrightarrow> selector r = Returned None \<Longrightarrow>
     (scan_step save)\<^sup>*\<^sup>* (fst (scanner_StartScan tr c (map snd services) t (run_storage r))) r' \<Longrightarrow>
     selector r' = Returned res \<Longrightarrow> PrepareAndScan save tr c services t s res (run_storage r')"

inductive_cases PrepareAndScan_ok: "PrepareAndScan save tr c services t s None s'"

lemma take_turns_reach: "take_turns save ts r = Some r' \<Longrightarrow> (scan_step save)\<^sup>*\<^sup>* r r'"
proof (induction ts arbitrary: r)
  case (Cons t ts)
  then obtain q where "scan_turn save t r = Some q" "take_turns save ts q = Some r'"
    by (auto simp: bind_eq_Some_conv)
  then show ?case using Cons.IH by (meson converse_rtranclp_into_rtranclp scan_step.intros)
qed simp

lemma prepare_saves: "concat (map saves_of (map prepare_goroutine services)) = []"
proof -
  have "saves_of (map SendErr errs) = []" for errs by (induction errs) auto
  then show ?thesis by (simp add: prepare_goroutine_def saves_of_append concat_eq_Nil_conv)
qed

lemma prepare_sends: "has_send (prepare_goroutine errs) \<longleftrightarrow> errs \<noteq> []"
  by (cases errs) (auto simp: prepare_goroutine_def has_send_def)

lemma prepare_sender: "sender (prepare_goroutine errs) \<longleftrightarrow> errs \<noteq> []"
  using prepare_sends [of errs] by (auto simp: sender_def prepare_goroutine_def)

lemma all_results:
  assumes "\<forall>sv \<in> set services. \<nexists>err. snd sv = Inl err"
  shows "map Inr (concat (map saves_of (map (scan_goroutine c) services))) = map snd services"
  using assms
proof (induction services)
  case (Cons sv services)
  then show ?case by (cases "snd sv") (auto simp: scan_goroutine_saves)
qed simp

lemma memory_success:
  assumes "run_ok (start_run gs n m)"
    and "(scan_step SaveVulnerabilities)\<^sup>*\<^sup>* (start_run gs n m) r" and "selector r = Returned None"
  shows "(\<forall>g \<in> set gs. \<not> has_send g) \<and> (\<exists>ps. mset ps = mset (concat (map saves_of gs)) \<and>
    vulnerabilities (run_storage r) = vulnerabilities m @ concat ps)"
  using mem.success_saves_all [OF assms] by blast

lemma two_senders:
  assumes "i < j" and "j < length gs" and "sender (gs ! i)" and "sender (gs ! j)"
  shows "2 \<le> (\<Sum>g\<leftarrow>gs. if sender g then 1 else 0 :: int)"
proof -
  have split: "(\<Sum>g\<leftarrow>gs. if sender g then 1 else 0 :: int) =
      (\<Sum>g\<leftarrow>take j gs. if sender g then 1 else 0) + (\<Sum>g\<leftarrow>drop j gs. if sender g then 1 else 0)"
    by (metis append_take_drop_id map_append sum_list_append)
  have pos: "1 \<le> (\<Sum>g\<leftarrow>hs. if sender g then 1 else 0 :: int)" if "h \<in> set hs" "sender h" for h hs
    using that
  proof (induction hs)
    case (Cons g hs)
    moreover have "0 \<le> (\<Sum>g\<leftarrow>hs. if sender g then 1 else 0 :: int)" by (auto intro!: sum_list_nonneg)
    ultimately show ?case by auto
  qed simp
  have "gs ! i \<in> set (take j gs)" using assms(1,2) by (metis in_set_conv_nth length_take min.absorb2 nth_take less_imp_le)
  moreover have "gs ! j \<in> set (drop j gs)" using assms(2) by (metis Cons_nth_drop_Suc list.set_intros(1))
  ultimately show ?thesis using split pos [OF _ assms(3)] pos [OF _ assms(4)] by fastforce
qed

lemma second_sender_panics:
  assumes "run_ok (start_run gs n s)" and "(scan_step save)\<^sup>*\<^sup>* (start_run gs n s) r" and "stuck save r"
    and "i < j" and "j < length gs" and "sender (gs ! i)" and "sender (gs ! j)"
  shows "panicked r \<and> (\<exists>e. selector r = Returned (Some e))"
proof -
  have "left_over (start_run gs n s)"
    using two_senders [OF assms(4-7)] by (simp add: left_over_def start_run_def senders_def)
  with assms(2) have "left_over r" by (induction rule: rtranclp_induct) (auto dest: left_over_step)
  then show ?thesis using left_over_panics assms(3) run_ok_reach [OF assms(2,1)] by blast
qed

lemma scan_success:
  assumes "0 < i_numWorkers c"
    and "PrepareAndScan SaveVulnerabilities tr c services t m None m'"
  shows "(\<forall>sv \<in> set services. fst sv = []) \<and>
    (\<exists>found. mset (map Inr found) = mset (map (snd \<circ> snd) services) \<and>
       vulnerabilities m' = vulnerabilities m @ concat found)"
proof -
  from assms(2) obtain r r' where
    r: "(scan_step SaveVulnerabilities)\<^sup>*\<^sup>* (scanner_prepare (map fst services) m) r" "selector r = Returned None"
    and r': "(scan_step SaveVulnerabilities)\<^sup>*\<^sup>*
        (fst (scanner_StartScan tr c (map snd services) t (run_storage r))) r'" "selector r' = Returned None"
    and m': "m' = run_storage r'"
    by (rule PrepareAndScan_ok) blast
  note p = memory_success [OF scanner_prepare_ok [unfolded scanner_prepare_def]
      r(1) [unfolded scanner_prepare_def] r(2)]
  have prepared: "\<forall>sv \<in> set services. fst sv = []" "vulnerabilities (run_storage r) = vulnerabilities m"
    using p by (auto simp: prepare_sends prepare_saves simp del: map_map)
  note q = memory_success [OF scanner_StartScan_ok [OF assms(1), unfolded scanner_StartScan_eq]
      r'(1) [unfolded scanner_StartScan_eq] r'(2)]
  from q have "\<forall>sv \<in> set (map snd services). \<nexists>err. snd sv = Inl err"
    by (auto simp: scan_goroutine_sends)
  note res = all_results [OF this, of c]
  from q obtain ps where ps: "mset ps = mset (concat (map saves_of (map (scan_goroutine c) (map snd services))))"
    "vulnerabilities (run_storage r') = vulnerabilities (run_storage r) @ concat ps" by blast
  have "mset (map Inr ps) = mset (map snd (map snd services))" using ps(1) res by (metis mset_map)
  then show ?thesis using prepared ps(2) m' by auto
qed

lemma example_scan_run:
  "\<exists>m'. PrepareAndScan SaveVulnerabilities ci_engine example_inspector [([], [''terraform''], Inr vs)]
      t NewMemoryStorage None m'"
proof -
  have queries: "getQueriesByPlat (i_QueryLoader example_inspector) [''terraform''] = [example_query, example_query]"
    by (simp add: getQueriesByPlat_def example_inspector_def example_query_def contains_platform_def)
  have w: "0 < i_numWorkers example_inspector" by (simp add: example_inspector_def)
  let ?p = "scanner_prepare [[]] NewMemoryStorage"
  let ?s = "ServiceTurn 0"
  obtain r where r: "take_turns SaveVulnerabilities [?s, CloserTurn, CloserTurn, SelectTurn] ?p = Some r"
      "selector r = Returned None" "run_storage r = NewMemoryStorage"
    by (simp add: scanner_prepare_def start_run_def prepare_goroutine_def scan_turn_def service_turn_def
        closer_turn_def select_turn_def)
  obtain r' where r': "take_turns SaveVulnerabilities
      [?s, BarTurn, ?s, BarTurn, ?s, ?s, CloserTurn, CloserTurn, SelectTurn]
      (fst (scanner_StartScan ci_engine example_inspector [([''terraform''], Inr vs)] t
        NewMemoryStorage)) = Some r'" "selector r' = Returned None"
    by (simp add: scanner_StartScan_eq queries start_run_def scan_goroutine_def scan_ticks_def w
        scan_turn_def service_turn_def bar_turn_def closer_turn_def select_turn_def SaveVulnerabilities_def
        numeral_2_eq_2)
  have "PrepareAndScan SaveVulnerabilities ci_engine example_inspector [([], [''terraform''], Inr vs)]
      t NewMemoryStorage None (run_storage r')"
    by (rule scanned [where r = r and r' = r'])
      (use r(2,3) r'(2) take_turns_reach [OF r(1)] take_turns_reach [OF r'(1)] in simp_all)
  then show ?thesis by blast
qed

section \<open>Properties\<close>

text \<open>C8. With at least one worker, a scan of the services takes no more steps than a bound that
  grows with the queries and the services, and one that cannot go on has returned from
  \<open>StartScan\<close>: the progress bar, the wait groups and the channels never wait for each other.\<close>

theorem scan_phase_ends:
  assumes "0 < i_numWorkers c"
    and "(scan_step save ^^ k) (fst (scanner_StartScan tr c services t s)) r"
  shows "int k \<le> 2 * fst (GetQueriesLength tr (i_QueryLoader c) (map fst services) t) +
      4 * int (length services) + 6 \<and>
    (stuck save r \<longrightarrow> (\<exists>res. selector r = Returned res))"
  using run_ends [OF scanner_StartScan_ok assms(2)] scanner_StartScan_work [of tr c services t s] assms(1)
  by fastforce

theorem scan_phase_ends_witness:
  "\<exists>r. (scan_step SaveVulnerabilities ^^ 0) (fst (scanner_StartScan ci_engine example_inspector
      [([''terraform''], Inr [])] zero_tracker NewMemoryStorage)) r \<and>
    int 0 \<le> 2 * fst (GetQueriesLength ci_engine (i_QueryLoader example_inspector) (map fst
      [([''terraform''], Inr [] :: string + Vulnerability list)]) zero_tracker) +
      4 * int (length [([''terraform''], Inr [] :: string + Vulnerability list)]) + 6"
proof -
  have w: "0 < i_numWorkers example_inspector" by (simp add: example_inspector_def)
  from scan_phase_ends [OF w, of 0 SaveVulnerabilities ci_engine "[([''terraform''], Inr [])]" zero_tracker
    NewMemoryStorage] show ?thesis by (intro exI conjI) auto
qed

text \<open>C6. When \<open>PrepareAndScan\<close> returns without error, no service had an error in either phase,
  and the storage holds what it held before and then what each service found, in some order
  of the services.\<close>

theorem scan_success_complete:
  assumes "0 < i_numWorkers c"
    and "PrepareAndScan SaveVulnerabilities tr c services t m None m'"
  shows "(\<forall>sv \<in> set services. fst sv = []) \<and>
    (\<exists>found. mset (map Inr found) = mset (map (snd \<circ> snd) services) \<and>
       vulnerabilities m' = vulnerabilities m @ concat found)"
  using assms by (rule scan_success)

theorem scan_success_complete_witness:
  "\<exists>m'. PrepareAndScan SaveVulnerabilities ci_engine example_inspector [([], [''terraform''], Inr [example_vuln])]
      zero_tracker NewMemoryStorage None m' \<and> vulnerabilities m' = [example_vuln]"
proof -
  have w: "0 < i_numWorkers example_inspector" by (simp add: example_inspector_def)
  obtain m' where s: "PrepareAndScan SaveVulnerabilities ci_engine example_inspector
      [([], [''terraform''], Inr [example_vuln])] zero_tracker NewMemoryStorage None m'"
    using example_scan_run by blast
  from scan_success_complete [OF w s] obtain found where
    "mset (map Inr found) = mset [Inr [example_vuln] :: string + Vulnerability list]"
    and v: "vulnerabilities m' = vulnerabilities NewMemoryStorage @ concat found" by auto
  then have "map Inr found = [Inr [example_vuln] :: string + Vulnerability list]"
    by (simp only: mset.simps mset_single_iff)
  then have "found = [[example_vuln]]" by auto
  with v have "vulnerabilities m' = [example_vuln]" by (simp add: NewMemoryStorage_def)
  with s show ?thesis by blast
qed

text \<open>C25. When two services fail to read their sources, every complete run ends with the panic of a
  send on the closed channel \<open>errCh\<close>, after \<open>PrepareAndScan\<close> has returned the error of one of
  them.\<close>

theorem second_error_panics:
  assumes "i < j" and "j < length services" and "services ! i \<noteq> []" and "services ! j \<noteq> []"
    and "(scan_step save)\<^sup>*\<^sup>* (scanner_prepare services s) r" and "stuck save r"
  shows "panicked r \<and> (\<exists>e. selector r = Returned (Some e))"
proof (rule second_sender_panics)
  show "run_ok (start_run (map prepare_goroutine services) 0 s)"
    using scanner_prepare_ok [of services s] by (simp add: scanner_prepare_def)
  show "(scan_step save)\<^sup>*\<^sup>* (start_run (map prepare_goroutine services) 0 s) r"
    using assms(5) by (simp add: scanner_prepare_def)
  show "sender (map prepare_goroutine services ! i)" "sender (map prepare_goroutine services ! j)"
    using assms(1-4) prepare_sender by simp_all
qed (use assms(1,2,6) in simp_all)

theorem second_error_panics_witness:
  "\<exists>r. (scan_step SaveVulnerabilities)\<^sup>*\<^sup>* (scanner_prepare [[''a''], [''b'']] NewMemoryStorage) r \<and>
    stuck SaveVulnerabilities r \<and> panicked r"
proof -
  let ?p = "scanner_prepare [[''a''], [''b'']] NewMemoryStorage"
  obtain r where r: "take_turns SaveVulnerabilities [ServiceTurn 0, SelectTurn, ServiceTurn 1] ?p = Some r"
      and p: "stuck SaveVulnerabilities r"
    by (simp add: scanner_prepare_def start_run_def prepare_goroutine_def scan_turn_def service_turn_def
        select_turn_def stuck_def)
  have "panicked r \<and> (\<exists>e. selector r = Returned (Some e))"
    by (rule second_error_panics [of 0 1 "[[''a''], [''b'']]", OF _ _ _ _ take_turns_reach [OF r] p]) simp_all
  then show ?thesis using take_turns_reach [OF r] p by blast
qed

text \<open>The same holds of the scan itself, when two services fail to inspect their files.\<close>

lemma second_scan_error_panics:
  assumes "0 < i_numWorkers c" and "i < j" and "j < length services"
    and "snd (services ! i) = Inl e1" and "snd (services ! j) = Inl e2"
    and "(scan_step save)\<^sup>*\<^sup>* (fst (scanner_StartScan tr c services t s)) r" and "stuck save r"
  shows "panicked r \<and> (\<exists>e. selector r = Returned (Some e))"
  by (rule second_sender_panics [OF scanner_StartScan_ok [OF assms(1), unfolded scanner_StartScan_eq]
        assms(6) [unfolded scanner_StartScan_eq] assms(7,2)])
    (use assms in \<open>simp_all add: scan_goroutine_sender\<close>)

text \<open>
  \<open>adjustNumWorkers\<close> lets a negative number of workers through: no worker takes a query, the
  progress bar waits for values nobody sends, and the scan never returns.
\<close>

definition bar_waits :: "'s scan_run \<Rightarrow> bool" where
  "bar_waits r \<longleftrightarrow>
     bar r = Counting 0 \<and> queue r = 0 \<and> \<not> query_closed r \<and> wg_closer r = Awaiting \<and> selector r = Selecting \<and>
     (\<forall>g \<in> set (goroutines r). Tick \<notin> set g \<and> \<not> has_send g)"

lemma bar_waits_step:
  assumes "scan_step SaveVulnerabilities r r'" and "bar_waits r"
  shows "bar_waits r'"
proof -
  from assms(1) obtain t where t: "scan_turn SaveVulnerabilities t r = Some r'" by (cases rule: scan_step.cases)
  show ?thesis
  proof (cases t)
    case (ServiceTurn i)
    then have s: "service_turn SaveVulnerabilities i r = Some r'" using t by (simp add: scan_turn_def split: if_splits)
    have entry: "\<forall>g \<in> set ((goroutines r)[i := as]). Tick \<notin> set g \<and> \<not> has_send g"
      if "i < length (goroutines r)" "goroutines r ! i = a # as" for a as
    proof -
      have "Tick \<notin> set as \<and> \<not> has_send as"
        using assms(2) that unfolding bar_waits_def by (metis has_send_Cons list.set_intros(2) nth_mem)
      then show ?thesis using assms(2) set_list_entry [OF that(1), of as] unfolding bar_waits_def by auto
    qed
    have "Tick \<noteq> a \<and> (\<forall>e. a \<noteq> SendErr e)" if "i < length (goroutines r)" "goroutines r ! i = a # as" for a as
      using assms(2) that unfolding bar_waits_def by (metis has_send_Cons list.set_intros(1) nth_mem)
    with s show ?thesis
      using assms(2) entry
      by (cases rule: service_turn_cases) (auto simp: bar_waits_def SaveVulnerabilities_def)
  qed (use t assms(2) in \<open>auto simp: scan_turn_def bar_turn_def closer_turn_def select_turn_def bar_waits_def
        split: if_splits\<close>)
qed

lemma negative_workers_hang:
  assumes "i_numWorkers c < 0" and "\<forall>sv \<in> set services. \<exists>vs. snd sv = Inr vs"
    and "fst (GetQueriesLength tr (i_QueryLoader c) (map fst services) t) \<noteq> 0"
    and "(scan_step SaveVulnerabilities)\<^sup>*\<^sup>* (fst (scanner_StartScan tr c services t m)) r"
  shows "selector r = Selecting"
proof -
  have "bar_waits (fst (scanner_StartScan tr c services t m))"
    using assms(1-3) unfolding scanner_StartScan_eq
    by (auto simp: bar_waits_def start_run_def fst_GetQueriesLength comp_def scan_goroutine_def
        scan_ticks_def has_send_def split: sum.split)
  with assms(4) have "bar_waits r" by (induction rule: rtranclp_induct) (auto intro: bar_waits_step)
  then show ?thesis by (simp add: bar_waits_def)
qed

end
