(* ===== verification/ScanClient.thy ===== *)
theory ScanClient
  imports Scanner Secrets Analyzer Summary Provider Helpers
begin

text \<open>
  The client of a scan, \<open>pkg/scan\<close>, with the helpers of the console it calls: the parameters and
  the configuration file, the preparation of the paths, what a scan is made of, and what is done
  with its results: reports, the exit code, the statistics. The last section is the masking
  of secrets in preview lines.
\<close>

section \<open>Exit codes\<close>

text \<open>\<open>internal/console/helpers/exit_handler.go\<close>; the two variables of the package are the state.\<close>

record exit_handler =
  shouldIgnore :: string
  shouldFail :: "(string, unit) gomap"

definition zero_exit_handler :: exit_handler where
  "zero_exit_handler = \<lparr>shouldIgnore = [], shouldFail = []\<rparr>"

definition exit_codes :: "(Severity \<times> int) list" where
  "exit_codes =
     [(''CRITICAL'', 60), (''HIGH'', 50), (''MEDIUM'', 40), (''LOW'', 30), (''INFO'', 20), (''TRACE'', 0)]"

fun exit_code_loop :: "(string, unit) gomap \<Rightarrow> (Severity, int) gomap \<Rightarrow> (Severity \<times> int) list \<Rightarrow> int" where
  "exit_code_loop fails exitMap [] = 0"
| "exit_code_loop fails exitMap ((severity, code) # cs) =
     (if map_of fails (to_lower severity) = None then exit_code_loop fails exitMap cs
      else if count_of exitMap severity > 0 then code
      else exit_code_loop fails exitMap cs)"

definition ResultsExitCode :: "exit_handler \<Rightarrow> 'v Summary \<Rightarrow> int" where
  "ResultsExitCode h summary =
     exit_code_loop (shouldFail h) (ss_SeverityCounters (sm_SeveritySummary summary)) exit_codes"

definition InitShouldIgnoreArg :: "string \<Rightarrow> exit_handler \<Rightarrow> string option \<times> exit_handler" where
  "InitShouldIgnoreArg arg h =
     (let validArgs = [''none'', ''all'', ''results'', ''errors'']
      in if list_ex (\<lambda>validArg. equal_fold validArg arg) validArgs
         then (None, h\<lparr>shouldIgnore := to_lower arg\<rparr>)
         else (Some (''unknown argument for --ignore-on-exit: '' @ arg @ [CHR 0x0A] @ ''valid arguments:'' @
                 [CHR 0x0A] @ ''  '' @ join validArgs ([CHR 0x0A] @ ''  '')), h))"

definition possibleArgs :: "(string, unit) gomap" where
  "possibleArgs = [(''critical'', ()), (''high'', ()), (''medium'', ()), (''low'', ()), (''info'', ())]"

fun convert_fail_args :: "string list \<Rightarrow> (string, unit) gomap \<Rightarrow> string + (string, unit) gomap" where
  "convert_fail_args [] m = Inr m"
| "convert_fail_args (arg # args) m =
     (if map_of possibleArgs (to_lower arg) = None
      then Inl (''unknown argument for --fail-on: '' @ arg @ [CHR 0x0A] @ ''valid arguments:'' @
             [CHR 0x0A] @ ''  '' @ join (map fst possibleArgs) ([CHR 0x0A] @ ''  ''))
      else convert_fail_args args (gomap_put (to_lower arg) () m))"

definition InitShouldFailArg :: "string list \<Rightarrow> exit_handler \<Rightarrow> string option \<times> exit_handler" where
  "InitShouldFailArg args h =
     (if args = [] then (None, h\<lparr>shouldFail := possibleArgs\<rparr>)
      else case convert_fail_args args [] of
        Inl err \<Rightarrow> (Some err, h)
      | Inr argsConverted \<Rightarrow> (None, h\<lparr>shouldFail := argsConverted\<rparr>))"

definition ShowError :: "exit_handler \<Rightarrow> string \<Rightarrow> bool" where
  "ShowError h kind \<longleftrightarrow>
     equal_fold (shouldIgnore h) ''none'' \<or>
     (\<not> equal_fold (shouldIgnore h) ''all'' \<and> \<not> equal_fold (shouldIgnore h) kind)"

definition RemediateExitCode :: "int \<Rightarrow> int \<Rightarrow> int" where
  "RemediateExitCode selectedRemediationNumber actualRemediationDoneNumber =
     (if selectedRemediationNumber \<noteq> actualRemediationDoneNumber then 70 else 0)"

section \<open>Report formats and configuration files\<close>

definition reportGenerators :: "string list" where
  "reportGenerators =
     [''json'', ''sarif'', ''html'', ''glsast'', ''pdf'', ''sonarqube'', ''cyclonedx'', ''junit'',
      ''asff'', ''csv'', ''codeclimate'']"

text \<open>
  \<open>gen\<close> is what the generators return. A format that has none gives a nil function, whose call
  panics.
\<close>

fun GenerateReport :: "(string \<Rightarrow> string option) \<Rightarrow> string list \<Rightarrow> string option option" where
  "GenerateReport gen [] = Some None"
| "GenerateReport gen (f # formats) =
     (if to_lower f \<in> set reportGenerators
      then (case gen (to_lower f) of Some err \<Rightarrow> Some (Some err) | None \<Rightarrow> GenerateReport gen formats)
      else None)"

definition ListReportFormats :: "string list" where
  "ListReportFormats = sort reportGenerators"

text \<open>
  The file system and the decoders of JSON, YAML, TOML and HCL, which say whether a text can be
  decoded; \<open>ce_viper\<close> is what \<open>ReadInConfig\<close> makes of a file, and \<open>ce_GetSources\<close>,
  \<open>ce_GetKuberneterSources\<close>, \<open>ce_Analyze\<close> are the calls of the other packages.
\<close>

record ExtractedPath =
  xp_Path :: "string list"
  xp_ExtractionMap :: "(string, ExtractedPathObject) gomap"

record client_env =
  ce_stat :: "string \<Rightarrow> stat_error option"
  ce_read :: "string \<Rightarrow> string + string"
  ce_json :: "string \<Rightarrow> bool"
  ce_yaml :: "string \<Rightarrow> bool"
  ce_toml :: "string \<Rightarrow> bool"
  ce_hcl :: "string \<Rightarrow> bool"
  ce_viper :: "string \<Rightarrow> string \<Rightarrow> string \<Rightarrow> string + (string \<Rightarrow> string list option)"
  ce_source_dir :: string
  ce_GetSources :: "string list \<Rightarrow> string \<Rightarrow> string + ExtractedPath"
  ce_GetKuberneterSources :: "string list \<Rightarrow> string \<Rightarrow> string + ExtractedPath"
  ce_Analyze :: "Analyzer \<Rightarrow> string + AnalyzedPaths \<times> string list"

definition FileAnalyzer :: "client_env \<Rightarrow> string \<Rightarrow> string + string" where
  "FileAnalyzer env path =
     bind_err (ce_read env (Clean path)) (\<lambda>rc.
       if ce_json env rc then Inr ''json''
       else if ce_yaml env rc then Inr ''yaml''
       else if ce_toml env rc then Inr ''toml''
       else if ce_hcl env rc then Inr ''hcl''
       else Inl ''invalid configuration file format'')"

definition GetFullPath :: "client_env \<Rightarrow> string \<Rightarrow> string" where
  "GetFullPath env partialPath = path_join (ce_source_dir env) partialPath"

definition GetDefaultQueryPath :: "client_env \<Rightarrow> string \<Rightarrow> string" where
  "GetDefaultQueryPath env queriesPath = GetFullPath env queriesPath"

record ConfigParameters =
  cf_ExcludeCategories :: "string list"
  cf_ExcludePaths :: "string list"
  cf_ExcludeQueries :: "string list"
  cf_ExcludeResults :: "string list"
  cf_ExcludeSeverities :: "string list"

definition DefaultConfigFilename :: string where
  "DefaultConfigFilename = ''dd-iac-scan.config''"

text \<open>Whether there is nothing to read, and the error\<close>

definition setupConfigFile :: "client_env \<Rightarrow> string \<Rightarrow> bool \<times> string option" where
  "setupConfigFile env rootPath =
     (case ce_stat env (path_join rootPath DefaultConfigFilename) of
        Some NotExist \<Rightarrow> (True, None)
      | Some err \<Rightarrow> (True, Some (stat_text err))
      | None \<Rightarrow> (False, None))"

definition empty_config :: ConfigParameters where
  "empty_config = \<lparr>cf_ExcludeCategories = [], cf_ExcludePaths = [], cf_ExcludeQueries = [],
     cf_ExcludeResults = [], cf_ExcludeSeverities = []\<rparr>"

definition config_of :: "(string \<Rightarrow> string list option) \<Rightarrow> string \<Rightarrow> string list" where
  "config_of get key = (case get key of Some xs \<Rightarrow> xs | None \<Rightarrow> [])"

definition initializeConfig :: "client_env \<Rightarrow> string \<Rightarrow> string + ConfigParameters" where
  "initializeConfig env rootPath =
     (case setupConfigFile env rootPath of
        (ex, Some err) \<Rightarrow> Inl err
      | (True, None) \<Rightarrow> Inr empty_config
      | (False, None) \<Rightarrow>
          bind_err (FileAnalyzer env (path_join rootPath DefaultConfigFilename)) (\<lambda>ext.
            bind_err (ce_viper env rootPath (Base DefaultConfigFilename) ext) (\<lambda>get.
              Inr \<lparr>cf_ExcludeCategories = config_of get ''exclude-categories'',
                cf_ExcludePaths = config_of get ''exclude-paths'',
                cf_ExcludeQueries = config_of get ''exclude-queries'',
                cf_ExcludeResults = config_of get ''exclude-results'',
                cf_ExcludeSeverities = config_of get ''exclude-severities''\<rparr>)))"

section \<open>Parameters\<close>

text \<open>\<open>pm_DiffAware\<close> is \<open>SCIInfo.DiffAware.Enabled\<close>, all that is read of \<open>SCIInfo\<close> but by the log and the reports.\<close>

record Parameters =
  pm_CloudProvider :: "string list"
  pm_DisableFullDesc :: bool
  pm_ExcludeCategories :: "string list"
  pm_ExcludePaths :: "string list"
  pm_ExcludeQueries :: "string list"
  pm_ExcludeResults :: "string list"
  pm_ExcludeSeverities :: "string list"
  pm_ExperimentalQueries :: bool
  pm_IncludeQueries :: "string list"
  pm_InputData :: string
  pm_OutputName :: string
  pm_OutputPath :: string
  pm_Path :: "string list"
  pm_PayloadPath :: string
  pm_PreviewLines :: int
  pm_QueriesPath :: "string list"
  pm_LibrariesPath :: string
  pm_ReportFormats :: "string list"
  pm_Platform :: "string list"
  pm_ExcludePlatform :: "string list"
  pm_TerraformVarsPath :: string
  pm_QueryExecTimeout :: int
  pm_LineInfoPayload :: bool
  pm_DisableSecrets :: bool
  pm_SecretsRegexesPath :: string
  pm_ChangedDefaultQueryPath :: bool
  pm_ChangedDefaultLibrariesPath :: bool
  pm_ScanID :: string
  pm_BillOfMaterials :: bool
  pm_ExcludeGitIgnore :: bool
  pm_OpenAPIResolveReferences :: bool
  pm_ParallelScanFlag :: int
  pm_MaxFileSizeFlag :: int
  pm_UseOldSeverities :: bool
  pm_MaxResolverDepth :: int
  pm_KicsComputeNewSimID :: bool
  pm_PreAnalysisExcludePaths :: "string list"
  pm_DiffAware :: bool

text \<open>\<open>None\<close> is the nil pointer that is returned when the configuration cannot be read.\<close>

definition GetDefaultParameters :: "client_env \<Rightarrow> string \<Rightarrow> Parameters option" where
  "GetDefaultParameters env rootPath =
     (case initializeConfig env rootPath of
        Inl err \<Rightarrow> None
      | Inr configParams \<Rightarrow>
          Some \<lparr>pm_CloudProvider = [[]], pm_DisableFullDesc = False,
            pm_ExcludeCategories = cf_ExcludeCategories configParams,
            pm_ExcludePaths = cf_ExcludePaths configParams,
            pm_ExcludeQueries = cf_ExcludeQueries configParams,
            pm_ExcludeResults = cf_ExcludeResults configParams,
            pm_ExcludeSeverities = cf_ExcludeSeverities configParams,
            pm_ExperimentalQueries = False, pm_IncludeQueries = [], pm_InputData = [],
            pm_OutputName = ''kics-result.sarif'', pm_OutputPath = [], pm_Path = [], pm_PayloadPath = [],
            pm_PreviewLines = 3, pm_QueriesPath = [''./assets/queries''],
            pm_LibrariesPath = ''./assets/libraries'', pm_ReportFormats = [''sarif''],
            pm_Platform = [''Terraform''], pm_ExcludePlatform = [[]], pm_TerraformVarsPath = [],
            pm_QueryExecTimeout = 60, pm_LineInfoPayload = False, pm_DisableSecrets = True,
            pm_SecretsRegexesPath = [], pm_ChangedDefaultQueryPath = False,
            pm_ChangedDefaultLibrariesPath = False, pm_ScanID = ''console'', pm_BillOfMaterials = False,
            pm_ExcludeGitIgnore = False, pm_OpenAPIResolveReferences = False, pm_ParallelScanFlag = 0,
            pm_MaxFileSizeFlag = 5, pm_UseOldSeverities = False, pm_MaxResolverDepth = 15,
            pm_KicsComputeNewSimID = False, pm_PreAnalysisExcludePaths = [], pm_DiffAware = False\<rparr>)"

definition getExcludeResultsMap :: "string list \<Rightarrow> (string, bool) gomap" where
  "getExcludeResultsMap excludeResults = foldl (\<lambda>m er. gomap_put er True m) [] excludeResults"

record Client =
  cl_ScanParams :: Parameters
  cl_ScanStartTime :: int
  cl_Tracker :: CITracker
  cl_Storage :: MemoryStorage
  cl_ExcludeResultsMap :: "(string, bool) gomap"

text \<open>\<open>check_version\<close> is what \<open>descriptions.CheckVersion\<close> does to the tracker.\<close>

definition NewClient :: "(CITracker \<Rightarrow> CITracker) \<Rightarrow> Parameters \<Rightarrow> string + Client" where
  "NewClient check_version params =
     bind_err (NewTracker (pm_PreviewLines params)) (\<lambda>t.
       Inr \<lparr>cl_ScanParams = params, cl_ScanStartTime = 0, cl_Tracker = check_version t,
         cl_Storage = NewMemoryStorage,
         cl_ExcludeResultsMap = getExcludeResultsMap (pm_ExcludeResults params)\<rparr>)"

section \<open>Paths\<close>

definition empty_extracted :: ExtractedPath where
  "empty_extracted = \<lparr>xp_Path = [], xp_ExtractionMap = []\<rparr>"

text \<open>The expression \<open>^kuberneter::\<close>\<close>

definition extractPathType :: "string list \<Rightarrow> string list \<times> string list" where
  "extractPathType paths =
     (filter (\<lambda>p. \<not> has_prefix p ''kuberneter::'') paths,
      map (drop (length ''kuberneter::'')) (filter (\<lambda>p. has_prefix p ''kuberneter::'') paths))"

definition put_all :: "('k, 'v) gomap \<Rightarrow> ('k, 'v) gomap \<Rightarrow> ('k, 'v) gomap" where
  "put_all m m0 = foldl (\<lambda>acc (k, v). gomap_put k v acc) m0 m"

definition combinePaths ::
  "ExtractedPath \<Rightarrow> ExtractedPath \<Rightarrow> ExtractedPath \<Rightarrow> ExtractedPath \<Rightarrow> ExtractedPath" where
  "combinePaths kuberneter regular query library =
     \<lparr>xp_Path = xp_Path kuberneter @ xp_Path regular,
      xp_ExtractionMap = put_all (xp_ExtractionMap library) (put_all (xp_ExtractionMap query)
        (put_all (xp_ExtractionMap kuberneter) (put_all (xp_ExtractionMap regular) [])))\<rparr>"

definition resolve_path :: "client_env \<Rightarrow> string \<Rightarrow> string \<Rightarrow> string \<Rightarrow> string + ExtractedPath" where
  "resolve_path env flagContent flagName downloadDir =
     bind_err (ce_GetSources env [flagContent] downloadDir) (\<lambda>extractedPath.
       if length (xp_Path extractedPath) \<noteq> 1
       then Inl (''could not find a valid path (--'' @ flagName @ '') on '' @ flagContent)
       else Inr extractedPath)"

text \<open>The loop over the paths of queries: of the extracted paths the last is returned.\<close>

fun query_paths ::
  "client_env \<Rightarrow> string \<Rightarrow> string list \<Rightarrow> ExtractedPath \<Rightarrow> string list \<Rightarrow>
     (string + ExtractedPath \<times> string list) option" where
  "query_paths env downloadDir [] extPath queriesPath = Some (Inr (extPath, queriesPath))"
| "query_paths env downloadDir (queryPath # qs) extPath queriesPath =
     (case resolve_path env queryPath ''queries-path'' downloadDir of
        Inl err \<Rightarrow> Some (Inl err)
      | Inr extractedPath \<Rightarrow> do {
          p \<leftarrow> Prelude.at (xp_Path extractedPath) 0;
          query_paths env downloadDir qs extractedPath (queriesPath @ [p])
        })"

definition GetQueryPath :: "client_env \<Rightarrow> Parameters \<Rightarrow> (string + ExtractedPath \<times> Parameters) option" where
  "GetQueryPath env p =
     (if pm_ChangedDefaultQueryPath p then
        map_option (map_sum id (\<lambda>(extPath, queriesPath). (extPath, p\<lparr>pm_QueriesPath := queriesPath\<rparr>)))
          (query_paths env (pm_OutputPath p) (pm_QueriesPath p) empty_extracted [])
      else do {
        q \<leftarrow> Prelude.at (pm_QueriesPath p) 0;
        Some (Inr (empty_extracted, p\<lparr>pm_QueriesPath := [GetDefaultQueryPath env q]\<rparr>))
      })"

definition getLibraryPath :: "client_env \<Rightarrow> Parameters \<Rightarrow> (string + ExtractedPath \<times> Parameters) option" where
  "getLibraryPath env p =
     (if pm_ChangedDefaultLibrariesPath p then
        (case resolve_path env (pm_LibrariesPath p) ''libraries-path'' (pm_OutputPath p) of
           Inl err \<Rightarrow> Some (Inl err)
         | Inr extPath \<Rightarrow> do {
             l \<leftarrow> Prelude.at (xp_Path extPath) 0;
             Some (Inr (extPath, p\<lparr>pm_LibrariesPath := l\<rparr>))
           })
      else Some (Inr (empty_extracted, p)))"

definition analyzePaths :: "client_env \<Rightarrow> Analyzer \<Rightarrow> string + AnalyzedPaths" where
  "analyzePaths env a =
     map_sum id (\<lambda>(pathsFlag, exc). pathsFlag\<lparr>ap_Exc := exc @ ap_Exc pathsFlag\<rparr>) (ce_Analyze env a)"

definition path_analyzer :: "Parameters \<Rightarrow> string list \<Rightarrow> Analyzer" where
  "path_analyzer p paths =
     \<lparr>az_Paths = paths, az_Types = pm_Platform p, az_ExcludeTypes = pm_ExcludePlatform p,
      az_Exc = pm_ExcludePaths p, az_GitIgnoreFileName = ''.gitignore'',
      az_ExcludeGitIgnore = pm_ExcludeGitIgnore p, az_MaxFileSize = pm_MaxFileSizeFlag p\<rparr>"

text \<open>
  \<open>prepareAndAnalyzePaths\<close> with \<open>preparePaths\<close>; the parameters are returned as it leaves them when
  it ends without error, as a scan goes on only then.
\<close>

definition prepareAndAnalyzePaths ::
  "client_env \<Rightarrow> Parameters \<Rightarrow> (string + ExtractedPath \<times> Parameters) option" where
  "prepareAndAnalyzePaths env p0 = do {
     query \<leftarrow> GetQueryPath env p0;
     case query of
       Inl err \<Rightarrow> Some (Inl err)
     | Inr (queryExPaths, p1) \<Rightarrow> do {
         library \<leftarrow> getLibraryPath env p1;
         Some (bind_err library (\<lambda>(libExPaths, p2).
           let (regularPaths, kuberneterPaths) = extractPathType (pm_Path p2) in
           bind_err (ce_GetKuberneterSources env kuberneterPaths (pm_OutputPath p2)) (\<lambda>kuberneterExPaths.
           bind_err (ce_GetSources env regularPaths (pm_OutputPath p2)) (\<lambda>regularExPaths.
           let allPaths = combinePaths kuberneterExPaths regularExPaths queryExPaths libExPaths in
           if xp_Path allPaths = [] then Inr (empty_extracted, p2)
           else
             bind_err (analyzePaths env (path_analyzer p2 (xp_Path allPaths))) (\<lambda>pathTypes.
             if ap_Types pathTypes = [] then Inr (empty_extracted, p2)
             else Inr (allPaths, p2\<lparr>pm_Platform := ap_Types pathTypes,
                    pm_PreAnalysisExcludePaths := pm_ExcludePaths p2,
                    pm_ExcludePaths := ap_Exc pathTypes\<rparr>))))))
       }
   }"

text \<open>The folders \<open>deleteExtractionFolder\<close> removes\<close>

definition deleteExtractionFolder :: "(string, ExtractedPathObject) gomap \<Rightarrow> string list" where
  "deleteExtractionFolder extractionMap =
     filter (\<lambda>f. \<not> contains f ''kics-extract-kuberneter'') (map fst extractionMap)"

definition usingCustomQueries :: "string list \<Rightarrow> bool" where
  "usingCustomQueries queriesPath \<longleftrightarrow> \<not> ContainsInString (path_join ''assets'' ''queries'') queriesPath"

section \<open>What a scan is made of\<close>

text \<open>The loop only reads the two flags; where it breaks it has found both.\<close>

definition useDifferentPlatformQueries :: "string list \<Rightarrow> string list" where
  "useDifferentPlatformQueries platforms =
     (let hasBicep = list_ex (\<lambda>p. p = ''bicep'') platforms;
          hasARM = list_ex (\<lambda>p. p = ''azureresourcemanager'') platforms
      in if hasBicep \<and> \<not> hasARM then platforms @ [''azureresourcemanager''] else platforms)"

definition createQueryFilter :: "Parameters \<Rightarrow> QueryInspectorParameters" where
  "createQueryFilter p =
     \<lparr>qp_IncludeQueries = \<lparr>in_ByIDs = pm_IncludeQueries p\<rparr>,
      qp_ExcludeQueries = \<lparr>ex_ByIDs = pm_ExcludeQueries p, ex_ByCategories = pm_ExcludeCategories p,
        ex_BySeverities = pm_ExcludeSeverities p\<rparr>,
      qp_ExperimentalQueries = pm_ExperimentalQueries p, qp_InputDataPath = pm_InputData p,
      qp_BomQueries = pm_BillOfMaterials p\<rparr>"

definition query_source_of :: "Parameters \<Rightarrow> FilesystemSource" where
  "query_source_of p =
     NewFilesystemSource (pm_QueriesPath p) (useDifferentPlatformQueries (pm_Platform p))
       (pm_CloudProvider p) (pm_LibrariesPath p) (pm_ExperimentalQueries p)"

definition getFileSystemSourceProvider ::
  "provider_env \<Rightarrow> Parameters \<Rightarrow> string list \<Rightarrow> (string + FileSystemSourceProvider) option" where
  "getFileSystemSourceProvider env p paths =
     NewFileSystemSourceProvider env paths
       ((if pm_PayloadPath p \<noteq> [] then [pm_PayloadPath p] else []) @ pm_ExcludePaths p)"

text \<open>
  A service is its parser, the provider and the greatest size of a file; storage, inspector,
  tracker and resolver, which has no kind registered, are the same for all.
\<close>

record 'p client_service =
  cs_SourceProvider :: FileSystemSourceProvider
  cs_Parser :: "'p Parser"
  cs_MaxFileSize :: int

definition createService ::
  "provider_env \<Rightarrow> ((string, bool) gomap \<Rightarrow> (string, bool) gomap) \<Rightarrow> 'p kindParser list \<Rightarrow>
     FilesystemSource \<Rightarrow> Parameters \<Rightarrow> string list \<Rightarrow> (string + 'p client_service list) option" where
  "createService env r parsers source p paths = do {
     provider \<leftarrow> getFileSystemSourceProvider env p paths;
     case provider of
       Inl err \<Rightarrow> Some (Inl err)
     | Inr filesSource \<Rightarrow> do {
         combinedParser \<leftarrow> Build r parsers (Types source);
         Some (Inr (map (\<lambda>c. \<lparr>cs_SourceProvider = filesSource, cs_Parser = c,
           cs_MaxFileSize = pm_MaxFileSizeFlag p\<rparr>) combinedParser))
       }
   }"

section \<open>Results\<close>

record Results =
  rs_Results :: "Vulnerability list"
  rs_ExtractedPaths :: ExtractedPath
  rs_Files :: "FileMetadata list"
  rs_FailedQueries :: "(string, engine_error) gomap"

definition scan_results ::
  "((string, Vulnerability) gomap \<Rightarrow> (string, Vulnerability) gomap) \<Rightarrow> MemoryStorage \<Rightarrow> ExtractedPath \<Rightarrow>
     (string, engine_error) gomap \<Rightarrow> Results" where
  "scan_results r m extractedPaths failedQueries =
     \<lparr>rs_Results = GetVulnerabilities r m, rs_ExtractedPaths = extractedPaths, rs_Files = GetFiles m,
      rs_FailedQueries = failedQueries\<rparr>"

text \<open>
  \<open>executeScan\<close> with \<open>initScan\<close>, as a relation, since \<open>PrepareAndScan\<close> is one: \<open>new_inspector\<close> is
  \<open>NewInspector\<close> on the source of the queries and the filter, \<open>behave\<close> what each service does when it
  prepares its sources and scans them. The results are \<open>None\<close> when there is nothing to scan.
\<close>

inductive executeScan ::
  "client_env \<Rightarrow> provider_env \<Rightarrow> ((string, bool) gomap \<Rightarrow> (string, bool) gomap) \<Rightarrow> 'p kindParser list \<Rightarrow>
     (FilesystemSource \<Rightarrow> QueryInspectorParameters \<Rightarrow> string + Inspector) \<Rightarrow>
     ('p client_service \<Rightarrow> string list \<times> scan_service) \<Rightarrow>
     ((string, Vulnerability) gomap \<Rightarrow> (string, Vulnerability) gomap) \<Rightarrow> Client \<Rightarrow>
     string + Results option \<Rightarrow> bool"
  for env penv r parsers new_inspector behave rv c where
  not_prepared:
    "prepareAndAnalyzePaths env (cl_ScanParams c) = Some (Inl err) \<Longrightarrow>
     executeScan env penv r parsers new_inspector behave rv c (Inl err)"
| nothing_to_scan:
    "prepareAndAnalyzePaths env (cl_ScanParams c) = Some (Inr (ex, p)) \<Longrightarrow> xp_Path ex = [] \<Longrightarrow>
     executeScan env penv r parsers new_inspector behave rv c (Inr None)"
| no_inspector:
    "prepareAndAnalyzePaths env (cl_ScanParams c) = Some (Inr (ex, p)) \<Longrightarrow> xp_Path ex \<noteq> [] \<Longrightarrow>
     new_inspector (query_source_of p) (createQueryFilter p) = Inl err \<Longrightarrow>
     executeScan env penv r parsers new_inspector behave rv c (Inl err)"
| no_service:
    "prepareAndAnalyzePaths env (cl_ScanParams c) = Some (Inr (ex, p)) \<Longrightarrow> xp_Path ex \<noteq> [] \<Longrightarrow>
     new_inspector (query_source_of p) (createQueryFilter p) = Inr inspector \<Longrightarrow>
     createService penv r parsers (query_source_of p) p (xp_Path ex) = Some (Inl err) \<Longrightarrow>
     executeScan env penv r parsers new_inspector behave rv c (Inl err)"
| scan_over:
    "prepareAndAnalyzePaths env (cl_ScanParams c) = Some (Inr (ex, p)) \<Longrightarrow> xp_Path ex \<noteq> [] \<Longrightarrow>
     new_inspector (query_source_of p) (createQueryFilter p) = Inr inspector \<Longrightarrow>
     createService penv r parsers (query_source_of p) p (xp_Path ex) = Some (Inr services) \<Longrightarrow>
     PrepareAndScan SaveVulnerabilities ci_engine inspector (map behave services) (cl_Tracker c)
       (cl_Storage c) err m \<Longrightarrow>
     executeScan env penv r parsers new_inspector behave rv c
       (case err of Some e \<Rightarrow> Inl e | None \<Rightarrow> Inr (Some (scan_results rv m ex failedQueries)))"

inductive_cases executeScan_results:
  "executeScan env penv r parsers new_inspector behave rv c (Inr (Some res))"

section \<open>After the scan\<close>

record RuleTiming =
  rt_Name :: string
  rt_Time :: int

record RuleStats =
  ru_TimedOut :: "string list"
  ru_MostExpensiveRule :: RuleTiming
  ru_SlowestRule :: RuleTiming

record ScanStats =
  sx_Violations :: int
  sx_Files :: int
  sx_Rules :: int
  sx_Duration :: int
  sx_ViolationBreakdowns :: "(string, string list) gomap"
  sx_ResourcesScanned :: int

record ScanMetadata =
  md_StartTime :: int
  md_EndTime :: int
  md_CoresAvailable :: int
  md_DiffAware :: bool
  md_Stats :: ScanStats
  md_RuleStats :: RuleStats

definition zero_metadata :: ScanMetadata where
  "zero_metadata =
     (let t = \<lparr>rt_Name = [], rt_Time = 0\<rparr> in
      \<lparr>md_StartTime = 0, md_EndTime = 0, md_CoresAvailable = 0, md_DiffAware = False,
       md_Stats = \<lparr>sx_Violations = 0, sx_Files = 0, sx_Rules = 0, sx_Duration = 0,
         sx_ViolationBreakdowns = [], sx_ResourcesScanned = 0\<rparr>,
       md_RuleStats = \<lparr>ru_TimedOut = [], ru_MostExpensiveRule = t, ru_SlowestRule = t\<rparr>\<rparr>)"

fun longest_query :: "string \<Rightarrow> int \<Rightarrow> Vulnerability list \<Rightarrow> RuleTiming" where
  "longest_query longestQuery longestQueryTime [] = \<lparr>rt_Name = longestQuery, rt_Time = longestQueryTime\<rparr>"
| "longest_query longestQuery longestQueryTime (v # vulns) =
     (if v_QueryDuration v > longestQueryTime
      then longest_query (v_QueryName v) (v_QueryDuration v) vulns
      else longest_query longestQuery longestQueryTime vulns)"

definition getLongestRunningQuery :: "Vulnerability list \<Rightarrow> RuleTiming" where
  "getLongestRunningQuery vulns = longest_query [] 0 vulns"

text \<open>The loop ranges over the new list \<open>failedQueries\<close>, which is empty, not over the failed queries.\<close>

definition generateRuleStats :: "Results \<Rightarrow> RuleStats" where
  "generateRuleStats scanResults =
     (let failedQueries0 = [] :: string list;
          failedQueries = foldl (\<lambda>fs q. fs @ [q]) failedQueries0 failedQueries0
      in \<lparr>ru_TimedOut = failedQueries,
          ru_MostExpensiveRule = getLongestRunningQuery (rs_Results scanResults),
          ru_SlowestRule = getLongestRunningQuery (rs_Results scanResults)\<rparr>)"

definition add_violation :: "(string, string list) gomap \<Rightarrow> Vulnerability \<Rightarrow> (string, string list) gomap" where
  "add_violation m v =
     (if v_Severity v \<in> set AllSeverities
      then gomap_put (v_Severity v)
             ((case map_of m (v_Severity v) of Some ids \<Rightarrow> ids | None \<Rightarrow> []) @ [v_QueryID v]) m
      else m)"

definition generateStats :: "Client \<Rightarrow> Results \<Rightarrow> int \<Rightarrow> ScanStats" where
  "generateStats c scanResults scanDuration =
     \<lparr>sx_Violations = int (length (rs_Results scanResults)), sx_Files = FoundFiles (cl_Tracker c),
      sx_Rules = ExecutedQueries (cl_Tracker c), sx_Duration = scanDuration,
      sx_ViolationBreakdowns = foldl add_violation [] (rs_Results scanResults),
      sx_ResourcesScanned = FoundResources (cl_Tracker c)\<rparr>"

definition generateMetadata :: "Client \<Rightarrow> int \<Rightarrow> Results \<Rightarrow> int \<Rightarrow> int \<Rightarrow> ScanMetadata" where
  "generateMetadata c cpus scanResults startTime endTime =
     \<lparr>md_StartTime = startTime, md_EndTime = endTime, md_CoresAvailable = cpus,
      md_DiffAware = pm_DiffAware (cl_ScanParams c),
      md_Stats = generateStats c scanResults (endTime - startTime),
      md_RuleStats = generateRuleStats scanResults\<rparr>"

definition scan_counters :: "CITracker \<Rightarrow> Counters" where
  "scan_counters t =
     \<lparr>ct_ScannedFiles = FoundFiles t, ct_ScannedFilesLines = FoundCountLines t, ct_ParsedFiles = ParsedFiles t,
      ct_ParsedFilesLines = ParsedCountLines t, ct_IgnoredFilesLines = IgnoreCountLines t,
      ct_FailedToScanFiles = 0, ct_TotalQueries = LoadedQueries t,
      ct_FailedToExecuteQueries = ExecutingQueries t - ExecutedQueries t,
      ct_FailedSimilarityID = FailedSimilarityID t, ct_FoundResources = FoundResources t\<rparr>"

text \<open>
  The console, the writers of the payload and of the reports, and the number of processors.
\<close>

record post_env =
  po_summary :: summary_env
  po_print :: "(bool \<times> string) Summary \<Rightarrow> bool \<Rightarrow> string option"
  po_export :: "string \<Rightarrow> string \<Rightarrow> doc list \<Rightarrow> string option"
  po_report :: "string \<Rightarrow> string \<Rightarrow> (bool \<times> string) Summary \<Rightarrow> string \<Rightarrow> string option"
  po_exit :: exit_handler
  po_cpus :: int

definition getSummary ::
  "post_env \<Rightarrow> Client \<Rightarrow> Vulnerability list \<Rightarrow> (string, ExtractedPathObject) gomap \<Rightarrow> (bool \<times> string) Summary option" where
  "getSummary env c results pathExtractionMap =
     CreateSummary (po_summary env) (scan_counters (cl_Tracker c)) results (pm_ScanID (cl_ScanParams c))
       pathExtractionMap (VersionInfo (cl_Tracker c)) (pm_OutputPath (cl_ScanParams c))"

definition printOutput ::
  "post_env \<Rightarrow> string \<Rightarrow> string \<Rightarrow> (bool \<times> string) Summary \<Rightarrow> string list \<Rightarrow> string option option" where
  "printOutput env outputPath filename body formats =
     (if outputPath = [] then Some None
      else GenerateReport (po_report env outputPath filename body)
             (if formats = [] then [''json''] else formats))"

definition resolveOutputs ::
  "post_env \<Rightarrow> Parameters \<Rightarrow> (bool \<times> string) Summary \<Rightarrow> doc list \<Rightarrow> string option option" where
  "resolveOutputs env p summary documents =
     (case po_print env summary (usingCustomQueries (pm_QueriesPath p)) of
        Some err \<Rightarrow> Some (Some err)
      | None \<Rightarrow>
          (case (if pm_PayloadPath p \<noteq> []
                 then po_export env (Dir (pm_PayloadPath p)) (Base (pm_PayloadPath p)) documents else None) of
             Some err \<Rightarrow> Some (Some err)
           | None \<Rightarrow> printOutput env (pm_OutputPath p) (pm_OutputName p) summary (pm_ReportFormats p)))"

text \<open>\<open>Exits\<close> is \<open>os.Exit\<close>.\<close>

datatype scan_end = Exits int | Ends ScanMetadata "string option"

definition postScan ::
  "post_env \<Rightarrow> int \<Rightarrow> Results option \<Rightarrow> Client \<Rightarrow> (scan_end \<times> Client) option" where
  "postScan env endTime results c0 = do {
     let scanResults = (case results of
         Some res \<Rightarrow> res
       | None \<Rightarrow> \<lparr>rs_Results = [], rs_ExtractedPaths = empty_extracted, rs_Files = [], rs_FailedQueries = []\<rparr>);
     let p = (cl_ScanParams c0)\<lparr>pm_Path := sort (pm_Path (cl_ScanParams c0))\<rparr>;
     let c = c0\<lparr>cl_ScanParams := p\<rparr>;
     summary \<leftarrow> getSummary env c (rs_Results scanResults) (xp_ExtractionMap (rs_ExtractedPaths scanResults));
     (documents, files') \<leftarrow> Combine (pm_LineInfoPayload p) (rs_Files scanResults);
     failed \<leftarrow> resolveOutputs env p summary documents;
     let exitCode = ResultsExitCode (po_exit env) summary;
     Some (case failed of
         Some err \<Rightarrow> Ends zero_metadata (Some err)
       | None \<Rightarrow>
           (if ShowError (po_exit env) ''results'' \<and> exitCode \<noteq> 0 then Exits exitCode
            else Ends (generateMetadata c (po_cpus env) scanResults (cl_ScanStartTime c) endTime) None), c)
   }"

text \<open>\<open>PerformScan\<close> from the result of \<open>executeScan\<close> and the client it leaves\<close>

definition PerformScan ::
  "post_env \<Rightarrow> int \<Rightarrow> string + Results option \<Rightarrow> Client \<Rightarrow> (scan_end \<times> Client) option" where
  "PerformScan env endTime executed c =
     (case executed of
        Inl err \<Rightarrow> Some (Ends zero_metadata (Some err), c)
      | Inr scanResults \<Rightarrow> postScan env endTime scanResults c)"

section \<open>Masking of previews\<close>

text \<open>
  \<open>preview_secrets_mask.go\<close>. Compiling stops at the first rule whose expression is wrong, with the
  rules before it compiled; a wrong expression of an allow rule panics.
\<close>

fun compile_allow_rules :: "(string \<Rightarrow> string + regexp) \<Rightarrow> AllowRule list \<Rightarrow> AllowRule list option" where
  "compile_allow_rules compile [] = Some []"
| "compile_allow_rules compile (r # rs) =
     (case compile (ar_RegexStr r) of
        Inl err \<Rightarrow> None
      | Inr re \<Rightarrow> map_option (\<lambda>rs'. r\<lparr>ar_Regex := re\<rparr> # rs') (compile_allow_rules compile rs))"

fun compileRegexQueries ::
  "(string \<Rightarrow> string + regexp) \<Rightarrow> RegexQuery list \<Rightarrow> (RegexQuery list \<times> string option) option" where
  "compileRegexQueries compile [] = Some ([], None)"
| "compileRegexQueries compile (q # qs) =
     (case compile (rq_RegexStr q) of
        Inl err \<Rightarrow> Some (q # qs, Some err)
      | Inr re \<Rightarrow> do {
          allow \<leftarrow> compile_allow_rules compile (rq_AllowRules q);
          (qs', err) \<leftarrow> compileRegexQueries compile qs;
          Some (q\<lparr>rq_Regex := re, rq_AllowRules := allow\<rparr> # qs', err)
        })"

definition preview_isSecret :: "string \<Rightarrow> RegexQuery \<Rightarrow> AllowRule list \<Rightarrow> (bool \<times> string list list) option" where
  "preview_isSecret s rule allowRules =
     map_option (\<lambda>groups. (groups \<noteq> [], groups))
       (secret_search (rq_Regex rule) (rq_DetectLineGroup rule) (\<lambda>s. IsAllowRule s rule allowRules) s None)"

definition maskSecret :: "secrets_env \<Rightarrow> RegexQuery \<Rightarrow> CodeLine \<Rightarrow> CodeLine option" where
  "maskSecret env rule l =
     (if rq_SpecialMask rule = ''all'' then Some (l\<lparr>CodeText := secret_mask\<rparr>)
      else let special = rq_SpecialMask rule; line = CodeText l in do {
        re \<leftarrow> MustCompile env (if special \<noteq> [] then ''(.+)'' @ special else rq_RegexStr rule);
        let matched = FindString re line;
        let matched = (if special \<noteq> [] then drop (length matched) line else matched);
        Some (l\<lparr>CodeText := if matched \<noteq> [] then go_replace line matched secret_mask 1 else secret_mask\<rparr>)
      })"

text \<open>
  The loop over the entropies of a rule for one line, with the groups of its first match; \<open>True\<close>
  when it returns from \<open>hideSecret\<close>.
\<close>

fun preview_entropies ::
  "secrets_env \<Rightarrow> RegexQuery \<Rightarrow> string list \<Rightarrow> Entropy list \<Rightarrow> CodeLine \<Rightarrow> (CodeLine \<times> bool) option" where
  "preview_entropies env rule groups0 [] l = Some (l, False)"
| "preview_entropies env rule groups0 (entropy # es) l =
     (if int (length groups0) \<le> en_Group entropy then Some (l, True)
      else do {
        g \<leftarrow> Prelude.at groups0 (en_Group entropy);
        l' \<leftarrow> (if fst (CheckEntropyInterval entropy g) then maskSecret env rule l else Some l);
        preview_entropies env rule groups0 es l'
      })"

text \<open>One rule on a line: \<open>line\<close> is the text the loop began with, \<open>l\<close> the line as it is now.\<close>

definition preview_rule ::
  "secrets_env \<Rightarrow> AllowRule list \<Rightarrow> string \<Rightarrow> RegexQuery \<Rightarrow> CodeLine \<Rightarrow> (CodeLine \<times> bool) option" where
  "preview_rule env allowRules line rule l = do {
     (secret, groups) \<leftarrow> preview_isSecret line rule allowRules;
     if \<not> secret then Some (l, False)
     else do {
       l' \<leftarrow> (if rq_Entropies rule = [] then maskSecret env rule l else Some l);
       case groups of
         [] \<Rightarrow> None
       | groups0 # _ \<Rightarrow>
           (if groups0 \<noteq> [] then preview_entropies env rule groups0 (rq_Entropies rule) l' else Some (l', False))
     }
   }"

fun preview_rules ::
  "secrets_env \<Rightarrow> AllowRule list \<Rightarrow> string \<Rightarrow> RegexQuery list \<Rightarrow> CodeLine \<Rightarrow> (CodeLine \<times> bool) option" where
  "preview_rules env allowRules line [] l = Some (l, False)"
| "preview_rules env allowRules line (rule # rules) l = do {
     (l', over) \<leftarrow> preview_rule env allowRules line rule l;
     if over then Some (l', True) else preview_rules env allowRules line rules l'
   }"

fun preview_hideSecret ::
  "secrets_env \<Rightarrow> AllowRule list \<Rightarrow> RegexQuery list \<Rightarrow> CodeLine list \<Rightarrow> CodeLine list option" where
  "preview_hideSecret env allowRules rules [] = Some []"
| "preview_hideSecret env allowRules rules (l # ls) = do {
     (l', over) \<leftarrow> preview_rules env allowRules (CodeText l) rules l;
     if over then Some (l' # ls)
     else map_option (\<lambda>ls'. l' # ls') (preview_hideSecret env allowRules rules ls)
   }"

text \<open>What masking does to a line\<close>

definition masked_from :: "CodeLine \<Rightarrow> CodeLine \<Rightarrow> bool" where
  "masked_from l l' \<longleftrightarrow> Position l' = Position l \<and> (l' = l \<or> contains (CodeText l') secret_mask)"

lemma maskSecret_masks:
  assumes "maskSecret env rule l = Some l'"
  shows "Position l' = Position l \<and> contains (CodeText l') secret_mask"
proof -
  have self: "contains secret_mask secret_mask" by (simp add: contains_iff)
  have "contains line (drop n line)" for n and line :: string
    unfolding contains_iff using suffix_drop [of n line] by (rule suffix_imp_sublist)
  moreover have "contains line (FindString re line)" for re line
    using FindString_sublist by (simp add: contains_iff)
  ultimately show ?thesis
    using assms self
    by (auto simp: maskSecret_def Let_def intro!: go_replace_once split: Option.bind_splits if_splits)
qed

lemma masked_from_refl [simp]: "masked_from l l"
  by (simp add: masked_from_def)

lemma masked_from_trans: "masked_from l l' \<Longrightarrow> masked_from l' l'' \<Longrightarrow> masked_from l l''"
  by (auto simp: masked_from_def)

lemma maskSecret_masked_from: "maskSecret env rule l = Some l' \<Longrightarrow> masked_from l l'"
  using maskSecret_masks by (auto simp: masked_from_def)

lemma preview_entropies_masked:
  "preview_entropies env rule g es l = Some (l', over) \<Longrightarrow> masked_from l l'"
proof (induction es arbitrary: l)
  case (Cons e es)
  then show ?case
    by (fastforce dest: maskSecret_masked_from intro: masked_from_trans split: if_splits Option.bind_splits)
qed simp

lemma preview_rule_masked:
  assumes "preview_rule env allow line rule l = Some (l', over)"
  shows "masked_from l l'"
  using assms unfolding preview_rule_def
  by (fastforce dest: maskSecret_masked_from preview_entropies_masked intro: masked_from_trans
      split: if_splits Option.bind_splits list.splits prod.splits)

lemma preview_rules_masked:
  "preview_rules env allow line rules l = Some (l', over) \<Longrightarrow> masked_from l l'"
proof (induction rules arbitrary: l)
  case (Cons rule rules)
  then show ?case
    by (fastforce dest: preview_rule_masked intro: masked_from_trans split: if_splits Option.bind_splits prod.splits)
qed simp

lemma preview_hideSecret_masked:
  "preview_hideSecret env allow rules ls = Some ls' \<Longrightarrow> list_all2 masked_from ls ls'"
proof (induction ls arbitrary: ls')
  case (Cons l ls)
  then obtain l' over where l: "preview_rules env allow (CodeText l) rules l = Some (l', over)"
      "(if over then Some (l' # ls) else map_option (\<lambda>ls'. l' # ls') (preview_hideSecret env allow rules ls)) = Some ls'"
    by (auto split: Option.bind_splits)
  then show ?case
    using Cons.IH preview_rules_masked [OF l(1)] by (auto simp: list.rel_refl split: if_splits)
qed simp

text \<open>Without entropies a rule masks exactly what it calls a secret, and never returns early.\<close>

definition calls_secret :: "AllowRule list \<Rightarrow> string \<Rightarrow> RegexQuery \<Rightarrow> bool" where
  "calls_secret allow line rule \<longleftrightarrow> (\<exists>g. preview_isSecret line rule allow = Some (True, g))"

lemma preview_rule_plain:
  assumes "rq_Entropies rule = []" and "preview_rule env allow line rule l = Some (l', over)"
  shows "\<not> over \<and> (if calls_secret allow line rule then contains (CodeText l') secret_mask else l' = l)"
proof -
  obtain secret groups where s: "preview_isSecret line rule allow = Some (secret, groups)"
    using assms(2) by (auto simp: preview_rule_def split: Option.bind_splits)
  show ?thesis
  proof (cases secret)
    case False
    then show ?thesis using assms(2) s by (auto simp: preview_rule_def calls_secret_def)
  next
    case True
    then obtain m where m: "maskSecret env rule l = Some m"
      using assms s by (auto simp: preview_rule_def split: Option.bind_splits)
    have "l' = m \<and> \<not> over"
      using assms s True m by (auto simp: preview_rule_def split: list.splits if_splits)
    then show ?thesis using maskSecret_masks [OF m] s True by (auto simp: calls_secret_def)
  qed
qed

lemma preview_rules_plain:
  assumes "\<forall>rule \<in> set rules. rq_Entropies rule = []"
    and "preview_rules env allow line rules l = Some (l', over)"
  shows "\<not> over \<and> (if \<exists>rule \<in> set rules. calls_secret allow line rule
    then contains (CodeText l') secret_mask else l' = l)"
  using assms
proof (induction rules arbitrary: l)
  case (Cons rule rules)
  then obtain m over' where m: "preview_rule env allow line rule l = Some (m, over')"
    "(if over' then Some (m, True) else preview_rules env allow line rules m) = Some (l', over)"
    by (auto split: Option.bind_splits)
  note p = preview_rule_plain [OF _ m(1)]
  then have r: "preview_rules env allow line rules m = Some (l', over)" using m(2) Cons.prems(1) by simp
  show ?case
    using Cons.IH [OF _ r] p Cons.prems(1) preview_rules_masked [OF r]
    by (auto simp: masked_from_def split: if_splits)
qed simp

definition masked_if_secret :: "AllowRule list \<Rightarrow> RegexQuery list \<Rightarrow> CodeLine \<Rightarrow> CodeLine \<Rightarrow> bool" where
  "masked_if_secret allow rules l l' \<longleftrightarrow>
     (if \<exists>rule \<in> set rules. calls_secret allow (CodeText l) rule
      then contains (CodeText l') secret_mask else l' = l)"

lemma preview_hideSecret_plain:
  assumes "\<forall>rule \<in> set rules. rq_Entropies rule = []" and "preview_hideSecret env allow rules ls = Some ls'"
  shows "list_all2 (masked_if_secret allow rules) ls ls'"
  using assms(2)
proof (induction ls arbitrary: ls')
  case (Cons l ls)
  then obtain l' over where l: "preview_rules env allow (CodeText l) rules l = Some (l', over)"
      "(if over then Some (l' # ls) else map_option (\<lambda>ls'. l' # ls') (preview_hideSecret env allow rules ls)) = Some ls'"
    by (auto split: Option.bind_splits)
  have "\<not> over" "masked_if_secret allow rules l l'"
    using preview_rules_plain [OF assms(1) l(1)] by (simp_all add: masked_if_secret_def)
  then show ?case using Cons.IH l(2) by auto
qed simp

section \<open>Statistics and exit codes\<close>

lemma violations_of:
  "map_of (foldl add_violation m vs) sev =
     (if sev \<in> set AllSeverities \<and> filter (\<lambda>v. v_Severity v = sev) vs \<noteq> []
      then Some ((case map_of m sev of Some ids \<Rightarrow> ids | None \<Rightarrow> []) @
             map v_QueryID (filter (\<lambda>v. v_Severity v = sev) vs))
      else map_of m sev)"
  by (induction vs arbitrary: m) (auto simp: add_violation_def split: option.split)

lemma longest_query_max:
  "rt_Time (longest_query q t vs) = Max (insert t (v_QueryDuration ` set vs)) \<and>
   (rt_Time (longest_query q t vs) = t \<longrightarrow> rt_Name (longest_query q t vs) = q) \<and>
   (rt_Time (longest_query q t vs) \<noteq> t \<longrightarrow> (\<exists>pre v post. vs = pre @ v # post \<and>
      v_QueryDuration v = rt_Time (longest_query q t vs) \<and> v_QueryName v = rt_Name (longest_query q t vs) \<and>
      (\<forall>u \<in> set pre. v_QueryDuration u < v_QueryDuration v)))"
proof (induction vs arbitrary: q t)
  case (Cons v vs)
  show ?case
  proof (cases "v_QueryDuration v > t")
    case True
    let ?r = "longest_query (v_QueryName v) (v_QueryDuration v) vs"
    note IH = Cons.IH [of "v_QueryName v" "v_QueryDuration v"]
    have m: "rt_Time ?r = Max (insert t (v_QueryDuration ` set (v # vs)))"
      using IH True by (cases "set vs = {}") (auto simp: max_def)
    have ge: "v_QueryDuration v \<le> rt_Time ?r" using IH by (simp add: Max_ge_iff)
    have "\<exists>pre u post. v # vs = pre @ u # post \<and> v_QueryDuration u = rt_Time ?r \<and>
        v_QueryName u = rt_Name ?r \<and> (\<forall>w \<in> set pre. v_QueryDuration w < v_QueryDuration u)"
    proof (cases "rt_Time ?r = v_QueryDuration v")
      case True
      then show ?thesis using IH by (intro exI [of _ "[]"]) auto
    next
      case False
      then obtain pre u post where "vs = pre @ u # post" "v_QueryDuration u = rt_Time ?r"
        "v_QueryName u = rt_Name ?r" "\<forall>w \<in> set pre. v_QueryDuration w < v_QueryDuration u"
        using IH by blast
      then show ?thesis using ge False by (intro exI [of _ "v # pre"]) auto
    qed
    then show ?thesis using True m ge by auto
  next
    case False
    note IH = Cons.IH [of q t]
    have m: "rt_Time (longest_query q t vs) = Max (insert t (v_QueryDuration ` set (v # vs)))"
      using IH False by (cases "set vs = {}") (auto simp: max_def)
    have ge: "t \<le> rt_Time (longest_query q t vs)" using IH by (simp add: Max_ge_iff)
    have "\<exists>pre u post. v # vs = pre @ u # post \<and> v_QueryDuration u = rt_Time (longest_query q t vs) \<and>
        v_QueryName u = rt_Name (longest_query q t vs) \<and> (\<forall>w \<in> set pre. v_QueryDuration w < v_QueryDuration u)"
      if n: "rt_Time (longest_query q t vs) \<noteq> t"
    proof -
      from n obtain pre u post where "vs = pre @ u # post" "v_QueryDuration u = rt_Time (longest_query q t vs)"
        "v_QueryName u = rt_Name (longest_query q t vs)" "\<forall>w \<in> set pre. v_QueryDuration w < v_QueryDuration u"
        using IH by blast
      then show ?thesis using ge False n by (intro exI [of _ "v # pre"]) auto
    qed
    then show ?thesis using False m IH by simp
  qed
qed simp

lemma exit_code_loop_first:
  "exit_code_loop fails exitMap cs = n \<Longrightarrow> n \<noteq> 0 \<Longrightarrow>
     \<exists>pre sev post. cs = pre @ (sev, n) # post \<and> map_of fails (to_lower sev) \<noteq> None \<and> count_of exitMap sev > 0 \<and>
       (\<forall>(s, c) \<in> set pre. map_of fails (to_lower s) = None \<or> count_of exitMap s \<le> 0)"
proof (induction cs)
  case (Cons sc cs)
  obtain s c where sc: "sc = (s, c)" by fastforce
  show ?case
  proof (cases "map_of fails (to_lower s) \<noteq> None \<and> count_of exitMap s > 0")
    case True
    then show ?thesis using Cons.prems sc by (intro exI [of _ "[]"] exI [of _ s] exI [of _ cs]) auto
  next
    case False
    then have "exit_code_loop fails exitMap cs = n" using Cons.prems(1) sc by (auto split: if_splits)
    from Cons.IH [OF this Cons.prems(2)] obtain pre sev post where
      "cs = pre @ (sev, n) # post" "map_of fails (to_lower sev) \<noteq> None" "count_of exitMap sev > 0"
      "\<forall>(s, c) \<in> set pre. map_of fails (to_lower s) = None \<or> count_of exitMap s \<le> 0" by blast
    then show ?thesis
      using False sc by (intro exI [of _ "(s, c) # pre"], cases "map_of fails (to_lower s)") auto
  qed
qed simp

lemma exit_code_unset: "exit_code_loop [] exitMap cs = 0"
proof (induction cs)
  case (Cons c cs)
  then show ?case by (cases c) simp
qed simp

section \<open>Properties\<close>

definition example_client_env :: client_env where
  "example_client_env =
     \<lparr>ce_stat = (\<lambda>p. Some NotExist), ce_read = (\<lambda>p. Inl ''no file''), ce_json = (\<lambda>t. False),
      ce_yaml = (\<lambda>t. False), ce_toml = (\<lambda>t. False), ce_hcl = (\<lambda>t. False), ce_viper = (\<lambda>r b e. Inl []),
      ce_source_dir = ''/kics'', ce_GetSources = (\<lambda>ps d. Inr \<lparr>xp_Path = ps, xp_ExtractionMap = []\<rparr>),
      ce_GetKuberneterSources = (\<lambda>ps d. Inr \<lparr>xp_Path = ps, xp_ExtractionMap = []\<rparr>),
      ce_Analyze = (\<lambda>a. Inr (\<lparr>ap_Types = [''terraform''], ap_Exc = [], ap_ExpectedLOC = 1\<rparr>, az_Exc a))\<rparr>"

definition example_client :: Client where
  "example_client =
     \<lparr>cl_ScanParams = (the (GetDefaultParameters example_client_env ''.''))\<lparr>pm_Path := [''main.tf'']\<rparr>,
      cl_ScanStartTime = 0, cl_Tracker = zero_tracker, cl_Storage = NewMemoryStorage, cl_ExcludeResultsMap = []\<rparr>"

lemma example_paths:
  "\<exists>p. prepareAndAnalyzePaths example_client_env (cl_ScanParams example_client) =
     Some (Inr (\<lparr>xp_Path = [''main.tf''], xp_ExtractionMap = []\<rparr>, p)) \<and> pm_Platform p = [''terraform''] \<and>
     pm_ExcludePaths p = [] \<and> pm_PayloadPath p = []"
  by (simp add: example_client_def GetDefaultParameters_def initializeConfig_def setupConfigFile_def
      empty_config_def prepareAndAnalyzePaths_def GetQueryPath_def getLibraryPath_def extractPathType_def
      has_prefix_def example_client_env_def combinePaths_def empty_extracted_def put_all_def analyzePaths_def
      path_analyzer_def Prelude.at_def Let_def)

lemma example_services:
  assumes "pm_Platform p = [''terraform'']" and "pm_ExcludePaths p = []" and "pm_PayloadPath p = []"
  shows "createService (example_provider_env []) id [p_parsers example_parser] (query_source_of p) p [''main.tf''] =
    Some (Inr [\<lparr>cs_SourceProvider = \<lparr>fp_paths = [''main.tf''], fp_excludes = []\<rparr>,
      cs_Parser = new_parser id (p_parsers example_parser), cs_MaxFileSize = pm_MaxFileSizeFlag p\<rparr>])"
  by (simp add: createService_def getFileSystemSourceProvider_def assms NewFileSystemSourceProvider_def
      query_source_of_def NewFilesystemSource_def useDifferentPlatformQueries_def contains_type_def
      Prelude.at_def example_parser_def to_lower_def lower_char_def ex_bool_eq)

lemma example_executed:
  "\<exists>res. executeScan example_client_env (example_provider_env []) id [p_parsers example_parser]
     (\<lambda>source qf. Inr example_inspector) (\<lambda>sv. ([], [''terraform''], Inr [example_vuln])) id example_client
     (Inr (Some res)) \<and> rs_ExtractedPaths res = \<lparr>xp_Path = [''main.tf''], xp_ExtractionMap = []\<rparr>"
proof -
  obtain p where p: "prepareAndAnalyzePaths example_client_env (cl_ScanParams example_client) =
     Some (Inr (\<lparr>xp_Path = [''main.tf''], xp_ExtractionMap = []\<rparr>, p))" "pm_Platform p = [''terraform'']"
     "pm_ExcludePaths p = []" "pm_PayloadPath p = []"
    using example_paths by blast
  obtain m where m: "PrepareAndScan SaveVulnerabilities ci_engine example_inspector
      (map (\<lambda>sv. ([], [''terraform''], Inr [example_vuln]))
        [\<lparr>cs_SourceProvider = \<lparr>fp_paths = [''main.tf''], fp_excludes = []\<rparr>,
          cs_Parser = new_parser id (p_parsers example_parser), cs_MaxFileSize = pm_MaxFileSizeFlag p\<rparr>])
      (cl_Tracker example_client) (cl_Storage example_client) None m"
    using example_scan_run [of "[example_vuln]" "cl_Tracker example_client"] by (auto simp: example_client_def)
  have "executeScan example_client_env (example_provider_env []) id [p_parsers example_parser]
     (\<lambda>source qf. Inr example_inspector) (\<lambda>sv. ([], [''terraform''], Inr [example_vuln])) id example_client
     (case None of Some e \<Rightarrow> Inl e | None \<Rightarrow>
        Inr (Some (scan_results id m \<lparr>xp_Path = [''main.tf''], xp_ExtractionMap = []\<rparr> [])))"
    by (rule scan_over [OF p(1) _ _ _ m]) (use example_services [OF p(2-4)] in simp_all)
  then show ?thesis by (fastforce simp: scan_results_def)
qed



text \<open>C30. What \<open>PerformScan\<close> returns of a scan with results: the number of results, for each known
  severity that occurs the ids of its queries in the order of the results, nothing under another
  key, and as slowest rule the first of those with the longest time. The list of rules that timed
  out is always empty, whatever failed.\<close>

theorem scan_statistics:
  assumes "PerformScan env endTime (Inr (Some res)) c = Some (Ends md None, c')"
  shows "sx_Violations (md_Stats md) = int (length (rs_Results res)) \<and>
    (\<forall>sev. map_of (sx_ViolationBreakdowns (md_Stats md)) sev =
       (let vs = filter (\<lambda>v. v_Severity v = sev) (rs_Results res)
        in if sev \<in> set AllSeverities \<and> vs \<noteq> [] then Some (map v_QueryID vs) else None)) \<and>
    rt_Time (ru_SlowestRule (md_RuleStats md)) = Max (insert 0 (v_QueryDuration ` set (rs_Results res))) \<and>
    (rt_Time (ru_SlowestRule (md_RuleStats md)) \<noteq> 0 \<longrightarrow>
       (\<exists>pre v post. rs_Results res = pre @ v # post \<and>
          v_QueryDuration v = rt_Time (ru_SlowestRule (md_RuleStats md)) \<and>
          v_QueryName v = rt_Name (ru_SlowestRule (md_RuleStats md)) \<and>
          (\<forall>u \<in> set pre. v_QueryDuration u < v_QueryDuration v))) \<and>
    ru_TimedOut (md_RuleStats md) = []"
proof -
  from assms have md: "md = generateMetadata c' (po_cpus env) res (cl_ScanStartTime c') endTime"
    by (auto simp: PerformScan_def postScan_def Let_def split: Option.bind_splits option.splits if_splits)
  then have slow: "ru_SlowestRule (md_RuleStats md) = longest_query [] 0 (rs_Results res)"
    and rest: "ru_TimedOut (md_RuleStats md) = []" "md_Stats md = generateStats c' res (endTime - cl_ScanStartTime c')"
    by (simp_all add: generateMetadata_def generateRuleStats_def getLongestRunningQuery_def)
  have viol: "\<forall>sev. map_of (sx_ViolationBreakdowns (md_Stats md)) sev =
       (let vs = filter (\<lambda>v. v_Severity v = sev) (rs_Results res)
        in if sev \<in> set AllSeverities \<and> vs \<noteq> [] then Some (map v_QueryID vs) else None)"
    by (simp add: rest(2) generateStats_def violations_of Let_def)
  have "sx_Violations (md_Stats md) = int (length (rs_Results res))" by (simp add: rest(2) generateStats_def)
  then show ?thesis
    unfolding slow using longest_query_max [of "[]" 0 "rs_Results res"] viol rest(1) by blast
qed

definition example_post_env :: post_env where
  "example_post_env =
     \<lparr>po_summary = example_summary_env, po_print = (\<lambda>s b. None), po_export = (\<lambda>d b ds. None),
      po_report = (\<lambda>d b s f. None), po_exit = zero_exit_handler, po_cpus = 1\<rparr>"

lemma example_performed:
  "\<exists>md c'. PerformScan example_post_env 5 (Inr (Some \<lparr>rs_Results = example_vulns, rs_ExtractedPaths = empty_extracted,
      rs_Files = [], rs_FailedQueries = [(''q'', ErrNoResult)]\<rparr>)) example_client = Some (Ends md None, c')"
  by (simp add: PerformScan_def postScan_def getSummary_def CreateSummary_def example_vulns_def resolvePath_def
      replaceIfTemporaryPath_def example_summary_env_def example_post_env_def resolveOutputs_def printOutput_def
      ResultsExitCode_def exit_code_unset zero_exit_handler_def example_client_def GetDefaultParameters_def
      initializeConfig_def setupConfigFile_def example_client_env_def empty_extracted_def Let_def split: prod.split)

theorem scan_statistics_witness:
  "\<exists>md c'. PerformScan example_post_env 5 (Inr (Some \<lparr>rs_Results = example_vulns, rs_ExtractedPaths = empty_extracted,
      rs_Files = [], rs_FailedQueries = [(''q'', ErrNoResult)]\<rparr>)) example_client = Some (Ends md None, c') \<and>
     sx_Violations (md_Stats md) = 3 \<and>
     map_of (sx_ViolationBreakdowns (md_Stats md)) SeverityLow = Some [''q1'', ''q1''] \<and>
     ru_TimedOut (md_RuleStats md) = []"
proof -
  obtain md c' where p: "PerformScan example_post_env 5 (Inr (Some \<lparr>rs_Results = example_vulns,
      rs_ExtractedPaths = empty_extracted, rs_Files = [], rs_FailedQueries = [(''q'', ErrNoResult)]\<rparr>))
      example_client = Some (Ends md None, c')" using example_performed by blast
  note st = scan_statistics [OF p]
  then have "map_of (sx_ViolationBreakdowns (md_Stats md)) SeverityLow = Some [''q1'', ''q1'']"
    by (simp add: example_vulns_def AllSeverities_def severity_defs Let_def)
  moreover have "sx_Violations (md_Stats md) = 3" "ru_TimedOut (md_RuleStats md) = []"
    using st by (simp_all add: example_vulns_def)
  ultimately show ?thesis using p by blast
qed


lemma example_exits:
  "\<exists>c'. PerformScan (example_post_env\<lparr>po_exit := zero_exit_handler\<lparr>shouldFail := possibleArgs\<rparr>\<rparr>) 5
      (Inr (Some \<lparr>rs_Results = example_vulns, rs_ExtractedPaths = empty_extracted, rs_Files = [],
         rs_FailedQueries = []\<rparr>)) example_client = Some (Exits 50, c')"
proof -
  have e: "ShowError (zero_exit_handler\<lparr>shouldFail := m\<rparr>) ''results''" for m
    by (simp add: ShowError_def zero_exit_handler_def equal_fold_def to_lower_def lower_char_def)
  have l: "to_lower ''CRITICAL'' = ''critical''" "to_lower ''HIGH'' = ''high''"
    by code_simp+
  show ?thesis
    by (simp add: PerformScan_def postScan_def getSummary_def CreateSummary_def example_vulns_def resolvePath_def
      replaceIfTemporaryPath_def example_summary_env_def example_post_env_def resolveOutputs_def printOutput_def
      ResultsExitCode_def e l exit_codes_def possibleArgs_def example_client_def GetDefaultParameters_def
      initializeConfig_def setupConfigFile_def example_client_env_def empty_extracted_def Let_def
      no_counts_def count_of_def severity_defs add_item_def query_summary_def split: prod.split)
qed


text \<open>Masking a preview keeps the lines and their numbers, and changes a line only into one that
  has the mask. With rules without entropies exactly the lines that a rule calls a secret get it.\<close>

lemma preview_secrets_masked:
  assumes "preview_hideSecret env allow rules ls = Some ls'"
  shows "list_all2 masked_from ls ls' \<and>
    ((\<forall>rule \<in> set rules. rq_Entropies rule = []) \<longrightarrow> list_all2 (masked_if_secret allow rules) ls ls')"
  using preview_hideSecret_masked [OF assms] preview_hideSecret_plain assms by blast

end
