(* ===== verification/FileResolver.thy ===== *)
theory FileResolver
  imports YamlDoc Analyzer JsonLine
begin

text \<open>
  \<open>pkg/resolver/file/file.go\<close>, and how the YAML and the JSON parser call it: references to files and
  to sections of documents are replaced by what they stand for, before a document is parsed. The code changes
  the documents in place and shares their parts, so that they live in a store here: nodes of YAML
  with the arrays of their contents, maps and lists of JSON. A call that does not return, as on
  a cyclic document, is \<open>None\<close>; a panic is a result of its own, since \<open>Resolve\<close> recovers.
\<close>

section \<open>The store\<close>

text \<open>
  A slice of Go has an array, which may be longer than the slice, and a length; the slices of contents
  begin where their array does. No code here changes a node once it is made, only the arrays of contents.
  The node an alias points to is left out: neither this code nor \<open>Marshal\<close> follows it.
\<close>

record slice =
  sl_array :: nat
  sl_len :: nat

record node_info =
  ni_Style :: int
  ni_Tag :: string
  ni_Anchor :: string
  ni_HeadComment :: string
  ni_LineComment :: string
  ni_FootComment :: string
  ni_Line :: int
  ni_Column :: int

record node =
  nd_Kind :: "ykind option"
  nd_Value :: string
  nd_Content :: slice
  nd_info :: node_info

text \<open>The tree of a document, as \<open>Unmarshal\<close> makes it and \<open>Marshal\<close> walks it\<close>

datatype ytree = YTree (yt_Kind: "ykind option") (yt_Value: string) (yt_info: node_info) (yt_Content: "ytree list")

text \<open>A JSON value that is no list and no map is an atom. Pointers are positions in the store.\<close>

datatype gval = GAtom jval | GList nat | GMap nat

record store =
  hp_nodes :: "node list"
  hp_arrays :: "nat list list"
  hp_lists :: "gval list list"
  hp_maps :: "(string, gval) gomap list"

definition nil_slice :: slice where "nil_slice = \<lparr>sl_array = 0, sl_len = 0\<rparr>"

definition zero_info :: node_info where
  "zero_info = \<lparr>ni_Style = 0, ni_Tag = [], ni_Anchor = [], ni_HeadComment = [], ni_LineComment = [],
     ni_FootComment = [], ni_Line = 0, ni_Column = 0\<rparr>"

definition zero_node :: node where
  "zero_node = \<lparr>nd_Kind = None, nd_Value = [], nd_Content = nil_slice, nd_info = zero_info\<rparr>"

text \<open>The array 0 is that of the nil slice.\<close>

definition empty_store :: store where
  "empty_store = \<lparr>hp_nodes = [], hp_arrays = [[]], hp_lists = [], hp_maps = []\<rparr>"

definition slice_array :: "store \<Rightarrow> slice \<Rightarrow> nat list" where
  "slice_array h sl = (if sl_array sl < length (hp_arrays h) then hp_arrays h ! sl_array sl else [])"

definition contents :: "store \<Rightarrow> slice \<Rightarrow> nat list" where
  "contents h sl = take (sl_len sl) (slice_array h sl)"

definition node_at :: "store \<Rightarrow> nat \<Rightarrow> node" where
  "node_at h p = (if p < length (hp_nodes h) then hp_nodes h ! p else zero_node)"

definition children :: "store \<Rightarrow> node \<Rightarrow> node list" where
  "children h n = map (node_at h) (contents h (nd_Content n))"

definition new_node :: "node \<Rightarrow> store \<Rightarrow> nat \<times> store" where
  "new_node n h = (length (hp_nodes h), h\<lparr>hp_nodes := hp_nodes h @ [n]\<rparr>)"

definition set_item :: "slice \<Rightarrow> nat \<Rightarrow> nat \<Rightarrow> store \<Rightarrow> store" where
  "set_item sl i p h =
     h\<lparr>hp_arrays := (hp_arrays h)[sl_array sl := (slice_array h sl)[i := p]]\<rparr>"

text \<open>
  \<open>append\<close>: where the array has room the new elements are written into it, behind the slice,
  otherwise a new array is made; \<open>grow\<close> is the capacity the runtime gives a new array, from the
  old capacity and the length it must have.
\<close>

definition append_slice :: "(nat \<Rightarrow> nat \<Rightarrow> nat) \<Rightarrow> slice \<Rightarrow> nat list \<Rightarrow> store \<Rightarrow> slice \<times> store" where
  "append_slice grow sl ps h =
     (let arr = slice_array h sl; n = sl_len sl + length ps in
      if n \<le> length arr
      then (sl\<lparr>sl_len := n\<rparr>,
            h\<lparr>hp_arrays := (hp_arrays h)[sl_array sl := take (sl_len sl) arr @ ps @ drop n arr]\<rparr>)
      else (\<lparr>sl_array = length (hp_arrays h), sl_len = n\<rparr>,
            h\<lparr>hp_arrays := hp_arrays h @
                [take (sl_len sl) arr @ ps @ replicate (grow (length arr) n - n) 0]\<rparr>))"

text \<open>
  What \<open>Unmarshal\<close> leaves in the store: the parser of \<open>yaml.v3\<close> appends the children of a node one by
  one, which gives their array its capacity.
\<close>

fun capacity :: "(nat \<Rightarrow> nat \<Rightarrow> nat) \<Rightarrow> nat \<Rightarrow> nat" where
  "capacity grow 0 = 0"
| "capacity grow (Suc n) =
     (let c = capacity grow n in if Suc n \<le> c then c else max (Suc n) (grow c (Suc n)))"

fun load_tree :: "(nat \<Rightarrow> nat \<Rightarrow> nat) \<Rightarrow> ytree \<Rightarrow> store \<Rightarrow> node \<times> store"
  and load_trees :: "(nat \<Rightarrow> nat \<Rightarrow> nat) \<Rightarrow> ytree list \<Rightarrow> store \<Rightarrow> nat list \<times> store" where
  "load_tree grow (YTree kind value info ts) h =
     (let (ps, h1) = load_trees grow ts h;
          n = \<lparr>nd_Kind = kind, nd_Value = value, nd_Content = nil_slice, nd_info = info\<rparr>
      in if ps = [] then (n, h1)
         else (n\<lparr>nd_Content := \<lparr>sl_array = length (hp_arrays h1), sl_len = length ps\<rparr>\<rparr>,
               h1\<lparr>hp_arrays := hp_arrays h1 @
                   [ps @ replicate (capacity grow (length ps) - length ps) 0]\<rparr>))"
| "load_trees grow [] h = ([], h)"
| "load_trees grow (t # ts) h =
     (let (n, h1) = load_tree grow t h;
          (p, h2) = new_node n h1;
          (ps, h3) = load_trees grow ts h2
      in (p # ps, h3))"

text \<open>The trees below some nodes: \<open>None\<close> where a node is below itself.\<close>

partial_function (option) read_trees :: "store \<Rightarrow> node list \<Rightarrow> ytree list option" where
  "read_trees h ns =
     (case ns of
        [] \<Rightarrow> Some []
      | n # ns' \<Rightarrow>
          Option.bind (read_trees h (children h n)) (\<lambda>kids.
            Option.bind (read_trees h ns') (\<lambda>rest.
              Some (YTree (nd_Kind n) (nd_Value n) (nd_info n) kids # rest))))"

declare read_trees.simps [code]

fun load_json :: "jval \<Rightarrow> store \<Rightarrow> gval \<times> store"
  and load_items :: "jval list \<Rightarrow> store \<Rightarrow> gval list \<times> store"
  and load_entries :: "(string \<times> jval) list \<Rightarrow> store \<Rightarrow> (string, gval) gomap \<times> store" where
  "load_json (JList xs) h =
     (let (vs, h1) = load_items xs h
      in (GList (length (hp_lists h1)), h1\<lparr>hp_lists := hp_lists h1 @ [vs]\<rparr>))"
| "load_json (JObj m) h =
     (let (vs, h1) = load_entries m h
      in (GMap (length (hp_maps h1)), h1\<lparr>hp_maps := hp_maps h1 @ [vs]\<rparr>))"
| "load_json v h = (GAtom v, h)"
| "load_items [] h = ([], h)"
| "load_items (x # xs) h = (let (v, h1) = load_json x h; (vs, h2) = load_items xs h1 in (v # vs, h2))"
| "load_entries [] h = ([], h)"
| "load_entries ((k, x) # m) h =
     (let (v, h1) = load_json x h; (vs, h2) = load_entries m h1 in ((k, v) # AList.delete k vs, h2))"

definition list_at :: "store \<Rightarrow> nat \<Rightarrow> gval list" where
  "list_at h a = (if a < length (hp_lists h) then hp_lists h ! a else [])"

definition map_at :: "store \<Rightarrow> nat \<Rightarrow> (string, gval) gomap" where
  "map_at h a = (if a < length (hp_maps h) then hp_maps h ! a else [])"

definition new_map :: "(string, gval) gomap \<Rightarrow> store \<Rightarrow> nat \<times> store" where
  "new_map m h = (length (hp_maps h), h\<lparr>hp_maps := hp_maps h @ [m]\<rparr>)"

definition put_entry :: "nat \<Rightarrow> string \<Rightarrow> gval \<Rightarrow> store \<Rightarrow> store" where
  "put_entry a k v h = h\<lparr>hp_maps := (hp_maps h)[a := gomap_put k v (map_at h a)]\<rparr>"

text \<open>
  The tree of a JSON value, as \<open>MarshalIndent\<close> walks it, to a depth: it is \<open>None\<close> for a value that is
  deeper. A path longer than the store has lists and maps meets one of them twice, and \<open>MarshalIndent\<close>
  fails on such a cycle.
\<close>

fun read_json :: "nat \<Rightarrow> store \<Rightarrow> gval \<Rightarrow> jval option" where
  "read_json 0 h v = None"
| "read_json (Suc n) h v =
     (case v of
        GAtom x \<Rightarrow> Some x
      | GList a \<Rightarrow> map_option JList (those (map (read_json n h) (list_at h a)))
      | GMap a \<Rightarrow>
          map_option JObj (those (map (\<lambda>(k, x). map_option (\<lambda>y. (k, y)) (read_json n h x)) (map_at h a))))"

definition json_tree :: "store \<Rightarrow> gval \<Rightarrow> jval option" where
  "json_tree h v = read_json (Suc (Suc (length (hp_lists h) + length (hp_maps h)))) h v"

section \<open>The resolver\<close>

text \<open>
  A resolver has the functions to read and write a format and its extensions. \<open>re_stat\<close> tells
  whether \<open>os.Stat\<close> finds a path, \<open>re_open\<close> is what a file that opens holds as far as it can be
  read, \<open>re_order\<close> the order of \<open>range\<close> over a map.
\<close>

record resolver_env =
  re_stat :: "string \<Rightarrow> bool"
  re_open :: "string \<Rightarrow> string option"
  re_unmarshal_node :: "string \<Rightarrow> ytree option"
  re_unmarshal_any :: "string \<Rightarrow> jval option"
  re_marshal_node :: "ytree \<Rightarrow> string option"
  re_marshal_indent :: "jval \<Rightarrow> string option"
  re_Extension :: "string list"
  re_grow :: "nat \<Rightarrow> nat \<Rightarrow> nat"
  re_order :: "(string, gval) gomap \<Rightarrow> (string, gval) gomap"

text \<open>
  What the cache holds of a file: its content and its object, which is a node in a resolver of
  YAML and a value in one of JSON.
\<close>

datatype cached = CachedNode node | CachedAny gval

record resolver_state =
  rv_heap :: store
  rv_cache :: "(string, string \<times> cached) gomap"
  rv_ResolvedFiles :: "(string, ResolvedFile) gomap"

text \<open>
  The result of a step: not returning, or a panic (\<open>None\<close>) or a value, with the state. \<open>next_step\<close> goes
  on after a value, and hands a panic on.
\<close>

type_synonym 'a step = "('a option \<times> resolver_state) option"

definition next_step :: "'a step \<Rightarrow> ('a \<Rightarrow> resolver_state \<Rightarrow> 'b step) \<Rightarrow> 'b step" where
  "next_step m f =
     Option.bind m (\<lambda>(r, s). case r of None \<Rightarrow> Some (None, s) | Some x \<Rightarrow> f x s)"

definition return_value :: "'a \<Rightarrow> resolver_state \<Rightarrow> 'a step" where
  "return_value x s = Some (Some x, s)"

definition panic :: "resolver_state \<Rightarrow> 'a step" where
  "panic s = Some (None, s)"

definition update_heap :: "(store \<Rightarrow> store) \<Rightarrow> resolver_state \<Rightarrow> resolver_state" where
  "update_heap f s = s\<lparr>rv_heap := f (rv_heap s)\<rparr>"

lemma next_step_mono [partial_function_mono]:
  assumes "mono_option B" and "\<And>x s. mono_option (\<lambda>f. C x s f)"
  shows "mono_option (\<lambda>f. next_step (B f) (\<lambda>x s. C x s f))"
proof -
  have "mono_option (\<lambda>f. case p of (r, s) \<Rightarrow> (case r of None \<Rightarrow> Some (None, s) | Some x \<Rightarrow> C x s f))" for p
    using assms(2) by (cases p; cases "fst p") (auto simp: monotone_def flat_ord_def)
  then show ?thesis unfolding next_step_def by (intro bind_mono assms(1))
qed

section \<open>Paths\<close>

definition isOpenAPI :: "string \<Rightarrow> bool" where
  "isOpenAPI fileContent = list_all (\<lambda>regex. regex fileContent) [OpenAPIRegexInfo, OpenAPIRegexPath, OpenAPIRegex]"

text \<open>\<open>^\${file\((.*\.(yaml|yml))\)}$\<close>: a dot does not match a line feed.\<close>

definition checkServerlessFileReference :: "string \<Rightarrow> string" where
  "checkServerlessFileReference value =
     (let opening = ''${file(''; closing = '')}'';
          inner = take (length value - length opening - length closing) (drop (length opening) value)
      in if value = opening @ inner @ closing \<and> CHR 0x0A \<notin> set inner \<and>
            (has_suffix inner ''.yaml'' \<or> has_suffix inner ''.yml'')
         then inner else value)"

definition hash :: string where "hash = ''#''"

definition getPathFromString :: "string \<Rightarrow> string" where
  "getPathFromString path =
     (let lastIndex = last_index_of path hash in if lastIndex = - 1 then path else take (nat lastIndex) path)"

definition findAnsibleVarsPath :: "resolver_env \<Rightarrow> string \<Rightarrow> string \<Rightarrow> string option" where
  "findAnsibleVarsPath e folderPath filename =
     find (re_stat e) [path_join (path_join folderPath ''vars'') filename, path_join folderPath filename]"

text \<open>The path, the path without a section, and that path cleaned\<close>

definition findFilePath :: "resolver_env \<Rightarrow> string \<Rightarrow> string \<Rightarrow> bool \<Rightarrow> (string \<times> string \<times> string) option" where
  "findFilePath e folderPath filename ansibleVars =
     (let found =
        (if ansibleVars then findAnsibleVarsPath e folderPath filename
         else if re_stat e (path_join folderPath filename) then Some (path_join folderPath filename)
         else None)
      in case found of
           None \<Rightarrow> None
         | Some path \<Rightarrow>
             if path_ext path \<notin> set (re_Extension e) then None
             else let onlyFilePath = getPathFromString path in Some (path, onlyFilePath, Clean onlyFilePath))"

section \<open>Sections and circular references\<close>

text \<open>The position of the first child with a value: a key, or the value of an earlier key\<close>

fun find_child :: "string \<Rightarrow> node list \<Rightarrow> nat option" where
  "find_child w [] = None"
| "find_child w (n # ns) = (if nd_Value n = w then Some 0 else map_option Suc (find_child w ns))"

text \<open>\<open>None\<close> is the panic of an index out of range, \<open>Some None\<close> the error.\<close>

fun find_path_yaml :: "store \<Rightarrow> node \<Rightarrow> string list \<Rightarrow> node option option" where
  "find_path_yaml h object [] = Some (Some object)"
| "find_path_yaml h object (w # ws) =
     (case find_child w (children h object) of
        None \<Rightarrow> Some None
      | Some index \<Rightarrow>
          if Suc index < length (children h object)
          then find_path_yaml h (children h object ! Suc index) ws else None)"

definition sections_of :: "string \<Rightarrow> string list option" where
  "sections_of sectionsString =
     (case replace_all sectionsString [CHR 0x5C] slash of
        [] \<Rightarrow> None
      | _ # w \<Rightarrow> Some (split_on w slash))"

definition findSectionYaml :: "store \<Rightarrow> node \<Rightarrow> string \<Rightarrow> node option option" where
  "findSectionYaml h object sectionsString =
     (case (children h object, sections_of sectionsString) of
        (n # ns, Some sections) \<Rightarrow> find_path_yaml h n sections
      | _ \<Rightarrow> None)"

text \<open>Over the nodes of a content; on a node below itself it does not return.\<close>

partial_function (option) circular_in :: "store \<Rightarrow> string \<Rightarrow> node list \<Rightarrow> bool option" where
  "circular_in h circularValue ns =
     (case ns of
        [] \<Rightarrow> Some False
      | n # ns' \<Rightarrow>
          if nd_Value n = ''$ref'' \<and> ns' \<noteq> [] \<and> nd_Value (hd ns') = circularValue then Some True
          else Option.bind (circular_in h circularValue (children h n)) (\<lambda>found.
            if found then Some True else circular_in h circularValue ns'))"

declare circular_in.simps [code]

definition checkIfCircularYaml :: "store \<Rightarrow> string \<Rightarrow> node \<Rightarrow> bool option" where
  "checkIfCircularYaml h circularValue section = circular_in h circularValue (children h section)"

fun find_path :: "store \<Rightarrow> gval \<Rightarrow> string list \<Rightarrow> gval option" where
  "find_path h object [] = Some object"
| "find_path h object (w # ws) =
     (case object of
        GMap a \<Rightarrow> (case map_of (map_at h a) w of Some sectionObject \<Rightarrow> find_path h sectionObject ws | None \<Rightarrow> None)
      | _ \<Rightarrow> None)"

definition findSection :: "store \<Rightarrow> gval \<Rightarrow> string \<Rightarrow> gval option option" where
  "findSection h object sectionsString =
     map_option (find_path h object) (sections_of sectionsString)"

fun checkIfCircular :: "store \<Rightarrow> string \<Rightarrow> nat \<Rightarrow> gval \<Rightarrow> bool" where
  "checkIfCircular h circularValue 0 section \<longleftrightarrow> False"
| "checkIfCircular h circularValue (Suc depth) section \<longleftrightarrow>
     (case section of
        GAtom x \<Rightarrow> False
      | GMap a \<Rightarrow>
          list_ex (\<lambda>(key, val). key = ''$ref'' \<and> val = GAtom (JStr circularValue) \<or>
             checkIfCircular h circularValue depth val) (map_at h a)
      | GList a \<Rightarrow> list_ex (checkIfCircular h circularValue depth) (list_at h a))"

section \<open>References\<close>

text \<open>
  What the calls of one walk share: the resolver, whether \<open>resolveCount\<close> has reached the
  depth, that depth, the content and the path of the file, and \<open>Resolve\<close> of the next depth.
\<close>

record walk_ctx =
  wc_env :: resolver_env
  wc_at_limit :: bool
  wc_maxResolverDepth :: int
  wc_content :: string
  wc_path :: string
  wc_Resolve :: "string \<Rightarrow> string \<Rightarrow> resolver_state \<Rightarrow> (string \<times> resolver_state) option"

text \<open>A document with one node in it is that node.\<close>

definition document_node :: "store \<Rightarrow> node \<Rightarrow> node" where
  "document_node h obj =
     (case children h obj of
        [n] \<Rightarrow> if nd_Kind obj = Some DocumentNode then n else obj
      | _ \<Rightarrow> obj)"

definition cache_file :: "string \<Rightarrow> string \<Rightarrow> cached \<Rightarrow> store \<Rightarrow> resolver_state \<Rightarrow> resolver_state" where
  "cache_file filePath fileContent obj h s =
     s\<lparr>rv_heap := h, rv_cache := gomap_put filePath (fileContent, obj) (rv_cache s)\<rparr>"

text \<open>The flag is that of an error.\<close>

definition resolveFile :: "walk_ctx \<Rightarrow> string \<Rightarrow> bool \<Rightarrow> resolver_state \<Rightarrow> (bool \<times> resolver_state) option" where
  "resolveFile c filePath yamlResolve s =
     (case re_open (wc_env c) (Clean filePath) of
        None \<Rightarrow> Some (True, s)
      | Some fileContent \<Rightarrow>
          Option.bind (wc_Resolve c fileContent filePath s) (\<lambda>(resolvedFile, s1).
            Some (if yamlResolve then
                (case re_unmarshal_node (wc_env c) resolvedFile of
                   None \<Rightarrow> (True, s1)
                 | Some t \<Rightarrow>
                     (let (obj, h) = load_tree (re_grow (wc_env c)) t (rv_heap s1)
                      in (False, cache_file filePath fileContent (CachedNode (document_node h obj)) h s1)))
              else
                (case re_unmarshal_any (wc_env c) resolvedFile of
                   None \<Rightarrow> (True, s1)
                 | Some x \<Rightarrow>
                     (let (obj, h) = load_json x (rv_heap s1)
                      in (False, cache_file filePath fileContent (CachedAny obj) h s1))))))"

definition cached_content :: "string \<Rightarrow> resolver_state \<Rightarrow> string" where
  "cached_content filename s = (case map_of (rv_cache s) filename of Some (fileContent, _) \<Rightarrow> fileContent | None \<Rightarrow> [])"

definition cached_node :: "string \<Rightarrow> resolver_state \<Rightarrow> node" where
  "cached_node filename s =
     (case map_of (rv_cache s) filename of Some (_, CachedNode n) \<Rightarrow> n | _ \<Rightarrow> zero_node)"

definition cached_value :: "string \<Rightarrow> resolver_state \<Rightarrow> gval" where
  "cached_value filename s =
     (case map_of (rv_cache s) filename of Some (_, CachedAny v) \<Rightarrow> v | _ \<Rightarrow> GAtom JNull)"

text \<open>The file is resolved unless the cache has it; the flag is that of an error.\<close>

definition ensure_cached :: "walk_ctx \<Rightarrow> string \<Rightarrow> string \<Rightarrow> bool \<Rightarrow> resolver_state \<Rightarrow> (bool \<times> resolver_state) option" where
  "ensure_cached c filename onlyFilePath yamlResolve s =
     (if map_of (rv_cache s) filename = None then resolveFile c onlyFilePath yamlResolve s else Some (False, s))"

definition note_resolved :: "string \<Rightarrow> string \<Rightarrow> string \<Rightarrow> resolver_state \<Rightarrow> resolver_state" where
  "note_resolved name path fileContent s =
     s\<lparr>rv_ResolvedFiles := gomap_put name
         \<lparr>rf_Path = path, rf_Content = fileContent, rf_LinesContent = SplitLines fileContent\<rparr> (rv_ResolvedFiles s)\<rparr>"

text \<open>Neither walk follows a value at the depth, nor one with a hash that is no reference.\<close>

definition not_followed :: "walk_ctx \<Rightarrow> string \<Rightarrow> bool \<Rightarrow> bool" where
  "not_followed c value refBool \<longleftrightarrow>
     wc_at_limit c \<or> has_prefix value hash \<and> \<not> refBool \<or> value = hash \<and> refBool"

definition returnResolveYamlPathValue ::
  "walk_ctx \<Rightarrow> string list \<Rightarrow> bool \<Rightarrow> node \<Rightarrow> node \<Rightarrow> resolver_state \<Rightarrow> (node \<times> bool) step" where
  "returnResolveYamlPathValue c splitPath sameFileResolve obj v s =
     (if length splitPath > 1 then
        (let s1 = (if sameFileResolve then note_resolved (wc_path c) (wc_path c) (wc_content c) s else s) in
         case findSectionYaml (rv_heap s1) obj (splitPath ! 1) of
           None \<Rightarrow> panic s1
         | Some None \<Rightarrow> return_value (v, False) s1
         | Some (Some section) \<Rightarrow>
             Option.bind (checkIfCircularYaml (rv_heap s1) (nd_Value v) section) (\<lambda>circular.
               return_value (if circular then (v, False) else (section, True)) s1))
      else return_value (v, False) s)"

definition resolveYamlPath ::
  "walk_ctx \<Rightarrow> node \<Rightarrow> node \<Rightarrow> bool \<Rightarrow> bool \<Rightarrow> resolver_state \<Rightarrow> (node \<times> bool) step" where
  "resolveYamlPath c fullObject v refBool ansibleVars s =
     (if not_followed c (nd_Value v) refBool then return_value (v, False) s
      else if has_prefix (nd_Value v) hash then
        returnResolveYamlPathValue c (split_on (wc_path c @ nd_Value v) hash) True fullObject v s
      else
        (let value = checkServerlessFileReference (nd_Value v) in
         case findFilePath (wc_env c) (Dir (wc_path c)) value ansibleVars of
           None \<Rightarrow> return_value (v, False) s
         | Some (path, onlyFilePath, filename) \<Rightarrow>
             Option.bind (ensure_cached c filename onlyFilePath True s) (\<lambda>(isError, s1).
               if isError then return_value (v, False) s1
               else
                 (let s2 = note_resolved (getPathFromString value) path (cached_content filename s1) s1;
                      obj = cached_node filename s2
                  in if contains (to_lower value) ''!ref'' then return_value (obj, False) s2
                     else if \<not> contains path hash then return_value (obj, True) s2
                     else returnResolveYamlPathValue c [] False obj v s2))))"

definition resolvePathReturnValue ::
  "walk_ctx \<Rightarrow> string \<Rightarrow> string list \<Rightarrow> bool \<Rightarrow> gval \<Rightarrow> resolver_state \<Rightarrow> (gval \<times> bool) step" where
  "resolvePathReturnValue c value splitPath sameFileResolve obj s =
     (if length splitPath > 1 then
        (let s1 = (if sameFileResolve then note_resolved (wc_path c) (wc_path c) (wc_content c) s else s) in
         case findSection (rv_heap s1) obj (splitPath ! 1) of
           None \<Rightarrow> panic s1
         | Some None \<Rightarrow> return_value (GAtom (JStr value), False) s1
         | Some (Some section) \<Rightarrow>
             if checkIfCircular (rv_heap s1) value (nat (wc_maxResolverDepth c)) section
             then return_value (GAtom (JStr value), False) s1
             else case section of
                GMap a \<Rightarrow>
                  (let (b, h) = new_map (map_at (rv_heap s1) a) (rv_heap s1)
                   in return_value (GMap b, True) (s1\<lparr>rv_heap := h\<rparr>))
              | _ \<Rightarrow> return_value (section, True) s1)
      else return_value (GAtom (JStr value), False) s)"

definition resolvePath ::
  "walk_ctx \<Rightarrow> gval \<Rightarrow> string \<Rightarrow> bool \<Rightarrow> resolver_state \<Rightarrow> (gval \<times> bool) step" where
  "resolvePath c fullObject value refBool s =
     (if not_followed c value refBool then return_value (GAtom (JStr value), False) s
      else if has_prefix value hash then
        resolvePathReturnValue c value (split_on (wc_path c @ value) hash) True fullObject s
      else
        (let path = path_join (Dir (wc_path c)) value; splitPath = split_on path hash;
             onlyFilePath = hd splitPath
         in if \<not> re_stat (wc_env c) onlyFilePath \<or> path_ext onlyFilePath \<notin> set (re_Extension (wc_env c))
            then return_value (GAtom (JStr value), False) s
            else Option.bind (ensure_cached c onlyFilePath onlyFilePath False s) (\<lambda>(isError, s1).
              if isError then return_value (GAtom (JStr value), False) s1
              else
                (let s2 = note_resolved (getPathFromString value) path (cached_content onlyFilePath s1) s1;
                     obj = cached_value onlyFilePath s2
                 in if contains (to_lower value) ''!ref'' \<or> length splitPath = 1 then return_value (obj, False) s2
                    else resolvePathReturnValue c value splitPath False obj s2))))"

section \<open>The walk over YAML\<close>

text \<open>\<open>RefMetadata\<close>: the reference and whether it was alone, behind what the reference stands for\<close>

definition scalar_node :: "string \<Rightarrow> node" where
  "scalar_node w = zero_node\<lparr>nd_Kind := Some ScalarNode, nd_Value := w\<rparr>"

definition format_bool :: "bool \<Rightarrow> string" where
  "format_bool b = (if b then ''true'' else ''false'')"

definition add_ref_metadata :: "(nat \<Rightarrow> nat \<Rightarrow> nat) \<Rightarrow> nat \<Rightarrow> bool \<Rightarrow> node \<Rightarrow> store \<Rightarrow> node \<times> store" where
  "add_ref_metadata grow item refAlone resolved h =
     (let (original, h) = new_node (scalar_node ''$ref'') h;
          (aloneKey, h) = new_node (scalar_node ''alone'') h;
          (aloneValue, h) = new_node (scalar_node (format_bool refAlone)) h;
          (metadataKey, h) = new_node (scalar_node ''RefMetadata'') h;
          (metadata, h) = append_slice grow nil_slice [original, item, aloneKey, aloneValue] h;
          (metadataValue, h) = new_node (zero_node\<lparr>nd_Kind := Some MappingNode, nd_Content := metadata\<rparr>) h;
          (content, h) = append_slice grow (nd_Content resolved) [metadataKey, metadataValue] h
      in (resolved\<lparr>nd_Content := content\<rparr>, h))"

text \<open>
  \<open>yamlWalk\<close> of a value, and its loop over the content of a value from an index on. Nodes do not change, so
  that a value is passed for a pointer to it.
\<close>

datatype yaml_task = WalkNode node bool bool | WalkContent node nat

definition item_at :: "store \<Rightarrow> node \<Rightarrow> nat \<Rightarrow> nat" where
  "item_at h n i = contents h (nd_Content n) ! i"

definition key_has :: "store \<Rightarrow> node \<Rightarrow> nat \<Rightarrow> string \<Rightarrow> bool" where
  "key_has h n i w \<longleftrightarrow> 1 \<le> i \<and> contains (nd_Value (node_at h (item_at h n (i - 1)))) w"

partial_function (option) yamlWalk ::
  "walk_ctx \<Rightarrow> node \<Rightarrow> yaml_task \<Rightarrow> resolver_state \<Rightarrow> (node \<times> bool) step" where
  "yamlWalk c fullObject t s =
     (case t of
        WalkNode v refBool ansibleVars \<Rightarrow>
          if nd_Kind v = Some ScalarNode then
            if Base (wc_path c) \<noteq> nd_Value v then resolveYamlPath c fullObject v refBool ansibleVars s
            else return_value (v, False) s
          else yamlWalk c fullObject (WalkContent v 0) s
      | WalkContent v i \<Rightarrow>
          if length (contents (rv_heap s) (nd_Content v)) \<le> i then return_value (v, False) s
          else
            next_step
              (yamlWalk c fullObject
                 (WalkNode (node_at (rv_heap s) (item_at (rv_heap s) v i))
                    (key_has (rv_heap s) v i ''$ref'') (key_has (rv_heap s) v i ''include_vars'')) s)
              (\<lambda>(resolved, ok) s1.
                if key_has (rv_heap s) v i ''$ref'' \<and> (nd_Kind resolved = Some MappingNode \<or> \<not> ok) then
                  (let (n, h) = add_ref_metadata (re_grow (wc_env c)) (item_at (rv_heap s1) v i)
                                  (length (contents (rv_heap s1) (nd_Content v)) = 2)
                                  (if ok then resolved else zero_node\<lparr>nd_Kind := Some MappingNode\<rparr>) (rv_heap s1)
                   in return_value (n, False) (s1\<lparr>rv_heap := h\<rparr>))
                else
                  (let (p, h) = new_node resolved (rv_heap s1)
                   in yamlWalk c fullObject (WalkContent v (Suc i)) (s1\<lparr>rv_heap := set_item (nd_Content v) i p h\<rparr>))))"

declare yamlWalk.simps [code]

definition yamlResolve :: "walk_ctx \<Rightarrow> resolver_state \<Rightarrow> string step" where
  "yamlResolve c s =
     (case re_unmarshal_node (wc_env c) (wc_content c) of
        None \<Rightarrow> return_value (wc_content c) s
      | Some t \<Rightarrow>
          (let (obj, h) = load_tree (re_grow (wc_env c)) t (rv_heap s) in
           next_step (yamlWalk c obj (WalkNode obj False False) (s\<lparr>rv_heap := h\<rparr>)) (\<lambda>(resolved, _) s1.
             Option.bind (read_trees (rv_heap s1) [document_node (rv_heap s1) resolved]) (\<lambda>trees.
               return_value
                 (case re_marshal_node (wc_env c) (hd trees) of Some b \<Rightarrow> b | None \<Rightarrow> wc_content c) s1))))"

section \<open>The walk over JSON\<close>

text \<open>\<open>walk\<close> of a value, its loop over a list from an index on, and \<open>handleMap\<close> over the keys that are left\<close>

datatype json_task = WalkValue gval bool | WalkList nat nat bool | HandleMap nat "string list"

definition value_address :: "gval \<Rightarrow> nat option" where
  "value_address v = (case v of GMap b \<Rightarrow> Some b | _ \<Rightarrow> None)"

text \<open>The metadata go into the map the reference stands for, or into a new one.\<close>

definition put_ref_metadata :: "nat \<Rightarrow> gval \<Rightarrow> gval \<Rightarrow> store \<Rightarrow> gval \<times> store" where
  "put_ref_metadata a v val h =
     (let (b, h) = (case value_address val of Some b \<Rightarrow> (b, h) | None \<Rightarrow> new_map [] h);
          (metadata, h) = new_map [] h;
          h = put_entry b ''RefMetadata'' (GMap metadata) h;
          h = put_entry metadata ''$ref'' v h
      in (GMap b, put_entry metadata ''alone'' (GAtom (JBool (length (map_at h a) = 1))) h))"

definition is_ref :: "string \<Rightarrow> bool" where
  "is_ref k = contains (to_lower k) ''$ref''"

partial_function (option) walk ::
  "walk_ctx \<Rightarrow> gval \<Rightarrow> json_task \<Rightarrow> resolver_state \<Rightarrow> (gval \<times> bool) step" where
  "walk c fullObject t s =
     (case t of
        WalkValue v refBool \<Rightarrow>
          (case v of
             GAtom x \<Rightarrow>
               (case x of
                  JStr w \<Rightarrow>
                    if Base (wc_path c) \<noteq> w then resolvePath c fullObject w refBool s
                    else return_value (v, False) s
                | _ \<Rightarrow> return_value (v, False) s)
           | GList a \<Rightarrow> walk c fullObject (WalkList a 0 refBool) s
           | GMap a \<Rightarrow>
               walk c fullObject (HandleMap a (map fst (re_order (wc_env c) (map_at (rv_heap s) a)))) s)
      | WalkList a i refBool \<Rightarrow>
          if length (list_at (rv_heap s) a) \<le> i then return_value (GList a, False) s
          else
            next_step (walk c fullObject (WalkValue (list_at (rv_heap s) a ! i) refBool) s) (\<lambda>(val, _) s1.
              walk c fullObject (WalkList a (Suc i) refBool)
                (update_heap (\<lambda>h. h\<lparr>hp_lists := (hp_lists h)[a := (list_at h a)[i := val]]\<rparr>) s1))
      | HandleMap a ks \<Rightarrow>
          (case ks of
             [] \<Rightarrow> return_value (GMap a, False) s
           | k # ks' \<Rightarrow>
               (case map_of (map_at (rv_heap s) a) k of
                  None \<Rightarrow> walk c fullObject (HandleMap a ks') s
                | Some v \<Rightarrow>
                    next_step (walk c fullObject (WalkValue v (is_ref k)) s) (\<lambda>(val, res) s1.
                      if is_ref k \<and> (value_address val \<noteq> None \<or> \<not> res) then
                        (let (x, h) = put_ref_metadata a v val (rv_heap s1)
                         in return_value (x, False) (s1\<lparr>rv_heap := h\<rparr>))
                      else if is_ref k \<and> res then return_value (val, False) s1
                      else walk c fullObject (HandleMap a ks') (update_heap (put_entry a k val) s1)))))"

declare walk.simps [code]

definition jsonResolve :: "walk_ctx \<Rightarrow> resolver_state \<Rightarrow> string step" where
  "jsonResolve c s =
     (case re_unmarshal_any (wc_env c) (wc_content c) of
        None \<Rightarrow> return_value (wc_content c) s
      | Some x \<Rightarrow>
          (let (obj, h) = load_json x (rv_heap s) in
           next_step (walk c obj (WalkValue obj False) (s\<lparr>rv_heap := h\<rparr>)) (\<lambda>(resolved, _) s1.
             return_value
               (case Option.bind (json_tree (rv_heap s1) resolved) (re_marshal_indent (wc_env c)) of
                  Some b \<Rightarrow> b | None \<Rightarrow> wc_content c) s1)))"

section \<open>Resolve\<close>

text \<open>After a panic the result is \<open>nil\<close>. The state is kept.\<close>

definition recovered :: "string step \<Rightarrow> (string \<times> resolver_state) option" where
  "recovered m = map_option (\<lambda>(r, s). (case r of Some b \<Rightarrow> b | None \<Rightarrow> [], s)) m"

definition is_yaml_path :: "string \<Rightarrow> bool" where
  "is_yaml_path path \<longleftrightarrow> path_ext path \<in> set [''.yml'', ''.yaml'']"

definition resolve_content ::
  "walk_ctx \<Rightarrow> bool \<Rightarrow> resolver_state \<Rightarrow> (string \<times> resolver_state) option" where
  "resolve_content c resolveReferences s =
     (if \<not> resolveReferences \<and> isOpenAPI (wc_content c) then Some (wc_content c, s)
      else recovered (if is_yaml_path (wc_path c) then yamlResolve c s else jsonResolve c s))"

text \<open>
  \<open>Resolve\<close> by the depth that is left, \<open>maxResolverDepth\<close> less \<open>resolveCount\<close>. Where none is left no reference is
  followed, and the next \<open>Resolve\<close> is not called.
\<close>

primrec Resolve ::
  "resolver_env \<Rightarrow> bool \<Rightarrow> int \<Rightarrow> nat \<Rightarrow> string \<Rightarrow> string \<Rightarrow> resolver_state \<Rightarrow>
     (string \<times> resolver_state) option" where
  "Resolve e resolveReferences maxResolverDepth 0 = (\<lambda>fileContent path.
     resolve_content
       \<lparr>wc_env = e, wc_at_limit = True, wc_maxResolverDepth = maxResolverDepth, wc_content = fileContent,
        wc_path = path, wc_Resolve = (\<lambda>_ _ _. None)\<rparr> resolveReferences)"
| "Resolve e resolveReferences maxResolverDepth (Suc left) = (\<lambda>fileContent path.
     resolve_content
       \<lparr>wc_env = e, wc_at_limit = False, wc_maxResolverDepth = maxResolverDepth, wc_content = fileContent,
        wc_path = path, wc_Resolve = Resolve e resolveReferences maxResolverDepth left\<rparr> resolveReferences)"

section \<open>The parsers\<close>

definition new_state :: resolver_state where
  "new_state = \<lparr>rv_heap = empty_store, rv_cache = [], rv_ResolvedFiles = []\<rparr>"

text \<open>The content and the resolved files, as the parsers of YAML and of JSON keep them\<close>

definition run_resolver ::
  "resolver_env \<Rightarrow> string \<Rightarrow> string \<Rightarrow> bool \<Rightarrow> int \<Rightarrow> (string \<times> (string, ResolvedFile) gomap) option" where
  "run_resolver res fileContent filename resolveReferences maxResolverDepth =
     map_option (\<lambda>(resolved, s).
         (if rv_ResolvedFiles s = [] then fileContent else resolved, rv_ResolvedFiles s))
       (Resolve res resolveReferences maxResolverDepth (nat maxResolverDepth) fileContent filename new_state)"

definition yaml_SupportedExtensions :: "string list" where
  "yaml_SupportedExtensions = [''.yaml'', ''.yml'']"

definition yaml_Resolve ::
  "resolver_env \<Rightarrow> string \<Rightarrow> string \<Rightarrow> bool \<Rightarrow> int \<Rightarrow> (string \<times> (string, ResolvedFile) gomap) option" where
  "yaml_Resolve e = run_resolver (e\<lparr>re_Extension := yaml_SupportedExtensions\<rparr>)"

definition json_Resolve ::
  "resolver_env \<Rightarrow> string \<Rightarrow> string \<Rightarrow> bool \<Rightarrow> int \<Rightarrow> (string \<times> (string, ResolvedFile) gomap) option" where
  "json_Resolve e = run_resolver (e\<lparr>re_Extension := json_SupportedExtensions\<rparr>)"

end
