(* ===== verification/JsonResolve.thy ===== *)
theory JsonResolve
  imports FileResolver "HOL-Library.Disjoint_Sets"
begin

text \<open>
  The resolver on JSON documents. The walk changes a document while it goes over it and shares sections of it,
  so that a document can become cyclic; it still returns, as it reads each place of the tree it began with
  once, before it changes that place. The proof separates the lists and maps a walk may change, its footprint,
  from all others.
\<close>

section \<open>Footprints\<close>

text \<open>The maps that objects of the cache are: a reference to a whole file puts metadata into them.\<close>

definition cached_maps :: "resolver_state \<Rightarrow> nat set" where
  "cached_maps s = {b. \<exists>p f. (p, f, CachedAny (GMap b)) \<in> set (rv_cache s)}"

definition lists_of :: "resolver_state \<Rightarrow> nat" where
  "lists_of s = length (hp_lists (rv_heap s))"

definition maps_of :: "resolver_state \<Rightarrow> nat" where
  "maps_of s = length (hp_maps (rv_heap s))"

text \<open>The contents a resolver keeps are of a set \<open>K\<close>.\<close>

definition contents_in :: "string set \<Rightarrow> resolver_state \<Rightarrow> bool" where
  "contents_in K s \<longleftrightarrow>
     (\<forall>(p, f, v) \<in> set (rv_cache s). f \<in> K) \<and>
     (\<forall>(name, rf) \<in> set (rv_ResolvedFiles s). rf_Content rf \<in> K \<and> rf_LinesContent rf = SplitLines (rf_Content rf))"

text \<open>
  Between two states only the lists of \<open>L\<close>, the maps of \<open>M\<close> and objects of the cache have changed, and the
  objects that are new in the cache are new.
\<close>

definition only_changed :: "string set \<Rightarrow> nat set \<Rightarrow> nat set \<Rightarrow> resolver_state \<Rightarrow> resolver_state \<Rightarrow> bool" where
  "only_changed K L M s s' \<longleftrightarrow>
     lists_of s \<le> lists_of s' \<and> maps_of s \<le> maps_of s' \<and>
     (\<forall>a < lists_of s. a \<notin> L \<longrightarrow> list_at (rv_heap s') a = list_at (rv_heap s) a) \<and>
     (\<forall>a < lists_of s. length (list_at (rv_heap s') a) = length (list_at (rv_heap s) a)) \<and>
     (\<forall>b < maps_of s. b \<notin> M \<and> b \<notin> cached_maps s \<longrightarrow> map_at (rv_heap s') b = map_at (rv_heap s) b) \<and>
     cached_maps s' \<subseteq> cached_maps s \<union> {maps_of s ..< maps_of s'} \<and>
     (contents_in K s \<longrightarrow> contents_in K s')"

text \<open>A value that is a tree in the store, with its footprint\<close>

inductive tree :: "store \<Rightarrow> gval \<Rightarrow> nat set \<Rightarrow> nat set \<Rightarrow> bool" for h where
  tree_atom: "tree h (GAtom x) {} {}"
| tree_list: "\<lbrakk>a < length (hp_lists h); length vs = length (list_at h a); vs = list_at h a;
     \<forall>i < length vs. tree h (vs ! i) (Lf i) (Mf i);
     disjoint_family_on Lf {..<length vs}; disjoint_family_on Mf {..<length vs};
     a \<notin> (\<Union>i < length vs. Lf i)\<rbrakk>
   \<Longrightarrow> tree h (GList a) (insert a (\<Union>i < length vs. Lf i)) (\<Union>i < length vs. Mf i)"
| tree_map: "\<lbrakk>a < length (hp_maps h); m = map_at h a; gomap_ok m;
     \<forall>k v. map_of m k = Some v \<longrightarrow> tree h v (Lf k) (Mf k);
     disjoint_family_on Lf (dom (map_of m)); disjoint_family_on Mf (dom (map_of m));
     a \<notin> (\<Union>k \<in> dom (map_of m). Mf k)\<rbrakk>
   \<Longrightarrow> tree h (GMap a) (\<Union>k \<in> dom (map_of m). Lf k) (insert a (\<Union>k \<in> dom (map_of m). Mf k))"

lemma only_changed_refl: "only_changed K L M s s"
  by (simp add: only_changed_def)

lemma only_changedD:
  assumes "only_changed K L M s s'"
  shows "lists_of s \<le> lists_of s'" and "maps_of s \<le> maps_of s'"
    and "\<And>a. a < lists_of s \<Longrightarrow> a \<notin> L \<Longrightarrow> list_at (rv_heap s') a = list_at (rv_heap s) a"
    and "\<And>a. a < lists_of s \<Longrightarrow> length (list_at (rv_heap s') a) = length (list_at (rv_heap s) a)"
    and "\<And>b. b < maps_of s \<Longrightarrow> b \<notin> M \<Longrightarrow> b \<notin> cached_maps s \<Longrightarrow> map_at (rv_heap s') b = map_at (rv_heap s) b"
    and "cached_maps s' \<subseteq> cached_maps s \<union> {maps_of s ..< maps_of s'}"
    and "contents_in K s \<Longrightarrow> contents_in K s'"
  using assms unfolding only_changed_def by simp_all

lemma only_changed_trans:
  assumes 1: "only_changed K L M s s'" and 2: "only_changed K L' M' s' s''" 
    and L: "L' \<subseteq> L \<union> {lists_of s ..}" and M: "M' \<subseteq> M \<union> cached_maps s \<union> {maps_of s ..}"
  shows "only_changed K L M s s''"
  unfolding only_changed_def
proof (intro conjI allI impI)
  note a = only_changedD [OF 1] and b = only_changedD [OF 2]
  show "lists_of s \<le> lists_of s''" "maps_of s \<le> maps_of s''" using a(1,2) b(1,2) by simp_all
  show "cached_maps s'' \<subseteq> cached_maps s \<union> {maps_of s ..< maps_of s''}" using a(2,6) b(2,6) by fastforce
  show "contents_in K s''" if "contents_in K s" using a(7) b(7) that by simp
  fix n
  show "length (list_at (rv_heap s'') n) = length (list_at (rv_heap s) n)" if "n < lists_of s"
    using a(1,4) b(4) that by simp
  show "list_at (rv_heap s'') n = list_at (rv_heap s) n" if "n < lists_of s" "n \<notin> L"
  proof -
    have "n \<notin> L'" using L that by auto
    then show ?thesis using a(1) a(3) [of n] b(3) [of n] that by simp
  qed
  show "map_at (rv_heap s'') n = map_at (rv_heap s) n" if "n < maps_of s" "n \<notin> M \<and> n \<notin> cached_maps s"
  proof -
    have "n \<notin> M'" "n \<notin> cached_maps s'" using M a(6) that by auto
    then show ?thesis using a(2) a(5) [of n] b(5) [of n] that by simp
  qed
qed

lemma only_changed_mono: "only_changed K L M s s' \<Longrightarrow> L \<subseteq> L' \<Longrightarrow> M \<subseteq> M' \<Longrightarrow> only_changed K L' M' s s'"
  unfolding only_changed_def by blast


text \<open>The objects of the cache are in the store, and none of them is of \<open>M\<close>.\<close>

definition apart :: "resolver_state \<Rightarrow> nat set \<Rightarrow> bool" where
  "apart s M \<longleftrightarrow> cached_maps s \<subseteq> {..<maps_of s} - M"

lemma apart_Union: "apart s (\<Union>i \<in> I. Mf i) \<Longrightarrow> i \<in> I \<Longrightarrow> apart s (Mf i)"
  unfolding apart_def by blast

lemma apart_insert: "apart s (insert a M) \<Longrightarrow> a \<notin> cached_maps s"
  unfolding apart_def by blast

text \<open>A tree depends on its footprint only.\<close>

definition same_on :: "store \<Rightarrow> store \<Rightarrow> nat set \<Rightarrow> nat set \<Rightarrow> bool" where
  "same_on h h' L M \<longleftrightarrow>
     (\<forall>a \<in> L. a < length (hp_lists h') \<and> list_at h' a = list_at h a) \<and>
     (\<forall>b \<in> M. b < length (hp_maps h') \<and> map_at h' b = map_at h b)"

lemma same_on_mono: "same_on h h' L M \<Longrightarrow> L' \<subseteq> L \<Longrightarrow> M' \<subseteq> M \<Longrightarrow> same_on h h' L' M'"
  unfolding same_on_def by blast

lemma same_on_trans: "same_on h h' L M \<Longrightarrow> same_on h' h'' L M \<Longrightarrow> same_on h h'' L M"
  unfolding same_on_def by simp

lemma tree_bounded: "tree h v L M \<Longrightarrow> same_on h h L M"
  by (induction rule: tree.induct) (auto simp: same_on_def)

lemma tree_same: "tree h v L M \<Longrightarrow> same_on h h' L M \<Longrightarrow> tree h' v L M"
proof (induction rule: tree.induct)
  case (tree_atom x)
  show ?case by (rule tree.tree_atom)
next
  case (tree_list a vs Lf Mf)
  have "tree h' (vs ! i) (Lf i) (Mf i)" if "i < length vs" for i
    using tree_list.IH that same_on_mono [OF tree_list.prems, of "Lf i" "Mf i"] by blast
  moreover have "a < length (hp_lists h')" "list_at h' a = vs"
    using tree_list.prems tree_list.hyps by (auto simp: same_on_def)
  ultimately show ?case using tree_list.hyps by (intro tree.tree_list) auto
next
  case (tree_map a m Lf Mf)
  have "tree h' v (Lf k) (Mf k)" if "map_of m k = Some v" for k v
  proof -
    have "Lf k \<subseteq> (\<Union>k \<in> dom (map_of m). Lf k)" "Mf k \<subseteq> insert a (\<Union>k \<in> dom (map_of m). Mf k)"
      using that by blast+
    then show ?thesis using tree_map.IH that same_on_mono [OF tree_map.prems] by blast
  qed
  moreover have "a < length (hp_maps h')" "map_at h' a = m"
    using tree_map.prems tree_map.hyps by (auto simp: same_on_def)
  ultimately show ?case using tree_map.hyps by (intro tree.tree_map) auto
qed

lemma only_changed_same_on:
  assumes "only_changed K L M s s'" and "same_on h (rv_heap s) L' M'"
    and "L \<inter> L' = {}" and "M \<inter> M' = {}" and "apart s M'"
  shows "same_on h (rv_heap s') L' M'"
  unfolding same_on_def
proof (intro conjI ballI)
  note f = only_changedD [OF assms(1)]
  fix n
  show "n < length (hp_lists (rv_heap s'))" "list_at (rv_heap s') n = list_at h n" if "n \<in> L'"
    using assms(2,3) f(1) f(3) [of n] that by (auto simp: same_on_def lists_of_def)
  show "n < length (hp_maps (rv_heap s'))" "map_at (rv_heap s') n = map_at h n" if "n \<in> M'"
    using assms(2,4,5) f(2) f(5) [of n] that by (auto simp: same_on_def maps_of_def apart_def)
qed

lemma only_changed_apart:
  assumes "only_changed K L M s s'" and "apart s M'" and "same_on h (rv_heap s) L' M'"
  shows "apart s' M'"
  using only_changedD(2,6) [OF assms(1)] assms(2,3) unfolding apart_def
  by (fastforce simp: same_on_def maps_of_def)

section \<open>Steps\<close>

text \<open>A step returns, within a footprint, and a map it gives is of the footprint, of the cache or new.\<close>

definition good_step ::
  "string set \<Rightarrow> nat set \<Rightarrow> nat set \<Rightarrow> resolver_state \<Rightarrow> (gval \<times> bool) step \<Rightarrow> bool" where
  "good_step K L M s m \<longleftrightarrow>
     (\<exists>r s'. m = Some (r, s') \<and> only_changed K L M s s' \<and>
        (\<forall>b ok. r = Some (GMap b, ok) \<longrightarrow> b \<in> M \<union> cached_maps s \<union> {maps_of s ..}))"

lemma good_return:
  "only_changed K L M s s' \<Longrightarrow> (\<And>b. v = GMap b \<Longrightarrow> b \<in> M \<union> cached_maps s \<union> {maps_of s ..}) \<Longrightarrow>
     good_step K L M s (return_value (v, ok) s')"
  by (simp add: good_step_def return_value_def)

lemma good_panic: "only_changed K L M s s' \<Longrightarrow> good_step K L M s (panic s')"
  by (simp add: good_step_def panic_def)

lemma good_step_after:
  assumes 1: "only_changed K L' M' s s1" and 2: "good_step K L M s1 m"
    and "L' \<subseteq> L" and "M' \<subseteq> M"
  shows "good_step K L M s m"
proof -
  obtain r s' where m: "m = Some (r, s')" and f: "only_changed K L M s1 s'"
    and b: "\<And>b ok. r = Some (GMap b, ok) \<Longrightarrow> b \<in> M \<union> cached_maps s1 \<union> {maps_of s1 ..}"
    using 2 unfolding good_step_def by blast
  have "only_changed K L M s s'"
    by (rule only_changed_trans [OF only_changed_mono [OF 1 assms(3,4)] f]) auto
  moreover have "b \<in> M \<union> cached_maps s \<union> {maps_of s ..}" if "r = Some (GMap b, ok)" for b ok
    using b [OF that] only_changedD(2,6) [OF 1] by fastforce
  ultimately show ?thesis using m unfolding good_step_def by blast
qed

lemma good_step_mono: "good_step K L M s m \<Longrightarrow> L \<subseteq> L' \<Longrightarrow> M \<subseteq> M' \<Longrightarrow> good_step K L' M' s m"
proof -
  assume m: "good_step K L M s m" and LM: "L \<subseteq> L'" "M \<subseteq> M'"
  then obtain r s' where r: "m = Some (r, s')" "only_changed K L M s s'"
    and b: "\<And>b ok. r = Some (GMap b, ok) \<Longrightarrow> b \<in> M \<union> cached_maps s \<union> {maps_of s ..}"
    unfolding good_step_def by blast
  then have "\<forall>b ok. r = Some (GMap b, ok) \<longrightarrow> b \<in> M' \<union> cached_maps s \<union> {maps_of s ..}" using LM(2) by auto
  then show ?thesis using r only_changed_mono [OF r(2) LM] unfolding good_step_def by simp
qed

lemma good_next:
  assumes "good_step K L' M' s m" and "L' \<subseteq> L" and "M' \<subseteq> M"
    and "\<And>v ok s1. only_changed K L' M' s s1 \<Longrightarrow>
      (\<And>b. v = GMap b \<Longrightarrow> b \<in> M' \<union> cached_maps s \<union> {maps_of s ..}) \<Longrightarrow> good_step K L M s (f (v, ok) s1)"
  shows "good_step K L M s (next_step m f)"
proof -
  obtain r s' where m: "m = Some (r, s')" and f: "only_changed K L' M' s s'"
    and b: "\<And>b ok. r = Some (GMap b, ok) \<Longrightarrow> b \<in> M' \<union> cached_maps s \<union> {maps_of s ..}"
    using assms(1) unfolding good_step_def by blast
  show ?thesis
  proof (cases r)
    case None
    then show ?thesis
      using m only_changed_mono [OF f assms(2,3)] by (simp add: good_step_def next_step_def)
  next
    case (Some p)
    obtain v ok where p: "p = (v, ok)" by (cases p)
    show ?thesis using assms(4) [OF f, of v ok] b m Some p by (simp add: next_step_def)
  qed
qed

lemma cached_maps_heap [simp]: "cached_maps (s\<lparr>rv_heap := h\<rparr>) = cached_maps s"
  by (simp add: cached_maps_def)

lemma contents_in_heap [simp]: "contents_in K (s\<lparr>rv_heap := h\<rparr>) = contents_in K s"
  by (simp add: contents_in_def)

lemma only_changed_new_map:
  "only_changed K L M s (s\<lparr>rv_heap := snd (new_map m (rv_heap s))\<rparr>)"
  by (auto simp: only_changed_def lists_of_def maps_of_def new_map_def list_at_def map_at_def nth_append)

lemma only_changed_put: "only_changed K L {b} s (s\<lparr>rv_heap := put_entry b k v (rv_heap s)\<rparr>)"
  by (auto simp: only_changed_def lists_of_def maps_of_def put_entry_def list_at_def map_at_def nth_list_update)

lemma only_changed_set_list:
  "only_changed K {a} M s
     (update_heap (\<lambda>h. h\<lparr>hp_lists := (hp_lists h)[a := (list_at h a)[i := v]]\<rparr>) s)"
  by (auto simp: only_changed_def update_heap_def lists_of_def maps_of_def list_at_def map_at_def nth_list_update)

lemma only_changed_cached:
  assumes "only_changed K L M s s1" and "b \<in> cached_maps s \<union> {maps_of s ..}" and "only_changed K L {b} s1 s'"
  shows "only_changed K L M s s'"
  by (rule only_changed_trans [OF assms(1,3)]) (use assms(2) in auto)

lemma put_ref_metadata_changes:
  assumes 1: "only_changed K L M s s1"
    and b: "\<And>b. val = GMap b \<Longrightarrow> b \<in> M \<union> cached_maps s \<union> {maps_of s ..}"
    and p: "put_ref_metadata a v val (rv_heap s1) = (x, h)"
  shows "only_changed K L M s (s1\<lparr>rv_heap := h\<rparr>)"
    and "\<And>b. x = GMap b \<Longrightarrow> b \<in> M \<union> cached_maps s \<union> {maps_of s ..}"
proof -
  obtain c h1 where c: "(case value_address val of Some b \<Rightarrow> (b, rv_heap s1) | None \<Rightarrow> new_map [] (rv_heap s1)) = (c, h1)"
    by fastforce
  obtain d h2 where d: "new_map [] h1 = (d, h2)" by fastforce
  have s1: "maps_of s \<le> maps_of s1" by (rule only_changedD(2) [OF 1])
  have "only_changed K L M s (s1\<lparr>rv_heap := h1\<rparr>) \<and> maps_of s \<le> length (hp_maps h1)
      \<and> c \<in> M \<union> cached_maps s \<union> {maps_of s ..}"
  proof (cases "value_address val")
    case None
    then have "h1 = snd (new_map [] (rv_heap s1))" "c = maps_of s1" using c by (auto simp: new_map_def maps_of_def)
    then show ?thesis
      using only_changed_trans [OF 1 only_changed_new_map, of "{}" "{}"] s1 by (auto simp: new_map_def maps_of_def)
  next
    case (Some e)
    then show ?thesis using 1 b c s1 by (auto simp: value_address_def maps_of_def split: gval.splits)
  qed
  then have f1: "only_changed K L M s (s1\<lparr>rv_heap := h1\<rparr>)" and l1: "maps_of s \<le> length (hp_maps h1)"
    and cin: "c \<in> M \<union> cached_maps s \<union> {maps_of s ..}" by auto
  have f2: "only_changed K L M s (s1\<lparr>rv_heap := h2\<rparr>)"
    using only_changed_trans [OF f1 only_changed_new_map [of K "{}" "{}" _ "[]"]] d by simp
  have din: "maps_of s \<le> d" using d l1 by (simp add: new_map_def)
  have put: "only_changed K L M s (s1\<lparr>rv_heap := put_entry e k w h'\<rparr>)"
    if "only_changed K L M s (s1\<lparr>rv_heap := h'\<rparr>)" "e \<in> M \<union> cached_maps s \<union> {maps_of s ..}" for e k w h'
    using only_changed_trans [OF that(1) only_changed_put [of K "{}" e _ k w]] that(2) by auto
  have x: "x = GMap c" and h: "\<exists>w. h = put_entry d ''alone'' w (put_entry d ''$ref'' v (put_entry c ''RefMetadata'' (GMap d) h2))"
    using p c d by (auto simp: put_ref_metadata_def Let_def)
  have din': "d \<in> M \<union> cached_maps s \<union> {maps_of s ..}" using din by simp
  show "only_changed K L M s (s1\<lparr>rv_heap := h\<rparr>)" using h put [OF put [OF put [OF f2 cin] din'] din'] by blast
  show "\<And>b. x = GMap b \<Longrightarrow> b \<in> M \<union> cached_maps s \<union> {maps_of s ..}" using cin x by simp
qed

section \<open>References\<close>

text \<open>
  What a walk over JSON may rely on: it follows nothing, or \<open>Resolve\<close> of the next depth returns; its resolver
  is that of JSON; \<open>K\<close> holds the contents it can meet.
\<close>

definition returns_for_json ::
  "string set \<Rightarrow> (string \<Rightarrow> string \<Rightarrow> resolver_state \<Rightarrow> (string \<times> resolver_state) option) \<Rightarrow> bool" where
  "returns_for_json K resolve \<longleftrightarrow>
     (\<forall>fileContent path s. fileContent \<in> K \<longrightarrow> \<not> is_yaml_path path \<longrightarrow> apart s {} \<longrightarrow>
        (\<exists>r s'. resolve fileContent path s = Some (r, s') \<and> only_changed K {} {} s s'))"

definition json_ctx :: "string set \<Rightarrow> walk_ctx \<Rightarrow> bool" where
  "json_ctx K c \<longleftrightarrow>
     (wc_at_limit c \<or> returns_for_json K (wc_Resolve c)) \<and> wc_content c \<in> K \<and>
     re_Extension (wc_env c) = json_SupportedExtensions \<and> range_order (re_order (wc_env c)) \<and>
     (\<forall>p fileContent. re_open (wc_env c) p = Some fileContent \<longrightarrow> fileContent \<in> K)"

lemma load_json_extends:
  "load_json x h = (v, h1) \<Longrightarrow>
     (\<exists>ls ms. hp_lists h1 = hp_lists h @ ls \<and> hp_maps h1 = hp_maps h @ ms) \<and>
     (\<forall>b. v = GMap b \<longrightarrow> length (hp_maps h) \<le> b \<and> b < length (hp_maps h1))"
  "load_items xs h = (vs, h1) \<Longrightarrow>
     \<exists>ls ms. hp_lists h1 = hp_lists h @ ls \<and> hp_maps h1 = hp_maps h @ ms"
  "load_entries m h = (es, h1) \<Longrightarrow>
     \<exists>ls ms. hp_lists h1 = hp_lists h @ ls \<and> hp_maps h1 = hp_maps h @ ms"
proof (induction x h and xs h and m h arbitrary: v h1 and vs h1 and es h1
    rule: load_json_load_items_load_entries.induct)
qed (fastforce split: prod.splits)+

lemma only_changed_extends:
  assumes "hp_lists h = hp_lists (rv_heap s) @ ls" and "hp_maps h = hp_maps (rv_heap s) @ ms"
  shows "only_changed K L M s (s\<lparr>rv_heap := h\<rparr>)"
  using assms by (auto simp: only_changed_def lists_of_def maps_of_def list_at_def map_at_def nth_append)

lemma gomap_put_subset: "set (gomap_put k v m) \<subseteq> insert (k, v) (set m)"
  by (induction m) auto

lemma cached_maps_cache_file:
  "cached_maps (cache_file p f v h s) \<subseteq> cached_maps s \<union> {b. v = CachedAny (GMap b)}"
  unfolding cached_maps_def cache_file_def by (auto dest!: subsetD [OF gomap_put_subset])

lemma contents_in_cache_file:
  "contents_in K s \<Longrightarrow> f \<in> K \<Longrightarrow> contents_in K (cache_file p f v h s)"
  unfolding contents_in_def cache_file_def by (fastforce dest!: subsetD [OF gomap_put_subset])

lemma contents_in_note:
  "contents_in K s \<Longrightarrow> f \<in> K \<Longrightarrow> contents_in K (note_resolved name path f s)"
  unfolding contents_in_def note_resolved_def by (fastforce dest!: subsetD [OF gomap_put_subset])

lemma only_changed_note:
  assumes "only_changed K L M s s1" and "contents_in K s1 \<Longrightarrow> f \<in> K"
  shows "only_changed K L M s (note_resolved name path f s1)"
proof -
  have h: "rv_heap (note_resolved name path f s1) = rv_heap s1"
    "cached_maps (note_resolved name path f s1) = cached_maps s1"
    by (simp_all add: note_resolved_def cached_maps_def)
  then show ?thesis
    using assms contents_in_note [of K s1 f name path]
    by (simp add: only_changed_def lists_of_def maps_of_def)
qed

lemma resolveFile_good:
  assumes c: "json_ctx K c" "\<not> wc_at_limit c" and p: "\<not> is_yaml_path p" and s: "apart s {}"
  shows "\<exists>err s1. resolveFile c p False s = Some (err, s1) \<and> only_changed K {} {} s s1 \<and>
           (\<not> err \<longrightarrow> map_of (rv_cache s1) p \<noteq> None)"
proof (cases "re_open (wc_env c) (Clean p)")
  case None
  then show ?thesis by (intro exI [of _ True] exI [of _ s]) (simp add: resolveFile_def only_changed_refl)
next
  case (Some f)
  then have f: "f \<in> K" using c(1) unfolding json_ctx_def by blast
  then obtain r s1 where r: "wc_Resolve c f p s = Some (r, s1)" and s1: "only_changed K {} {} s s1"
    using c p s unfolding json_ctx_def returns_for_json_def by blast
  show ?thesis
  proof (cases "re_unmarshal_any (wc_env c) r")
    case None
    then show ?thesis
      using Some r s1 by (intro exI [of _ True] exI [of _ s1]) (simp add: resolveFile_def)
  next
    case x: (Some x)
    obtain v h where v: "load_json x (rv_heap s1) = (v, h)" by fastforce
    obtain ls ms where ext: "hp_lists h = hp_lists (rv_heap s1) @ ls" "hp_maps h = hp_maps (rv_heap s1) @ ms"
      and new: "\<And>b. v = GMap b \<Longrightarrow> maps_of s1 \<le> b \<and> b < length (hp_maps h)"
      using load_json_extends(1) [OF v] by (auto simp: maps_of_def)
    let ?t = "cache_file p f (CachedAny v) h s1"
    have "only_changed K {} {} s1 (s1\<lparr>rv_heap := h\<rparr>)" by (rule only_changed_extends [OF ext])
    moreover have "rv_heap ?t = h" by (simp add: cache_file_def)
    moreover have "cached_maps ?t \<subseteq> cached_maps s1 \<union> {maps_of s1 ..< maps_of ?t}"
      using cached_maps_cache_file [of p f "CachedAny v" h s1] new by (fastforce simp: maps_of_def cache_file_def)
    ultimately have "only_changed K {} {} s1 ?t"
      using contents_in_cache_file [of K s1 f p "CachedAny v" h] f
      by (auto simp: only_changed_def lists_of_def maps_of_def)
    then have "only_changed K {} {} s ?t" by (rule only_changed_trans [OF s1]) simp_all
    moreover have "map_of (rv_cache ?t) p \<noteq> None" by (simp add: cache_file_def)
    ultimately show ?thesis
      using Some r x v by (intro exI [of _ False] exI [of _ ?t]) (simp add: resolveFile_def)
  qed
qed

lemma ensure_cached_good:
  assumes "json_ctx K c" "\<not> wc_at_limit c" and "\<not> is_yaml_path p" and "apart s {}"
  shows "\<exists>err s1. ensure_cached c p p False s = Some (err, s1) \<and> only_changed K {} {} s s1 \<and>
           (\<not> err \<longrightarrow> map_of (rv_cache s1) p \<noteq> None)"
  using resolveFile_good [OF assms] by (auto simp: ensure_cached_def only_changed_refl)

lemma cached_content_in: "contents_in K s \<Longrightarrow> map_of (rv_cache s) p \<noteq> None \<Longrightarrow> cached_content p s \<in> K"
  by (auto simp: cached_content_def contents_in_def split: option.splits prod.splits dest!: map_of_SomeD)

lemma cached_value_in: "cached_value p s = GMap b \<Longrightarrow> b \<in> cached_maps s"
  by (auto simp: cached_value_def cached_maps_def split: option.splits cached.splits prod.splits dest!: map_of_SomeD)

lemma resolvePathReturnValue_good:
  assumes "json_ctx K c" and s1: "only_changed K {} {} s s1"
  shows "good_step K {} {} s (resolvePathReturnValue c w ws same obj s1)"
proof -
  define t where "t = (if same then note_resolved (wc_path c) (wc_path c) (wc_content c) s1 else s1)"
  have t: "only_changed K {} {} s t"
    unfolding t_def using s1 assms(1) only_changed_note [OF s1, of "wc_content c"] by (simp add: json_ctx_def)
  show ?thesis
  proof (cases "length ws > 1")
    case True
    have eq: "resolvePathReturnValue c w ws same obj s1 =
        (case findSection (rv_heap t) obj (ws ! 1) of
           None \<Rightarrow> panic t
         | Some None \<Rightarrow> return_value (GAtom (JStr w), False) t
         | Some (Some section) \<Rightarrow>
             if checkIfCircular (rv_heap t) w (nat (wc_maxResolverDepth c)) section
             then return_value (GAtom (JStr w), False) t
             else case section of
                GMap a \<Rightarrow> return_value (GMap (maps_of t), True) (t\<lparr>rv_heap := snd (new_map (map_at (rv_heap t) a) (rv_heap t))\<rparr>)
              | _ \<Rightarrow> return_value (section, True) t)"
      unfolding resolvePathReturnValue_def using True
      by (simp add: t_def [symmetric] new_map_def maps_of_def split: option.split gval.split)
    have new: "good_step K {} {} s (return_value (GMap (maps_of t), True) (t\<lparr>rv_heap := snd (new_map m (rv_heap t))\<rparr>))" for m
      using only_changed_trans [OF t only_changed_new_map [of K "{}" "{}"]] only_changedD(2) [OF t]
      by (auto intro!: good_return)
    have old: "good_step K {} {} s (return_value (GAtom x, ok) t)" "good_step K {} {} s (return_value (GList a, ok) t)" for x a ok
      using t by (auto intro!: good_return)
    show ?thesis
      unfolding eq using new old good_panic [OF t] by (simp split: option.split gval.split)
  qed (auto simp: resolvePathReturnValue_def intro!: good_return s1)
qed

lemma resolvePath_good:
  assumes c: "json_ctx K c" and s: "apart s {}"
  shows "good_step K {} {} s (resolvePath c full w ref s)"
proof -
  define path where "path = path_join (Dir (wc_path c)) w"
  define p where "p = hd (split_on path hash)"
  consider "not_followed c w ref" | "\<not> not_followed c w ref" "has_prefix w hash"
    | "\<not> not_followed c w ref" "\<not> has_prefix w hash" "\<not> re_stat (wc_env c) p \<or> path_ext p \<notin> set json_SupportedExtensions"
    | "\<not> not_followed c w ref" "\<not> has_prefix w hash" "re_stat (wc_env c) p" "path_ext p \<in> set json_SupportedExtensions"
    by blast
  then show ?thesis
  proof cases
    case 1
    then show ?thesis by (auto simp: resolvePath_def intro!: good_return only_changed_refl)
  next
    case 2
    then show ?thesis
      using resolvePathReturnValue_good [OF c only_changed_refl] by (simp add: resolvePath_def)
  next
    case 3
    then show ?thesis
      using c by (auto simp: resolvePath_def Let_def json_ctx_def path_def p_def intro!: good_return only_changed_refl)
  next
    case 4
    have e: "re_Extension (wc_env c) = json_SupportedExtensions" using c by (simp add: json_ctx_def)
    have l: "\<not> wc_at_limit c" using 4 by (simp add: not_followed_def)
    have "\<not> is_yaml_path p" using 4(4) by (auto simp: is_yaml_path_def json_SupportedExtensions_def)
    then obtain err s1 where s1: "ensure_cached c p p False s = Some (err, s1)" "only_changed K {} {} s s1"
      and in_cache: "\<not> err \<Longrightarrow> map_of (rv_cache s1) p \<noteq> None"
      using ensure_cached_good [OF c l _ s] by blast
    define s2 where "s2 = note_resolved (getPathFromString w) path (cached_content p s1) s1"
    have eq: "resolvePath c full w ref s =
        (if err then return_value (GAtom (JStr w), False) s1
         else if contains (to_lower w) ''!ref'' \<or> length (split_on path hash) = 1 then return_value (cached_value p s2, False) s2
         else resolvePathReturnValue c w (split_on path hash) False (cached_value p s2) s2)"
      using 4 s1(1) e by (simp add: resolvePath_def Let_def path_def p_def s2_def)
    show ?thesis
    proof (cases err)
      case True
      then show ?thesis using eq s1(2) by (auto intro!: good_return)
    next
      case False
      have s2: "only_changed K {} {} s s2"
        unfolding s2_def by (rule only_changed_note [OF s1(2) cached_content_in [OF _ in_cache [OF False]]])
      then have "b \<in> {} \<union> cached_maps s \<union> {maps_of s ..}" if "cached_value p s2 = GMap b" for b
        using cached_value_in [OF that] only_changedD(6) [OF s2] by auto
      then show ?thesis
        using eq False resolvePathReturnValue_good [OF c s2] good_return [OF s2] by simp
    qed
  qed
qed

section \<open>The walk\<close>

lemma walk_atom:
  assumes "json_ctx K c" and "apart s {}"
  shows "good_step K {} {} s (walk c full (WalkValue (GAtom x) ref) s)"
  by (subst walk.simps)
    (auto split: jval.split intro: resolvePath_good [OF assms] intro!: good_return only_changed_refl)

lemma walk_list:
  "walk c full (WalkValue (GList a) ref) s = walk c full (WalkList a 0 ref) s"
  by (subst walk.simps) simp

lemma walk_map:
  "walk c full (WalkValue (GMap a) ref) s =
     walk c full (HandleMap a (map fst (re_order (wc_env c) (map_at (rv_heap s) a)))) s"
  by (subst walk.simps) simp

lemma walk_list_end:
  "length (list_at (rv_heap s) a) \<le> i \<Longrightarrow>
     walk c full (WalkList a i ref) s = return_value (GList a, False) s"
  by (subst walk.simps) simp

lemma walk_list_item:
  "i < length (list_at (rv_heap s) a) \<Longrightarrow>
     walk c full (WalkList a i ref) s =
       next_step (walk c full (WalkValue (list_at (rv_heap s) a ! i) ref) s) (\<lambda>(val, _) s1.
         walk c full (WalkList a (Suc i) ref)
           (update_heap (\<lambda>h. h\<lparr>hp_lists := (hp_lists h)[a := (list_at h a)[i := val]]\<rparr>) s1))"
  by (subst walk.simps) simp

lemma walk_map_end: "walk c full (HandleMap a []) s = return_value (GMap a, False) s"
  by (subst walk.simps) simp

lemma walk_map_key:
  "map_of (map_at (rv_heap s) a) k = Some v \<Longrightarrow>
     walk c full (HandleMap a (k # ks)) s =
       next_step (walk c full (WalkValue v (is_ref k)) s) (\<lambda>(val, res) s1.
         if is_ref k \<and> (value_address val \<noteq> None \<or> \<not> res) then
           (let (x, h) = put_ref_metadata a v val (rv_heap s1)
            in return_value (x, False) (s1\<lparr>rv_heap := h\<rparr>))
         else if is_ref k \<and> res then return_value (val, False) s1
         else walk c full (HandleMap a ks) (update_heap (put_entry a k val) s1))"
  by (subst walk.simps) simp

text \<open>The list, and the places of it that are still to be read, are as in the beginning.\<close>

lemma walk_items_good:
  assumes children: "\<And>i s ref. i < length vs \<Longrightarrow> same_on h (rv_heap s) (Lf i) (Mf i) \<Longrightarrow>
      apart s (Mf i) \<Longrightarrow> good_step K (Lf i) (Mf i) s (walk c full (WalkValue (vs ! i) ref) s)"
    and L: "disjoint_family_on Lf {..<length vs}" and M: "disjoint_family_on Mf {..<length vs}"
    and a: "a \<notin> (\<Union>i < length vs. Lf i)"
  shows "\<lbrakk>i \<le> length vs; a < lists_of s; length (list_at (rv_heap s) a) = length vs;
      \<forall>j. i \<le> j \<longrightarrow> j < length vs \<longrightarrow> list_at (rv_heap s) a ! j = vs ! j;
      \<forall>j. i \<le> j \<longrightarrow> j < length vs \<longrightarrow> same_on h (rv_heap s) (Lf j) (Mf j);
      \<forall>j. i \<le> j \<longrightarrow> j < length vs \<longrightarrow> apart s (Mf j)\<rbrakk>
    \<Longrightarrow> good_step K (insert a (\<Union>j < length vs. Lf j)) (\<Union>j < length vs. Mf j) s (walk c full (WalkList a i ref) s)"
proof (induction "length vs - i" arbitrary: i s)
  case 0
  then show ?case by (auto simp: walk_list_end intro!: good_return only_changed_refl)
next
  case (Suc n)
  let ?L = "insert a (\<Union>j < length vs. Lf j)" and ?M = "\<Union>j < length vs. Mf j"
  have i: "i < length vs" using Suc.hyps(2) by simp
  have here: "list_at (rv_heap s) a ! i = vs ! i" using Suc.prems(4) i by blast
  show ?case
    unfolding walk_list_item [OF i [folded Suc.prems(3)]] here
  proof (rule good_next)
    show "good_step K (Lf i) (Mf i) s (walk c full (WalkValue (vs ! i) ref) s)"
      using children [OF i] Suc.prems(5,6) i by simp
    show "Lf i \<subseteq> ?L" "Mf i \<subseteq> ?M" using i by blast+
    fix v ok s1
    assume f: "only_changed K (Lf i) (Mf i) s s1"
    let ?t = "update_heap (\<lambda>h. h\<lparr>hp_lists := (hp_lists h)[a := (list_at h a)[i := v]]\<rparr>) s1"
    have g: "only_changed K {a} {} s1 ?t" by (rule only_changed_set_list)
    have fg: "only_changed K (insert a (Lf i)) (Mf i) s ?t"
      by (rule only_changed_trans [OF only_changed_mono [OF f] g]) auto
    have a1: "list_at (rv_heap s1) a = list_at (rv_heap s) a" "a < lists_of s1"
      using only_changedD(1) [OF f] only_changedD(3) [OF f, of a] Suc.prems(2) a i by auto
    then have at: "list_at (rv_heap ?t) a = (list_at (rv_heap s) a)[i := v]" "a < lists_of ?t"
      by (simp_all add: update_heap_def list_at_def lists_of_def)
    have rest: "same_on h (rv_heap ?t) (Lf j) (Mf j)" "apart ?t (Mf j)" if j: "Suc i \<le> j" "j < length vs" for j
    proof -
      have d: "insert a (Lf i) \<inter> Lf j = {}" "Mf i \<inter> Mf j = {}"
        using L M a i j by (auto simp: disjoint_family_on_def)
      have p: "same_on h (rv_heap s) (Lf j) (Mf j)" "apart s (Mf j)" using Suc.prems(5,6) j by simp_all
      show "same_on h (rv_heap ?t) (Lf j) (Mf j)" by (rule only_changed_same_on [OF fg p(1) d p(2)])
      show "apart ?t (Mf j)" by (rule only_changed_apart [OF fg p(2) p(1)])
    qed
    have "good_step K ?L ?M ?t (walk c full (WalkList a (Suc i) ref) ?t)"
      using Suc.hyps(2) Suc.prems(3,4) i at rest by (intro Suc.hyps(1)) auto
    then have "good_step K ?L ?M s (walk c full (WalkList a (Suc i) ref) ?t)"
      using i by (intro good_step_after [OF fg]) auto
    then show "good_step K ?L ?M s ((\<lambda>(val, _) s1. walk c full (WalkList a (Suc i) ref)
        (update_heap (\<lambda>h. h\<lparr>hp_lists := (hp_lists h)[a := (list_at h a)[i := val]]\<rparr>) s1)) (v, ok) s1)" by simp
  qed
qed

lemma walk_keys_good:
  assumes children: "\<And>k v s ref. map_of m k = Some v \<Longrightarrow> same_on h (rv_heap s) (Lf k) (Mf k) \<Longrightarrow>
      apart s (Mf k) \<Longrightarrow> good_step K (Lf k) (Mf k) s (walk c full (WalkValue v ref) s)"
    and L: "disjoint_family_on Lf (dom (map_of m))" and M: "disjoint_family_on Mf (dom (map_of m))"
    and a: "a \<notin> (\<Union>k \<in> dom (map_of m). Mf k)"
  shows "\<lbrakk>distinct ks; set ks \<subseteq> dom (map_of m); a < maps_of s; a \<notin> cached_maps s;
      \<forall>k \<in> set ks. map_of (map_at (rv_heap s) a) k = map_of m k;
      \<forall>k \<in> set ks. same_on h (rv_heap s) (Lf k) (Mf k);
      \<forall>k \<in> set ks. apart s (Mf k)\<rbrakk>
    \<Longrightarrow> good_step K (\<Union>k \<in> dom (map_of m). Lf k) (insert a (\<Union>k \<in> dom (map_of m). Mf k)) s
          (walk c full (HandleMap a ks) s)"
proof (induction ks arbitrary: s)
  case Nil
  then show ?case by (auto simp: walk_map_end intro!: good_return only_changed_refl)
next
  case (Cons k ks)
  let ?L = "\<Union>k \<in> dom (map_of m). Lf k" and ?M = "insert a (\<Union>k \<in> dom (map_of m). Mf k)"
  obtain v where v: "map_of m k = Some v" using Cons.prems(2) by auto
  then have here: "map_of (map_at (rv_heap s) a) k = Some v" using Cons.prems(5) by simp
  have k: "k \<in> dom (map_of m)" using v by blast
  show ?case
    unfolding walk_map_key [OF here]
  proof (rule good_next)
    show "good_step K (Lf k) (Mf k) s (walk c full (WalkValue v (is_ref k)) s)"
      using children [OF v] Cons.prems(6,7) by simp
    show sub: "Lf k \<subseteq> ?L" "Mf k \<subseteq> ?M" using k by blast+
    fix val ok s1
    assume f: "only_changed K (Lf k) (Mf k) s s1"
      and b: "\<And>b. val = GMap b \<Longrightarrow> b \<in> Mf k \<union> cached_maps s \<union> {maps_of s ..}"
    have f': "only_changed K ?L ?M s s1" by (rule only_changed_mono [OF f sub])
    have b': "\<And>b. val = GMap b \<Longrightarrow> b \<in> ?M \<union> cached_maps s \<union> {maps_of s ..}" using b sub(2) by blast
    let ?t = "update_heap (put_entry a k val) s1"
    have g: "only_changed K {} {a} s1 ?t" using only_changed_put by (simp add: update_heap_def)
    have fg: "only_changed K (Lf k) (insert a (Mf k)) s ?t"
      by (rule only_changed_trans [OF only_changed_mono [OF f] g]) auto
    have a1: "map_at (rv_heap s1) a = map_at (rv_heap s) a" "a < maps_of s1"
      using only_changedD(2) [OF f] only_changedD(5) [OF f, of a] Cons.prems(3,4) a k by auto
    then have at: "map_at (rv_heap ?t) a = gomap_put k val (map_at (rv_heap s) a)" "a < maps_of ?t"
      by (simp_all add: update_heap_def put_entry_def map_at_def maps_of_def)
    have nc: "a \<notin> cached_maps ?t"
      using only_changedD(6) [OF fg] Cons.prems(3,4) by auto
    have rest: "same_on h (rv_heap ?t) (Lf j) (Mf j)" "apart ?t (Mf j)" if j: "j \<in> set ks" for j
    proof -
      have "j \<noteq> k" "j \<in> dom (map_of m)" using Cons.prems(1,2) j by auto
      then have d: "Lf k \<inter> Lf j = {}" "insert a (Mf k) \<inter> Mf j = {}"
        using L M a k by (auto simp: disjoint_family_on_def)
      have p: "same_on h (rv_heap s) (Lf j) (Mf j)" "apart s (Mf j)" using Cons.prems(6,7) j by simp_all
      show "same_on h (rv_heap ?t) (Lf j) (Mf j)" by (rule only_changed_same_on [OF fg p(1) d p(2)])
      show "apart ?t (Mf j)" by (rule only_changed_apart [OF fg p(2) p(1)])
    qed
    have old: "\<forall>j \<in> set ks. map_of (map_at (rv_heap ?t) a) j = map_of m j" using Cons.prems(1,5) at(1) by auto
    have "good_step K ?L ?M ?t (walk c full (HandleMap a ks) ?t)"
      using Cons.prems(1,2) at(2) nc old rest by (intro Cons.IH) auto
    then have go: "good_step K ?L ?M s (walk c full (HandleMap a ks) ?t)"
      using sub by (intro good_step_after [OF fg]) auto
    obtain x h2 where x: "put_ref_metadata a v val (rv_heap s1) = (x, h2)" by fastforce
    have meta: "good_step K ?L ?M s (return_value (x, False) (s1\<lparr>rv_heap := h2\<rparr>))"
      by (rule good_return [OF put_ref_metadata_changes(1) [OF f' b' x] put_ref_metadata_changes(2) [OF f' b' x]])
    show "good_step K ?L ?M s ((\<lambda>(val, res) s1.
         if is_ref k \<and> (value_address val \<noteq> None \<or> \<not> res)
         then let (x, h) = put_ref_metadata a v val (rv_heap s1) in return_value (x, False) (s1\<lparr>rv_heap := h\<rparr>)
         else if is_ref k \<and> res then return_value (val, False) s1
              else walk c full (HandleMap a ks) (update_heap (put_entry a k val) s1)) (val, ok) s1)"
      using x meta go good_return [OF f' b'] by simp
  qed
qed

lemma walk_tree_good:
  assumes c: "json_ctx K c"
  shows "tree h v L M \<Longrightarrow> same_on h (rv_heap s) L M \<Longrightarrow> apart s M \<Longrightarrow>
     good_step K L M s (walk c full (WalkValue v ref) s)"
proof (induction arbitrary: s ref rule: tree.induct)
  case (tree_atom x)
  show ?case by (rule walk_atom [OF c tree_atom.prems(2)])
next
  case (tree_list a vs Lf Mf)
  have "same_on h (rv_heap s) (Lf j) (Mf j)" if "j < length vs" for j
    using that by (intro same_on_mono [OF tree_list.prems(1)]) auto
  moreover have "list_at (rv_heap s) a = vs" "a < lists_of s"
    using tree_list.prems(1) tree_list.hyps by (auto simp: same_on_def lists_of_def)
  ultimately show ?case
    unfolding walk_list using apart_Union [OF tree_list.prems(2)] tree_list.IH
    by (intro walk_items_good [OF _ tree_list.hyps(4-6)]) auto
next
  case (tree_map a m Lf Mf)
  let ?ks = "map fst (re_order (wc_env c) (map_at (rv_heap s) a))"
  have m: "map_at (rv_heap s) a = m" "a < maps_of s"
    using tree_map.prems(1) tree_map.hyps by (auto simp: same_on_def maps_of_def)
  have r: "range_order (re_order (wc_env c))" using c by (simp add: json_ctx_def)
  have "distinct ?ks" using tree_map.hyps(3) m(1) range_order_ok [OF r] by simp
  moreover have "set ?ks = dom (map_of m)" using m(1) range_order_set [OF r] by (simp add: dom_map_of_conv_image_fst)
  moreover have "same_on h (rv_heap s) (Lf k) (Mf k)" if "k \<in> dom (map_of m)" for k
    using that by (intro same_on_mono [OF tree_map.prems(1)]) auto
  moreover have "apart s (Mf k)" if "k \<in> dom (map_of m)" for k
    using that tree_map.prems(2) unfolding apart_def by blast
  ultimately show ?case
    unfolding walk_map using m apart_insert [OF tree_map.prems(2)] tree_map.IH
    by (intro walk_keys_good [OF _ tree_map.hyps(4-6)]) auto
qed

section \<open>Documents that are read are trees\<close>

definition within :: "store \<Rightarrow> store \<Rightarrow> nat set \<Rightarrow> nat set \<Rightarrow> bool" where
  "within h h1 L M \<longleftrightarrow>
     L \<subseteq> {length (hp_lists h) ..< length (hp_lists h1)} \<and> M \<subseteq> {length (hp_maps h) ..< length (hp_maps h1)}"

definition extends :: "store \<Rightarrow> store \<Rightarrow> bool" where
  "extends h h1 \<longleftrightarrow> (\<exists>ls ms. hp_lists h1 = hp_lists h @ ls \<and> hp_maps h1 = hp_maps h @ ms)"

lemma extends_le: "extends h h1 \<Longrightarrow> length (hp_lists h) \<le> length (hp_lists h1) \<and> length (hp_maps h) \<le> length (hp_maps h1)"
  by (auto simp: extends_def)

lemma load_extends:
  "load_json x h = (v, h1) \<Longrightarrow> extends h h1" "load_items xs h = (vs, h1) \<Longrightarrow> extends h h1"
  "load_entries m h = (es, h1) \<Longrightarrow> extends h h1"
  using load_json_extends(1) [of x h v h1] load_json_extends(2) [of xs h vs h1] load_json_extends(3) [of m h es h1]
  by (simp_all add: extends_def)

lemma tree_extends: "tree h v L M \<Longrightarrow> extends h h1 \<Longrightarrow> tree h1 v L M"
  using tree_bounded [of h v L M]
  by (auto intro!: tree_same [of h v L M] simp: extends_def same_on_def list_at_def map_at_def nth_append trans_less_add1)

lemma within_mono:
  "within h1 h2 L M \<Longrightarrow> extends h h1 \<Longrightarrow> extends h2 h3 \<Longrightarrow> within h h3 L M"
  using extends_le [of h h1] extends_le [of h2 h3] unfolding within_def by fastforce

lemma within_disjoint:
  "within h h1 L M \<Longrightarrow> within h1 h2 L' M' \<Longrightarrow> L \<inter> L' = {} \<and> M \<inter> M' = {}"
  unfolding within_def by fastforce

definition item_trees :: "store \<Rightarrow> store \<Rightarrow> gval list \<Rightarrow> (nat \<Rightarrow> nat set) \<Rightarrow> (nat \<Rightarrow> nat set) \<Rightarrow> bool" where
  "item_trees h h1 vs Lf Mf \<longleftrightarrow>
     (\<forall>i < length vs. tree h1 (vs ! i) (Lf i) (Mf i) \<and> within h h1 (Lf i) (Mf i)) \<and>
     disjoint_family_on Lf {..<length vs} \<and> disjoint_family_on Mf {..<length vs}"

definition entry_trees ::
  "store \<Rightarrow> store \<Rightarrow> (string, gval) gomap \<Rightarrow> (string \<Rightarrow> nat set) \<Rightarrow> (string \<Rightarrow> nat set) \<Rightarrow> bool" where
  "entry_trees h h1 es Lf Mf \<longleftrightarrow> gomap_ok es \<and>
     (\<forall>k v. map_of es k = Some v \<longrightarrow> tree h1 v (Lf k) (Mf k) \<and> within h h1 (Lf k) (Mf k)) \<and>
     disjoint_family_on Lf (dom (map_of es)) \<and> disjoint_family_on Mf (dom (map_of es))"

lemma disjoint_case_nat:
  assumes "disjoint_family_on F {..<n}" and "\<And>i. i < n \<Longrightarrow> A \<inter> F i = {}"
  shows "disjoint_family_on (case_nat A F) {..<Suc n}"
  unfolding disjoint_family_on_def
proof (intro ballI impI)
  fix i j assume "i \<in> {..<Suc n}" "j \<in> {..<Suc n}" "i \<noteq> j"
  then show "(case i of 0 \<Rightarrow> A | Suc m \<Rightarrow> F m) \<inter> (case j of 0 \<Rightarrow> A | Suc m \<Rightarrow> F m) = {}"
    using assms disjoint_family_onD [OF assms(1)] by (cases i; cases j) (auto simp: Int_commute)
qed

lemma disjoint_fun_upd:
  assumes "disjoint_family_on F D" and "\<And>i. i \<in> D \<Longrightarrow> A \<inter> F i = {}"
  shows "disjoint_family_on (F(k := A)) (insert k D)"
  unfolding disjoint_family_on_def
proof (intro ballI impI)
  fix i j assume "i \<in> insert k D" "j \<in> insert k D" "i \<noteq> j"
  then show "(F(k := A)) i \<inter> (F(k := A)) j = {}"
    using assms disjoint_family_onD [OF assms(1)] by (cases "i = k"; cases "j = k") (auto simp: Int_commute)
qed

lemma item_trees_Cons:
  assumes v: "tree h1 v L M" "within h h1 L M" and e: "extends h h1" "extends h1 h2"
    and vs: "item_trees h1 h2 vs Lf Mf"
  shows "item_trees h h2 (v # vs) (case_nat L Lf) (case_nat M Mf)"
proof -
  have t: "tree h2 v L M" and w: "within h h2 L M"
    using tree_extends [OF v(1) e(2)] within_mono [OF v(2) _ e(2), of h] by (simp_all add: extends_def)
  have w': "within h h2 (Lf i) (Mf i)" if "i < length vs" for i
    using vs that within_mono [OF _ e(1), of h2 "Lf i" "Mf i" h2] by (auto simp: item_trees_def extends_def)
  have d: "L \<inter> Lf i = {} \<and> M \<inter> Mf i = {}" if "i < length vs" for i
    using vs that within_disjoint [OF v(2)] unfolding item_trees_def by blast
  show ?thesis
    using vs t w w' disjoint_case_nat [of Lf "length vs" L] disjoint_case_nat [of Mf "length vs" M] d
    unfolding item_trees_def by (auto simp: nth_Cons less_Suc_eq_0_disj split: nat.splits)
qed

lemma entry_trees_Cons:
  assumes v: "tree h1 v L M" "within h h1 L M" and e: "extends h h1" "extends h1 h2"
    and es: "entry_trees h1 h2 es Lf Mf"
  shows "entry_trees h h2 ((k, v) # AList.delete k es) (Lf(k := L)) (Mf(k := M))"
proof -
  have t: "tree h2 v L M" and w: "within h h2 L M"
    using tree_extends [OF v(1) e(2)] within_mono [OF v(2) _ e(2), of h] by (simp_all add: extends_def)
  have w': "within h h2 (Lf i) (Mf i)" if "map_of es i = Some x" for i x
    using es that within_mono [OF _ e(1), of h2 "Lf i" "Mf i" h2] by (auto simp: entry_trees_def extends_def)
  have d: "L \<inter> Lf i = {} \<and> M \<inter> Mf i = {}" if "i \<in> dom (map_of es)" for i
    using es that within_disjoint [OF v(2)] unfolding entry_trees_def by blast
  have m: "map_of ((k, v) # AList.delete k es) = (map_of es)(k \<mapsto> v)" by (auto simp: delete_conv')
  have "gomap_ok ((k, v) # AList.delete k es)"
    using es by (auto simp: entry_trees_def delete_keys distinct_removeAll)
  then show ?thesis
    using es t w w' disjoint_fun_upd [of Lf "dom (map_of es)" L k] disjoint_fun_upd [of Mf "dom (map_of es)" M k] d
    unfolding entry_trees_def m by (simp del: map_of_eq_Some_iff)
qed

lemma load_json_tree:
  "load_json x h = (v, h1) \<Longrightarrow> \<exists>L M. tree h1 v L M \<and> within h h1 L M"
  "load_items xs h = (vs, h1) \<Longrightarrow> \<exists>Lf Mf. item_trees h h1 vs Lf Mf"
  "load_entries m h = (es, h1) \<Longrightarrow> \<exists>Lf Mf. entry_trees h h1 es Lf Mf"
proof (induction x h and xs h and m h arbitrary: v h1 and vs h1 and es h1
    rule: load_json_load_items_load_entries.induct)
  case (1 xs h)
  obtain vs h2 where l: "load_items xs h = (vs, h2)" by fastforce
  obtain Lf Mf where t: "item_trees h h2 vs Lf Mf" using 1(1) [OF l] by blast
  have v: "v = GList (length (hp_lists h2))" "h1 = h2\<lparr>hp_lists := hp_lists h2 @ [vs]\<rparr>"
    using 1(2) l by simp_all
  have e: "extends h2 h1" "extends h h2" using v load_extends(2) [OF l] by (simp_all add: extends_def)
  have "tree h1 v (insert (length (hp_lists h2)) (\<Union>i < length vs. Lf i)) (\<Union>i < length vs. Mf i)"
    unfolding v(1) using t v(2) tree_extends [OF _ e(1)]
    by (intro tree_list) (fastforce simp: item_trees_def within_def list_at_def)+
  moreover have "within h h1 (insert (length (hp_lists h2)) (\<Union>i < length vs. Lf i)) (\<Union>i < length vs. Mf i)"
    using t v(2) extends_le [OF e(2)] unfolding item_trees_def within_def by fastforce
  ultimately show ?case by blast
next
  case (2 m h)
  obtain es h2 where l: "load_entries m h = (es, h2)" by fastforce
  obtain Lf Mf where t: "entry_trees h h2 es Lf Mf" using 2(1) [OF l] by blast
  have v: "v = GMap (length (hp_maps h2))" "h1 = h2\<lparr>hp_maps := hp_maps h2 @ [es]\<rparr>"
    using 2(2) l by simp_all
  have e: "extends h2 h1" "extends h h2" using v load_extends(3) [OF l] by (simp_all add: extends_def)
  have "tree h1 v (\<Union>k \<in> dom (map_of es). Lf k) (insert (length (hp_maps h2)) (\<Union>k \<in> dom (map_of es). Mf k))"
    unfolding v(1) using t v(2) tree_extends [OF _ e(1)]
    by (intro tree_map) (fastforce simp: entry_trees_def within_def map_at_def)+
  moreover have "within h h1 (\<Union>k \<in> dom (map_of es). Lf k) (insert (length (hp_maps h2)) (\<Union>k \<in> dom (map_of es). Mf k))"
    using t v(2) extends_le [OF e(2)] unfolding entry_trees_def within_def by fastforce
  ultimately show ?case by blast
next
  case (5 x xs h)
  obtain w h2 where w: "load_json x h = (w, h2)" by fastforce
  obtain ws h3 where ws: "load_items xs h2 = (ws, h3)" by fastforce
  obtain L M where "tree h2 w L M" "within h h2 L M" using "5.IH"(1) [OF w] by blast
  moreover obtain Lf Mf where "item_trees h2 h3 ws Lf Mf" using "5.IH"(2) [OF w [symmetric] refl ws] by blast
  moreover have "vs = w # ws" "h1 = h3" using "5.prems" w ws by simp_all
  ultimately show ?case
    using item_trees_Cons load_extends(1) [OF w] load_extends(2) [OF ws] by blast
next
  case (7 k x m h)
  obtain w h2 where w: "load_json x h = (w, h2)" by fastforce
  obtain ws h3 where ws: "load_entries m h2 = (ws, h3)" by fastforce
  obtain L M where "tree h2 w L M" "within h h2 L M" using "7.IH"(1) [OF w] by blast
  moreover obtain Lf Mf where "entry_trees h2 h3 ws Lf Mf" using "7.IH"(2) [OF w [symmetric] refl ws] by blast
  moreover have "es = (k, w) # AList.delete k ws" "h1 = h3" using "7.prems" w ws by simp_all
  ultimately show ?case
    using entry_trees_Cons load_extends(1) [OF w] load_extends(3) [OF ws] by blast
next
  case (4 h)
  then show ?case by (auto simp: item_trees_def disjoint_family_on_def)
next
  case (6 h)
  then show ?case by (auto simp: entry_trees_def disjoint_family_on_def)
qed (auto simp: within_def intro: tree_atom)

section \<open>The resolver returns\<close>

lemma next_step_Some: "m = Some (Some x, s) \<Longrightarrow> next_step m f = f x s"
  by (simp add: next_step_def)

lemma jsonResolve_good:
  assumes c: "json_ctx K c" and s: "apart s {}"
  shows "\<exists>r s'. jsonResolve c s = Some (r, s') \<and> only_changed K {} {} s s'"
proof (cases "re_unmarshal_any (wc_env c) (wc_content c)")
  case None
  then show ?thesis by (simp add: jsonResolve_def return_value_def only_changed_refl)
next
  case (Some x)
  obtain v h where l: "load_json x (rv_heap s) = (v, h)" by fastforce
  let ?s1 = "s\<lparr>rv_heap := h\<rparr>"
  obtain L M where t: "tree h v L M" and w: "within (rv_heap s) h L M" using load_json_tree(1) [OF l] by blast
  obtain ls ms where e: "hp_lists h = hp_lists (rv_heap s) @ ls" "hp_maps h = hp_maps (rv_heap s) @ ms"
    using load_json_extends(1) [OF l] by blast
  have s1: "only_changed K {} {} s ?s1" by (rule only_changed_extends [OF e])
  have "apart ?s1 M" using s w e unfolding apart_def by (fastforce simp: within_def maps_of_def)
  then have "good_step K L M ?s1 (walk c v (WalkValue v False) ?s1)"
    using tree_bounded [OF t] by (intro walk_tree_good [OF c t]) simp_all
  then obtain r s2 where r: "walk c v (WalkValue v False) ?s1 = Some (r, s2)" "only_changed K L M ?s1 s2"
    unfolding good_step_def by blast
  have "only_changed K {} {} s s2"
    by (rule only_changed_trans [OF s1 r(2)]) (use w in \<open>fastforce simp: within_def lists_of_def maps_of_def\<close>)+
  then show ?thesis
    using Some l r(1) by (cases r) (auto simp: jsonResolve_def next_step_def return_value_def)
qed

lemma resolve_content_good:
  assumes c: "json_ctx K c" and s: "apart s {}" and p: "\<not> is_yaml_path (wc_path c)"
  shows "\<exists>r s'. resolve_content c rr s = Some (r, s') \<and> only_changed K {} {} s s'"
  using jsonResolve_good [OF c s] p by (auto simp: resolve_content_def recovered_def only_changed_refl)

lemma Resolve_returns_for_json:
  assumes "re_Extension e = json_SupportedExtensions" and "range_order (re_order e)"
    and "\<And>p fileContent. re_open e p = Some fileContent \<Longrightarrow> fileContent \<in> K"
  shows "returns_for_json K (Resolve e rr maxDepth left)"
proof (induction left)
  case 0
  show ?case
    using assms unfolding returns_for_json_def Resolve.simps
    by (intro allI impI resolve_content_good) (auto simp: json_ctx_def)
next
  case (Suc left)
  have c: "json_ctx K \<lparr>wc_env = e, wc_at_limit = False, wc_maxResolverDepth = maxDepth, wc_content = f,
      wc_path = p, wc_Resolve = Resolve e rr maxDepth left\<rparr>" if "f \<in> K" for f p
    using assms Suc that by (simp add: json_ctx_def)
  show ?case
    unfolding returns_for_json_def Resolve.simps by (intro allI impI resolve_content_good c) simp_all
qed

text \<open>
  C0. The resolver returns on every JSON document, for every system of files: also where files refer to
  each other in a circle, or the references of a document make it cyclic. What it records as resolved are
  the file itself and files that could be opened, with their lines; without a resolved file the content
  is that of the file.
\<close>

theorem json_resolver_returns:
  assumes "range_order (re_order e)" and "\<not> is_yaml_path filename"
  shows "\<exists>resolved files. json_Resolve e fileContent filename rr maxDepth = Some (resolved, files) \<and>
    (\<forall>(name, rf) \<in> set files. rf_LinesContent rf = SplitLines (rf_Content rf) \<and>
       (rf_Content rf = fileContent \<or> (\<exists>p. re_open e p = Some (rf_Content rf)))) \<and>
    (files = [] \<longrightarrow> resolved = fileContent)"
proof -
  let ?K = "insert fileContent {x. \<exists>p. re_open e p = Some x}"
  let ?e = "e\<lparr>re_Extension := json_SupportedExtensions\<rparr>"
  have "returns_for_json ?K (Resolve ?e rr maxDepth (nat maxDepth))"
    using assms(1) by (intro Resolve_returns_for_json) auto
  moreover have "apart new_state {}" by (simp add: apart_def cached_maps_def new_state_def)
  ultimately obtain r s where r: "Resolve ?e rr maxDepth (nat maxDepth) fileContent filename new_state = Some (r, s)"
    and f: "only_changed ?K {} {} new_state s"
    using assms(2) unfolding returns_for_json_def by blast
  have "contents_in ?K new_state" by (simp add: contents_in_def new_state_def)
  then have "contents_in ?K s" by (rule only_changedD(7) [OF f])
  then show ?thesis using r by (auto simp: json_Resolve_def run_resolver_def contents_in_def)
qed

text \<open>Two files that refer to each other, and to a section that holds the reference itself\<close>

definition example_files :: "(string \<times> jval) list" where
  "example_files =
     [(''a.json'', JObj [(''a'', JList [JObj [(''my$ref'', JStr ''#/a'')]]), (''$ref'', JStr ''b.json'')]),
      (''b.json'', JObj [(''$ref'', JStr ''a.json'')])]"

definition example_resolver :: resolver_env where
  "example_resolver =
     \<lparr>re_stat = (\<lambda>p. p \<in> set [''a.json'', ''b.json'']),
      re_open = (\<lambda>p. if p \<in> set [''a.json'', ''b.json''] then Some p else None),
      re_unmarshal_node = (\<lambda>_. None), re_unmarshal_any = map_of example_files,
      re_marshal_node = (\<lambda>_. None), re_marshal_indent = (\<lambda>_. None), re_Extension = [],
      re_grow = (\<lambda>old new. max new (2 * old)), re_order = id\<rparr>"

theorem json_resolver_returns_witness:
  "\<exists>resolved files. json_Resolve example_resolver ''a.json'' ''a.json'' True 15 = Some (resolved, files) \<and>
    (\<forall>(name, rf) \<in> set files. rf_LinesContent rf = SplitLines (rf_Content rf) \<and>
       (rf_Content rf = ''a.json'' \<or> (\<exists>p. re_open example_resolver p = Some (rf_Content rf)))) \<and>
    (files = [] \<longrightarrow> resolved = ''a.json'')"
proof (rule json_resolver_returns)
  show "range_order (re_order example_resolver)" by (simp add: example_resolver_def range_order_def)
  show "\<not> is_yaml_path ''a.json''" by code_simp
qed

end
