(* ===== verification/YamlResolve.thy ===== *)
theory YamlResolve
  imports FileResolver
begin

text \<open>
  The resolver on YAML documents: a document without references is parsed as it was written. References to
  sections share the arrays of contents, and the metadata are appended to them in place where they have
  room, so that a document can become cyclic; on such a document the resolver does not return.
\<close>

section \<open>Trees in the store\<close>

inductive tree_of :: "store \<Rightarrow> node \<Rightarrow> ytree \<Rightarrow> bool" for h where
  "list_all2 (tree_of h) (children h n) ts \<Longrightarrow> tree_of h n (YTree (nd_Kind n) (nd_Value n) (nd_info n) ts)"

inductive_cases tree_of_cases: "tree_of h n (YTree k w i ts)"

text \<open>Every pointer of an array is one to a node of the store.\<close>

definition pointers_ok :: "store \<Rightarrow> bool" where
  "pointers_ok h \<longleftrightarrow> (\<forall>arr \<in> set (hp_arrays h). \<forall>p \<in> set arr. p < length (hp_nodes h))"

definition same_children :: "store \<Rightarrow> store \<Rightarrow> bool" where
  "same_children h h' \<longleftrightarrow> (\<forall>n. children h' n = children h n)"

lemma tree_of_same: "tree_of h n t \<Longrightarrow> same_children h h' \<Longrightarrow> tree_of h' n t"
proof (induction rule: tree_of.induct)
  case (1 n ts)
  then have "list_all2 (tree_of h') (children h n) ts" by (elim list_all2_mono) blast
  then show ?case using 1(2) by (auto intro!: tree_of.intros simp: same_children_def)
qed

lemma read_trees_tree_of:
  "list_all2 (tree_of h) ns ts \<Longrightarrow> read_trees h ns = Some ts"
proof (induction "size_list size ts" arbitrary: ns ts rule: less_induct)
  case less
  show ?case
  proof (cases ts)
    case Nil
    then show ?thesis using less.prems by (subst read_trees.simps) simp
  next
    case (Cons t ts')
    obtain n ns' where ns: "ns = n # ns'" "tree_of h n t" "list_all2 (tree_of h) ns' ts'"
      using less.prems Cons by (auto simp: list_all2_Cons2)
    obtain kids where t: "t = YTree (nd_Kind n) (nd_Value n) (nd_info n) kids" "list_all2 (tree_of h) (children h n) kids"
      using ns(2) by (auto elim: tree_of.cases)
    have "read_trees h (children h n) = Some kids"
      using less.hyps [of kids "children h n"] t Cons by simp
    moreover have "read_trees h ns' = Some ts'" using less.hyps [of ts' ns'] ns(3) Cons by simp
    ultimately show ?thesis using ns(1) t(1) Cons by (subst read_trees.simps) simp
  qed
qed

section \<open>Documents that are read are trees\<close>

definition grows :: "store \<Rightarrow> store \<Rightarrow> bool" where
  "grows h h' \<longleftrightarrow> (\<exists>ns as. hp_nodes h' = hp_nodes h @ ns \<and> hp_arrays h' = hp_arrays h @ as)"

lemma grows_refl: "grows h h" and grows_trans: "grows h h1 \<Longrightarrow> grows h1 h2 \<Longrightarrow> grows h h2"
  by (auto simp: grows_def)

definition node_ok :: "store \<Rightarrow> node \<Rightarrow> bool" where
  "node_ok h n \<longleftrightarrow> sl_array (nd_Content n) < length (hp_arrays h)"

lemma children_grows:
  assumes "pointers_ok h" and "node_ok h n" and "grows h h'"
  shows "children h' n = children h n"
proof -
  have "contents h' (nd_Content n) = contents h (nd_Content n)"
    using assms(2,3) by (auto simp: contents_def slice_array_def grows_def node_ok_def nth_append)
  moreover have "node_at h' p = node_at h p" if "p \<in> set (contents h (nd_Content n))" for p
  proof -
    have "p < length (hp_nodes h)"
      using that assms(1,2) by (auto simp: contents_def slice_array_def pointers_ok_def node_ok_def dest!: in_set_takeD)
    then show ?thesis using assms(3) by (auto simp: node_at_def grows_def nth_append)
  qed
  ultimately show ?thesis by (simp add: children_def)
qed


text \<open>A tree all of whose nodes have their arrays in the store\<close>

inductive loaded :: "store \<Rightarrow> node \<Rightarrow> ytree \<Rightarrow> bool" for h where
  "node_ok h n \<Longrightarrow> list_all2 (loaded h) (children h n) ts \<Longrightarrow>
     loaded h n (YTree (nd_Kind n) (nd_Value n) (nd_info n) ts)"

lemma loaded_tree_of: "loaded h n t \<Longrightarrow> tree_of h n t"
proof (induction rule: loaded.induct)
  case (1 n ts)
  then have "list_all2 (tree_of h) (children h n) ts" by (elim list_all2_mono) blast
  then show ?case by (rule tree_of.intros)
qed

lemma loaded_grows: "loaded h n t \<Longrightarrow> pointers_ok h \<Longrightarrow> grows h h' \<Longrightarrow> loaded h' n t"
proof (induction rule: loaded.induct)
  case (1 n ts)
  then have "list_all2 (loaded h') (children h n) ts" by (elim list_all2_mono) blast
  then show ?case using children_grows [OF 1(3) 1(1) 1(4)] 1(1,4)
    by (intro loaded.intros) (auto simp: node_ok_def grows_def)
qed

definition store_ok :: "store \<Rightarrow> bool" where
  "store_ok h \<longleftrightarrow> pointers_ok h \<and> hp_arrays h \<noteq> [] \<and> hd (hp_arrays h) = []"

lemma store_ok_node: "store_ok h \<Longrightarrow> store_ok (h\<lparr>hp_nodes := hp_nodes h @ [n]\<rparr>)"
  by (auto simp: store_ok_def pointers_ok_def intro: less_SucI)

lemma store_ok_array:
  "store_ok h \<Longrightarrow> \<forall>p \<in> set arr. p < length (hp_nodes h) \<Longrightarrow> store_ok (h\<lparr>hp_arrays := hp_arrays h @ [arr]\<rparr>)"
  by (auto simp: store_ok_def pointers_ok_def)

lemma load_tree_loaded:
  "load_tree grow t h = (n, h') \<Longrightarrow> store_ok h \<Longrightarrow> store_ok h' \<and> grows h h' \<and> loaded h' n t"
  "load_trees grow ts h = (ps, h') \<Longrightarrow> store_ok h \<Longrightarrow> store_ok h' \<and> grows h h' \<and>
     (\<forall>p \<in> set ps. p < length (hp_nodes h')) \<and> list_all2 (loaded h') (map (node_at h') ps) ts"
proof (induction grow t h and grow ts h arbitrary: n h' and ps h' rule: load_tree_load_trees.induct)
  case (1 grow kind w info ts h)
  obtain ps h1 where l: "load_trees grow ts h = (ps, h1)" by fastforce
  note ih = "1.IH" [OF l "1.prems"(2)]
  let ?n = "\<lparr>nd_Kind = kind, nd_Value = w, nd_Content = nil_slice, nd_info = info\<rparr>"
  show ?case
  proof (cases "ps = []")
    case True
    then have n: "n = ?n" "h' = h1" and ts: "ts = []" using "1.prems"(1) l ih by simp_all
    have "children h1 ?n = []" by (simp add: children_def contents_def nil_slice_def)
    moreover have "node_ok h1 ?n" using ih by (auto simp: node_ok_def nil_slice_def store_ok_def)
    ultimately have "loaded h1 ?n (YTree (nd_Kind ?n) (nd_Value ?n) (nd_info ?n) [])"
      by (intro loaded.intros) simp_all
    then show ?thesis using ih n ts by simp
  next
    case False
    let ?arr = "ps @ replicate (capacity grow (length ps) - length ps) 0"
    let ?m = "?n\<lparr>nd_Content := \<lparr>sl_array = length (hp_arrays h1), sl_len = length ps\<rparr>\<rparr>"
    have n: "n = ?m" "h' = h1\<lparr>hp_arrays := hp_arrays h1 @ [?arr]\<rparr>" using "1.prems"(1) l False by simp_all
    have g: "grows h1 h'" using n by (simp add: grows_def)
    have p: "\<forall>p \<in> set ?arr. p < length (hp_nodes h1)" using ih False by (fastforce simp: neq_Nil_conv)
    have ok: "store_ok h'" unfolding n(2) using ih p by (intro store_ok_array) auto
    have "children h' ?m = map (node_at h1) ps"
      using n(2) by (simp add: children_def contents_def slice_array_def node_at_def)
    moreover have "list_all2 (loaded h') (map (node_at h1) ps) ts"
    proof -
      have a: "list_all2 (loaded h1) (map (node_at h1) ps) ts" and o: "pointers_ok h1"
        using ih by (simp_all add: store_ok_def)
      show ?thesis by (rule list_all2_mono [OF a]) (rule loaded_grows [OF _ o g])
    qed
    ultimately have "loaded h' ?m (YTree (nd_Kind ?m) (nd_Value ?m) (nd_info ?m) ts)"
      using n by (intro loaded.intros) (simp_all add: node_ok_def)
    then show ?thesis using ih n(1) ok g grows_trans by auto
  qed
next
  case (3 grow t ts h)
  obtain n h1 where l: "load_tree grow t h = (n, h1)" by fastforce
  obtain p h2 where p: "new_node n h1 = (p, h2)" by fastforce
  obtain qs h3 where r: "load_trees grow ts h2 = (qs, h3)" by fastforce
  note ih = "3.IH"(1) [OF l "3.prems"(2)]
  have h2: "h2 = h1\<lparr>hp_nodes := hp_nodes h1 @ [n]\<rparr>" "p = length (hp_nodes h1)" using p by (auto simp: new_node_def)
  have g2: "grows h1 h2" and ok2: "store_ok h2" using h2 ih by (auto simp: grows_def intro: store_ok_node)
  note ih2 = "3.IH"(2) [OF l [symmetric] refl p [symmetric] refl r ok2]
  have g3: "grows h1 h3" using g2 ih2 grows_trans by blast
  have n: "node_at h3 p = n" and pl: "p < length (hp_nodes h3)" using ih2 h2 by (auto simp: grows_def node_at_def nth_append)
  have "loaded h3 n t" using ih g3 by (auto intro: loaded_grows simp: store_ok_def)
  then show ?case using "3.prems"(1) l p r ih ih2 g3 n pl grows_trans by auto
qed (simp_all add: grows_refl)

section \<open>Plain documents\<close>

text \<open>
  A scalar that the walk leaves as it is: it names the file itself, begins with a hash, or names no file
  that the resolver would read. No value looks like a key of a reference.
\<close>

definition plain_scalar :: "resolver_env \<Rightarrow> string \<Rightarrow> string \<Rightarrow> bool" where
  "plain_scalar e path w \<longleftrightarrow> w = Base path \<or> has_prefix w hash \<or>
     (\<forall>ansibleVars. findFilePath e (Dir path) (checkServerlessFileReference w) ansibleVars = None)"

fun plain_tree :: "resolver_env \<Rightarrow> string \<Rightarrow> ytree \<Rightarrow> bool" where
  "plain_tree e path (YTree kind w info ts) \<longleftrightarrow>
     \<not> contains w ''$ref'' \<and> (kind = Some ScalarNode \<longrightarrow> plain_scalar e path w) \<and> list_all (plain_tree e path) ts"

lemma walk_plain_scalar:
  assumes "nd_Kind n = Some ScalarNode" and "plain_scalar (wc_env c) (wc_path c) (nd_Value n)"
  shows "yamlWalk c full (WalkNode n False ansible) s = return_value (n, False) s"
  using assms
  by (subst yamlWalk.simps) (auto simp: plain_scalar_def resolveYamlPath_def not_followed_def Let_def)

lemma walk_node:
  "nd_Kind n \<noteq> Some ScalarNode \<Longrightarrow>
     yamlWalk c full (WalkNode n ref ansible) s = yamlWalk c full (WalkContent n 0) s"
  by (subst yamlWalk.simps) simp

lemma walk_content_end:
  "length (children (rv_heap s) n) \<le> i \<Longrightarrow> yamlWalk c full (WalkContent n i) s = return_value (n, False) s"
  by (subst yamlWalk.simps) (simp add: children_def)

lemma key_has_iff:
  "i \<le> length (children h n) \<Longrightarrow>
     key_has h n i w \<longleftrightarrow> 1 \<le> i \<and> contains (nd_Value (children h n ! (i - 1))) w"
  by (auto simp: key_has_def item_at_def children_def)

lemma walk_content_item:
  assumes "i < length (children (rv_heap s) n)" and "\<not> key_has (rv_heap s) n i ''$ref''"
    and "yamlWalk c full (WalkNode (children (rv_heap s) n ! i) False (key_has (rv_heap s) n i ''include_vars'')) s
           = return_value (r, ok) s1"
  shows "yamlWalk c full (WalkContent n i) s =
    yamlWalk c full (WalkContent n (Suc i))
      (s1\<lparr>rv_heap := set_item (nd_Content n) i (length (hp_nodes (rv_heap s1))) (snd (new_node r (rv_heap s1)))\<rparr>)"
  using assms
  by (subst yamlWalk.simps) (simp add: children_def item_at_def next_step_def return_value_def new_node_def)

text \<open>An item is replaced by a node that is the same.\<close>

lemma same_children_set_item:
  assumes "pointers_ok h" and i: "i < length (children h n)"
  shows "same_children h (set_item (nd_Content n) i (length (hp_nodes h)) (snd (new_node (children h n ! i) h)))"
    and "pointers_ok (set_item (nd_Content n) i (length (hp_nodes h)) (snd (new_node (children h n ! i) h)))"
proof -
  let ?m = "children h n ! i" and ?a = "sl_array (nd_Content n)"
  let ?h = "h\<lparr>hp_nodes := hp_nodes h @ [?m]\<rparr>"
  let ?h' = "set_item (nd_Content n) i (length (hp_nodes h)) ?h"
  have eq: "snd (new_node ?m h) = ?h" by (simp add: new_node_def)
  have a: "?a < length (hp_arrays h)" and il: "i < length (hp_arrays h ! ?a)"
    and m: "?m = node_at h (hp_arrays h ! ?a ! i)"
    using i by (auto simp: children_def contents_def slice_array_def split: if_splits)
  have old: "node_at ?h' p = node_at h p" if "p < length (hp_nodes h)" for p
    using that by (simp add: node_at_def set_item_def nth_append)
  have new: "node_at ?h' (length (hp_nodes h)) = ?m" by (simp add: node_at_def set_item_def)
  have arr: "hp_arrays ?h' = (hp_arrays h)[?a := (hp_arrays h ! ?a)[i := length (hp_nodes h)]]"
    using a by (simp add: set_item_def slice_array_def)
  have arrays: "map (node_at ?h') (hp_arrays ?h' ! b) = map (node_at h) (hp_arrays h ! b)" if b: "b < length (hp_arrays h)" for b
  proof (rule nth_equalityI)
    show "length (map (node_at ?h') (hp_arrays ?h' ! b)) = length (map (node_at h) (hp_arrays h ! b))"
      using arr a b by (simp add: nth_list_update)
    fix j assume "j < length (map (node_at ?h') (hp_arrays ?h' ! b))"
    then have j: "j < length (hp_arrays h ! b)" using arr a b by (simp add: nth_list_update split: if_splits)
    then have "hp_arrays h ! b ! j < length (hp_nodes h)" using assms(1) b unfolding pointers_ok_def by (meson nth_mem)
    then show "map (node_at ?h') (hp_arrays ?h' ! b) ! j = map (node_at h) (hp_arrays h ! b) ! j"
      using arr a b j old new m by (cases "b = ?a"; cases "j = i") simp_all
  qed
  have "children ?h' k = children h k" for k
  proof (cases "sl_array (nd_Content k) < length (hp_arrays h)")
    case True
    then show ?thesis using arrays [OF True] arr by (simp add: children_def contents_def slice_array_def flip: take_map)
  next
    case False
    then show ?thesis using arr by (simp add: children_def contents_def slice_array_def)
  qed
  then show "same_children h (set_item (nd_Content n) i (length (hp_nodes h)) (snd (new_node ?m h)))"
    unfolding eq same_children_def by blast
  show "pointers_ok (set_item (nd_Content n) i (length (hp_nodes h)) (snd (new_node ?m h)))"
    unfolding eq pointers_ok_def arr
    using assms(1) a by (fastforce simp: pointers_ok_def set_item_def dest!: set_update_subset_insert [THEN subsetD])
qed

text \<open>The walk of a plain tree gives the node it was called with, in a store with the same trees.\<close>

definition kept_walk :: "walk_ctx \<Rightarrow> node \<Rightarrow> yaml_task \<Rightarrow> node \<Rightarrow> resolver_state \<Rightarrow> bool" where
  "kept_walk c full t n s \<longleftrightarrow>
     (\<exists>h. yamlWalk c full t s = return_value (n, False) (s\<lparr>rv_heap := h\<rparr>) \<and> same_children (rv_heap s) h \<and> pointers_ok h)"

lemma same_children_trans: "same_children h h1 \<Longrightarrow> same_children h1 h2 \<Longrightarrow> same_children h h2"
  by (simp add: same_children_def)

lemma walk_plain_contents:
  assumes kids: "\<And>i s ansible. i < length kids \<Longrightarrow> same_children h (rv_heap s) \<Longrightarrow> pointers_ok (rv_heap s) \<Longrightarrow>
      kept_walk c full (WalkNode (kids ! i) False ansible) (kids ! i) s"
    and keys: "\<And>k. k \<in> set kids \<Longrightarrow> \<not> contains (nd_Value k) ''$ref''"
    and h: "children h n = kids"
  shows "\<lbrakk>i \<le> length kids; same_children h (rv_heap s); pointers_ok (rv_heap s)\<rbrakk>
    \<Longrightarrow> kept_walk c full (WalkContent n i) n s"
proof (induction "length kids - i" arbitrary: i s)
  case 0
  then have "length (children (rv_heap s) n) \<le> i" using h by (simp add: same_children_def)
  then show ?case using 0 by (auto simp: kept_walk_def walk_content_end same_children_def intro!: exI [of _ "rv_heap s"])
next
  case (Suc k)
  have i: "i < length kids" using Suc.hyps(2) by simp
  have ch: "children (rv_heap s) n = kids" using Suc.prems(2) h by (simp add: same_children_def)
  obtain h1 where h1: "yamlWalk c full (WalkNode (kids ! i) False (key_has (rv_heap s) n i ''include_vars'')) s
      = return_value (kids ! i, False) (s\<lparr>rv_heap := h1\<rparr>)" "same_children (rv_heap s) h1" "pointers_ok h1"
    using kids [OF i Suc.prems(2,3)] unfolding kept_walk_def by blast
  have ch1: "children h1 n = kids" using ch h1(2) by (simp add: same_children_def)
  let ?h2 = "set_item (nd_Content n) i (length (hp_nodes h1)) (snd (new_node (kids ! i) h1))"
  have h2: "same_children h1 ?h2" "pointers_ok ?h2"
    using same_children_set_item [OF h1(3), of i n] ch1 i by simp_all
  have nokey: "\<not> key_has (rv_heap s) n i ''$ref''"
    using i keys [of "kids ! (i - 1)"] by (simp add: key_has_iff ch)
  have step: "yamlWalk c full (WalkContent n i) s = yamlWalk c full (WalkContent n (Suc i)) (s\<lparr>rv_heap := ?h2\<rparr>)"
    using walk_content_item [of i s n c full "kids ! i" False "s\<lparr>rv_heap := h1\<rparr>"] i nokey h1(1) ch by simp
  have same: "same_children (rv_heap s) ?h2" using same_children_trans [OF h1(2) h2(1)] .
  then have "kept_walk c full (WalkContent n (Suc i)) n (s\<lparr>rv_heap := ?h2\<rparr>)"
    using Suc.hyps(2) i h2(2) same_children_trans [OF Suc.prems(2) same] by (intro Suc.hyps(1)) simp_all
  then obtain h3 where "yamlWalk c full (WalkContent n (Suc i)) (s\<lparr>rv_heap := ?h2\<rparr>) = return_value (n, False) (s\<lparr>rv_heap := h3\<rparr>)"
      "same_children ?h2 h3" "pointers_ok h3"
    unfolding kept_walk_def by auto
  then show ?case using step same_children_trans [OF same] unfolding kept_walk_def by auto
qed

lemma walk_plain_tree:
  "tree_of h n t \<Longrightarrow> plain_tree (wc_env c) (wc_path c) t \<Longrightarrow> same_children h (rv_heap s) \<Longrightarrow> pointers_ok (rv_heap s) \<Longrightarrow>
     kept_walk c full (WalkNode n False ansible) n s"
proof (induction arbitrary: s ansible rule: tree_of.induct)
  case (1 n ts)
  show ?case
  proof (cases "nd_Kind n = Some ScalarNode")
    case True
    then show ?thesis
      using 1 walk_plain_scalar [OF True, of c full ansible s]
      by (auto simp: kept_walk_def same_children_def intro!: exI [of _ "rv_heap s"])
  next
    case False
    have ts: "list_all2 (tree_of h) (children h n) ts" using 1(1) by (rule list_all2_mono) simp
    have kid: "tree_of h k t \<and> plain_tree (wc_env c) (wc_path c) t" if "(k, t) \<in> set (zip (children h n) ts)" for k t
      using that ts 1(2) by (auto simp: list_all2_iff list_all_iff dest: set_zip_rightD)
    have "kept_walk c full (WalkContent n 0) n s"
    proof (rule walk_plain_contents [OF _ _ refl])
      show "kept_walk c full (WalkNode (children h n ! i) False a) (children h n ! i) s'"
        if "i < length (children h n)" "same_children h (rv_heap s')" "pointers_ok (rv_heap s')" for i s' a
        using 1(1,2) that by (auto simp: list_all2_conv_all_nth list_all_length)
      show "\<not> contains (nd_Value k) ''$ref''" if k: "k \<in> set (children h n)" for k
      proof -
        obtain t where "(k, t) \<in> set (zip (children h n) ts)"
          using k ts by (metis in_set_impl_in_set_zip1 list_all2_lengthD)
        then show ?thesis using kid by (fastforce elim: tree_of.cases)
      qed
    qed (use 1 in simp_all)
    then show ?thesis using walk_node [OF False] by (simp add: kept_walk_def)
  qed
qed

lemma document_node_tree: "tree_of h n t \<Longrightarrow> \<exists>u. tree_of h (document_node h n) u"
proof (induction rule: tree_of.induct)
  case (1 n ts)
  have "document_node h n = n \<or> children h n = [document_node h n]"
    by (simp add: document_node_def split: list.split)
  moreover have "\<exists>u. tree_of h k u" if "children h n = [k]" for k
    using 1 that by (auto simp: list_all2_Cons1)
  moreover have "tree_of h n (YTree (nd_Kind n) (nd_Value n) (nd_info n) ts)"
    using 1 by (intro tree_of.intros) (auto elim: list_all2_mono)
  ultimately show ?case by metis
qed

text \<open>
  C0. A YAML file without references is parsed as it was written: the resolver returns, records no
  resolved file, and the parser gets the content of the file.
\<close>

theorem plain_yaml_kept:
  assumes "is_yaml_path filename"
    and "\<And>t. re_unmarshal_node e fileContent = Some t \<Longrightarrow>
           plain_tree (e\<lparr>re_Extension := yaml_SupportedExtensions\<rparr>) filename t"
  shows "yaml_Resolve e fileContent filename rr maxDepth = Some (fileContent, [])"
proof -
  let ?e = "e\<lparr>re_Extension := yaml_SupportedExtensions\<rparr>"
  have y: "\<exists>r h. yamlResolve c new_state = Some (Some r, new_state\<lparr>rv_heap := h\<rparr>)"
    if c: "wc_env c = ?e" "wc_path c = filename" "wc_content c = fileContent" for c
  proof (cases "re_unmarshal_node e fileContent")
    case None
    then show ?thesis using c by (auto simp: yamlResolve_def return_value_def intro!: exI [of _ "rv_heap new_state"])
  next
    case (Some t)
    obtain n h where l: "load_tree (re_grow ?e) t empty_store = (n, h)" by fastforce
    have "store_ok empty_store" by (simp add: store_ok_def pointers_ok_def empty_store_def)
    then have h: "store_ok h" "tree_of h n t" using load_tree_loaded(1) [OF l] loaded_tree_of by blast+
    let ?s = "new_state\<lparr>rv_heap := h\<rparr>"
    have "kept_walk c n (WalkNode n False False) n ?s"
      using h assms(2) [OF Some] c by (intro walk_plain_tree [OF h(2)]) (simp_all add: same_children_def store_ok_def)
    then obtain h1 where h1: "yamlWalk c n (WalkNode n False False) ?s = Some (Some (n, False), ?s\<lparr>rv_heap := h1\<rparr>)"
        "same_children h h1"
      unfolding kept_walk_def return_value_def by auto
    have t1: "tree_of h1 n t" by (rule tree_of_same [OF h(2) h1(2)])
    then obtain u where "tree_of h1 (document_node h1 n) u" using document_node_tree by blast
    then have "read_trees h1 [document_node h1 n] = Some [u]"
      by (intro read_trees_tree_of) simp
    then show ?thesis
      using Some l h1(1) c
      by (auto simp: yamlResolve_def next_step_def return_value_def new_state_def)
  qed
  have "\<exists>r h. resolve_content c rr new_state = Some (r, new_state\<lparr>rv_heap := h\<rparr>)"
    if "wc_env c = ?e" "wc_path c = filename" "wc_content c = fileContent" for c
  proof (cases "\<not> rr \<and> isOpenAPI (wc_content c)")
    case True
    then show ?thesis by (intro exI [of _ fileContent] exI [of _ "rv_heap new_state"]) (use that in \<open>simp add: resolve_content_def\<close>)
  next
    case False
    then show ?thesis using y [OF that] that assms(1) by (auto simp: resolve_content_def recovered_def)
  qed
  then have "\<exists>r h. Resolve ?e rr maxDepth left fileContent filename new_state = Some (r, new_state\<lparr>rv_heap := h\<rparr>)" for left
    by (cases left) simp_all
  then obtain r h where "Resolve ?e rr maxDepth (nat maxDepth) fileContent filename new_state = Some (r, new_state\<lparr>rv_heap := h\<rparr>)"
    by blast
  then show ?thesis by (simp add: yaml_Resolve_def run_resolver_def new_state_def)
qed

text \<open>A document of text, and of a path that names the file itself\<close>

definition example_leaf :: "string \<Rightarrow> ytree" where
  "example_leaf w = YTree (Some ScalarNode) w zero_info []"

definition example_mapping :: "ytree list \<Rightarrow> ytree" where
  "example_mapping ts = YTree (Some MappingNode) [] zero_info ts"

definition example_document :: "ytree \<Rightarrow> ytree" where
  "example_document t = YTree (Some DocumentNode) [] zero_info [t]"

definition example_plain :: ytree where
  "example_plain = example_document (example_mapping
     [example_leaf ''file'', example_leaf ''f.yaml'', example_leaf ''a'', example_mapping [example_leaf ''b'', example_leaf ''#c'']])"

text \<open>The capacity of a new array is doubled, as the runtime does for small arrays.\<close>

definition yaml_example :: "ytree \<Rightarrow> resolver_env" where
  "yaml_example t =
     \<lparr>re_stat = (\<lambda>p. p = ''f.yaml''), re_open = (\<lambda>p. None), re_unmarshal_node = (\<lambda>_. Some t),
      re_unmarshal_any = (\<lambda>_. None), re_marshal_node = (\<lambda>_. Some []), re_marshal_indent = (\<lambda>_. None),
      re_Extension = [], re_grow = (\<lambda>old new. max new (2 * old)), re_order = id\<rparr>"

lemma example_plain_tree:
  "plain_tree (yaml_example example_plain\<lparr>re_Extension := yaml_SupportedExtensions\<rparr>) ''f.yaml'' example_plain"
  by code_simp

theorem plain_yaml_kept_witness:
  "yaml_Resolve (yaml_example example_plain) ''x'' ''f.yaml'' True 15 = Some (''x'', [])"
proof (rule plain_yaml_kept)
  show "is_yaml_path ''f.yaml''" by code_simp
  show "plain_tree (yaml_example example_plain\<lparr>re_Extension := yaml_SupportedExtensions\<rparr>) ''f.yaml'' t"
    if "re_unmarshal_node (yaml_example example_plain) ''x'' = Some t" for t
    using that example_plain_tree by (simp add: yaml_example_def)
qed

section \<open>Cyclic documents\<close>

text \<open>A node that is one of its own children has no tree.\<close>

lemma read_trees_below:
  "read_trees h ns = Some ts \<Longrightarrow> n \<in> set ns \<Longrightarrow>
     \<exists>kids. read_trees h (children h n) = Some kids \<and> size_list size kids < size_list size ts"
proof (induction ns arbitrary: ts)
  case (Cons m ns)
  obtain kids rest where k: "read_trees h (children h m) = Some kids" "read_trees h ns = Some rest"
    and ts: "ts = YTree (nd_Kind m) (nd_Value m) (nd_info m) kids # rest"
    using Cons.prems(1) by (subst (asm) read_trees.simps) (auto split: bind_splits)
  show ?case
  proof (cases "n = m")
    case True
    then show ?thesis using k ts by auto
  next
    case False
    then show ?thesis using Cons.IH [OF k(2)] Cons.prems(2) ts by fastforce
  qed
qed simp

lemma read_trees_cyclic: "n \<in> set (children h n) \<Longrightarrow> n \<in> set ns \<Longrightarrow> read_trees h ns = None"
proof (rule ccontr)
  assume n: "n \<in> set (children h n)" and "n \<in> set ns" and "read_trees h ns \<noteq> None"
  then obtain ts where ts: "read_trees h ns = Some ts" by blast
  have "read_trees h ms = Some us \<Longrightarrow> n \<in> set ms \<Longrightarrow> False" for ms us
    by (induction "size_list size us" arbitrary: ms us rule: less_induct) (metis n read_trees_below)
  then show False using ts \<open>n \<in> set ns\<close> by blast
qed

lemma read_trees_above: "read_trees h (children h n) = None \<Longrightarrow> n \<in> set ns \<Longrightarrow> read_trees h ns = None"
proof (rule ccontr)
  assume a: "read_trees h (children h n) = None" "n \<in> set ns" and "read_trees h ns \<noteq> None"
  then obtain ts where "read_trees h ns = Some ts" by blast
  then show False using read_trees_below [of h ns ts n] a by auto
qed

text \<open>
  A mapping of three entries, the last of which holds a reference to the mapping under a key that has \<open>$ref\<close>
  in its name
\<close>

definition example_cyclic :: ytree where
  "example_cyclic = example_document (example_mapping
     [example_leaf ''a'', example_mapping
        [example_leaf ''k1'', example_leaf ''1'', example_leaf ''k2'', example_leaf ''2'', example_leaf ''k3'',
         example_mapping [example_leaf ''my$ref'', example_leaf ''#/a'']]])"

definition child :: "store \<Rightarrow> nat \<Rightarrow> node \<Rightarrow> node" where
  "child h i n = (if i < length (children h n) then children h n ! i else n)"

definition cyclic_below :: "store \<Rightarrow> node \<Rightarrow> bool" where
  "cyclic_below h n \<longleftrightarrow>
     (let mapping = child h 1 n; r = child h 5 mapping in
      1 < length (children h n) \<and> 5 < length (children h mapping) \<and> r \<in> set (children h r))"

definition example_ctx :: "(string \<Rightarrow> string \<Rightarrow> resolver_state \<Rightarrow> (string \<times> resolver_state) option) \<Rightarrow> walk_ctx" where
  "example_ctx resolve =
     \<lparr>wc_env = yaml_example example_cyclic\<lparr>re_Extension := yaml_SupportedExtensions\<rparr>, wc_at_limit = False,
      wc_maxResolverDepth = 15, wc_content = ''x'', wc_path = ''f.yaml'', wc_Resolve = resolve\<rparr>"

lemma example_walk_cyclic:
  "case load_tree (re_grow (yaml_example example_cyclic)) example_cyclic empty_store of (obj, h) \<Rightarrow>
     (case yamlWalk (example_ctx resolve) obj (WalkNode obj False False) (new_state\<lparr>rv_heap := h\<rparr>) of
        Some (Some (n, _), s) \<Rightarrow> cyclic_below (rv_heap s) (document_node (rv_heap s) n)
      | _ \<Rightarrow> False)"
  by code_simp

lemma cyclic_below_None: "cyclic_below h n \<Longrightarrow> read_trees h [n] = None"
proof -
  assume c: "cyclic_below h n"
  let ?m = "child h 1 n" and ?r = "child h 5 (child h 1 n)"
  have m: "?m \<in> set (children h n)" and r: "?r \<in> set (children h ?m)" and rr: "?r \<in> set (children h ?r)"
    using c by (auto simp: cyclic_below_def Let_def child_def split: if_splits)
  have "read_trees h (children h ?m) = None" by (rule read_trees_cyclic [OF rr r])
  then have "read_trees h (children h n) = None" using m by (rule read_trees_above)
  then show ?thesis by (rule read_trees_above) simp
qed


end
