(* ===== verification/Spec2Isabelle.thy ===== *)
theory Spec2Isabelle
  imports Service YamlDoc Remediation Analyzer ScanReport JsonLine ScanClient JsonResolve YamlResolve
begin

text \<open>
  KICS, a scanner of infrastructure as code, written in Go; paths below are under \<open>src/\<close>.

  \<^bold>\<open>The program.\<close> A scan takes paths from the command line. The analyzer (\<open>pkg/analyzer\<close>) guesses from the
  files which platforms they are for; the source provider (\<open>pkg/engine/provider\<close>) walks the file system and
  calls a sink for each file and a resolver for each chart; the service (\<open>pkg/kics\<close>) lets the file parsers
  (\<open>pkg/parser\<close>) make documents of the contents, with line information, after the reference resolver
  (\<open>pkg/resolver/file\<close>) has replaced references to files and sections, and saves them in the storage
  (\<open>internal/storage\<close>). The scan client (\<open>pkg/scan\<close>) makes the services, the scanner (\<open>pkg/scanner\<close>) runs them
  at the same time, and the client writes the reports, the statistics and the exit code. The inspector (\<open>pkg/engine\<close>) takes the queries of the query source
  (\<open>pkg/engine/source\<close>), evaluates each of them on the documents, and makes a vulnerability of each result: the
  vulnerability builder finds the line of the result with the line detectors (\<open>pkg/detector\<close>) and computes
  the similarity id. The secrets inspector (\<open>pkg/engine/secrets\<close>) matches its rules against the contents. The
  summary (\<open>pkg/model/summary.go\<close>) groups the vulnerabilities by query, the reports (\<open>pkg/report\<close>) print it, and
  the remediation (\<open>pkg/remediation\<close>) rewrites files and checks each fix by another scan.

  \<^bold>\<open>Conventions.\<close> A struct is a record, whose fields have a prefix of their own where Go's name is taken; a Go
  map is an association list without duplicate keys (\<open>gomap\<close>), and where the code ranges over one its order is a
  parameter; strings are lists of bytes; Go's \<open>int\<close> is \<open>int\<close> where no value the code computes can leave its 64
  bits. A panic is \<open>None\<close>, an error a value of its own (\<open>Inl\<close>, or a component of the result); a loop that may not
  end is a \<open>partial_function\<close>. What third-party code or the operating system does is a parameter, collected in
  a record for each component (\<open>builder_env\<close>, \<open>secrets_env\<close>, \<open>sarif_env\<close>, ...): the Rego evaluation, the parsers of HCL, YAML
  and JSON, regular expressions of the rules, hashing, the file system, the order of goroutines. No definition
  needs fuel: \<open>Resolve\<close> of the reference resolver recurses on the depth that is left of \<open>maxResolverDepth\<close>, as the code
  does, and \<open>read_json\<close> stops at a depth no acyclic value of the store has. Goroutines and channels are a step
  relation (\<open>Scanner\<close>), objects that are shared and changed live in a store (\<open>FileResolver\<close>). Logging and metrics are
  left out, and of the progress bar all but its channel.

  \<^bold>\<open>Theories.\<close>
  \<^item> \<open>Prelude\<close>, \<open>GoStrings\<close>: slices, maps, integer division and the functions of package \<open>strings\<close>, with the
    lemmas all others share. \<open>ModelTypes\<close>: the records of \<open>pkg/model\<close>.
  \<^item> \<open>Storage\<close> (\<open>internal/storage/memory.go\<close>), \<open>Tracker\<close> (\<open>internal/tracker/ci.go\<close>, with the interfaces of the
    engine and the service as locales).
  \<^item> \<open>DetectHelper\<close>, \<open>LineSearch\<close> (\<open>pkg/detector/helper.go\<close>), \<open>DetectLine\<close> (default detector, registry and search by
    path; the locale \<open>line_detector\<close> is the contract of a detector), \<open>TerraformDetect\<close>, \<open>HelmDetect\<close>.
  \<^item> \<open>Similarity\<close>, \<open>VulnBuilder\<close>, \<open>QuerySource\<close>, \<open>Jsonencode\<close>, \<open>Inspector\<close>: package \<open>pkg/engine\<close>.
  \<^item> \<open>FileParser\<close> (\<open>pkg/parser/parser.go\<close> and \<open>pkg/minified\<close>), \<open>YamlDoc\<close> (\<open>pkg/model/model_yaml.go\<close> and the comments that
    switch queries off), \<open>JsonLine\<close> (\<open>pkg/parser/json\<close>).
  \<^item> \<open>FileResolver\<close> (\<open>pkg/resolver/file/file.go\<close> and its calls in the parsers: a store of nodes with the arrays of their
    contents, of lists and of maps), \<open>JsonResolve\<close> (it returns on every JSON document, by footprints in the store)
    and \<open>YamlResolve\<close> (plain documents, and a document on which it does not return).
  \<^item> \<open>Service\<close> (\<open>pkg/kics\<close>), \<open>Provider\<close> (\<open>pkg/engine/provider/filesystem.go\<close>), \<open>Analyzer\<close>, \<open>Secrets\<close>.
  \<^item> \<open>Summary\<close>, \<open>Reports\<close> (\<open>pkg/report/model\<close>), \<open>SarifFix\<close> (\<open>pkg/report/remediations\<close>), \<open>Sarif\<close>, \<open>ScanReport\<close>.
  \<^item> \<open>Helpers\<close> (\<open>pkg/utils\<close>), \<open>Remediation\<close>.
  \<^item> \<open>Scanner\<close> (\<open>pkg/scanner/scanner.go\<close>, what the goroutines of the services send, and the progress bar), \<open>ScanClient\<close>
    (\<open>pkg/scan\<close> and the helpers of \<open>internal/console\<close> it calls).

  \<^bold>\<open>What is shown.\<close> That the results do not depend on the schedule: of the inspector's workers, of the services, of
  the analyzer's workers, of the secrets inspector. That what is reported is right: each vulnerability belongs to a
  file of the scan and a line of it, each secret to a rule and a line, no result on an ignored line is kept, the
  summary counts each result once and the reports list the same places. That documents are as the code means
  them: lines of keys in YAML and JSON, no line information in what the queries see, decoded \<open>jsonencode\<close>
  literals. That a scan without error has stored what every service found, that none of its
  goroutines is left waiting, and that its statistics and exit code are those of the results. That operations end or end with an error where they should, and where they do not. That a fix
  is only written after a scan has confirmed it.

  \<^bold>\<open>Not modelled.\<close> The generated parsers (\<open>pkg/parser/bicep/antlr\<close>, \<open>pkg/parser/jsonfilter/parser\<close>) and the
  parsers that convert the syntax trees of libraries: Bicep (ANTLR), Terraform and the query builder (hashicorp/hcl,
  which also evaluates the expressions), gRPC (emicklei/proto), Buildah and INI; their trees and the evaluation are not
  in the repository. Writing reports to files, HTML and PDF; unpacking archives; the console; clients of Kubernetes and
  of the descriptions service. The manifest lists each part with its reason.
\<close>

end
